(* ===== verification/JS_Prelude.thy ===== *)
theory JS_Prelude
  imports Complex_Main "HOL-Library.AList" "HOL-Library.Multiset"
    "HOL-Library.Char_ord" "HOL-Library.List_Lexorder"
begin

text \<open>
  The part of JavaScript the frontend uses, shared by every component theory: numbers,
  parsed JSON values, truthiness and nullish defaults, the insertion-ordered \<open>Map\<close> and
  \<open>Set\<close>, \<open>slice\<close> with a negative start, stable \<open>sort\<close>, and decimal printing.

  Conventions.
  \<^item> A value of type \<open>T | null\<close> or an optional field is \<open>T option\<close>; both \<open>null\<close> and
    \<open>undefined\<close> are \<open>None\<close>, and the code never tells them apart in what is modelled.
  \<^item> A string is a list of bytes (\<open>string\<close>); the literals beyond ASCII that the
    interface prints are given by their UTF-8 bytes.
  \<^item> Integer-valued numbers (sequence numbers, ticks, counts) are \<open>int\<close>; a number that may
    be fractional, infinite or \<open>NaN\<close> is a \<open>jsnum\<close>. Floating point rounding and the sign of
    zero are left out.
  \<^item> A \<open>Map\<close> is an association list in insertion order; \<open>set\<close> on a present key keeps its
    place, as \<open>Map.prototype.set\<close> does.
\<close>

named_theorems js_simps \<open>evaluation rules for the JavaScript helpers\<close>

section \<open>Numbers\<close>

datatype jsnum = Fin rat | PosInf | NegInf | NaN

fun js_less :: "jsnum \<Rightarrow> jsnum \<Rightarrow> bool" where
  "js_less (Fin a) (Fin b) = (a < b)"
| "js_less (Fin a) PosInf = True"
| "js_less NegInf (Fin b) = True"
| "js_less NegInf PosInf = True"
| "js_less _ _ = False"

definition js_le :: "jsnum \<Rightarrow> jsnum \<Rightarrow> bool" where
  "js_le a b = (js_less a b \<or> (a = b \<and> a \<noteq> NaN))"

text \<open>\<open>Math.max\<close> and \<open>Math.min\<close> of two arguments: \<open>NaN\<close> as soon as one of them is.\<close>

definition math_max :: "jsnum \<Rightarrow> jsnum \<Rightarrow> jsnum" where
  "math_max a b = (if a = NaN \<or> b = NaN then NaN else if js_less a b then b else a)"

definition math_min :: "jsnum \<Rightarrow> jsnum \<Rightarrow> jsnum" where
  "math_min a b = (if a = NaN \<or> b = NaN then NaN else if js_less b a then b else a)"

lemma js_le_Fin [simp, js_simps]: "js_le (Fin a) (Fin b) \<longleftrightarrow> a \<le> b"
  by (auto simp: js_le_def)

lemma js_le_NaN [simp, js_simps]: "\<not> js_le NaN x" "\<not> js_le x NaN"
  by (cases x; simp add: js_le_def)+

lemma math_clamp_range:
  assumes "lo \<le> hi" and "x \<noteq> NaN"
  shows "js_le (Fin lo) (math_min (Fin hi) (math_max (Fin lo) x))"
    and "js_le (math_min (Fin hi) (math_max (Fin lo) x)) (Fin hi)"
  using assms by (cases x; auto simp: math_min_def math_max_def)+

lemma math_clamp_id:
  assumes "js_le (Fin lo) x" and "js_le x (Fin hi)"
  shows "math_min (Fin hi) (math_max (Fin lo) x) = x"
  using assms by (cases x) (auto simp: math_min_def math_max_def js_le_def)

lemma math_clamp_finite:
  assumes "x \<noteq> NaN"
  shows "\<exists>q. math_min (Fin hi) (math_max (Fin lo) x) = Fin q"
  using assms by (cases x) (auto simp: math_min_def math_max_def)

section \<open>Parsed JSON values\<close>

datatype json =
    JNull
  | JBool bool
  | JNum jsnum
  | JStr string
  | JArr "json list"
  | JObj "(string \<times> json) list"

type_synonym json_object = "(string \<times> json) list"

text \<open>\<open>typeof value === "string" && value.length > 0 ? value : null\<close>.\<close>

definition str_or_null :: "json option \<Rightarrow> string option" where
  "str_or_null v = (case v of Some (JStr s) \<Rightarrow> (if s \<noteq> [] then Some s else None) | _ \<Rightarrow> None)"

text \<open>\<open>typeof value === "string" ? value : ""\<close>.\<close>

definition str_or_empty :: "json option \<Rightarrow> string" where
  "str_or_empty v = (case v of Some (JStr s) \<Rightarrow> s | _ \<Rightarrow> [])"

text \<open>The strings of an array value; anything else is the empty list.\<close>

definition json_strings :: "json option \<Rightarrow> string list" where
  "json_strings v = (case v of
      Some (JArr xs) \<Rightarrow> List.map_filter (\<lambda>x. case x of JStr s \<Rightarrow> Some s | _ \<Rightarrow> None) xs
    | _ \<Rightarrow> [])"

lemma str_or_null_Some [simp, js_simps]:
  "str_or_null v = Some s \<longleftrightarrow> v = Some (JStr s) \<and> s \<noteq> []"
  by (auto simp: str_or_null_def split: option.splits json.splits if_splits)

lemma str_or_null_eqs [simp, js_simps]:
  "str_or_null None = None"
  "str_or_null (Some (JStr s)) = (if s \<noteq> [] then Some s else None)"
  "str_or_null (Some (JBool b)) = None"
  "str_or_null (Some JNull) = None"
  by (simp_all add: str_or_null_def)

lemma str_or_empty_eqs [simp, js_simps]:
  "str_or_empty None = []"
  "str_or_empty (Some (JStr s)) = s"
  by (simp_all add: str_or_empty_def)

lemma in_map_filter: "r \<in> set (List.map_filter f xs) \<longleftrightarrow> (\<exists>x \<in> set xs. f x = Some r)"
  by (force simp: List.map_filter_def)

section \<open>Truthiness and nullish defaults\<close>

text \<open>A string or \<open>null\<close> in a condition: the empty string is falsy.\<close>

fun truthy :: "string option \<Rightarrow> bool" where
  "truthy None = False"
| "truthy (Some s) = (s \<noteq> [])"

lemma truthy_iff: "truthy x \<longleftrightarrow> (\<exists>s. x = Some s \<and> s \<noteq> [])"
  by (cases x) auto

text \<open>\<open>a ?? b\<close> where \<open>b\<close> may itself be \<open>null\<close>.\<close>

fun nullish :: "'a option \<Rightarrow> 'a option \<Rightarrow> 'a option" where
  "nullish None b = b"
| "nullish (Some a) b = Some a"

lemma nullish_None [simp]: "nullish x None = x"
  by (cases x) auto

text \<open>\<open>a ?? d\<close> with a default that is not \<open>null\<close>.\<close>

fun or_default :: "'a option \<Rightarrow> 'a \<Rightarrow> 'a" where
  "or_default None d = d"
| "or_default (Some a) d = a"

lemma or_default_conv: "or_default x d = (case x of None \<Rightarrow> d | Some a \<Rightarrow> a)"
  by (cases x) auto

section \<open>Insertion-ordered maps and sets\<close>

type_synonym ('k, 'v) jsmap = "('k \<times> 'v) list"

abbreviation map_get :: "('k, 'v) jsmap \<Rightarrow> 'k \<Rightarrow> 'v option" where
  "map_get m k \<equiv> map_of m k"

abbreviation map_set :: "('k, 'v) jsmap \<Rightarrow> 'k \<Rightarrow> 'v \<Rightarrow> ('k, 'v) jsmap" where
  "map_set m k v \<equiv> AList.update k v m"

definition map_has :: "('k, 'v) jsmap \<Rightarrow> 'k \<Rightarrow> bool" where
  "map_has m k = (map_of m k \<noteq> None)"

abbreviation map_keys :: "('k, 'v) jsmap \<Rightarrow> 'k list" where
  "map_keys m \<equiv> map fst m"

abbreviation map_values :: "('k, 'v) jsmap \<Rightarrow> 'v list" where
  "map_values m \<equiv> map snd m"

lemma map_get_set [simp, js_simps]:
  "map_get (map_set m k v) k' = (if k' = k then Some v else map_get m k')"
  by (simp add: update_conv')

lemma map_has_iff: "map_has m k \<longleftrightarrow> k \<in> set (map_keys m)"
  by (simp add: map_has_def map_of_eq_None_iff)

lemma map_keys_set: "map_keys (map_set m k v) = (if k \<in> set (map_keys m) then map_keys m else map_keys m @ [k])"
  by (induction m) auto

lemma map_keys_set_known:
  "map_get m' k = Some v' \<Longrightarrow> map_keys m = map_keys m' \<Longrightarrow> map_keys (map_set m k v) = map_keys m'"
  by (metis map_has_def map_has_iff map_keys_set option.distinct(1))

lemma map_set_in:
  "(k', v') \<in> set (map_set m k v) \<Longrightarrow> (k' = k \<and> v' = v) \<or> (k', v') \<in> set m"
  by (induction m) (auto split: if_splits)

lemma map_values_set_length:
  "length (map_set m k v) = (if k \<in> set (map_keys m) then length m else Suc (length m))"
  by (induction m) auto

definition set_add :: "'a list \<Rightarrow> 'a \<Rightarrow> 'a list" where
  "set_add xs x = (if x \<in> set xs then xs else xs @ [x])"

lemma set_set_add [simp]: "set (set_add xs x) = insert x (set xs)"
  by (auto simp: set_add_def)

lemma distinct_set_add [simp]: "distinct (set_add xs x) = distinct xs"
  by (auto simp: set_add_def)

text \<open>
  The loop that keeps the first element of each key: \<open>if (seen.has(key)) continue; seen.add(key);
  out.push(x)\<close>, over the elements a guard admits.
\<close>

definition push_unseen :: "('a \<Rightarrow> 'k) \<Rightarrow> 'k list \<times> 'a list \<Rightarrow> 'a \<Rightarrow> 'k list \<times> 'a list" where
  "push_unseen key acc x =
     (if key x \<in> set (fst acc) then acc else (fst acc @ [key x], snd acc @ [x]))"

definition keep_first :: "('a \<Rightarrow> bool) \<Rightarrow> ('a \<Rightarrow> 'k) \<Rightarrow> 'a list \<Rightarrow> 'k list \<times> 'a list" where
  "keep_first admit key xs = foldl (\<lambda>acc x. if \<not> admit x then acc else push_unseen key acc x) ([], []) xs"

lemma keep_first_snoc:
  "keep_first admit key (xs @ [x]) =
     (if \<not> admit x then keep_first admit key xs else push_unseen key (keep_first admit key xs) x)"
  by (simp add: keep_first_def)

lemma keep_first_seen: "fst (keep_first admit key xs) = map key (snd (keep_first admit key xs))"
  by (induction xs rule: rev_induct) (auto simp: keep_first_snoc push_unseen_def, simp add: keep_first_def)

lemma keep_first_keys: "set (fst (keep_first admit key xs)) = key ` {x \<in> set xs. admit x}"
  by (induction xs rule: rev_induct) (auto simp: keep_first_snoc push_unseen_def, simp_all add: keep_first_def)

lemma keep_first_distinct: "distinct (fst (keep_first admit key xs))"
  by (induction xs rule: rev_induct) (auto simp: keep_first_snoc push_unseen_def, simp add: keep_first_def)

lemma keep_first_subset: "set (snd (keep_first admit key xs)) \<subseteq> {x \<in> set xs. admit x}"
  by (induction xs rule: rev_induct) (auto simp: keep_first_snoc push_unseen_def split: if_splits, simp_all add: keep_first_def)

lemma keep_first_complete:
  assumes "x \<in> set xs" and "admit x"
  shows "\<exists>y \<in> set (snd (keep_first admit key xs)). key y = key x"
proof -
  have "key x \<in> set (fst (keep_first admit key xs))" using assms by (simp add: keep_first_keys)
  then show ?thesis by (auto simp: keep_first_seen)
qed

lemmas keep_first_facts = keep_first_seen keep_first_keys keep_first_distinct keep_first_subset

text \<open>A separator occurs in neither part: the pair can be read back from the joined key.\<close>

lemma append_sep_inj:
  "c \<notin> set a \<Longrightarrow> c \<notin> set a' \<Longrightarrow> a @ c # b = a' @ c # b' \<longleftrightarrow> a = a' \<and> b = b'"
proof (induction a arbitrary: a')
  case Nil
  then show ?case by (cases a') auto
next
  case (Cons x xs)
  then show ?case by (cases a') auto
qed

section \<open>Keeping the last elements: \<open>xs.slice(-n)\<close>\<close>

definition last_n :: "nat \<Rightarrow> 'a list \<Rightarrow> 'a list" where
  "last_n n xs = drop (length xs - n) xs"

lemma length_last_n [simp]: "length (last_n n xs) = min n (length xs)"
  by (simp add: last_n_def)

lemma set_last_n: "set (last_n n xs) \<subseteq> set xs"
  by (auto simp: last_n_def dest: in_set_dropD)

lemma last_n_all [simp]: "length xs \<le> n \<Longrightarrow> last_n n xs = xs"
  by (simp add: last_n_def)

lemma last_n_Nil [simp]: "last_n n [] = []"
  by (simp add: last_n_def)

text \<open>Truncating after every append keeps exactly the last \<open>n\<close> elements ever appended.\<close>

lemma last_n_append_last_n: "last_n n (last_n n xs @ ys) = last_n n (xs @ ys)"
proof (cases "length xs \<le> n")
  case False
  have "last_n n (last_n n xs @ ys) = drop (length ys) (drop (length xs - n) xs @ ys)"
    using False by (simp add: last_n_def)
  also have "\<dots> = drop (length xs - n + length ys) (xs @ ys)"
    using False by (cases "length ys \<le> n") (simp_all add: add.commute)
  finally show ?thesis using False by (simp add: last_n_def)
qed simp

section \<open>Stable sort by a comparator\<close>

fun insert_by :: "('a \<Rightarrow> 'a \<Rightarrow> int) \<Rightarrow> 'a \<Rightarrow> 'a list \<Rightarrow> 'a list" where
  "insert_by cmp x [] = [x]"
| "insert_by cmp x (y # ys) = (if cmp x y \<le> 0 then x # y # ys else y # insert_by cmp x ys)"

definition sort_by :: "('a \<Rightarrow> 'a \<Rightarrow> int) \<Rightarrow> 'a list \<Rightarrow> 'a list" where
  "sort_by cmp xs = foldr (insert_by cmp) xs []"

lemma sort_by_Nil [simp]: "sort_by cmp [] = []"
  by (simp add: sort_by_def)

lemma mset_insert_by [simp]: "mset (insert_by cmp x ys) = {#x#} + mset ys"
  by (induction ys) auto

lemma set_insert_by [simp]: "set (insert_by cmp x ys) = insert x (set ys)"
  by (induction ys) auto

lemma mset_sort_by [simp]: "mset (sort_by cmp xs) = mset xs"
  by (induction xs) (auto simp: sort_by_def)

lemma set_sort_by [simp]: "set (sort_by cmp xs) = set xs"
  by (metis mset_sort_by set_mset_mset)

lemma length_sort_by [simp]: "length (sort_by cmp xs) = length xs"
  by (metis mset_sort_by size_mset)

lemma distinct_sort_by [simp]: "distinct (sort_by cmp xs) = distinct xs"
  by (metis mset_sort_by mset_eq_imp_distinct_iff)

lemma insert_by_id: "(\<forall>y \<in> set ys. cmp x y \<le> 0) \<Longrightarrow> insert_by cmp x ys = x # ys"
  by (cases ys) auto

lemma sort_by_id: "sorted_wrt (\<lambda>a b. cmp a b \<le> 0) xs \<Longrightarrow> sort_by cmp xs = xs"
  by (induction xs) (auto simp: sort_by_def insert_by_id)

text \<open>
  What a comparator has to satisfy, on the elements that are sorted, for \<open>Array.prototype.sort\<close> to
  have one defined result: of two elements one is not after the other, and \<open>\<le> 0\<close> is transitive.
  For a comparator without these properties the order is up to the engine; \<open>sort_by\<close> is then one
  possible order, and only what holds of every permutation is claimed.
\<close>

locale comparator_on =
  fixes A :: "'a set" and cmp :: "'a \<Rightarrow> 'a \<Rightarrow> int"
  assumes cmp_flip: "a \<in> A \<Longrightarrow> b \<in> A \<Longrightarrow> cmp a b \<le> 0 \<or> cmp b a \<le> 0"
    and cmp_trans: "a \<in> A \<Longrightarrow> b \<in> A \<Longrightarrow> c \<in> A \<Longrightarrow> cmp a b \<le> 0 \<Longrightarrow> cmp b c \<le> 0 \<Longrightarrow> cmp a c \<le> 0"
begin

lemma insert_by_sorted:
  "insert x (set ys) \<subseteq> A \<Longrightarrow> sorted_wrt (\<lambda>a b. cmp a b \<le> 0) ys \<Longrightarrow>
     sorted_wrt (\<lambda>a b. cmp a b \<le> 0) (insert_by cmp x ys)"
proof (induction ys)
  case (Cons y ys)
  show ?case
  proof (cases "cmp x y \<le> 0")
    case True
    with Cons.prems show ?thesis by (auto intro: cmp_trans[of x y])
  next
    case False
    then have "cmp y x \<le> 0" using cmp_flip[of x y] Cons.prems by auto
    with False Cons show ?thesis by auto
  qed
qed simp

lemma sort_by_sorted: "set xs \<subseteq> A \<Longrightarrow> sorted_wrt (\<lambda>a b. cmp a b \<le> 0) (sort_by cmp xs)"
proof (induction xs)
  case (Cons x xs)
  then have "insert x (set (sort_by cmp xs)) \<subseteq> A" by simp
  from insert_by_sorted[OF this] Cons show ?case by (simp add: sort_by_def)
qed simp

end

locale comparator =
  fixes cmp :: "'a \<Rightarrow> 'a \<Rightarrow> int"
  assumes total_flip: "cmp a b \<le> 0 \<or> cmp b a \<le> 0"
    and total_trans: "cmp a b \<le> 0 \<Longrightarrow> cmp b c \<le> 0 \<Longrightarrow> cmp a c \<le> 0"

sublocale comparator \<subseteq> comparator_on UNIV cmp
  by unfold_locales (use total_flip total_trans in blast)+

lemma insert_by_stable:
  assumes "\<And>y. y \<in> set ys \<Longrightarrow> P y \<Longrightarrow> P x \<Longrightarrow> cmp x y \<le> 0"
  shows "filter P (insert_by cmp x ys) = (if P x then x # filter P ys else filter P ys)"
  using assms by (induction ys) auto

lemma sort_by_stable:
  assumes "\<And>a b. P a \<Longrightarrow> P b \<Longrightarrow> cmp a b \<le> 0"
  shows "filter P (sort_by cmp xs) = filter P xs"
  using assms by (induction xs) (auto simp: sort_by_def insert_by_stable)

section \<open>Decimal printing\<close>

definition digit_char :: "nat \<Rightarrow> char" where
  "digit_char d = char_of (48 + d)"

fun show_nat :: "nat \<Rightarrow> string" where
  "show_nat n = (if n < 10 then [digit_char n] else show_nat (n div 10) @ [digit_char (n mod 10)])"

declare show_nat.simps [simp del]

definition show_int :: "int \<Rightarrow> string" where
  "show_int i = (if i < 0 then ''-'' @ show_nat (nat (- i)) else show_nat (nat i))"

lemma show_nat_nonempty [simp]: "show_nat n \<noteq> []"
  by (subst show_nat.simps) simp

definition is_digit :: "char \<Rightarrow> bool" where
  "is_digit c \<longleftrightarrow> 48 \<le> (of_char c :: nat) \<and> (of_char c :: nat) \<le> 57"

definition digits_value :: "string \<Rightarrow> nat" where
  "digits_value ds = foldl (\<lambda>a c. 10 * a + (of_char c - 48)) 0 ds"

lemma of_digit_char [simp]: "d < 10 \<Longrightarrow> (of_char (digit_char d) :: nat) = 48 + d"
  by (simp add: digit_char_def)

lemma is_digit_char [simp]: "d < 10 \<Longrightarrow> is_digit (digit_char d)"
  by (simp add: is_digit_def)

lemma digits_value_snoc: "digits_value (ds @ [c]) = 10 * digits_value ds + (of_char c - 48)"
  by (simp add: digits_value_def)

lemma show_nat_digits: "c \<in> set (show_nat n) \<Longrightarrow> is_digit c"
  by (induction n rule: show_nat.induct) (subst (asm) (2) show_nat.simps, auto split: if_splits)

lemma digits_value_show_nat [simp]: "digits_value (show_nat n) = n"
proof (induction n rule: show_nat.induct)
  case (1 n)
  show ?case
  proof (cases "n < 10")
    case True
    then show ?thesis by (subst show_nat.simps) (simp add: digits_value_def)
  next
    case False
    with 1 show ?thesis by (subst show_nat.simps) (simp add: digits_value_snoc)
  qed
qed

text \<open>\<open>xs.join(sep)\<close>.\<close>

fun join :: "string \<Rightarrow> string list \<Rightarrow> string" where
  "join sep [] = []"
| "join sep [x] = x"
| "join sep (x # y # ys) = x @ sep @ join sep (y # ys)"

text \<open>\<open>s.includes(pat)\<close>.\<close>

fun str_includes :: "string \<Rightarrow> string \<Rightarrow> bool" where
  "str_includes [] pat = (pat = [])"
| "str_includes (x # xs) pat = (take (length pat) (x # xs) = pat \<or> str_includes xs pat)"

text \<open>The em dash, the arrow, the ellipsis and the dot of the interface's labels, as UTF-8 bytes.\<close>

definition em_dash :: string where
  "em_dash = [CHR 0xE2, CHR 0x80, CHR 0x94]"

definition right_arrow :: string where
  "right_arrow = [CHR 0xE2, CHR 0x86, CHR 0x92]"

definition ellipsis :: string where
  "ellipsis = [CHR 0xE2, CHR 0x80, CHR 0xA6]"

definition middle_dot :: string where
  "middle_dot = '' '' @ [CHR 0xC2, CHR 0xB7] @ '' ''"

text \<open>White space as \<open>trim\<close> and \<open>\s\<close> see it and \<open>toLowerCase\<close>, of ASCII characters.\<close>

definition is_space :: "char \<Rightarrow> bool" where
  "is_space c \<longleftrightarrow> (of_char c :: nat) \<in> {9, 10, 11, 12, 13, 32}"

definition to_lower :: "char \<Rightarrow> char" where
  "to_lower c = (if 65 \<le> (of_char c :: nat) \<and> (of_char c :: nat) \<le> 90 then char_of ((of_char c :: nat) + 32) else c)"

definition trim :: "string \<Rightarrow> string" where
  "trim s = rev (dropWhile is_space (rev (dropWhile is_space s)))"

definition lower_case :: "string \<Rightarrow> string" where
  "lower_case s = map to_lower s"

lemma to_lower_idem [simp]: "to_lower (to_lower c) = to_lower c"
proof (cases "65 \<le> (of_char c :: nat) \<and> (of_char c :: nat) \<le> 90")
  case True
  then have "(of_char (to_lower c) :: nat) = of_char c + 32" by (simp add: to_lower_def)
  with True show ?thesis by (simp add: to_lower_def[of "to_lower c"])
qed (auto simp: to_lower_def)

lemma lower_case_idem [simp]: "lower_case (lower_case s) = lower_case s"
  by (simp add: lower_case_def)

lemma is_space_lower [simp]: "is_space (to_lower c) = is_space c"
proof (cases "65 \<le> (of_char c :: nat) \<and> (of_char c :: nat) \<le> 90")
  case True
  then have "(of_char (to_lower c) :: nat) = of_char c + 32" by (simp add: to_lower_def)
  with True show ?thesis by (auto simp: is_space_def)
qed (auto simp: to_lower_def)

lemma trim_lower: "trim (lower_case s) = lower_case (trim s)"
  by (simp add: trim_def lower_case_def dropWhile_map comp_def rev_map)

end
