(* ===== verification/Schema.thy ===== *)
theory Schema
  imports JS_Prelude
begin

text \<open>
  The shapes the backend sends, as \<open>frontend/src/lib/api/schema.d.ts\<close> declares them: nodes,
  edges, events and stream frames, the runtime session summary, the security graph and the
  responses of the analysis endpoints. A field's name carries a short prefix of its type,
  because a record field is a constant of the whole theory. Frames are parsed without a check
  (\<open>JSON.parse(...) as StreamFrame\<close>), so an event type this client does not know is a value
  too, \<open>OTHER_EVENT\<close>.
\<close>

datatype security_state = Healthy | Suspicious | Compromised | Quarantined | Recovered

datatype agent_kind = Simulated | RealAgent

record node_view =
  nv_id :: string
  nv_software_type :: string
  nv_security_state :: security_state
  nv_compromised_by :: "string option"
  nv_tick_compromised :: "int option"
  nv_agent_kind :: agent_kind

record edge_view =
  ev_source :: string
  ev_target :: string

datatype event_type =
    EXPERIMENT_STARTED | EXPERIMENT_STOPPED | AGENT_CREATED | AGENT_STARTED | AGENT_STOPPED
  | MESSAGE_SENT | MESSAGE_RECEIVED | MODEL_REQUESTED | MODEL_RESPONDED | TOOL_REQUESTED
  | TOOL_EXECUTED | TOOL_DENIED | MEMORY_READ | MEMORY_WRITE | CREDENTIAL_ACCESSED
  | CREDENTIAL_REVOKED | COMPROMISE_ATTEMPTED | COMPROMISE_SUCCEEDED | COMPROMISE_FAILED
  | ANOMALY_DETECTED | AGENT_QUARANTINED | AGENT_RELEASED | PERMISSION_CHANGED
  | INFERENCE_DISABLED | THREAT_SIGNATURE_PUBLISHED | THREAT_SIGNATURE_RECEIVED
  | AGENT_RECOVERED | POLICY_VIOLATION | ATTESTATION_ISSUED | ATTESTATION_VERIFIED
  | TASK_ASSIGNED | TASK_REASSIGNED | TASK_COMPLETED | WORKFLOW_RECOVERED
  | OTHER_EVENT string

record event =
  e_sim_tick :: int
  e_event_type :: event_type
  e_agent_id :: "string option"
  e_source_agent_id :: "string option"
  e_target_agent_id :: "string option"
  e_metadata :: "json_object option"
  e_event_id :: string
  e_seq :: int
  e_schema_version :: int
  e_experiment_id :: string
  e_wall_time :: string

text \<open>\<open>event.metadata?.[key]\<close>, and the same read after \<open>event.metadata ?? {}\<close>.\<close>

definition meta_at :: "event \<Rightarrow> string \<Rightarrow> json option" where
  "meta_at e k = (case e_metadata e of None \<Rightarrow> None | Some m \<Rightarrow> map_of m k)"

text \<open>\<open>metadata[key] === true\<close>.\<close>

definition meta_is_true :: "event \<Rightarrow> string \<Rightarrow> bool" where
  "meta_is_true e k = (meta_at e k = Some (JBool True))"

datatype run_status = RsRunning | RsPaused | RsFinished | RsStopped

record snapshot_frame =
  sf_experiment_id :: string
  sf_last_seq :: int
  sf_sim_tick :: int
  sf_status :: run_status
  sf_nodes :: "node_view list"
  sf_edges :: "edge_view list"

datatype stream_frame = SnapshotFrame snapshot_frame | EventFrame event

record event_history_response =
  eh_events :: "event list"
  eh_next_seq :: "int option"

record runtime_event_page =
  rp_session_id :: string
  rp_last_seq :: int
  rp_events :: "event list"

record worker_view =
  w_id :: string
  w_role :: string
  w_security_state :: security_state
  w_current_task :: "string option"
  w_upstream :: "string list option"
  w_replaces :: "string option"
  w_model_backed :: bool
  w_quarantine_reason :: "string option"

datatype workflow_state = WfIdle | WfRunning | WfUnderAttack | WfRecovering | WfRecovered | WfFailed

record runtime_session_summary =
  rs_session_id :: string
  rs_objective :: string
  rs_workflow_state :: workflow_state
  rs_step :: int
  rs_last_seq :: int
  rs_attack_detected :: bool
  rs_recovery_required :: bool
  rs_workers :: "worker_view list"

record graph_node_view =
  gn_id :: string
  gn_node_type :: string
  gn_security_state :: security_state
  gn_attrs :: json_object

record graph_edge_view =
  ge_source :: string
  ge_target :: string
  ge_edge_type :: string

record security_graph_view =
  sg_nodes :: "graph_node_view list"
  sg_edges :: "graph_edge_view list"

record blast_radius_response =
  br_compromised :: "string list"
  br_reachable :: "string list"
  br_fraction :: jsnum

record metrics_response =
  m_compromise_fraction :: jsnum
  m_retained_utility :: jsnum
  m_blast_radius_fraction :: jsnum
  m_privileged_exposure :: jsnum
  m_security_plane_integrity :: jsnum
  m_attack_success_rate :: jsnum
  m_false_quarantine_rate :: jsnum
  m_detection_latency :: "jsnum option"
  m_containment_latency :: "jsnum option"

text \<open>
  The code reads and writes an experiment's configuration through computed keys and spreads
  (\<open>{...prev, [key]: value}\<close>), so it is kept as the object it is: keys to JSON values.
\<close>

type_synonym experiment_config = json_object

record experiment_summary =
  es_experiment_id :: string
  es_status :: run_status
  es_sim_tick :: int
  es_last_seq :: int
  es_config :: experiment_config

record experiment_detail =
  ed_experiment_id :: string
  ed_seed :: int
  ed_config :: experiment_config
  ed_is_complete :: "bool option"

end
