(* ===== verification/Controls.thy ===== *)
theory Controls
  imports Schema
begin

text \<open>
  \<open>frontend/src/lib/controls/reducer.ts\<close>: the lifecycle of the controls of a run. One action may
  be pending at a time; a response is applied only if it answers the pending request, which is
  identified by the kind of action and an operation id. A branch that returns the same object is
  \<open>None\<close> in \<open>control_step\<close>, because the provider compares the result with the old state by
  reference to tell whether the action took effect.
\<close>

section \<open>State and actions\<close>

datatype control_status = CsIdle | CsRunning | CsPaused | CsFinished | CsStopped

datatype pending_action = PStart | PPause | PResume | PSpeed | PReset

record control_state =
  c_experimentId :: "string option"
  c_status :: control_status
  c_pending :: "pending_action option"
  c_speed :: jsnum
  c_error :: "string option"
  c_operationId :: "int option"
  c_revision :: int
  c_activeConfig :: "experiment_config option"

definition initialControlState :: control_state where
  "initialControlState = \<lparr>c_experimentId = None, c_status = CsIdle, c_pending = None, c_speed = Fin 1,
     c_error = None, c_operationId = None, c_revision = 0, c_activeConfig = None\<rparr>"

definition canStart :: "control_state \<Rightarrow> bool" where
  "canStart s \<longleftrightarrow> (c_status s = CsIdle \<or> c_status s = CsFinished \<or> c_status s = CsStopped) \<and> c_pending s = None"

definition canPause :: "control_state \<Rightarrow> bool" where
  "canPause s \<longleftrightarrow> c_status s = CsRunning \<and> c_pending s = None"

definition canResume :: "control_state \<Rightarrow> bool" where
  "canResume s \<longleftrightarrow> c_status s = CsPaused \<and> c_pending s = None"

definition canSetSpeed :: "control_state \<Rightarrow> bool" where
  "canSetSpeed s \<longleftrightarrow> (c_status s = CsRunning \<or> c_status s = CsPaused) \<and> c_pending s = None"

definition canReset :: "control_state \<Rightarrow> bool" where
  "canReset s \<longleftrightarrow> c_experimentId s \<noteq> None \<and> c_pending s = None"

datatype control_action =
    StartRequested int
  | StartSucceeded int string control_status experiment_config
  | StartFailed int string
  | PauseRequested int
  | PauseSucceeded int control_status
  | PauseFailed int string
  | ResumeRequested int
  | ResumeSucceeded int control_status
  | ResumeFailed int string
  | SpeedRequested int
  | SpeedSucceeded int jsnum
  | SpeedFailed int string
  | ResetRequested int
  | ResetCreateSucceeded int string control_status experiment_config
  | ResetStopSucceededCreateFailed int string
  | ResetFailed int string
  | StatusSynced string int control_status

definition isCurrent :: "control_state \<Rightarrow> pending_action \<Rightarrow> int \<Rightarrow> bool" where
  "isCurrent s p operationId \<longleftrightarrow> c_pending s = Some p \<and> c_operationId s = Some operationId"

section \<open>The reducer\<close>

definition open_request :: "control_state \<Rightarrow> pending_action \<Rightarrow> int \<Rightarrow> control_state" where
  "open_request s p operationId =
     s\<lparr>c_pending := Some p, c_operationId := Some operationId, c_revision := c_revision s + 1, c_error := None\<rparr>"

definition close_request :: "control_state \<Rightarrow> string option \<Rightarrow> control_state" where
  "close_request s err = s\<lparr>c_pending := None, c_operationId := None, c_error := err\<rparr>"

definition adopt_run :: "control_state \<Rightarrow> string \<Rightarrow> control_status \<Rightarrow> experiment_config \<Rightarrow> control_state" where
  "adopt_run s eid st cfg =
     s\<lparr>c_experimentId := Some eid, c_status := st, c_pending := None, c_operationId := None,
       c_speed := Fin 1, c_error := None, c_activeConfig := Some cfg\<rparr>"

fun control_step :: "control_state \<Rightarrow> control_action \<Rightarrow> control_state option" where
  "control_step s (StartRequested op) = (if \<not> canStart s then None else Some (open_request s PStart op))"
| "control_step s (StartSucceeded op eid st cfg) =
     (if \<not> isCurrent s PStart op then None else Some (adopt_run s eid st cfg))"
| "control_step s (StartFailed op err) =
     (if \<not> isCurrent s PStart op then None else Some (close_request s (Some err)))"
| "control_step s (PauseRequested op) = (if \<not> canPause s then None else Some (open_request s PPause op))"
| "control_step s (PauseSucceeded op st) =
     (if \<not> isCurrent s PPause op then None else Some (close_request (s\<lparr>c_status := st\<rparr>) None))"
| "control_step s (PauseFailed op err) =
     (if \<not> isCurrent s PPause op then None else Some (close_request s (Some err)))"
| "control_step s (ResumeRequested op) = (if \<not> canResume s then None else Some (open_request s PResume op))"
| "control_step s (ResumeSucceeded op st) =
     (if \<not> isCurrent s PResume op then None else Some (close_request (s\<lparr>c_status := st\<rparr>) None))"
| "control_step s (ResumeFailed op err) =
     (if \<not> isCurrent s PResume op then None else Some (close_request s (Some err)))"
| "control_step s (SpeedRequested op) = (if \<not> canSetSpeed s then None else Some (open_request s PSpeed op))"
| "control_step s (SpeedSucceeded op v) =
     (if \<not> isCurrent s PSpeed op then None else Some (close_request (s\<lparr>c_speed := v\<rparr>) None))"
| "control_step s (SpeedFailed op err) =
     (if \<not> isCurrent s PSpeed op then None else Some (close_request s (Some err)))"
| "control_step s (ResetRequested op) = (if \<not> canReset s then None else Some (open_request s PReset op))"
| "control_step s (ResetCreateSucceeded op eid st cfg) =
     (if \<not> isCurrent s PReset op then None else Some (adopt_run s eid st cfg))"
| "control_step s (ResetStopSucceededCreateFailed op err) =
     (if \<not> isCurrent s PReset op then None
      else Some (close_request (s\<lparr>c_status := CsStopped\<rparr>) (Some err)))"
| "control_step s (ResetFailed op err) =
     (if \<not> isCurrent s PReset op then None else Some (close_request s (Some err)))"
| "control_step s (StatusSynced eid rv st) =
     (if Some eid \<noteq> c_experimentId s \<or> rv \<noteq> c_revision s then None else Some (s\<lparr>c_status := st\<rparr>))"

definition controlReducer :: "control_state \<Rightarrow> control_action \<Rightarrow> control_state" where
  "controlReducer s a = (case control_step s a of None \<Rightarrow> s | Some t \<Rightarrow> t)"

section \<open>Requests and responses\<close>

text \<open>The request an action opens, and the request a response answers.\<close>

fun opens :: "control_action \<Rightarrow> (pending_action \<times> int) option" where
  "opens (StartRequested op) = Some (PStart, op)"
| "opens (PauseRequested op) = Some (PPause, op)"
| "opens (ResumeRequested op) = Some (PResume, op)"
| "opens (SpeedRequested op) = Some (PSpeed, op)"
| "opens (ResetRequested op) = Some (PReset, op)"
| "opens _ = None"

fun answers :: "control_action \<Rightarrow> (pending_action \<times> int) option" where
  "answers (StartSucceeded op _ _ _) = Some (PStart, op)"
| "answers (StartFailed op _) = Some (PStart, op)"
| "answers (PauseSucceeded op _) = Some (PPause, op)"
| "answers (PauseFailed op _) = Some (PPause, op)"
| "answers (ResumeSucceeded op _) = Some (PResume, op)"
| "answers (ResumeFailed op _) = Some (PResume, op)"
| "answers (SpeedSucceeded op _) = Some (PSpeed, op)"
| "answers (SpeedFailed op _) = Some (PSpeed, op)"
| "answers (ResetCreateSucceeded op _ _ _) = Some (PReset, op)"
| "answers (ResetStopSucceededCreateFailed op _) = Some (PReset, op)"
| "answers (ResetFailed op _) = Some (PReset, op)"
| "answers _ = None"

text \<open>The request in flight.\<close>

definition in_flight :: "control_state \<Rightarrow> (pending_action \<times> int) option" where
  "in_flight s = (case (c_pending s, c_operationId s) of (Some p, Some op) \<Rightarrow> Some (p, op) | _ \<Rightarrow> None)"

definition control_wf :: "control_state \<Rightarrow> bool" where
  "control_wf s \<longleftrightarrow> (c_pending s = None \<longleftrightarrow> c_operationId s = None) \<and> 0 \<le> c_revision s \<and>
     (c_status s = CsRunning \<or> c_status s = CsPaused \<longrightarrow> c_experimentId s \<noteq> None) \<and>
     (c_pending s \<notin> {None, Some PStart} \<longrightarrow> c_experimentId s \<noteq> None) \<and>
     (c_experimentId s \<noteq> None \<longleftrightarrow> c_activeConfig s \<noteq> None)"

lemmas can_defs = canStart_def canPause_def canResume_def canSetSpeed_def canReset_def
lemmas request_defs = open_request_def close_request_def adopt_run_def isCurrent_def in_flight_def

lemma control_step_opens:
  "opens a = Some (p, op) \<Longrightarrow> control_step s a = Some t \<Longrightarrow>
     c_pending s = None \<and> t = open_request s p op"
  by (cases a) (auto simp: can_defs split: if_splits)

lemma control_step_answers:
  "answers a = Some (p, op) \<Longrightarrow> control_step s a = Some t \<Longrightarrow>
     in_flight s = Some (p, op) \<and> in_flight t = None"
  by (cases a) (auto simp: request_defs split: if_splits)

lemma open_request_wf:
  "control_wf s \<Longrightarrow> p = PStart \<or> c_experimentId s \<noteq> None \<Longrightarrow> control_wf (open_request s p op)"
  by (auto simp: control_wf_def open_request_def)

lemma close_request_wf: "control_wf s \<Longrightarrow> control_wf (close_request s err)"
  by (auto simp: control_wf_def close_request_def)

lemma adopt_run_wf: "control_wf s \<Longrightarrow> control_wf (adopt_run s eid st cfg)"
  by (simp add: control_wf_def adopt_run_def)

lemma set_status_wf: "control_wf s \<Longrightarrow> c_experimentId s \<noteq> None \<Longrightarrow> control_wf (s\<lparr>c_status := st\<rparr>)"
  by (auto simp: control_wf_def)

lemma set_speed_wf: "control_wf s \<Longrightarrow> control_wf (s\<lparr>c_speed := v\<rparr>)"
  by (auto simp: control_wf_def)

lemma can_has_run:
  "control_wf s \<Longrightarrow> canPause s \<or> canResume s \<or> canSetSpeed s \<or> canReset s \<Longrightarrow> c_experimentId s \<noteq> None"
  by (auto simp: control_wf_def can_defs)

lemma current_has_run:
  "control_wf s \<Longrightarrow> isCurrent s p op \<Longrightarrow> p \<noteq> PStart \<Longrightarrow> c_experimentId s \<noteq> None"
  by (auto simp: control_wf_def isCurrent_def)

lemmas control_wf_intros =
  open_request_wf close_request_wf adopt_run_wf set_status_wf set_speed_wf

lemma control_step_wf: "control_wf s \<Longrightarrow> control_step s a = Some t \<Longrightarrow> control_wf t"
  using can_has_run[of s] current_has_run[of s]
  by (cases a) (auto split: if_splits intro!: control_wf_intros dest: sym)

lemma initialControlState_wf: "control_wf initialControlState"
  by (simp add: control_wf_def initialControlState_def)

lemma controlReducer_wf: "control_wf s \<Longrightarrow> control_wf (controlReducer s a)"
  by (auto simp: controlReducer_def control_step_wf split: option.splits)

lemma control_run_wf: "control_wf s \<Longrightarrow> control_wf (foldl controlReducer s as)"
  by (induction as arbitrary: s) (auto simp: controlReducer_wf)


lemma in_flight_None: "control_wf s \<Longrightarrow> in_flight s = None \<longleftrightarrow> c_pending s = None"
  by (auto simp: in_flight_def control_wf_def split: option.splits)

lemma control_step_revision:
  "control_step s a = Some t \<Longrightarrow>
     c_revision t = c_revision s + (if opens a = None then 0 else 1)"
  by (cases a) (auto simp: request_defs split: if_splits)

lemma controlReducer_revision_mono: "c_revision s \<le> c_revision (controlReducer s a)"
  by (auto simp: controlReducer_def control_step_revision split: option.splits)

lemma control_run_revision_mono: "c_revision s \<le> c_revision (foldl controlReducer s as)"
  by (induction as arbitrary: s) (auto intro: order_trans[OF controlReducer_revision_mono])

section \<open>The interface to the provider\<close>

text \<open>
  What the component that issues the network calls relies on: a step opens a request only while
  none is in flight, a response takes effect only for the request in flight and ends it, and no
  other action touches the request in flight.
\<close>

locale request_protocol =
  fixes step :: "'s \<Rightarrow> 'a \<Rightarrow> 's option"
    and requests :: "'a \<Rightarrow> 'r option"
    and replies :: "'a \<Rightarrow> 'r option"
    and flight :: "'s \<Rightarrow> 'r option"
    and wf :: "'s \<Rightarrow> bool"
  assumes step_wf: "wf s \<Longrightarrow> step s a = Some t \<Longrightarrow> wf t"
    and open_step: "wf s \<Longrightarrow> step s a = Some t \<Longrightarrow> requests a = Some r \<Longrightarrow> flight s = None \<and> flight t = Some r"
    and answer_step: "wf s \<Longrightarrow> step s a = Some t \<Longrightarrow> replies a = Some r \<Longrightarrow> flight s = Some r \<and> flight t = None"
    and other_step: "wf s \<Longrightarrow> step s a = Some t \<Longrightarrow> requests a = None \<Longrightarrow> replies a = None \<Longrightarrow> flight t = flight s"
    and no_both: "requests a = None \<or> replies a = None"
begin

lemma busy_refuses: "wf s \<Longrightarrow> flight s \<noteq> None \<Longrightarrow> requests a \<noteq> None \<Longrightarrow> step s a = None"
  using open_step by (cases "step s a") fastforce+

lemma stale_answer_dropped: "wf s \<Longrightarrow> replies a = Some r \<Longrightarrow> flight s \<noteq> Some r \<Longrightarrow> step s a = None"
  using answer_step by (cases "step s a") fastforce+

lemma flight_step:
  assumes "wf s" and "step s a = Some t"
  shows "flight t = (if requests a \<noteq> None then requests a else if replies a \<noteq> None then None else flight s)"
  using open_step[OF assms] answer_step[OF assms] other_step[OF assms] no_both[of a] by fastforce

text \<open>Each request in flight can be answered by anything that answers it and takes effect, once.\<close>

lemma second_answer_dropped:
  assumes "wf s" and "step s a = Some t" and "replies a = Some r" and "replies b = Some r"
  shows "step t b = None"
  using stale_answer_dropped[OF step_wf[OF assms(1,2)] assms(4)] answer_step[OF assms(1-3)] by simp

end

lemma control_step_other:
  "control_step s a = Some t \<Longrightarrow> opens a = None \<Longrightarrow> answers a = None \<Longrightarrow> in_flight t = in_flight s"
  by (cases a) (auto simp: in_flight_def split: if_splits option.split)

interpretation ctl: request_protocol control_step opens answers in_flight control_wf
proof unfold_locales
  fix s a t and r :: "pending_action \<times> int"
  assume "control_wf s" and "control_step s a = Some t" and "opens a = Some r"
  then show "in_flight s = None \<and> in_flight t = Some r"
    using control_step_opens[of a "fst r" "snd r" s t]
    by (auto simp: in_flight_None) (simp add: in_flight_def open_request_def)
next
  fix s a t and r :: "pending_action \<times> int"
  assume "control_step s a = Some t" and "answers a = Some r"
  then show "in_flight s = Some r \<and> in_flight t = None"
    using control_step_answers[of a "fst r" "snd r" s t] by simp
next
  fix a
  show "opens a = None \<or> answers a = None" by (cases a) auto
qed (auto intro: control_step_wf dest: control_step_other)

section \<open>Properties\<close>

text \<open>C3. In every state the controls can reach: there is an operation id exactly while a request is
  pending, a run that is running or paused has an experiment id and the configuration it was
  started with, and only a start may be pending without a run.\<close>

theorem reachable_control_wf: "control_wf (foldl controlReducer initialControlState as)"
  by (rule control_run_wf[OF initialControlState_wf])

text \<open>C4. One request at a time: an action takes effect only if it opens a request while none is in
  flight, or answers the very request in flight (same kind, same operation id), or reports the
  status of the current run at the current revision; a request raises the revision by one, and a
  response ends the request.\<close>

theorem control_request_protocol:
  assumes "control_wf s" and "control_step s a = Some t"
  shows "(\<exists>r. opens a = Some r \<and> in_flight s = None \<and> in_flight t = Some r \<and> c_revision t = c_revision s + 1) \<or>
         (\<exists>r. answers a = Some r \<and> in_flight s = Some r \<and> in_flight t = None \<and> c_revision t = c_revision s) \<or>
         (\<exists>eid st. a = StatusSynced eid (c_revision s) st \<and> c_experimentId s = Some eid \<and> t = s\<lparr>c_status := st\<rparr>)"
proof (cases "opens a")
  case (Some r)
  with ctl.open_step[OF assms] control_step_revision[OF assms(2)] show ?thesis by simp
next
  case no_request: None
  show ?thesis
  proof (cases "answers a")
    case (Some r)
    with ctl.answer_step[OF assms] no_request control_step_revision[OF assms(2)] show ?thesis by simp
  next
    case None
    with no_request assms(2) show ?thesis by (cases a) (auto split: if_splits)
  qed
qed

theorem control_request_protocol_witness:
  "let s = controlReducer initialControlState (StartRequested 1);
       a = StartSucceeded 1 ''run'' CsRunning [] in
   in_flight s = Some (PStart, 1) \<and> in_flight (controlReducer s a) = None"
proof -
  let ?s = "controlReducer initialControlState (StartRequested 1)"
  let ?a = "StartSucceeded 1 ''run'' CsRunning []"
  have wf: "control_wf ?s" by (rule controlReducer_wf[OF initialControlState_wf])
  have step: "control_step ?s ?a = Some (adopt_run ?s ''run'' CsRunning [])"
    by (simp add: controlReducer_def initialControlState_def request_defs can_defs)
  show ?thesis
    using control_request_protocol[OF wf step] step by (simp add: controlReducer_def[of ?s ?a] Let_def)
qed

text \<open>C26. A status poll answered late is dropped: once any request was accepted after the poll read
  the revision, the polled status no longer changes the state, whatever happened in between.\<close>

theorem stale_status_sync_ignored:
  assumes "control_step s a = Some t" and "opens a \<noteq> None"
  shows "controlReducer (foldl controlReducer t as) (StatusSynced eid (c_revision s) st) =
         foldl controlReducer t as"
proof -
  have "c_revision s < c_revision t"
    using control_step_revision[OF assms(1)] assms(2) by simp
  also have "c_revision t \<le> c_revision (foldl controlReducer t as)"
    by (rule control_run_revision_mono)
  finally show ?thesis by (simp add: controlReducer_def)
qed

theorem stale_status_sync_ignored_witness:
  "let s = adopt_run initialControlState ''run'' CsRunning [];
       t = controlReducer s (PauseRequested 2);
       u = controlReducer t (PauseSucceeded 2 CsPaused) in
   c_status u = CsPaused \<and> controlReducer u (StatusSynced ''run'' (c_revision s) CsRunning) = u"
proof -
  let ?s = "adopt_run initialControlState ''run'' CsRunning []"
  have "control_step ?s (PauseRequested 2) = Some (open_request ?s PPause 2)"
    by (simp add: adopt_run_def can_defs)
  from stale_status_sync_ignored[OF this, of "[PauseSucceeded 2 CsPaused]" "''run''" CsRunning]
  show ?thesis
    by (simp add: Let_def controlReducer_def adopt_run_def can_defs open_request_def isCurrent_def
        close_request_def)
qed

end
