(* ===== verification/Provider.thy ===== *)
theory Provider
  imports Controls
begin

text \<open>
  \<open>frontend/src/lib/experiment/ExperimentProvider.tsx\<close>: the component that owns the controls. It
  keeps the control state twice, as React state and in a ref that handlers read and write
  synchronously, allocates an operation id per request, issues the REST calls and feeds their
  outcomes back as actions. The model holds the calls that have been made and not yet settled;
  \<open>settle\<close> is the \<open>then\<close>/\<open>catch\<close> chain of one call, with the backend's answer as an argument.
  \<open>commit\<close> is one React commit with its effects: the queued actions reach the React state, the ref
  is set to it, and the run id goes to the session storage. The calls' aborts on unmount are not
  modelled (an unmounted provider has no state to keep consistent).
\<close>

section \<open>State\<close>

datatype backend_call =
    CallNothing
  | CallAdopt string
  | CallCreate int experiment_config
  | CallPause int string
  | CallResume int string
  | CallSpeed int string jsnum
  | CallResetStop int string experiment_config
  | CallResetCreate int experiment_config
  | CallStatus string int

text \<open>
  \<open>CallNothing\<close> is the settled promise that stands for "no run stored"; \<open>CallResetStop\<close> and
  \<open>CallResetCreate\<close> are the two awaits of one reset. What a call answers is a summary, or the
  message of the error it threw.
\<close>

datatype call_result = CallOk experiment_summary | CallErr string

record provider =
  p_state :: control_state
  p_ref :: control_state
  p_queue :: "control_action list"
  p_nextOp :: int
  p_hydrating :: bool
  p_stored :: "string option"
  p_calls :: "backend_call list"

fun status_of :: "run_status \<Rightarrow> control_status" where
  "status_of RsRunning = CsRunning"
| "status_of RsPaused = CsPaused"
| "status_of RsFinished = CsFinished"
| "status_of RsStopped = CsStopped"

section \<open>Handlers\<close>

text \<open>\<open>apply\<close>: nothing happens when the reducer hands back the same object.\<close>

definition apply_action :: "provider \<Rightarrow> control_action \<Rightarrow> provider \<times> bool" where
  "apply_action p a =
     (case control_step (p_ref p) a of
        None \<Rightarrow> (p, False)
      | Some t \<Rightarrow> (p\<lparr>p_ref := t, p_queue := p_queue p @ [a]\<rparr>, True))"

definition apply_only :: "provider \<Rightarrow> control_action \<Rightarrow> provider" where
  "apply_only p a = fst (apply_action p a)"

text \<open>Open a request with a fresh operation id and, if that took effect, issue its call.\<close>

definition issue :: "provider \<Rightarrow> (int \<Rightarrow> control_action) \<Rightarrow> (int \<Rightarrow> backend_call) \<Rightarrow> provider" where
  "issue p act call =
     (let op = p_nextOp p;
          (q, ok) = apply_action (p\<lparr>p_nextOp := op + 1\<rparr>) (act op)
      in if ok then q\<lparr>p_calls := p_calls q @ [call op]\<rparr> else q)"

definition start :: "provider \<Rightarrow> experiment_config \<Rightarrow> provider" where
  "start p cfg =
     (if \<not> canStart (p_ref p) then p else issue p StartRequested (\<lambda>op. CallCreate op cfg))"

definition pause :: "provider \<Rightarrow> provider" where
  "pause p = (case c_experimentId (p_ref p) of
      Some eid \<Rightarrow> if canPause (p_ref p) \<and> eid \<noteq> [] then issue p PauseRequested (\<lambda>op. CallPause op eid) else p
    | None \<Rightarrow> p)"

definition resume :: "provider \<Rightarrow> provider" where
  "resume p = (case c_experimentId (p_ref p) of
      Some eid \<Rightarrow> if canResume (p_ref p) \<and> eid \<noteq> [] then issue p ResumeRequested (\<lambda>op. CallResume op eid) else p
    | None \<Rightarrow> p)"

definition changeSpeed :: "provider \<Rightarrow> jsnum \<Rightarrow> provider" where
  "changeSpeed p multiplier = (case c_experimentId (p_ref p) of
      Some eid \<Rightarrow> if canSetSpeed (p_ref p) \<and> eid \<noteq> []
                then issue p SpeedRequested (\<lambda>op. CallSpeed op eid multiplier) else p
    | None \<Rightarrow> p)"

definition reset :: "provider \<Rightarrow> provider" where
  "reset p = (case (c_experimentId (p_ref p), c_activeConfig (p_ref p)) of
      (Some oldId, Some cfg) \<Rightarrow>
        if canReset (p_ref p) \<and> oldId \<noteq> [] then issue p ResetRequested (\<lambda>op. CallResetStop op oldId cfg) else p
    | _ \<Rightarrow> p)"

text \<open>The poll of the status effect, armed while a run is running with nothing pending.\<close>

definition poll_status :: "provider \<Rightarrow> provider" where
  "poll_status p = (case c_experimentId (p_state p) of
      Some eid \<Rightarrow> if c_status (p_state p) = CsRunning \<and> c_pending (p_state p) = None \<and> eid \<noteq> []
                then p\<lparr>p_calls := p_calls p @ [CallStatus eid (c_revision (p_state p))]\<rparr> else p
    | None \<Rightarrow> p)"

definition commit :: "provider \<Rightarrow> provider" where
  "commit p =
     (let s = foldl controlReducer (p_state p) (p_queue p)
      in p\<lparr>p_state := s, p_queue := [], p_ref := s,
           p_stored := (if truthy (c_experimentId s) then c_experimentId s else p_stored p)\<rparr>)"

definition drop_call :: "provider \<Rightarrow> backend_call \<Rightarrow> provider" where
  "drop_call p c = p\<lparr>p_calls := remove1 c (p_calls p)\<rparr>"

definition reset_create :: "provider \<Rightarrow> int \<Rightarrow> experiment_config \<Rightarrow> provider" where
  "reset_create p op cfg = p\<lparr>p_calls := p_calls p @ [CallResetCreate op cfg]\<rparr>"

fun settle_call :: "provider \<Rightarrow> backend_call \<Rightarrow> call_result \<Rightarrow> provider" where
  "settle_call p CallNothing r = p\<lparr>p_hydrating := False\<rparr>"
| "settle_call p (CallAdopt stored) (CallOk sm) =
     (let op = p_nextOp p;
          q = apply_only (p\<lparr>p_nextOp := op + 1\<rparr>) (StartRequested op)
      in (apply_only q (StartSucceeded op (es_experiment_id sm) (status_of (es_status sm)) (es_config sm)))
           \<lparr>p_hydrating := False\<rparr>)"
| "settle_call p (CallAdopt stored) (CallErr err) = p\<lparr>p_stored := None, p_hydrating := False\<rparr>"
| "settle_call p (CallCreate op cfg) (CallOk sm) =
     apply_only p (StartSucceeded op (es_experiment_id sm) (status_of (es_status sm)) (es_config sm))"
| "settle_call p (CallCreate op cfg) (CallErr err) = apply_only p (StartFailed op err)"
| "settle_call p (CallPause op eid) (CallOk sm) = apply_only p (PauseSucceeded op (status_of (es_status sm)))"
| "settle_call p (CallPause op eid) (CallErr err) = apply_only p (PauseFailed op err)"
| "settle_call p (CallResume op eid) (CallOk sm) = apply_only p (ResumeSucceeded op (status_of (es_status sm)))"
| "settle_call p (CallResume op eid) (CallErr err) = apply_only p (ResumeFailed op err)"
| "settle_call p (CallSpeed op eid v) (CallOk sm) = apply_only p (SpeedSucceeded op v)"
| "settle_call p (CallSpeed op eid v) (CallErr err) = apply_only p (SpeedFailed op err)"
| "settle_call p (CallResetStop op oldId cfg) (CallOk sm) = reset_create p op cfg"
| "settle_call p (CallResetStop op oldId cfg) (CallErr err) =
     (if \<not> str_includes err ''404'' then apply_only p (ResetFailed op err) else reset_create p op cfg)"
| "settle_call p (CallResetCreate op cfg) (CallOk sm) =
     apply_only p (ResetCreateSucceeded op (es_experiment_id sm) (status_of (es_status sm)) (es_config sm))"
| "settle_call p (CallResetCreate op cfg) (CallErr err) =
     apply_only p (ResetStopSucceededCreateFailed op err)"
| "settle_call p (CallStatus eid rv) (CallOk sm) =
     apply_only p (StatusSynced eid rv (status_of (es_status sm)))"
| "settle_call p (CallStatus eid rv) (CallErr err) = p"

definition settle :: "provider \<Rightarrow> backend_call \<Rightarrow> call_result \<Rightarrow> provider" where
  "settle p c r = settle_call (drop_call p c) c r"

text \<open>A freshly mounted provider; the adoption of a stored run is its only outstanding call.\<close>

definition mount :: "string option \<Rightarrow> provider" where
  "mount stored = \<lparr>p_state = initialControlState, p_ref = initialControlState, p_queue = [], p_nextOp = 1,
     p_hydrating = True, p_stored = stored,
     p_calls = (case stored of Some s \<Rightarrow> if s \<noteq> [] then [CallAdopt s] else [CallNothing] | None \<Rightarrow> [CallNothing])\<rparr>"

section \<open>Steps\<close>

text \<open>What can happen next: the user presses a control, React commits, the poll timer fires, or the
  backend settles any of the outstanding calls, in any order and with any answer.\<close>

inductive provider_step :: "provider \<Rightarrow> provider \<Rightarrow> bool" where
  step_start: "provider_step p (start p cfg)"
| step_pause: "provider_step p (pause p)"
| step_resume: "provider_step p (resume p)"
| step_speed: "provider_step p (changeSpeed p v)"
| step_reset: "provider_step p (reset p)"
| step_poll: "provider_step p (poll_status p)"
| step_commit: "provider_step p (commit p)"
| step_settle: "c \<in> set (p_calls p) \<Longrightarrow> provider_step p (settle p c r)"

inductive provider_reachable :: "provider \<Rightarrow> bool" where
  mounted: "provider_reachable (mount stored)"
| stepped: "provider_reachable p \<Longrightarrow> provider_step p q \<Longrightarrow> provider_reachable q"

section \<open>Invariant\<close>

text \<open>The control request a call carries, if any.\<close>

fun call_request :: "backend_call \<Rightarrow> (pending_action \<times> int) option" where
  "call_request (CallCreate op _) = Some (PStart, op)"
| "call_request (CallPause op _) = Some (PPause, op)"
| "call_request (CallResume op _) = Some (PResume, op)"
| "call_request (CallSpeed op _ _) = Some (PSpeed, op)"
| "call_request (CallResetStop op _ _) = Some (PReset, op)"
| "call_request (CallResetCreate op _) = Some (PReset, op)"
| "call_request _ = None"

definition open_calls :: "provider \<Rightarrow> (pending_action \<times> int) list" where
  "open_calls p = List.map_filter call_request (p_calls p)"

definition provider_inv :: "provider \<Rightarrow> bool" where
  "provider_inv p \<longleftrightarrow>
     control_wf (p_ref p) \<and>
     foldl controlReducer (p_state p) (p_queue p) = p_ref p \<and>
     open_calls p = (case in_flight (p_ref p) of None \<Rightarrow> [] | Some r \<Rightarrow> [r])"

lemma map_filter_append: "List.map_filter f (xs @ ys) = List.map_filter f xs @ List.map_filter f ys"
  by (simp add: List.map_filter_def)

lemma open_calls_add:
  "open_calls (p\<lparr>p_calls := p_calls p @ [c]\<rparr>) = open_calls p @ (case call_request c of None \<Rightarrow> [] | Some r \<Rightarrow> [r])"
  by (simp add: open_calls_def map_filter_append map_filter_simps split: option.split)

lemma apply_action_ok:
  "control_step (p_ref p) a = Some t \<Longrightarrow> apply_action p a = (p\<lparr>p_ref := t, p_queue := p_queue p @ [a]\<rparr>, True)"
  by (simp add: apply_action_def)

lemma apply_action_refused: "control_step (p_ref p) a = None \<Longrightarrow> apply_action p a = (p, False)"
  by (simp add: apply_action_def)

lemma open_calls_simps [simp]:
  "open_calls (p\<lparr>p_ref := t\<rparr>) = open_calls p" "open_calls (p\<lparr>p_queue := q\<rparr>) = open_calls p"
  "open_calls (p\<lparr>p_nextOp := n\<rparr>) = open_calls p" "open_calls (p\<lparr>p_hydrating := h\<rparr>) = open_calls p"
  "open_calls (p\<lparr>p_stored := st\<rparr>) = open_calls p" "open_calls (p\<lparr>p_state := s\<rparr>) = open_calls p"
  by (simp_all add: open_calls_def)

lemma apply_only_ref:
  "p_ref (apply_only p a) = controlReducer (p_ref p) a"
  "p_calls (apply_only p a) = p_calls p" "p_nextOp (apply_only p a) = p_nextOp p"
  "p_state (apply_only p a) = p_state p" "open_calls (apply_only p a) = open_calls p"
  by (auto simp: apply_only_def apply_action_def controlReducer_def split: option.splits)

lemma apply_only_synced:
  "p_ref p = foldl controlReducer (p_state p) (p_queue p) \<Longrightarrow>
     p_ref (apply_only p a) = foldl controlReducer (p_state (apply_only p a)) (p_queue (apply_only p a))"
  by (auto simp: apply_only_def apply_action_def controlReducer_def split: option.splits)

text \<open>The two ways a call keeps the books balanced: issued when its request opens, gone when the
  answer closes it.\<close>

lemma provider_inv_simps [simp]:
  "provider_inv (p\<lparr>p_nextOp := n\<rparr>) = provider_inv p" "provider_inv (p\<lparr>p_hydrating := h\<rparr>) = provider_inv p"
  "provider_inv (p\<lparr>p_stored := st\<rparr>) = provider_inv p"
  by (simp_all add: provider_inv_def)

lemma provider_inv_wf: "provider_inv p \<Longrightarrow> control_wf (p_ref p)"
  by (simp add: provider_inv_def)

lemma provider_inv_sync: "provider_inv p \<Longrightarrow> foldl controlReducer (p_state p) (p_queue p) = p_ref p"
  by (simp add: provider_inv_def)

lemma provider_inv_calls:
  "provider_inv p \<Longrightarrow> open_calls p = (case in_flight (p_ref p) of None \<Rightarrow> [] | Some r \<Rightarrow> [r])"
  by (simp add: provider_inv_def)

lemma provider_invI:
  "control_wf (p_ref p) \<Longrightarrow> foldl controlReducer (p_state p) (p_queue p) = p_ref p \<Longrightarrow>
     open_calls p = (case in_flight (p_ref p) of None \<Rightarrow> [] | Some r \<Rightarrow> [r]) \<Longrightarrow> provider_inv p"
  by (simp add: provider_inv_def)

lemma issue_inv:
  assumes inv: "provider_inv p" and act: "opens (act (p_nextOp p)) = Some r"
    and call: "call_request (call (p_nextOp p)) = Some r"
  shows "provider_inv (issue p act call)"
proof (cases "control_step (p_ref p) (act (p_nextOp p))")
  case None
  then have "issue p act call = p\<lparr>p_nextOp := p_nextOp p + 1\<rparr>"
    by (simp add: issue_def Let_def apply_action_refused)
  with inv show ?thesis by simp
next
  case (Some t)
  note wf = provider_inv_wf[OF inv]
  from ctl.open_step[OF wf Some act] have idle: "in_flight (p_ref p) = None" and busy: "in_flight t = Some r"
    by simp_all
  have t: "controlReducer (p_ref p) (act (p_nextOp p)) = t" by (simp add: controlReducer_def Some)
  have "issue p act call = p\<lparr>p_nextOp := p_nextOp p + 1, p_ref := t, p_queue := p_queue p @ [act (p_nextOp p)],
      p_calls := p_calls p @ [call (p_nextOp p)]\<rparr>"
    by (simp add: issue_def Let_def apply_action_ok Some)
  then show ?thesis
    using ctl.step_wf[OF wf Some] provider_inv_sync[OF inv] provider_inv_calls[OF inv] call
    by (intro provider_invI)
      (simp_all add: t idle busy open_calls_def map_filter_append map_filter_simps)
qed

lemma issue_no_request:
  "provider_inv p \<Longrightarrow> provider_inv (p\<lparr>p_calls := p_calls p @ [CallStatus eid rv]\<rparr>)"
  by (simp add: provider_inv_def open_calls_add)

lemma handlers_inv:
  assumes "provider_inv p"
  shows "provider_inv (start p cfg)" "provider_inv (pause p)" "provider_inv (resume p)"
    "provider_inv (changeSpeed p v)" "provider_inv (reset p)" "provider_inv (poll_status p)"
  using assms
  by (auto simp: start_def pause_def resume_def changeSpeed_def reset_def poll_status_def
      split: option.splits intro!: issue_inv issue_no_request)

lemma commit_inv:
  assumes "provider_inv p" shows "provider_inv (commit p)"
  using provider_inv_wf[OF assms] provider_inv_calls[OF assms]
  by (intro provider_invI) (simp_all add: commit_def Let_def provider_inv_sync[OF assms] open_calls_def)

text \<open>An action that is neither a request nor a reply leaves the books alone.\<close>

lemma apply_other_inv:
  assumes inv: "provider_inv p" and "opens a = None" and "answers a = None"
  shows "provider_inv (apply_only p a)"
proof (cases "control_step (p_ref p) a")
  case None
  with inv show ?thesis by (simp add: apply_only_def apply_action_refused)
next
  case (Some t)
  note wf = provider_inv_wf[OF inv]
  from ctl.other_step[OF wf Some] assms have "in_flight t = in_flight (p_ref p)" by simp
  moreover have "controlReducer (p_ref p) a = t" by (simp add: controlReducer_def Some)
  ultimately show ?thesis
    using ctl.step_wf[OF wf Some] provider_inv_sync[OF inv] provider_inv_calls[OF inv]
    by (intro provider_invI) (simp_all add: apply_only_def apply_action_ok Some)
qed

text \<open>
  Taking an outstanding control call off the list leaves every other fact of the invariant, and no
  call with a request: the state of the books while its answer is being processed.
\<close>

definition answering :: "provider \<Rightarrow> pending_action \<times> int \<Rightarrow> bool" where
  "answering p r \<longleftrightarrow> control_wf (p_ref p) \<and> foldl controlReducer (p_state p) (p_queue p) = p_ref p \<and>
     in_flight (p_ref p) = Some r \<and> open_calls p = []"

lemma map_filter_remove1:
  "c \<in> set cs \<Longrightarrow> mset (List.map_filter f cs) =
     mset (List.map_filter f (remove1 c cs)) + (case f c of None \<Rightarrow> {#} | Some r \<Rightarrow> {#r#})"
  by (induction cs) (auto simp: map_filter_simps split: option.splits)

lemma drop_call_answering:
  assumes inv: "provider_inv p" and c: "c \<in> set (p_calls p)" and r: "call_request c = Some r"
  shows "answering (drop_call p c) r"
proof -
  have "mset (open_calls p) = mset (open_calls (drop_call p c)) + {#r#}"
    using map_filter_remove1[OF c, of call_request] r by (simp add: open_calls_def drop_call_def)
  moreover note provider_inv_calls[OF inv]
  ultimately have "in_flight (p_ref p) = Some r \<and> open_calls (drop_call p c) = []"
    by (auto split: option.splits)
  with inv show ?thesis
    by (simp add: answering_def drop_call_def provider_inv_wf provider_inv_sync)
qed

lemma drop_call_inv:
  assumes inv: "provider_inv p" and c: "c \<in> set (p_calls p)" and r: "call_request c = None"
  shows "provider_inv (drop_call p c)"
proof -
  have "mset (open_calls p) = mset (open_calls (drop_call p c))"
    using map_filter_remove1[OF c, of call_request] r by (simp add: open_calls_def drop_call_def)
  then have "open_calls (drop_call p c) = open_calls p"
    using provider_inv_calls[OF inv] by (auto split: option.splits)
  with inv show ?thesis
    by (intro provider_invI) (simp_all add: drop_call_def provider_inv_wf provider_inv_sync provider_inv_calls)
qed

text \<open>Every reply to the request in flight takes effect.\<close>

lemma reply_takes_effect: "in_flight s = Some r \<Longrightarrow> answers a = Some r \<Longrightarrow> \<exists>t. control_step s a = Some t"
  by (cases a) (auto simp: request_defs split: option.splits)

lemma answering_reply:
  assumes ans: "answering p r" and a: "answers a = Some r"
  shows "provider_inv (apply_only p a)" and "in_flight (p_ref (apply_only p a)) = None"
    and "open_calls (apply_only p a) = []"
proof -
  from ans have wf: "control_wf (p_ref p)" and fl: "in_flight (p_ref p) = Some r"
    and oc: "open_calls p = []"
    and sync: "foldl controlReducer (p_state p) (p_queue p) = p_ref p" by (simp_all add: answering_def)
  obtain t where t: "control_step (p_ref p) a = Some t" using reply_takes_effect[OF fl a] by blast
  from ctl.answer_step[OF wf t a] have idle: "in_flight t = None" by simp
  have st: "controlReducer (p_ref p) a = t" by (simp add: controlReducer_def t)
  have q: "apply_only p a = p\<lparr>p_ref := t, p_queue := p_queue p @ [a]\<rparr>"
    by (simp add: apply_only_def apply_action_ok[OF t])
  show "provider_inv (apply_only p a)"
    by (rule provider_invI) (simp_all add: q ctl.step_wf[OF wf t] idle st sync oc)
  show "in_flight (p_ref (apply_only p a)) = None" by (simp add: q idle)
  show "open_calls (apply_only p a) = []" by (simp add: q oc)
qed

lemma answering_reset_create: "answering p (PReset, op) \<Longrightarrow> provider_inv (reset_create p op cfg)"
  by (intro provider_invI) (auto simp: answering_def reset_create_def open_calls_add)

text \<open>
  Adopting a stored run is a request and its own reply in one go; its operation id is fresh, so it
  cannot be taken for the reply to a request of the user.
\<close>

lemma adopt_inv:
  assumes inv: "provider_inv p" and fresh: "in_flight (p_ref p) \<noteq> Some (PStart, op)"
  shows "provider_inv (apply_only (apply_only p (StartRequested op)) (StartSucceeded op eid st cfg))"
proof (cases "control_step (p_ref p) (StartRequested op)")
  case None
  moreover from fresh have "control_step (p_ref p) (StartSucceeded op eid st cfg) = None"
    using ctl.stale_answer_dropped[OF provider_inv_wf[OF inv], of "StartSucceeded op eid st cfg"] by simp
  ultimately show ?thesis using inv by (simp add: apply_only_def apply_action_refused)
next
  case (Some t)
  note wf = provider_inv_wf[OF inv]
  let ?q = "apply_only p (StartRequested op)"
  from ctl.open_step[OF wf Some] have idle: "in_flight (p_ref p) = None" and busy: "in_flight t = Some (PStart, op)"
    by simp_all
  have t: "controlReducer (p_ref p) (StartRequested op) = t"
    by (simp only: controlReducer_def Some option.case)
  have "?q = p\<lparr>p_ref := t, p_queue := p_queue p @ [StartRequested op]\<rparr>"
    by (simp add: apply_only_def apply_action_ok[OF Some])
  then have "answering ?q (PStart, op)"
    using ctl.step_wf[OF wf Some] provider_inv_sync[OF inv] provider_inv_calls[OF inv]
    by (simp add: answering_def t idle busy)
  then show ?thesis by (rule answering_reply) simp
qed

definition provider_fresh :: "provider \<Rightarrow> bool" where
  "provider_fresh p \<longleftrightarrow> (\<forall>a op. in_flight (p_ref p) = Some (a, op) \<longrightarrow> op < p_nextOp p)"

lemma in_flight_reduced:
  "control_wf s \<Longrightarrow> in_flight (controlReducer s a) \<in> {in_flight s, None, opens a}"
  using ctl.flight_step[of s a] by (auto simp: controlReducer_def split: option.split)

lemma apply_only_fresh:
  assumes "control_wf (p_ref p)" and "provider_fresh p"
    and "\<And>b op. opens a = Some (b, op) \<Longrightarrow> op < p_nextOp p"
  shows "provider_fresh (apply_only p a)" and "control_wf (p_ref (apply_only p a))"
proof -
  show "provider_fresh (apply_only p a)"
    using in_flight_reduced[OF assms(1), of a] assms(2,3)
    by (auto simp: provider_fresh_def apply_only_ref)
  show "control_wf (p_ref (apply_only p a))"
    by (simp add: apply_only_ref controlReducer_wf assms(1))
qed

lemma provider_fresh_simps [simp]:
  "provider_fresh (p\<lparr>p_calls := cs\<rparr>) = provider_fresh p"
  "provider_fresh (p\<lparr>p_hydrating := h\<rparr>) = provider_fresh p"
  "provider_fresh (p\<lparr>p_stored := st\<rparr>) = provider_fresh p"
  by (simp_all add: provider_fresh_def)

lemma provider_fresh_bump: "provider_fresh p \<Longrightarrow> provider_fresh (p\<lparr>p_nextOp := p_nextOp p + 1\<rparr>)"
  by (force simp: provider_fresh_def)

lemma issue_fresh:
  assumes "control_wf (p_ref p)" and "provider_fresh p"
    and "\<And>b op. opens (act (p_nextOp p)) = Some (b, op) \<Longrightarrow> op = p_nextOp p"
  shows "provider_fresh (issue p act call)"
proof -
  let ?p = "p\<lparr>p_nextOp := p_nextOp p + 1\<rparr>"
  have "provider_fresh (apply_only ?p (act (p_nextOp p)))"
    by (rule apply_only_fresh) (use assms in \<open>auto intro: provider_fresh_bump\<close>)
  then show ?thesis
    by (auto simp: issue_def Let_def apply_only_def split: prod.split)
qed

lemma handlers_fresh:
  assumes "control_wf (p_ref p)" and "provider_fresh p"
  shows "provider_fresh (start p cfg)" "provider_fresh (pause p)" "provider_fresh (resume p)"
    "provider_fresh (changeSpeed p v)" "provider_fresh (reset p)" "provider_fresh (poll_status p)"
  using assms
  by (auto simp: start_def pause_def resume_def changeSpeed_def reset_def poll_status_def
      split: option.splits intro!: issue_fresh)

text \<open>Answers: the invariant and freshness survive every call, whatever it answers.\<close>

lemma settle_request_inv:
  assumes "answering p r" and "call_request c = Some r"
  shows "provider_inv (settle_call p c res)"
  using assms by (cases c; cases res) (auto intro: answering_reply answering_reset_create)

lemma settle_other_inv:
  assumes inv: "provider_inv p" and fresh: "provider_fresh p" and "call_request c = None"
  shows "provider_inv (settle_call p c res)"
proof -
  have new: "in_flight (p_ref p) \<noteq> Some (PStart, p_nextOp p)"
    using fresh by (auto simp: provider_fresh_def)
  with assms show ?thesis
    by (cases c; cases res) (auto simp: Let_def intro!: apply_other_inv adopt_inv)
qed

lemma settle_call_fresh:
  assumes "control_wf (p_ref p)" and "provider_fresh p"
  shows "provider_fresh (settle_call p c res)"
proof -
  have bump: "provider_fresh (p\<lparr>p_nextOp := p_nextOp p + 1\<rparr>)"
    using assms(2) by (rule provider_fresh_bump)
  show ?thesis
  proof (cases c)
    case (CallAdopt x)
    then show ?thesis
      using apply_only_fresh[of "p\<lparr>p_nextOp := p_nextOp p + 1\<rparr>" "StartRequested (p_nextOp p)"] assms bump
      by (cases res) (auto simp: Let_def apply_only_ref intro!: apply_only_fresh(1))
  qed (use assms in \<open>cases res; auto simp: reset_create_def intro!: apply_only_fresh(1)\<close>)+
qed

lemma settle_inv:
  assumes inv: "provider_inv p" and fresh: "provider_fresh p" and c: "c \<in> set (p_calls p)"
  shows "provider_inv (settle p c res)" and "provider_fresh (settle p c res)"
proof -
  have fr: "provider_fresh (drop_call p c)" using fresh by (simp add: drop_call_def)
  show "provider_inv (settle p c res)"
  proof (cases "call_request c")
    case None
    with settle_other_inv[OF drop_call_inv[OF inv c None] fr None] show ?thesis by (simp add: settle_def)
  next
    case (Some r)
    with settle_request_inv[OF drop_call_answering[OF inv c Some] Some] show ?thesis by (simp add: settle_def)
  qed
  show "provider_fresh (settle p c res)"
    unfolding settle_def
    by (rule settle_call_fresh) (use fr provider_inv_wf[OF inv] in \<open>simp_all add: drop_call_def\<close>)
qed

lemma mount_inv: "provider_inv (mount stored)" "provider_fresh (mount stored)"
  by (auto simp: provider_inv_def provider_fresh_def mount_def open_calls_def map_filter_simps
      in_flight_def initialControlState_wf split: option.splits)
    (simp_all add: initialControlState_def)

lemma reachable_provider:
  assumes "provider_reachable p" shows "provider_inv p \<and> provider_fresh p"
  using assms
proof induction
  case (mounted stored)
  show ?case by (simp add: mount_inv)
next
  case (stepped p q)
  then have inv: "provider_inv p" and fresh: "provider_fresh p" by simp_all
  note wf = provider_inv_wf[OF inv]
  from \<open>provider_step p q\<close> show ?case
  proof cases
    case step_commit
    then show ?thesis
      using commit_inv[OF inv] fresh
      by (simp add: commit_def Let_def provider_fresh_def provider_inv_sync[OF inv])
  qed (use handlers_inv[OF inv] handlers_fresh[OF wf fresh] settle_inv[OF inv fresh] in auto)
qed

text \<open>What one answer does to the request in flight.\<close>

lemma answering_ends:
  assumes "answering p r" and "call_request c = Some r"
    and "\<forall>op cfg oldId. c \<noteq> CallResetStop op oldId cfg"
  shows "in_flight (p_ref (settle_call p c res)) = None"
  using assms by (cases c; cases res) (auto intro: answering_reply(2))

lemma answered_or_reset:
  assumes inv: "provider_inv p" and fresh: "provider_fresh p" and c: "c \<in> set (p_calls p)"
    and r: "call_request c = Some r"
  shows "in_flight (p_ref (settle p c res)) = None \<or>
      (\<exists>op oldId cfg. c = CallResetStop op oldId cfg \<and>
         CallResetCreate op cfg \<in> set (p_calls (settle p c res)) \<and>
         (\<forall>res'. in_flight (p_ref (settle (settle p c res) (CallResetCreate op cfg) res')) = None))"
proof (cases "\<exists>op oldId cfg. c = CallResetStop op oldId cfg")
  case False
  then show ?thesis using answering_ends[OF drop_call_answering[OF inv c r] r] by (simp add: settle_def)
next
  case True
  then obtain op oldId cfg where call: "c = CallResetStop op oldId cfg" by blast
  have ans: "answering (drop_call p c) r" by (rule drop_call_answering[OF inv c r])
  have r': "r = (PReset, op)" using r call by simp
  show ?thesis
  proof (cases "settle p c res = reset_create (drop_call p c) op cfg")
    case False
    then have "\<exists>err. settle p c res = apply_only (drop_call p c) (ResetFailed op err)"
      by (cases res) (auto simp: settle_def call split: if_splits)
    then show ?thesis using answering_reply(2)[OF ans] r' by auto
  next
    case True
    let ?q = "settle p c res" and ?d = "CallResetCreate op cfg"
    have d: "?d \<in> set (p_calls ?q)" using True by (simp add: reset_create_def)
    have "in_flight (p_ref (settle ?q ?d res')) = None" for res'
      using answering_ends[OF drop_call_answering[OF settle_inv(1)[OF inv fresh c] d, of r], of ?d] r'
      by (simp add: settle_def)
    with d call show ?thesis by blast
  qed
qed

section \<open>Properties\<close>

text \<open>C5. However clicks, commits, poll timers and answers interleave, the provider has exactly one
  control call outstanding while a request is in flight and none otherwise, and the ref the
  handlers read is the React state with the queued actions applied.\<close>

theorem one_call_in_flight:
  assumes "provider_reachable p"
  shows "open_calls p = (case in_flight (p_ref p) of None \<Rightarrow> [] | Some r \<Rightarrow> [r]) \<and>
         foldl controlReducer (p_state p) (p_queue p) = p_ref p \<and> control_wf (p_ref p)"
  using reachable_provider[OF assms] by (simp add: provider_inv_def)

definition demo_started :: provider where
  "demo_started = start (mount None) []"

lemma demo_started_reachable: "provider_reachable demo_started"
  unfolding demo_started_def by (rule stepped[OF mounted step_start])

lemma demo_started_flight: "in_flight (p_ref demo_started) = Some (PStart, 1)"
  by (simp add: demo_started_def start_def issue_def mount_def Let_def apply_action_def
      initialControlState_def can_defs request_defs)

lemma demo_started_calls: "p_calls demo_started = [CallNothing, CallCreate 1 []]"
  by (simp add: demo_started_def start_def issue_def mount_def Let_def apply_action_def
      initialControlState_def can_defs request_defs)

theorem one_call_in_flight_witness: "open_calls demo_started = [(PStart, 1)]"
  using one_call_in_flight[OF demo_started_reachable] by (simp add: demo_started_flight)

text \<open>C6. A request in flight can always be answered: its call is outstanding, and any answer to it
  ends the request, except the stop of a reset, which hands over to the create call of the same
  request, whose every answer ends it. The controls never lock up.\<close>

theorem controls_never_stuck:
  assumes "provider_reachable p" and "in_flight (p_ref p) = Some r"
  shows "\<exists>c \<in> set (p_calls p). call_request c = Some r \<and>
    (\<forall>res. in_flight (p_ref (settle p c res)) = None \<or>
      (\<exists>op oldId cfg. c = CallResetStop op oldId cfg \<and>
         CallResetCreate op cfg \<in> set (p_calls (settle p c res)) \<and>
         (\<forall>res'. in_flight (p_ref (settle (settle p c res) (CallResetCreate op cfg) res')) = None)))"
proof -
  have inv: "provider_inv p" and fresh: "provider_fresh p" using reachable_provider[OF assms(1)] by simp_all
  have "open_calls p = [r]" using provider_inv_calls[OF inv] assms(2) by simp
  then have "r \<in> set (open_calls p)" by simp
  then obtain c where c: "c \<in> set (p_calls p)" and r: "call_request c = Some r"
    unfolding open_calls_def in_map_filter by blast
  have "in_flight (p_ref (settle p c res)) = None \<or>
      (\<exists>op oldId cfg. c = CallResetStop op oldId cfg \<and>
         CallResetCreate op cfg \<in> set (p_calls (settle p c res)) \<and>
         (\<forall>res'. in_flight (p_ref (settle (settle p c res) (CallResetCreate op cfg) res')) = None))" for res
    by (rule answered_or_reset[OF inv fresh c r])
  with c r show ?thesis by blast
qed

theorem controls_never_stuck_witness:
  "\<exists>c \<in> set (p_calls demo_started). call_request c = Some (PStart, 1)"
  using controls_never_stuck[OF demo_started_reachable demo_started_flight]
  by (elim bexE conjE) (rule bexI)

lemma reset_opened:
  assumes "canReset (p_ref p)" and "c_experimentId (p_ref p) = Some old" and "old \<noteq> []"
    and "c_activeConfig (p_ref p) = Some cfg"
  shows "p_ref (reset p) = open_request (p_ref p) PReset (p_nextOp p)"
    and "p_calls (reset p) = p_calls p @ [CallResetStop (p_nextOp p) old cfg]"
  using assms by (simp_all add: reset_def issue_def Let_def apply_action_def)

lemma reset_answer:
  assumes "p_ref q = open_request s PReset op" and "c_pending s = None"
  shows "p_ref (apply_only q (ResetFailed op err)) =
      s\<lparr>c_revision := c_revision s + 1, c_operationId := None, c_error := Some err\<rparr>"
    and "p_ref (apply_only q (ResetStopSucceededCreateFailed op err)) =
      s\<lparr>c_status := CsStopped, c_revision := c_revision s + 1, c_operationId := None, c_error := Some err\<rparr>"
    and "p_ref (apply_only q (ResetCreateSucceeded op eid st cfg)) =
      s\<lparr>c_experimentId := Some eid, c_status := st, c_speed := Fin 1, c_error := None,
        c_operationId := None, c_revision := c_revision s + 1, c_activeConfig := Some cfg\<rparr>"
  using assms by (simp_all add: apply_only_ref controlReducer_def request_defs)

definition stop_confirmed :: "call_result \<Rightarrow> bool" where
  "stop_confirmed r = (case r of CallOk _ \<Rightarrow> True | CallErr err \<Rightarrow> str_includes err ''404'')"

lemma settle_stop_confirmed:
  "stop_confirmed r \<Longrightarrow> settle q (CallResetStop op old cfg) r = reset_create (drop_call q (CallResetStop op old cfg)) op cfg"
  by (cases r) (simp_all add: settle_def stop_confirmed_def)

text \<open>C7. A reset stops the old run before it creates the new one. A stop that fails other than with
  a 404 issues no create call and changes nothing but the reported error; after a stop, a failed
  create leaves the old run stopped with the error, and a created run replaces it. The run is
  never reported as running once its stop was confirmed.\<close>

theorem reset_outcome:
  assumes can: "canReset (p_ref p)" and run: "c_experimentId (p_ref p) = Some old" "old \<noteq> []"
    and cfg: "c_activeConfig (p_ref p) = Some cfg"
  shows "let op = p_nextOp p; stop = CallResetStop op old cfg; create = CallResetCreate op cfg;
             q = reset p; s = p_ref p in
    p_calls q = p_calls p @ [stop] \<and>
    (\<forall>err. \<not> stop_confirmed (CallErr err) \<longrightarrow>
       p_calls (settle q stop (CallErr err)) = remove1 stop (p_calls q) \<and>
       p_ref (settle q stop (CallErr err)) =
         s\<lparr>c_revision := c_revision s + 1, c_operationId := None, c_error := Some err\<rparr>) \<and>
    (\<forall>r. stop_confirmed r \<longrightarrow>
       p_calls (settle q stop r) = remove1 stop (p_calls q) @ [create] \<and>
       (\<forall>err. p_ref (settle (settle q stop r) create (CallErr err)) =
         s\<lparr>c_status := CsStopped, c_revision := c_revision s + 1, c_operationId := None,
           c_error := Some err\<rparr>) \<and>
       (\<forall>sm. p_ref (settle (settle q stop r) create (CallOk sm)) =
         s\<lparr>c_experimentId := Some (es_experiment_id sm), c_status := status_of (es_status sm),
           c_speed := Fin 1, c_error := None, c_operationId := None, c_revision := c_revision s + 1,
           c_activeConfig := Some (es_config sm)\<rparr>))"
proof -
  note opened = reset_opened[OF assms]
  have idle: "c_pending (p_ref p) = None" using can by (simp add: can_defs)
  have ref: "p_ref (drop_call q c) = p_ref q" "p_ref (reset_create q op cfg) = p_ref q" for q c op
    by (simp_all add: drop_call_def reset_create_def)
  have "\<not> stop_confirmed (CallErr err) \<Longrightarrow> \<not> str_includes err ''404''" for err
    by (simp add: stop_confirmed_def)
  then show ?thesis
    by (simp add: Let_def settle_stop_confirmed)
      (simp add: settle_def reset_answer[OF _ idle] ref opened apply_only_ref(2) drop_call_def reset_create_def)
qed

definition demo_running :: provider where
  "demo_running = settle demo_started (CallCreate 1 [])
     (CallOk \<lparr>es_experiment_id = ''run'', es_status = RsRunning, es_sim_tick = 0, es_last_seq = 0, es_config = []\<rparr>)"

lemma demo_running_simps:
  "p_ref demo_running = \<lparr>c_experimentId = Some ''run'', c_status = CsRunning, c_pending = None,
     c_speed = Fin 1, c_error = None, c_operationId = None, c_revision = 1, c_activeConfig = Some []\<rparr>"
  "p_nextOp demo_running = 2" "p_calls demo_running = [CallNothing]"
  by (simp_all add: demo_running_def demo_started_def start_def issue_def mount_def Let_def
      apply_action_def apply_only_def settle_def drop_call_def initialControlState_def can_defs request_defs)

theorem reset_outcome_witness:
  "c_status (p_ref (settle (settle (reset demo_running) (CallResetStop 2 ''run'' []) (CallErr ''HTTP 404''))
     (CallResetCreate 2 []) (CallErr ''down''))) = CsStopped"
proof -
  have can: "canReset (p_ref demo_running)" and run: "c_experimentId (p_ref demo_running) = Some ''run''"
    and ne: "''run'' \<noteq> ([] :: string)" and cfg: "c_activeConfig (p_ref demo_running) = Some []"
    by (simp_all add: demo_running_simps can_defs)
  have gone: "stop_confirmed (CallErr ''HTTP 404'')" by (simp add: stop_confirmed_def)
  from reset_outcome[OF can run ne cfg] gone show ?thesis
    unfolding Let_def by (auto simp: demo_running_simps)
qed

text \<open>C27. Adopting the run stored by the tab never interferes with the user: while a run is active or
  a request is in flight, the answer to the adoption call, whatever it is, leaves the control
  state alone and only ends the hydration.\<close>

theorem adoption_leaves_user_alone:
  assumes "provider_reachable p" and "CallAdopt stored \<in> set (p_calls p)" and "\<not> canStart (p_ref p)"
  shows "p_ref (settle p (CallAdopt stored) r) = p_ref p \<and> \<not> p_hydrating (settle p (CallAdopt stored) r)"
proof -
  let ?d = "drop_call p (CallAdopt stored)" and ?op = "p_nextOp p"
  have inv: "provider_inv p" and fresh: "provider_fresh p" using reachable_provider[OF assms(1)] by simp_all
  have "in_flight (p_ref p) \<noteq> Some (PStart, ?op)" using fresh by (auto simp: provider_fresh_def)
  then have "control_step (p_ref p) (StartSucceeded ?op eid st cfg) = None" for eid st cfg
    using ctl.stale_answer_dropped[OF provider_inv_wf[OF inv], of "StartSucceeded ?op eid st cfg"] by simp
  moreover have "control_step (p_ref p) (StartRequested ?op) = None" using assms(3) by simp
  ultimately show ?thesis
    by (cases r) (simp_all add: settle_def Let_def apply_only_def apply_action_refused drop_call_def
        del: control_step.simps)
qed

theorem adoption_leaves_user_alone_witness:
  "p_ref (settle (start (mount (Some ''old'')) []) (CallAdopt ''old'') (CallErr ''404'')) =
     open_request initialControlState PStart 1"
proof -
  let ?p = "start (mount (Some ''old'')) []"
  have ref: "p_ref ?p = open_request initialControlState PStart 1" and calls: "p_calls ?p = [CallAdopt ''old'', CallCreate 1 []]"
    by (simp_all add: start_def issue_def mount_def Let_def apply_action_def initialControlState_def can_defs)
  have "\<not> canStart (p_ref ?p)" by (simp add: ref open_request_def can_defs)
  from adoption_leaves_user_alone[OF stepped[OF mounted step_start] _ this] show ?thesis
    by (simp add: ref calls)
qed

end
