(* ===== verification/Client.thy ===== *)
theory Client
  imports Schema
begin

text \<open>
  The two HTTP clients, \<open>frontend/src/lib/api/client.ts\<close> and \<open>frontend/src/lib/runtime/client.ts\<close>.
  A function of a client builds a request, hands it to \<open>fetch\<close>, which is an argument, and turns the answer into the parsed body or an error message.
  What the body of an answer means is left to the caller, as the casts of the code leave it; a body
  that does not parse is an error message of the engine's choosing.
\<close>

section \<open>Requests and answers\<close>

datatype http_method = GET | POST | DELETE

record http_request =
  rq_method :: http_method
  rq_url :: string
  rq_query :: "(string, string) jsmap"
  rq_body :: "json option"
  rq_no_store :: bool

datatype fetch_result = Responded nat "string + json" | Unreachable string

text \<open>\<open>BACKEND_URL\<close>, \<open>BACKEND_WS_URL\<close> and \<open>fetch\<close>.\<close>

record backend =
  be_url :: string
  be_ws_url :: string
  be_fetch :: "http_request \<Rightarrow> fetch_result"

definition BACKEND_URL :: "string option \<Rightarrow> string" where
  "BACKEND_URL env = or_default env ''http://localhost:8000''"

definition BACKEND_WS_URL :: "string option \<Rightarrow> string" where
  "BACKEND_WS_URL env = or_default env ''ws://localhost:8000''"

datatype client_error = NoLiveSessionError | ClientError string

fun error_message :: "client_error \<Rightarrow> string" where
  "error_message NoLiveSessionError = ''no live runtime session''"
| "error_message (ClientError msg) = msg"

type_synonym reply = "client_error + json"

definition res_ok :: "nat \<Rightarrow> bool" where
  "res_ok status \<longleftrightarrow> 200 \<le> status \<and> status \<le> 299"

text \<open>\<open>if (!res.ok) throw new Error(`failed to ...: ${res.status}`); return res.json();\<close>\<close>

definition failure :: "string \<Rightarrow> nat \<Rightarrow> client_error" where
  "failure what status = ClientError (''failed to '' @ what @ '': '' @ show_nat status)"

definition ok_json :: "string \<Rightarrow> fetch_result \<Rightarrow> reply" where
  "ok_json what r = (case r of
      Unreachable msg \<Rightarrow> Inl (ClientError msg)
    | Responded status body \<Rightarrow>
        if \<not> res_ok status then Inl (failure what status)
        else (case body of Inl msg \<Rightarrow> Inl (ClientError msg) | Inr v \<Rightarrow> Inr v))"

text \<open>The functions of the runtime client that tell "no session yet" from a failure.\<close>

definition session_json :: "string \<Rightarrow> fetch_result \<Rightarrow> reply" where
  "session_json what r = (case r of
      Responded status body \<Rightarrow> if status = 404 then Inl NoLiveSessionError else ok_json what r
    | Unreachable msg \<Rightarrow> Inl (ClientError msg))"

definition plain_get :: "string \<Rightarrow> http_request" where
  "plain_get url = \<lparr>rq_method = GET, rq_url = url, rq_query = [], rq_body = None, rq_no_store = False\<rparr>"

text \<open>\<open>url.searchParams.set(key, value)\<close>, and the same under \<open>if (value !== undefined)\<close>.\<close>

definition set_param :: "string \<Rightarrow> string \<Rightarrow> http_request \<Rightarrow> http_request" where
  "set_param k v rq = rq\<lparr>rq_query := map_set (rq_query rq) k v\<rparr>"

definition set_param_opt :: "string \<Rightarrow> string option \<Rightarrow> http_request \<Rightarrow> http_request" where
  "set_param_opt k v rq = (case v of None \<Rightarrow> rq | Some s \<Rightarrow> set_param k s rq)"

definition posting :: "json option \<Rightarrow> http_request \<Rightarrow> http_request" where
  "posting body rq = rq\<lparr>rq_method := POST, rq_body := body\<rparr>"

definition no_store :: "http_request \<Rightarrow> http_request" where
  "no_store rq = rq\<lparr>rq_no_store := True\<rparr>"

lemmas request_defs = plain_get_def set_param_def set_param_opt_def posting_def no_store_def

section \<open>The experiment client\<close>

definition experiments_url :: "backend \<Rightarrow> string" where
  "experiments_url B = be_url B @ ''/api/experiments''"

definition experiment_url :: "backend \<Rightarrow> string \<Rightarrow> string" where
  "experiment_url B experimentId = experiments_url B @ ''/'' @ experimentId"

definition createExperiment :: "backend \<Rightarrow> experiment_config \<Rightarrow> reply" where
  "createExperiment B config = ok_json ''create experiment''
     (be_fetch B (posting (Some (JObj config)) (plain_get (experiments_url B))))"

definition getExperiment :: "backend \<Rightarrow> string \<Rightarrow> reply" where
  "getExperiment B experimentId = ok_json ''get experiment''
     (be_fetch B (plain_get (experiment_url B experimentId)))"

definition postControl :: "backend \<Rightarrow> string \<Rightarrow> string \<Rightarrow> reply" where
  "postControl B experimentId action = ok_json (action @ '' experiment'')
     (be_fetch B (posting None (plain_get (experiment_url B experimentId @ ''/'' @ action))))"

definition stopExperiment :: "backend \<Rightarrow> string \<Rightarrow> reply" where
  "stopExperiment B experimentId = postControl B experimentId ''stop''"

definition pauseExperiment :: "backend \<Rightarrow> string \<Rightarrow> reply" where
  "pauseExperiment B experimentId = postControl B experimentId ''pause''"

definition resumeExperiment :: "backend \<Rightarrow> string \<Rightarrow> reply" where
  "resumeExperiment B experimentId = postControl B experimentId ''resume''"

definition setSpeed :: "backend \<Rightarrow> string \<Rightarrow> jsnum \<Rightarrow> reply" where
  "setSpeed B experimentId multiplier = ok_json ''set speed''
     (be_fetch B (posting (Some (JObj [(''multiplier'', JNum multiplier)]))
       (plain_get (experiment_url B experimentId @ ''/speed''))))"

definition backendWsUrl :: "backend \<Rightarrow> string \<Rightarrow> int option \<Rightarrow> http_request" where
  "backendWsUrl B experimentId sinceSeq = set_param_opt ''since_seq'' (map_option show_int sinceSeq)
     (plain_get (be_ws_url B @ ''/api/experiments/'' @ experimentId @ ''/stream''))"

record list_params =
  lp_status :: "string option"
  lp_defenseEnabled :: "bool option"
  lp_limit :: "int option"
  lp_cursor :: "string option"

definition show_bool :: "bool \<Rightarrow> string" where
  "show_bool b = (if b then ''true'' else ''false'')"

definition non_empty :: "string option \<Rightarrow> string option" where
  "non_empty x = (if truthy x then x else None)"

definition listExperiments :: "backend \<Rightarrow> list_params \<Rightarrow> reply" where
  "listExperiments B params = ok_json ''list experiments'' (be_fetch B
     (set_param_opt ''cursor'' (non_empty (lp_cursor params))
     (set_param_opt ''limit'' (map_option show_int (lp_limit params))
     (set_param_opt ''defense_enabled'' (map_option show_bool (lp_defenseEnabled params))
     (set_param_opt ''status'' (non_empty (lp_status params))
     (plain_get (experiments_url B)))))))"

definition getExperimentDetail :: "backend \<Rightarrow> string \<Rightarrow> reply" where
  "getExperimentDetail B experimentId = ok_json ''get experiment detail''
     (be_fetch B (plain_get (experiment_url B experimentId @ ''/detail'')))"

definition fetchEventPage :: "backend \<Rightarrow> string \<Rightarrow> string \<Rightarrow> int \<Rightarrow> int option \<Rightarrow> reply" where
  "fetchEventPage B path experimentId sinceSeq limit = ok_json (''fetch '' @ path) (be_fetch B
     (set_param_opt ''limit'' (map_option show_int limit)
     (set_param ''since_seq'' (show_int sinceSeq)
     (plain_get (experiment_url B experimentId @ ''/'' @ path)))))"

definition fetchEventHistory :: "backend \<Rightarrow> string \<Rightarrow> int \<Rightarrow> int option \<Rightarrow> reply" where
  "fetchEventHistory B = fetchEventPage B ''events''"

definition fetchIncidents :: "backend \<Rightarrow> string \<Rightarrow> int \<Rightarrow> int option \<Rightarrow> reply" where
  "fetchIncidents B = fetchEventPage B ''incidents''"

definition fetchReplaySnapshot :: "backend \<Rightarrow> string \<Rightarrow> reply" where
  "fetchReplaySnapshot B experimentId = ok_json ''fetch replay snapshot''
     (be_fetch B (plain_get (experiment_url B experimentId @ ''/replay-snapshot'')))"

section \<open>Analysis of a live run and of a stored one\<close>

definition getSecurityGraph :: "backend \<Rightarrow> string \<Rightarrow> reply" where
  "getSecurityGraph B experimentId = ok_json ''get security graph''
     (be_fetch B (plain_get (experiment_url B experimentId @ ''/graph'')))"

definition getAttackPaths :: "backend \<Rightarrow> string \<Rightarrow> string \<Rightarrow> string \<Rightarrow> reply" where
  "getAttackPaths B experimentId source target = ok_json ''get attack paths''
     (be_fetch B (set_param ''target'' target (set_param ''source'' source
       (plain_get (experiment_url B experimentId @ ''/analysis/attack-paths'')))))"

definition getBlastRadius :: "backend \<Rightarrow> string \<Rightarrow> reply" where
  "getBlastRadius B experimentId = ok_json ''get blast radius''
     (be_fetch B (plain_get (experiment_url B experimentId @ ''/analysis/blast-radius'')))"

definition getCriticalNodes :: "backend \<Rightarrow> string \<Rightarrow> int option \<Rightarrow> reply" where
  "getCriticalNodes B experimentId topN = ok_json ''get critical nodes''
     (be_fetch B (set_param_opt ''top_n'' (map_option show_int topN)
       (plain_get (experiment_url B experimentId @ ''/analysis/critical-nodes''))))"

definition getProvenance :: "backend \<Rightarrow> string \<Rightarrow> string \<Rightarrow> reply" where
  "getProvenance B experimentId nodeId = ok_json ''get provenance''
     (be_fetch B (set_param ''node_id'' nodeId
       (plain_get (experiment_url B experimentId @ ''/analysis/provenance''))))"

definition getMetrics :: "backend \<Rightarrow> string \<Rightarrow> reply" where
  "getMetrics B experimentId = ok_json ''get metrics''
     (be_fetch B (plain_get (experiment_url B experimentId @ ''/metrics'')))"

definition getRemediation :: "backend \<Rightarrow> string \<Rightarrow> reply" where
  "getRemediation B experimentId = ok_json ''get remediation''
     (be_fetch B (plain_get (experiment_url B experimentId @ ''/remediation'')))"

definition getReplaySecurityGraph :: "backend \<Rightarrow> string \<Rightarrow> reply" where
  "getReplaySecurityGraph B experimentId = ok_json ''get replay security graph''
     (be_fetch B (plain_get (experiment_url B experimentId @ ''/replay/graph'')))"

definition getReplayAttackPaths :: "backend \<Rightarrow> string \<Rightarrow> string \<Rightarrow> string \<Rightarrow> reply" where
  "getReplayAttackPaths B experimentId source target = ok_json ''get replay attack paths''
     (be_fetch B (set_param ''target'' target (set_param ''source'' source
       (plain_get (experiment_url B experimentId @ ''/replay/analysis/attack-paths'')))))"

definition getReplayBlastRadius :: "backend \<Rightarrow> string \<Rightarrow> reply" where
  "getReplayBlastRadius B experimentId = ok_json ''get replay blast radius''
     (be_fetch B (plain_get (experiment_url B experimentId @ ''/replay/analysis/blast-radius'')))"

definition getReplayCriticalNodes :: "backend \<Rightarrow> string \<Rightarrow> int option \<Rightarrow> reply" where
  "getReplayCriticalNodes B experimentId topN = ok_json ''get replay critical nodes''
     (be_fetch B (set_param_opt ''top_n'' (map_option show_int topN)
       (plain_get (experiment_url B experimentId @ ''/replay/analysis/critical-nodes''))))"

definition getReplayProvenance :: "backend \<Rightarrow> string \<Rightarrow> string \<Rightarrow> reply" where
  "getReplayProvenance B experimentId nodeId = ok_json ''get replay provenance''
     (be_fetch B (set_param ''node_id'' nodeId
       (plain_get (experiment_url B experimentId @ ''/replay/analysis/provenance''))))"

definition getReplayMetrics :: "backend \<Rightarrow> string \<Rightarrow> reply" where
  "getReplayMetrics B experimentId = ok_json ''get replay metrics''
     (be_fetch B (plain_get (experiment_url B experimentId @ ''/replay/metrics'')))"

definition getReplayRemediation :: "backend \<Rightarrow> string \<Rightarrow> reply" where
  "getReplayRemediation B experimentId = ok_json ''get replay remediation''
     (be_fetch B (plain_get (experiment_url B experimentId @ ''/replay/remediation'')))"

section \<open>The runtime client\<close>

definition sessions_url :: "backend \<Rightarrow> string" where
  "sessions_url B = be_url B @ ''/api/runtime/sessions''"

definition getCurrentRuntimeSession :: "backend \<Rightarrow> reply" where
  "getCurrentRuntimeSession B = session_json ''get the live runtime session''
     (be_fetch B (no_store (plain_get (sessions_url B @ ''/current''))))"

definition getRuntimeSession :: "backend \<Rightarrow> string \<Rightarrow> reply" where
  "getRuntimeSession B sessionId = session_json ''get runtime session''
     (be_fetch B (no_store (plain_get (sessions_url B @ ''/'' @ sessionId))))"

definition getRuntimeSnapshot :: "backend \<Rightarrow> string \<Rightarrow> reply" where
  "getRuntimeSnapshot B sessionId = session_json ''get the runtime snapshot''
     (be_fetch B (no_store (plain_get (sessions_url B @ ''/'' @ sessionId @ ''/snapshot''))))"

text \<open>The default of \<open>sinceSeq\<close> is \<open>-1\<close>.\<close>

definition getRuntimeEvents :: "backend \<Rightarrow> string \<Rightarrow> int option \<Rightarrow> reply" where
  "getRuntimeEvents B sessionId sinceSeq = session_json ''get runtime events''
     (be_fetch B (no_store (set_param ''since_seq'' (show_int (or_default sinceSeq (- 1)))
       (plain_get (sessions_url B @ ''/'' @ sessionId @ ''/events'')))))"

definition getRuntimeExplanation :: "backend \<Rightarrow> string \<Rightarrow> reply" where
  "getRuntimeExplanation B sessionId = ok_json ''get the incident explanation''
     (be_fetch B (no_store (plain_get (sessions_url B @ ''/'' @ sessionId @ ''/explanation''))))"

definition resetRuntimeSessions :: "backend \<Rightarrow> reply" where
  "resetRuntimeSessions B = ok_json ''reset the demo''
     (be_fetch B ((plain_get (sessions_url B))\<lparr>rq_method := DELETE\<rparr>))"

definition runtimeWsUrl :: "backend \<Rightarrow> string \<Rightarrow> int option \<Rightarrow> http_request" where
  "runtimeWsUrl B sessionId sinceSeq = set_param_opt ''since_seq'' (map_option show_int sinceSeq)
     (plain_get (be_ws_url B @ ''/api/runtime/sessions/'' @ sessionId @ ''/stream''))"

section \<open>Reading a status off an error message\<close>

lemma show_nat_three:
  assumes "100 \<le> n" and "n < 1000"
  shows "show_nat n = [digit_char (n div 100), digit_char (n div 10 mod 10), digit_char (n mod 10)]"
proof -
  have "\<not> n < 10" "\<not> n div 10 < 10" "n div 10 div 10 < 10" using assms by auto
  then show ?thesis
    by (subst show_nat.simps, simp, subst show_nat.simps, simp, subst show_nat.simps, simp add: div_mult2_eq[symmetric])
qed

lemma digit_char_inj: "d < 10 \<Longrightarrow> e < 10 \<Longrightarrow> digit_char d = digit_char e \<longleftrightarrow> d = e"
  by (metis add_left_imp_eq of_digit_char)

lemma digit_char_40:
  "d < 10 \<Longrightarrow> digit_char d = CHR ''4'' \<longleftrightarrow> d = 4" "d < 10 \<Longrightarrow> digit_char d = CHR ''0'' \<longleftrightarrow> d = 0"
proof -
  have "digit_char 4 = CHR ''4''" "digit_char 0 = CHR ''0''" by code_simp+
  then show "d < 10 \<Longrightarrow> digit_char d = CHR ''4'' \<longleftrightarrow> d = 4" "d < 10 \<Longrightarrow> digit_char d = CHR ''0'' \<longleftrightarrow> d = 0"
    using digit_char_inj[of d 4] digit_char_inj[of d 0] by simp_all
qed

lemma show_nat_inj [simp]: "show_nat m = show_nat n \<longleftrightarrow> m = n"
  by (metis digits_value_show_nat)

text \<open>\<open>err.message.includes("404")\<close> tells a run that is already gone from every other failure of the
  stop: for any three-digit status it holds of 404 alone.\<close>

theorem stop_404_exact:
  assumes "be_fetch B rq = Responded status body" and "100 \<le> status" and "status < 1000"
    and "\<not> res_ok status"
    and "rq = posting None (plain_get (experiment_url B i @ ''/stop''))"
  shows "\<exists>e. stopExperiment B i = Inl e \<and> (str_includes (error_message e) ''404'' \<longleftrightarrow> status = 404)"
proof -
  have "stopExperiment B i = Inl (failure ''stop experiment'' status)"
    using assms by (simp add: stopExperiment_def postControl_def ok_json_def)
  moreover have "str_includes (error_message (failure ''stop experiment'' status)) ''404'' \<longleftrightarrow>
      show_nat status = show_nat 404"
    using assms(2,3) by (simp add: failure_def show_nat_three digit_char_40) (simp add: digit_char_inj)
  ultimately show ?thesis by auto
qed

theorem stop_404_exact_witness:
  "\<exists>e. stopExperiment \<lparr>be_url = ''http://h'', be_ws_url = ''ws://h'', be_fetch = \<lambda>_. Responded 404 (Inr JNull)\<rparr> ''5f'' = Inl e
     \<and> str_includes (error_message e) ''404''"
  using stop_404_exact[of "\<lparr>be_url = ''http://h'', be_ws_url = ''ws://h'', be_fetch = \<lambda>_. Responded 404 (Inr JNull)\<rparr>" _ 404, OF _ _ _ _ refl]
  by (simp add: res_ok_def)

end
