(* ===== verification/Event_Folds.thy ===== *)
theory Event_Folds
  imports JS_Prelude
begin

text \<open>
  The interfaces of everything that is derived from the event stream. A view (the graph state,
  the verdict, the incident, the test evidence) is a step function folded over the events in
  order; each of its fields follows one of a few disciplines, which the locales below state as
  a law about one step. What the field holds after a whole stream is proved here once and used
  by every view through an interpretation.
\<close>

section \<open>A flag that only a trigger sets: \<open>latch\<close>\<close>

locale latch =
  fixes step :: "'s \<Rightarrow> 'e \<Rightarrow> 's"
    and flag :: "'s \<Rightarrow> bool"
    and trigger :: "'e \<Rightarrow> bool"
  assumes flag_step: "flag (step s e) \<longleftrightarrow> flag s \<or> trigger e"
begin

lemma flag_fold: "flag (foldl step s es) \<longleftrightarrow> flag s \<or> (\<exists>e \<in> set es. trigger e)"
  by (induction es arbitrary: s) (auto simp: flag_step)

lemma flag_stays: "flag (foldl step s es) \<Longrightarrow> flag (foldl step s (es @ es'))"
  unfolding flag_fold by auto

end

section \<open>A counter of triggers: \<open>tally\<close>\<close>

locale tally =
  fixes step :: "'s \<Rightarrow> 'e \<Rightarrow> 's"
    and total :: "'s \<Rightarrow> int"
    and trigger :: "'e \<Rightarrow> bool"
  assumes total_step: "total (step s e) = total s + (if trigger e then 1 else 0)"
begin

lemma total_fold: "total (foldl step s es) = total s + int (length (filter trigger es))"
  by (induction es arbitrary: s) (auto simp: total_step)

end

section \<open>A capped log of selected events: \<open>capped_log\<close>\<close>

locale capped_log =
  fixes step :: "'s \<Rightarrow> 'e \<Rightarrow> 's"
    and log :: "'s \<Rightarrow> 'e list"
    and sel :: "'e \<Rightarrow> bool"
    and cap :: nat
  assumes log_step: "log (step s e) = (if sel e then last_n cap (log s @ [e]) else log s)"
begin

lemma log_fold:
  "length (log s) \<le> cap \<Longrightarrow> log (foldl step s es) = last_n cap (log s @ filter sel es)"
proof (induction es arbitrary: s)
  case (Cons e es)
  have "length (log (step s e)) \<le> cap"
    using Cons.prems by (simp add: log_step)
  from Cons.IH[OF this] show ?case
    by (simp add: log_step last_n_append_last_n)
qed simp

lemma log_capped: "length (log s) \<le> cap \<Longrightarrow> length (log (foldl step s es)) \<le> cap"
  by (simp add: log_fold)

end

section \<open>A field the latest report overwrites: \<open>last_report\<close>\<close>

text \<open>The last non-null report of a list, if there is one.\<close>

fun last_some :: "'v option list \<Rightarrow> 'v option" where
  "last_some [] = None"
| "last_some (x # xs) = nullish (last_some xs) x"

lemma last_some_append: "last_some (xs @ ys) = nullish (last_some ys) (last_some xs)"
proof (induction xs)
  case Nil
  show ?case by (cases "last_some ys") auto
next
  case (Cons x xs)
  then show ?case by (cases "last_some ys") auto
qed

lemma last_some_None_iff: "last_some xs = None \<longleftrightarrow> (\<forall>x \<in> set xs. x = None)"
proof (induction xs)
  case (Cons x xs)
  then show ?case by (cases "last_some xs") auto
qed simp

lemma last_some_map_option: "last_some (map (\<lambda>x. map_option g (f x)) xs) = map_option g (last_some (map f xs))"
proof (induction xs)
  case (Cons x xs)
  then show ?case by (cases "last_some (map f xs)") auto
qed simp

lemma last_some_map_filter:
  "last_some (map f xs) = (if List.map_filter f xs = [] then None else Some (last (List.map_filter f xs)))"
proof (induction xs)
  case (Cons x xs)
  then show ?case by (cases "f x") (auto simp: List.map_filter_simps)
qed simp

lemma last_some_in: "last_some xs = Some v \<Longrightarrow> Some v \<in> set xs"
proof (induction xs)
  case (Cons x xs)
  then show ?case by (cases "last_some xs") auto
qed simp

locale last_report =
  fixes step :: "'s \<Rightarrow> 'e \<Rightarrow> 's"
    and inv :: "'s \<Rightarrow> bool"
    and field :: "'s \<Rightarrow> 'v option"
    and report :: "'e \<Rightarrow> 'v option"
  assumes inv_step: "inv s \<Longrightarrow> inv (step s e)"
    and field_step: "inv s \<Longrightarrow> field (step s e) = nullish (report e) (field s)"
begin

lemma field_fold:
  "inv s \<Longrightarrow> field (foldl step s es) = nullish (last_some (map report es)) (field s)"
proof (induction es arbitrary: s)
  case (Cons e es)
  then show ?case
    by (cases "last_some (map report es)"; cases "report e") (auto simp: field_step inv_step)
qed simp

lemma field_justified:
  assumes "inv s" and "field s = None" and "field (foldl step s es) = Some v"
  shows "\<exists>e \<in> set es. report e = Some v"
  using assms last_some_in[of "map report es" v]
  by (cases "last_some (map report es)") (auto simp: field_fold)

end

section \<open>A field the latest report replaces, whatever its type: \<open>overwritten\<close>\<close>

locale overwritten =
  fixes step :: "'s \<Rightarrow> 'e \<Rightarrow> 's"
    and field :: "'s \<Rightarrow> 'v"
    and report :: "'e \<Rightarrow> 'v option"
  assumes field_step: "field (step s e) = or_default (report e) (field s)"
begin

lemma field_fold: "field (foldl step s es) = or_default (last_some (map report es)) (field s)"
proof (induction es arbitrary: s)
  case (Cons e es)
  then show ?case
    by (cases "last_some (map report es)"; cases "report e") (auto simp: field_step)
qed simp

end

text \<open>A \<open>last_report\<close> without invariant is an \<open>overwritten\<close> field whose reports are never null.\<close>

locale last_value =
  fixes step :: "'s \<Rightarrow> 'e \<Rightarrow> 's"
    and field :: "'s \<Rightarrow> 'v option"
    and report :: "'e \<Rightarrow> 'v option"
  assumes value_step: "field (step s e) = nullish (report e) (field s)"

sublocale last_value \<subseteq> last_report step "\<lambda>_. True" field report
  by unfold_locales (simp_all add: value_step)

section \<open>A field only the first report sets: \<open>first_report\<close>\<close>

fun first_some :: "'v option list \<Rightarrow> 'v option" where
  "first_some [] = None"
| "first_some (x # xs) = nullish x (first_some xs)"

lemma first_some_in: "first_some xs = Some v \<Longrightarrow> Some v \<in> set xs"
proof (induction xs)
  case (Cons x xs)
  then show ?case by (cases x) auto
qed simp

lemma first_some_None_iff: "first_some xs = None \<longleftrightarrow> (\<forall>x \<in> set xs. x = None)"
proof (induction xs)
  case (Cons x xs)
  then show ?case by (cases x) auto
qed simp

lemma first_some_append: "first_some (xs @ ys) = nullish (first_some xs) (first_some ys)"
proof (induction xs)
  case (Cons x xs)
  then show ?case by (cases x) auto
qed simp

locale first_report =
  fixes step :: "'s \<Rightarrow> 'e \<Rightarrow> 's"
    and field :: "'s \<Rightarrow> 'v option"
    and report :: "'e \<Rightarrow> 'v option"
  assumes field_step: "field (step s e) = nullish (field s) (report e)"
begin

lemma field_fold: "field (foldl step s es) = nullish (field s) (first_some (map report es))"
proof (induction es arbitrary: s)
  case Nil
  show ?case by (cases "field s") auto
next
  case (Cons e es)
  show ?case
    by (cases "field s"; cases "report e") (auto simp: field_step Cons.IH)
qed

text \<open>Pinned: once set, later events never change it.\<close>

lemma field_pinned: "field s = Some v \<Longrightarrow> field (foldl step s es) = Some v"
  by (simp add: field_fold)

end

section \<open>A list the selected events are appended to: \<open>append_log\<close>\<close>

locale guarded_append_log =
  fixes step :: "'s \<Rightarrow> 'e \<Rightarrow> 's"
    and inv :: "'s \<Rightarrow> bool"
    and log :: "'s \<Rightarrow> 'v list"
    and entry :: "'e \<Rightarrow> 'v option"
  assumes inv_step: "inv s \<Longrightarrow> inv (step s e)"
    and log_step: "inv s \<Longrightarrow> log (step s e) = log s @ (case entry e of None \<Rightarrow> [] | Some v \<Rightarrow> [v])"
begin

lemma inv_fold: "inv s \<Longrightarrow> inv (foldl step s es)"
  by (induction es arbitrary: s) (auto simp: inv_step)

lemma guarded_log_fold: "inv s \<Longrightarrow> log (foldl step s es) = log s @ List.map_filter entry es"
  by (induction es arbitrary: s) (auto simp: inv_step log_step map_filter_simps split: option.splits)

end

locale append_log =
  fixes step :: "'s \<Rightarrow> 'e \<Rightarrow> 's"
    and log :: "'s \<Rightarrow> 'v list"
    and entry :: "'e \<Rightarrow> 'v option"
  assumes append_step: "log (step s e) = log s @ (case entry e of None \<Rightarrow> [] | Some v \<Rightarrow> [v])"

sublocale append_log \<subseteq> guarded_append_log step "\<lambda>_. True" log entry
  by unfold_locales (simp_all add: append_step)

context append_log
begin

lemma log_fold: "log (foldl step s es) = log s @ List.map_filter entry es"
  by (simp add: guarded_log_fold)

end

end
