(* ===== verification/Stream_Reducer.thy ===== *)
theory Stream_Reducer
  imports Schema Event_Folds
begin

text \<open>
  \<open>frontend/src/lib/stream/reducer.ts\<close>: the graph state every live and replayed view is folded
  into. A snapshot frame replaces the structure, an event frame is applied to it, and an event of
  an unknown schema version is an error. The state keeps its maps in insertion order; the node map
  is keyed by node id, the incident map by agent id.
\<close>

section \<open>State\<close>

definition CURRENT_SCHEMA_VERSION :: int where "CURRENT_SCHEMA_VERSION = 1"
definition EVENT_LOG_CAP :: nat where "EVENT_LOG_CAP = 200"
definition INCIDENT_LOG_CAP :: nat where "INCIDENT_LOG_CAP = 50"

definition INCIDENT_EVENT_TYPES :: "event_type list" where
  "INCIDENT_EVENT_TYPES = [COMPROMISE_ATTEMPTED, COMPROMISE_SUCCEEDED, COMPROMISE_FAILED,
     ANOMALY_DETECTED, AGENT_QUARANTINED]"

record live_metrics =
  newCompromises :: int
  modelCalls :: int

record graph_state =
  gs_experimentId :: "string option"
  gs_lastSeq :: int
  gs_tick :: int
  gs_nodes :: "(string, node_view) jsmap"
  gs_edges :: "edge_view list"
  gs_recentEvents :: "event list"
  gs_metrics :: live_metrics
  gs_incidentsByAgent :: "(string, event list) jsmap"

definition initialGraphState :: graph_state where
  "initialGraphState = \<lparr>gs_experimentId = None, gs_lastSeq = -1, gs_tick = 0, gs_nodes = [], gs_edges = [],
     gs_recentEvents = [], gs_metrics = \<lparr>newCompromises = 0, modelCalls = 0\<rparr>, gs_incidentsByAgent = []\<rparr>"

section \<open>Operations\<close>

text \<open>The agents an event names: a set in the order the code adds them, empty ids left out.\<close>

definition incident_agents :: "event \<Rightarrow> string list" where
  "incident_agents e =
     (let add = (\<lambda>acc x. case x of Some s \<Rightarrow> if s \<noteq> [] then set_add acc s else acc | None \<Rightarrow> acc)
      in add (add (add [] (e_agent_id e)) (e_source_agent_id e)) (e_target_agent_id e))"

definition log_incident :: "event \<Rightarrow> string \<Rightarrow> (string, event list) jsmap \<Rightarrow> (string, event list) jsmap" where
  "log_incident e agentId m =
     map_set m agentId (last_n INCIDENT_LOG_CAP (or_default (map_get m agentId) [] @ [e]))"

definition recordIncident :: "(string, event list) jsmap \<Rightarrow> event \<Rightarrow> (string, event list) jsmap" where
  "recordIncident m e =
     (if e_event_type e \<notin> set INCIDENT_EVENT_TYPES then m
      else if incident_agents e = [] then m
      else fold (log_incident e) (incident_agents e) m)"

record stream_metrics =
  sm_total :: nat
  sm_healthy :: nat
  sm_compromised :: nat
  sm_quarantined :: nat
  sm_newCompromises :: int
  sm_totalExposure :: nat
  sm_outbreakDuration :: int
  sm_modelCalls :: int

fun count_states :: "node_view list \<Rightarrow> nat \<times> nat \<times> nat \<Rightarrow> nat \<times> nat \<times> nat" where
  "count_states [] acc = acc"
| "count_states (n # ns) (healthy, compromised, quarantined) =
     count_states ns
       (if nv_security_state n = Compromised then (healthy, compromised + 1, quarantined)
        else if nv_security_state n = Quarantined then (healthy, compromised, quarantined + 1)
        else if nv_security_state n = Healthy then (healthy + 1, compromised, quarantined)
        else (healthy, compromised, quarantined))"

definition selectMetrics :: "graph_state \<Rightarrow> stream_metrics" where
  "selectMetrics s =
     (let (healthy, compromised, quarantined) = count_states (map_values (gs_nodes s)) (0, 0, 0)
      in \<lparr>sm_total = length (gs_nodes s), sm_healthy = healthy, sm_compromised = compromised,
          sm_quarantined = quarantined, sm_newCompromises = newCompromises (gs_metrics s),
          sm_totalExposure = compromised + quarantined, sm_outbreakDuration = gs_tick s,
          sm_modelCalls = modelCalls (gs_metrics s)\<rparr>)"

definition exposed :: "node_view \<Rightarrow> bool" where
  "exposed n = (nv_security_state n = Compromised \<or> nv_security_state n = Quarantined)"

definition index_nodes :: "node_view list \<Rightarrow> (string, node_view) jsmap" where
  "index_nodes ns = fold (\<lambda>n m. map_set m (nv_id n) n) ns []"

definition reduce_snapshot :: "graph_state \<Rightarrow> snapshot_frame \<Rightarrow> graph_state" where
  "reduce_snapshot s f =
     (let sameExperiment = (Some (sf_experiment_id f) = gs_experimentId s);
          initialExposure = (if sameExperiment then 0 else int (length (filter exposed (sf_nodes f))))
      in \<lparr>gs_experimentId = Some (sf_experiment_id f),
          gs_lastSeq = sf_last_seq f,
          gs_tick = sf_sim_tick f,
          gs_nodes = index_nodes (sf_nodes f),
          gs_edges = sf_edges f,
          gs_recentEvents = (if sameExperiment then gs_recentEvents s else []),
          gs_metrics = (if sameExperiment then gs_metrics s
                     else \<lparr>newCompromises = initialExposure, modelCalls = 0\<rparr>),
          gs_incidentsByAgent = (if sameExperiment then gs_incidentsByAgent s else [])\<rparr>)"

text \<open>\<open>COMPROMISE_SUCCEEDED\<close> on a known target: compromised, and attributed to its source unless
  the event repeats an earlier compromise.\<close>

definition mark_compromised :: "event \<Rightarrow> node_view \<Rightarrow> node_view" where
  "mark_compromised e n =
     (if meta_is_true e ''already_compromised'' then n\<lparr>nv_security_state := Compromised\<rparr>
      else n\<lparr>nv_security_state := Compromised, nv_compromised_by := e_source_agent_id e,
             nv_tick_compromised := Some (e_sim_tick e)\<rparr>)"

definition apply_compromise :: "graph_state \<Rightarrow> event \<Rightarrow> (string, node_view) jsmap \<Rightarrow> (string, node_view) jsmap" where
  "apply_compromise s e m =
     (case e_target_agent_id e of
        Some target \<Rightarrow>
          if e_event_type e = COMPROMISE_SUCCEEDED \<and> target \<noteq> [] then
            (case map_get (gs_nodes s) target of
               Some existing \<Rightarrow> map_set m target (mark_compromised e existing)
             | None \<Rightarrow> m)
          else m
      | None \<Rightarrow> m)"

definition apply_quarantine :: "graph_state \<Rightarrow> event \<Rightarrow> (string, node_view) jsmap \<Rightarrow> (string, node_view) jsmap" where
  "apply_quarantine s e m =
     (case e_agent_id e of
        Some agent \<Rightarrow>
          if e_event_type e = AGENT_QUARANTINED \<and> agent \<noteq> [] then
            (case map_get (gs_nodes s) agent of
               Some existing \<Rightarrow> map_set m agent (existing\<lparr>nv_security_state := Quarantined\<rparr>)
             | None \<Rightarrow> m)
          else m
      | None \<Rightarrow> m)"

definition count_event :: "event \<Rightarrow> live_metrics \<Rightarrow> live_metrics" where
  "count_event e m0 =
     (let m1 = (if e_event_type e = COMPROMISE_SUCCEEDED \<and> \<not> meta_is_true e ''already_compromised''
                then m0\<lparr>newCompromises := newCompromises m0 + 1\<rparr> else m0)
      in if e_event_type e = MODEL_REQUESTED then m1\<lparr>modelCalls := modelCalls m1 + 1\<rparr> else m1)"

definition schema_error :: "int \<Rightarrow> string" where
  "schema_error v = ''Unrecognized schema_version '' @ show_int v @ ''; this client understands '' @
     show_int CURRENT_SCHEMA_VERSION @ ''.''"

text \<open>The state after an event the client understands.\<close>

definition apply_event :: "graph_state \<Rightarrow> event \<Rightarrow> graph_state" where
  "apply_event s e =
     s\<lparr>gs_lastSeq := e_seq e,
       gs_tick := e_sim_tick e,
       gs_nodes := apply_quarantine s e (apply_compromise s e (gs_nodes s)),
       gs_recentEvents := last_n EVENT_LOG_CAP (gs_recentEvents s @ [e]),
       gs_metrics := count_event e (gs_metrics s),
       gs_incidentsByAgent := recordIncident (gs_incidentsByAgent s) e\<rparr>"

fun reduce :: "graph_state \<Rightarrow> stream_frame \<Rightarrow> string + graph_state" where
  "reduce s (SnapshotFrame f) = Inr (reduce_snapshot s f)"
| "reduce s (EventFrame e) =
     (if e_schema_version e \<noteq> CURRENT_SCHEMA_VERSION then Inl (schema_error (e_schema_version e))
      else Inr (apply_event s e))"

text \<open>A stream of frames, stopped by the first error as the exception would.\<close>

fun reduce_all :: "graph_state \<Rightarrow> stream_frame list \<Rightarrow> string + graph_state" where
  "reduce_all s [] = Inr s"
| "reduce_all s (f # fs) = (case reduce s f of Inl err \<Rightarrow> Inl err | Inr s' \<Rightarrow> reduce_all s' fs)"


section \<open>Errors and the fold of a stream\<close>

lemma reduce_all_append:
  "reduce_all s (fs @ gs) = (case reduce_all s fs of Inl err \<Rightarrow> Inl err | Inr s' \<Rightarrow> reduce_all s' gs)"
  by (induction fs arbitrary: s) (auto split: sum.splits)

lemma reduce_all_known:
  "(\<forall>e \<in> set es. e_schema_version e = CURRENT_SCHEMA_VERSION) \<Longrightarrow>
     reduce_all s (map EventFrame es) = Inr (foldl apply_event s es)"
  by (induction es arbitrary: s) auto

definition unknown_version :: "event \<Rightarrow> bool" where
  "unknown_version e = (e_schema_version e \<noteq> CURRENT_SCHEMA_VERSION)"

text \<open>C23. An event stream is folded completely, unless some event has an unknown schema version:
  then the result is the error naming the version of the first such event, and nothing else.\<close>

theorem reduce_all_events:
  "reduce_all s (map EventFrame es) =
     (case List.find unknown_version es of
        None \<Rightarrow> Inr (foldl apply_event s es)
      | Some bad \<Rightarrow> Inl (schema_error (e_schema_version bad)))"
  by (induction es arbitrary: s) (auto simp: unknown_version_def split: option.splits)

section \<open>What each field holds after a stream\<close>

text \<open>The incidents of one agent, and the events that are logged for it.\<close>

definition incident_log :: "string \<Rightarrow> graph_state \<Rightarrow> event list" where
  "incident_log a s = or_default (map_get (gs_incidentsByAgent s) a) []"

definition is_incident_for :: "string \<Rightarrow> event \<Rightarrow> bool" where
  "is_incident_for a e \<longleftrightarrow> e_event_type e \<in> set INCIDENT_EVENT_TYPES \<and> a \<noteq> [] \<and>
     (e_agent_id e = Some a \<or> e_source_agent_id e = Some a \<or> e_target_agent_id e = Some a)"

lemma incident_agents_distinct: "distinct (incident_agents e)"
  by (auto simp: incident_agents_def Let_def split: option.splits)

lemma set_incident_agents:
  "set (incident_agents e) =
     {a. a \<noteq> [] \<and> (e_agent_id e = Some a \<or> e_source_agent_id e = Some a \<or> e_target_agent_id e = Some a)}"
  by (auto simp: incident_agents_def Let_def split: option.splits)

lemma log_incidents_get:
  "distinct as \<Longrightarrow> map_get (fold (log_incident e) as m) a =
     (if a \<in> set as then Some (last_n INCIDENT_LOG_CAP (or_default (map_get m a) [] @ [e]))
      else map_get m a)"
  by (induction as arbitrary: m) (auto simp: log_incident_def)

lemma recordIncident_get:
  "map_get (recordIncident m e) a =
     (if is_incident_for a e then Some (last_n INCIDENT_LOG_CAP (or_default (map_get m a) [] @ [e]))
      else map_get m a)"
proof -
  have "is_incident_for a e \<longleftrightarrow> e_event_type e \<in> set INCIDENT_EVENT_TYPES \<and> a \<in> set (incident_agents e)"
    by (auto simp: is_incident_for_def set_incident_agents)
  then show ?thesis
    by (auto simp: recordIncident_def log_incidents_get incident_agents_distinct)
qed

interpretation recent: capped_log apply_event gs_recentEvents "\<lambda>_. True" EVENT_LOG_CAP
  by unfold_locales (simp add: apply_event_def)

interpretation incidents: capped_log apply_event "incident_log a" "is_incident_for a" INCIDENT_LOG_CAP
  for a
  by unfold_locales (simp add: apply_event_def incident_log_def recordIncident_get)

definition is_new_compromise :: "event \<Rightarrow> bool" where
  "is_new_compromise e \<longleftrightarrow>
     e_event_type e = COMPROMISE_SUCCEEDED \<and> \<not> meta_is_true e ''already_compromised''"

interpretation compromises: tally apply_event "\<lambda>s. newCompromises (gs_metrics s)" is_new_compromise
  by unfold_locales (auto simp: apply_event_def count_event_def is_new_compromise_def Let_def)

interpretation model_calls: tally apply_event "\<lambda>s. modelCalls (gs_metrics s)"
    "\<lambda>e. e_event_type e = MODEL_REQUESTED"
  by unfold_locales (auto simp: apply_event_def count_event_def Let_def)

text \<open>Events never add, drop or reorder nodes: the structure comes from snapshots only.\<close>

lemma apply_compromise_keys:
  "map_keys m = map_keys (gs_nodes s) \<Longrightarrow> map_keys (apply_compromise s e m) = map_keys (gs_nodes s)"
  by (simp add: apply_compromise_def map_keys_set_known split: option.splits)

lemma apply_quarantine_keys:
  "map_keys m = map_keys (gs_nodes s) \<Longrightarrow> map_keys (apply_quarantine s e m) = map_keys (gs_nodes s)"
  by (simp add: apply_quarantine_def map_keys_set_known split: option.splits)

lemma apply_event_keys: "map_keys (gs_nodes (apply_event s e)) = map_keys (gs_nodes s)"
  by (simp add: apply_event_def apply_compromise_keys apply_quarantine_keys)

lemma fold_events_keys: "map_keys (gs_nodes (foldl apply_event s es)) = map_keys (gs_nodes s)"
  by (induction es arbitrary: s) (auto simp: apply_event_keys)

text \<open>What an event says about the security state of one agent.\<close>

definition state_report :: "string \<Rightarrow> event \<Rightarrow> security_state option" where
  "state_report a e =
     (if a = [] then None
      else if e_event_type e = COMPROMISE_SUCCEEDED \<and> e_target_agent_id e = Some a then Some Compromised
      else if e_event_type e = AGENT_QUARANTINED \<and> e_agent_id e = Some a then Some Quarantined
      else None)"

definition agent_state :: "string \<Rightarrow> graph_state \<Rightarrow> security_state option" where
  "agent_state a s = map_option nv_security_state (map_get (gs_nodes s) a)"

lemma mark_compromised_state [simp]:
  "nv_security_state (mark_compromised e n) = Compromised" "nv_id (mark_compromised e n) = nv_id n"
  by (simp_all add: mark_compromised_def)

lemma agent_state_step:
  "agent_state a s \<noteq> None \<Longrightarrow>
     agent_state a (apply_event s e) = nullish (state_report a e) (agent_state a s)"
  by (auto simp: agent_state_def apply_event_def apply_compromise_def apply_quarantine_def
      state_report_def split: option.splits)

interpretation agent_states: last_report apply_event "\<lambda>s. agent_state a s \<noteq> None" "agent_state a"
    "state_report a" for a
proof unfold_locales
  fix s e
  assume "agent_state a s \<noteq> None"
  then show "agent_state a (apply_event s e) \<noteq> None"
    by (auto simp: agent_state_step) (cases "state_report a e"; auto)
qed (rule agent_state_step)


text \<open>
  The contract of the reducer, as a view of the events alone: a client that attached to a run at
  snapshot \<open>f\<close> and then saw the events \<open>es\<close> has exactly this on screen.
\<close>

record client_view =
  cv_log :: "event list"
  cv_compromises :: int
  cv_model_calls :: int
  cv_incidents :: "string \<Rightarrow> event list"
  cv_agents :: "string list"
  cv_state :: "string \<Rightarrow> security_state option"

definition view_of :: "graph_state \<Rightarrow> client_view" where
  "view_of s = \<lparr>cv_log = gs_recentEvents s, cv_compromises = newCompromises (gs_metrics s),
     cv_model_calls = modelCalls (gs_metrics s), cv_incidents = (\<lambda>a. incident_log a s),
     cv_agents = map_keys (gs_nodes s), cv_state = (\<lambda>a. agent_state a s)\<rparr>"

definition spec_view :: "snapshot_frame \<Rightarrow> event list \<Rightarrow> client_view" where
  "spec_view f es =
     (let start = index_nodes (sf_nodes f);
          state0 = (\<lambda>a. map_option nv_security_state (map_get start a))
      in \<lparr>cv_log = last_n EVENT_LOG_CAP es,
          cv_compromises = int (length (filter exposed (sf_nodes f))) + int (length (filter is_new_compromise es)),
          cv_model_calls = int (length (filter (\<lambda>e. e_event_type e = MODEL_REQUESTED) es)),
          cv_incidents = (\<lambda>a. last_n INCIDENT_LOG_CAP (filter (is_incident_for a) es)),
          cv_agents = map_keys start,
          cv_state = (\<lambda>a. if state0 a = None then None
                          else nullish (last_some (map (state_report a) es)) (state0 a))\<rparr>)"

lemma agent_state_None_iff: "agent_state a s = None \<longleftrightarrow> a \<notin> set (map_keys (gs_nodes s))"
  by (simp add: agent_state_def map_of_eq_None_iff)

lemma agent_state_fold:
  "agent_state a (foldl apply_event s es) =
     (if agent_state a s = None then None
      else nullish (last_some (map (state_report a) es)) (agent_state a s))"
  using agent_states.field_fold[of a s es] fold_events_keys[of s es]
    agent_state_None_iff[of a s] agent_state_None_iff[of a "foldl apply_event s es"] by auto

lemma reduces_to_spec_view:
  assumes "gs_experimentId s \<noteq> Some (sf_experiment_id f)"
    and "\<forall>e \<in> set es. e_schema_version e = CURRENT_SCHEMA_VERSION"
  shows "\<exists>t. reduce_all s (SnapshotFrame f # map EventFrame es) = Inr t \<and> view_of t = spec_view f es"
proof -
  let ?s = "reduce_snapshot s f"
  have start: "gs_recentEvents ?s = []" "gs_incidentsByAgent ?s = []" "gs_nodes ?s = index_nodes (sf_nodes f)"
    "newCompromises (gs_metrics ?s) = int (length (filter exposed (sf_nodes f)))"
    "modelCalls (gs_metrics ?s) = 0"
    using assms(1) by (auto simp: reduce_snapshot_def Let_def)
  have "view_of (foldl apply_event ?s es) = spec_view f es"
    by (simp add: view_of_def spec_view_def Let_def start recent.log_fold incidents.log_fold
        compromises.total_fold model_calls.total_fold fold_events_keys agent_state_fold
        incident_log_def[of _ ?s] agent_state_def[of _ ?s] fun_eq_iff)
  then show ?thesis
    using assms(2) by (auto simp: reduce_all_known)
qed

text \<open>C1. After a snapshot of another run and any events the client understands, the graph state
  shows what the specification computes from the snapshot and the events alone: the last 200
  events, for each agent its last 50 incidents, the number of compromises (those already visible
  in the snapshot included, however many events were dropped from the log) and of model calls,
  the snapshot's agents, and for each the state the last event about it set.\<close>

theorem reduce_refines_spec_view:
  assumes "gs_experimentId s \<noteq> Some (sf_experiment_id f)"
    and "\<forall>e \<in> set es. e_schema_version e = CURRENT_SCHEMA_VERSION"
  shows "\<exists>t. reduce_all s (SnapshotFrame f # map EventFrame es) = Inr t \<and> view_of t = spec_view f es"
  by (rule reduces_to_spec_view[OF assms])

definition demo_node :: "string \<Rightarrow> security_state \<Rightarrow> node_view" where
  "demo_node a st = \<lparr>nv_id = a, nv_software_type = ''nginx'', nv_security_state = st,
     nv_compromised_by = None, nv_tick_compromised = None, nv_agent_kind = Simulated\<rparr>"

definition demo_event :: "int \<Rightarrow> event_type \<Rightarrow> string option \<Rightarrow> string option \<Rightarrow> event" where
  "demo_event n ty a target = \<lparr>e_sim_tick = n, e_event_type = ty, e_agent_id = a,
     e_source_agent_id = None, e_target_agent_id = target, e_metadata = None, e_event_id = show_int n,
     e_seq = n, e_schema_version = 1, e_experiment_id = ''run'', e_wall_time = ''2026-09-05T10:00:00Z''\<rparr>"

definition demo_snapshot :: snapshot_frame where
  "demo_snapshot = \<lparr>sf_experiment_id = ''run'', sf_last_seq = 0, sf_sim_tick = 0, sf_status = RsRunning,
     sf_nodes = [demo_node ''a'' Healthy, demo_node ''b'' Compromised], sf_edges = []\<rparr>"

theorem reduce_refines_spec_view_witness:
  "\<exists>t. reduce_all initialGraphState
        (SnapshotFrame demo_snapshot #
         map EventFrame [demo_event 1 COMPROMISE_SUCCEEDED None (Some ''a''),
                         demo_event 2 AGENT_QUARANTINED (Some ''a'') None]) = Inr t \<and>
     view_of t = spec_view demo_snapshot [demo_event 1 COMPROMISE_SUCCEEDED None (Some ''a''),
                         demo_event 2 AGENT_QUARANTINED (Some ''a'') None] \<and>
     cv_compromises (view_of t) = 2 \<and> cv_state (view_of t) ''a'' = Some Quarantined"
proof -
  let ?es = "[demo_event 1 COMPROMISE_SUCCEEDED None (Some ''a''), demo_event 2 AGENT_QUARANTINED (Some ''a'') None]"
  have "gs_experimentId initialGraphState \<noteq> Some (sf_experiment_id demo_snapshot)"
    and "\<forall>e \<in> set ?es. e_schema_version e = CURRENT_SCHEMA_VERSION"
    by (simp_all add: initialGraphState_def demo_event_def CURRENT_SCHEMA_VERSION_def)
  from reduce_refines_spec_view[OF this] obtain t
    where t: "reduce_all initialGraphState (SnapshotFrame demo_snapshot # map EventFrame ?es) = Inr t"
      and view: "view_of t = spec_view demo_snapshot ?es" by blast
  have "cv_compromises (spec_view demo_snapshot ?es) = 2"
    by (simp add: spec_view_def Let_def demo_snapshot_def demo_node_def demo_event_def exposed_def
        is_new_compromise_def meta_is_true_def meta_at_def)
  moreover have "cv_state (spec_view demo_snapshot ?es) ''a'' = Some Quarantined"
    by (simp add: spec_view_def Let_def demo_snapshot_def demo_node_def demo_event_def index_nodes_def
        state_report_def)
  ultimately show ?thesis using t view by (intro exI[of _ t]) simp
qed

section \<open>Well-formedness\<close>

text \<open>
  The maps have one entry per key, a node is stored under its own id, the logs respect their caps,
  an agent's log holds only incidents that name it, and the counters are never negative.
\<close>

definition nodes_wf :: "(string, node_view) jsmap \<Rightarrow> bool" where
  "nodes_wf m \<longleftrightarrow> distinct (map_keys m) \<and> (\<forall>(k, n) \<in> set m. nv_id n = k)"

definition incidents_wf :: "(string, event list) jsmap \<Rightarrow> bool" where
  "incidents_wf m \<longleftrightarrow> distinct (map_keys m) \<and>
     (\<forall>(a, log) \<in> set m. log \<noteq> [] \<and> length log \<le> INCIDENT_LOG_CAP \<and> list_all (is_incident_for a) log)"

definition gs_wf :: "graph_state \<Rightarrow> bool" where
  "gs_wf s \<longleftrightarrow> nodes_wf (gs_nodes s) \<and> incidents_wf (gs_incidentsByAgent s) \<and>
     length (gs_recentEvents s) \<le> EVENT_LOG_CAP \<and>
     0 \<le> newCompromises (gs_metrics s) \<and> 0 \<le> modelCalls (gs_metrics s)"

lemma nodes_wf_set: "nodes_wf m \<Longrightarrow> nv_id n = k \<Longrightarrow> nodes_wf (map_set m k n)"
  by (auto simp: nodes_wf_def distinct_update dest!: map_set_in)

lemma nodes_wf_get: "nodes_wf m \<Longrightarrow> map_get m k = Some n \<Longrightarrow> nv_id n = k"
  by (auto simp: nodes_wf_def dest: map_of_SomeD)

lemma index_nodes_wf: "nodes_wf (index_nodes ns)"
proof -
  have "nodes_wf m \<Longrightarrow> nodes_wf (fold (\<lambda>n m. map_set m (nv_id n) n) ns m)" for m
    by (induction ns arbitrary: m) (auto simp: nodes_wf_set)
  from this[of "[]"] show ?thesis by (simp add: index_nodes_def nodes_wf_def[of "[]"])
qed

lemma apply_event_nodes_wf: "nodes_wf (gs_nodes s) \<Longrightarrow> nodes_wf (gs_nodes (apply_event s e))"
  by (auto simp: apply_event_def apply_compromise_def apply_quarantine_def split: option.splits
      intro!: nodes_wf_set dest: nodes_wf_get)

lemma log_incident_wf:
  assumes wf: "incidents_wf m" and named: "is_incident_for a e"
  shows "incidents_wf (log_incident e a m)"
proof -
  let ?old = "or_default (map_get m a) []"
  have "list_all (is_incident_for a) ?old"
    using wf by (cases "map_get m a") (auto simp: incidents_wf_def dest: map_of_SomeD)
  then have "list_all (is_incident_for a) (last_n INCIDENT_LOG_CAP (?old @ [e]))"
    using named set_last_n[of INCIDENT_LOG_CAP "?old @ [e]"] by (auto simp: list_all_iff)
  moreover have "last_n INCIDENT_LOG_CAP (?old @ [e]) \<noteq> []"
    by (simp add: last_n_def INCIDENT_LOG_CAP_def)
  ultimately show ?thesis
    using wf by (auto simp: incidents_wf_def log_incident_def distinct_update dest!: map_set_in)
qed

lemma log_incidents_wf:
  "incidents_wf m \<Longrightarrow> (\<forall>a \<in> set as. is_incident_for a e) \<Longrightarrow> incidents_wf (fold (log_incident e) as m)"
  by (induction as arbitrary: m) (auto simp: log_incident_wf)

lemma recordIncident_wf: "incidents_wf m \<Longrightarrow> incidents_wf (recordIncident m e)"
  by (auto simp: recordIncident_def set_incident_agents is_incident_for_def intro: log_incidents_wf)

lemma apply_event_wf: "gs_wf s \<Longrightarrow> gs_wf (apply_event s e)"
  unfolding gs_wf_def
  by (auto simp: apply_event_nodes_wf) (auto simp: apply_event_def recordIncident_wf count_event_def Let_def)

lemma reduce_snapshot_wf: "gs_wf s \<Longrightarrow> gs_wf (reduce_snapshot s f)"
  by (auto simp: gs_wf_def reduce_snapshot_def Let_def index_nodes_wf incidents_wf_def)

lemma reduce_wf: "gs_wf s \<Longrightarrow> reduce s f = Inr t \<Longrightarrow> gs_wf t"
  by (cases f) (auto simp: apply_event_wf reduce_snapshot_wf split: if_splits)

lemma initialGraphState_wf: "gs_wf initialGraphState"
  by (simp add: gs_wf_def initialGraphState_def nodes_wf_def incidents_wf_def)

lemma reduce_all_wf: "gs_wf s \<Longrightarrow> reduce_all s fs = Inr t \<Longrightarrow> gs_wf t"
  by (induction fs arbitrary: s) (auto split: sum.splits dest: reduce_wf)

text \<open>C2. Whatever frames arrive, in whatever order, the state a client folds from them is well
  formed: the caps of 200 events and 50 incidents per agent hold, an agent's incident log is not
  empty and holds only incidents naming that agent, and a node sits under its own id.\<close>

theorem reachable_graph_state_wf:
  assumes "reduce_all initialGraphState fs = Inr t"
  shows "gs_wf t"
  using reduce_all_wf[OF initialGraphState_wf assms] .

theorem reachable_graph_state_wf_witness:
  "gs_wf (apply_event (reduce_snapshot initialGraphState demo_snapshot)
            (demo_event 1 AGENT_QUARANTINED (Some ''a'') None))"
  by (rule reachable_graph_state_wf[where fs = "[SnapshotFrame demo_snapshot,
        EventFrame (demo_event 1 AGENT_QUARANTINED (Some ''a'') None)]"])
    (simp add: demo_event_def CURRENT_SCHEMA_VERSION_def)

section \<open>Reconnecting, and the derived metrics\<close>

text \<open>A snapshot of the run already on screen keeps the accumulated history and counters;
  a snapshot of any other run erases every trace of the previous one, so the resulting state is
  the same as for a client that starts fresh.\<close>

theorem snapshot_history:
  "(if gs_experimentId s = Some (sf_experiment_id f)
    then gs_recentEvents (reduce_snapshot s f) = gs_recentEvents s \<and>
         gs_incidentsByAgent (reduce_snapshot s f) = gs_incidentsByAgent s \<and>
         gs_metrics (reduce_snapshot s f) = gs_metrics s
    else reduce_snapshot s f = reduce_snapshot initialGraphState f) \<and>
   gs_nodes (reduce_snapshot s f) = index_nodes (sf_nodes f) \<and>
   gs_lastSeq (reduce_snapshot s f) = sf_last_seq f"
  by (auto simp: reduce_snapshot_def initialGraphState_def Let_def)

lemma count_states_filter:
  "count_states ns (h, c, q) =
     (h + length (filter (\<lambda>n. nv_security_state n = Healthy) ns),
      c + length (filter (\<lambda>n. nv_security_state n = Compromised) ns),
      q + length (filter (\<lambda>n. nv_security_state n = Quarantined) ns))"
  by (induction ns arbitrary: h c q) auto

lemma selectMetrics_counts:
  "sm_healthy (selectMetrics s) = length (filter (\<lambda>n. nv_security_state n = Healthy) (map_values (gs_nodes s)))"
  "sm_compromised (selectMetrics s) = length (filter (\<lambda>n. nv_security_state n = Compromised) (map_values (gs_nodes s)))"
  "sm_quarantined (selectMetrics s) = length (filter (\<lambda>n. nv_security_state n = Quarantined) (map_values (gs_nodes s)))"
  "sm_total (selectMetrics s) = length (gs_nodes s)"
  "sm_totalExposure (selectMetrics s) = sm_compromised (selectMetrics s) + sm_quarantined (selectMetrics s)"
  "sm_newCompromises (selectMetrics s) = newCompromises (gs_metrics s)"
  by (simp_all add: selectMetrics_def count_states_filter)

lemma length_filter_states:
  "length (filter (\<lambda>n. nv_security_state n = Healthy) ns) +
   length (filter (\<lambda>n. nv_security_state n = Compromised) ns) +
   length (filter (\<lambda>n. nv_security_state n = Quarantined) ns) +
   length (filter (\<lambda>n. nv_security_state n \<in> {Suspicious, Recovered}) ns) = length ns"
proof (induction ns)
  case (Cons n ns)
  then show ?case by (cases "nv_security_state n") auto
qed simp

text \<open>The fleet split accounts for every node: healthy, compromised and quarantined agents plus
  those in the two states the dashboard does not count make up the total, and the exposure is the
  number of nodes that are compromised or quarantined.\<close>

theorem selectMetrics_partition:
  "sm_healthy (selectMetrics s) + sm_compromised (selectMetrics s) + sm_quarantined (selectMetrics s) +
     length (filter (\<lambda>n. nv_security_state n \<in> {Suspicious, Recovered}) (map_values (gs_nodes s))) =
     sm_total (selectMetrics s) \<and>
   sm_totalExposure (selectMetrics s) = length (filter exposed (map_values (gs_nodes s)))"
proof -
  have "length (filter (\<lambda>n. nv_security_state n = Compromised) ns) +
        length (filter (\<lambda>n. nv_security_state n = Quarantined) ns) = length (filter exposed ns)" for ns
    by (induction ns) (auto simp: exposed_def)
  from this[of "map_values (gs_nodes s)"] show ?thesis
    using length_filter_states[of "map_values (gs_nodes s)"] by (simp add: selectMetrics_counts)
qed

end
