(* ===== verification/Stream_Hook.thy ===== *)
theory Stream_Hook
  imports Stream_Reducer
begin

text \<open>
  \<open>frontend/src/lib/stream/useExperimentStream.ts\<close> and \<open>frontend/src/lib/runtime/useRuntimeStream.ts\<close>:
  the two hooks that keep a socket open, reconnect with a growing delay, refuse a gap in the
  sequence numbers and hand every accepted frame to React. The sockets, the timers and the frames
  in them are the environment: a step of \<open>hook_step\<close> is one callback, in any order.

  \<open>setState(updater)\<close> queues the updater; React runs it when it renders, and an error it throws
  while React computes the state eagerly is swallowed and thrown again by the render. So
  \<open>set_state\<close> never fails, \<open>h_updates\<close> is the queue since the mount, and \<open>rendered\<close> is what a
  render that has processed a prefix of it shows, or the error it throws. \<open>close()\<close> on a socket
  stops its messages at once; its \<open>close\<close> event is a later step.
\<close>

section \<open>State\<close>

definition MIN_BACKOFF_MS :: int where "MIN_BACKOFF_MS = 250"
definition MAX_BACKOFF_MS :: int where "MAX_BACKOFF_MS = 5000"

record web_socket =
  ws_id :: nat
  ws_since :: "int option"
  ws_closing :: bool

record reconnect_timer =
  t_id :: nat
  t_since :: "int option"
  t_delay :: int

record stream_hook =
  h_socket :: "nat option"
  h_sockets :: "web_socket list"
  h_reconnectTimer :: "nat option"
  h_timers :: "reconnect_timer list"
  h_cancelled :: bool
  h_backoff :: int
  h_expectedNextSeq :: "int option"
  h_updates :: "stream_frame list"
  h_schemaError :: "string option"
  h_next :: nat

definition initial_hook :: stream_hook where
  "initial_hook = \<lparr>h_socket = None, h_sockets = [], h_reconnectTimer = None, h_timers = [],
     h_cancelled = False, h_backoff = MIN_BACKOFF_MS, h_expectedNextSeq = None, h_updates = [],
     h_schemaError = None, h_next = 0\<rparr>"

definition rendered :: "'a stream_hook_scheme \<Rightarrow> nat \<Rightarrow> string + graph_state" where
  "rendered h n = reduce_all initialGraphState (take n (h_updates h))"

section \<open>Callbacks of \<open>useExperimentStream\<close>\<close>

definition close_socket :: "'a stream_hook_scheme \<Rightarrow> 'a stream_hook_scheme" where
  "close_socket h = (case h_socket h of
      None \<Rightarrow> h
    | Some s \<Rightarrow> h\<lparr>h_sockets := map (\<lambda>w. if ws_id w = s then w\<lparr>ws_closing := True\<rparr> else w) (h_sockets h)\<rparr>)"

definition scheduleReconnect :: "'a stream_hook_scheme \<Rightarrow> int option \<Rightarrow> 'a stream_hook_scheme" where
  "scheduleReconnect h sinceSeq =
     (if h_cancelled h then h
      else h\<lparr>h_reconnectTimer := Some (h_next h),
             h_timers := h_timers h @ [\<lparr>t_id = h_next h, t_since = sinceSeq, t_delay = h_backoff h\<rparr>],
             h_next := Suc (h_next h)\<rparr>)"

definition connect :: "'a stream_hook_scheme \<Rightarrow> int option \<Rightarrow> 'a stream_hook_scheme" where
  "connect h sinceSeq =
     (if h_cancelled h then h
      else h\<lparr>h_socket := Some (h_next h),
             h_sockets := h_sockets h @ [\<lparr>ws_id = h_next h, ws_since = sinceSeq, ws_closing = False\<rparr>],
             h_next := Suc (h_next h)\<rparr>)"

definition fire_timer :: "'a stream_hook_scheme \<Rightarrow> reconnect_timer \<Rightarrow> 'a stream_hook_scheme" where
  "fire_timer h t = connect (h\<lparr>h_timers := remove1 t (h_timers h),
     h_backoff := min (h_backoff h * 2) MAX_BACKOFF_MS\<rparr>) (t_since t)"

definition on_open :: "'a stream_hook_scheme \<Rightarrow> 'a stream_hook_scheme" where
  "on_open h = h\<lparr>h_backoff := MIN_BACKOFF_MS\<rparr>"

fun frame_next :: "stream_frame \<Rightarrow> int" where
  "frame_next (SnapshotFrame f) = sf_last_seq f + 1"
| "frame_next (EventFrame e) = e_seq e + 1"

fun is_gap :: "int option \<Rightarrow> stream_frame \<Rightarrow> bool" where
  "is_gap (Some n) (EventFrame e) = (e_seq e \<noteq> n)"
| "is_gap _ _ = False"

definition set_state :: "'a stream_hook_scheme \<Rightarrow> stream_frame \<Rightarrow> string + 'a stream_hook_scheme" where
  "set_state h frame = Inr (h\<lparr>h_updates := h_updates h @ [frame]\<rparr>)"

definition apply_frame :: "'a stream_hook_scheme \<Rightarrow> stream_frame \<Rightarrow> 'a stream_hook_scheme \<times> bool" where
  "apply_frame h frame = (case set_state h frame of
      Inr h' \<Rightarrow> (h'\<lparr>h_expectedNextSeq := Some (frame_next frame), h_schemaError := None\<rparr>, True)
    | Inl err \<Rightarrow> (h\<lparr>h_schemaError := Some err\<rparr>, False))"

definition on_message :: "'a stream_hook_scheme \<Rightarrow> stream_frame \<Rightarrow> 'a stream_hook_scheme" where
  "on_message h frame =
     (if is_gap (h_expectedNextSeq h) frame then scheduleReconnect (close_socket h) None
      else case apply_frame h frame of (h', ok) \<Rightarrow> if ok then h' else close_socket h')"

definition drop_socket :: "'a stream_hook_scheme \<Rightarrow> nat \<Rightarrow> 'a stream_hook_scheme" where
  "drop_socket h s = h\<lparr>h_sockets := filter (\<lambda>w. ws_id w \<noteq> s) (h_sockets h)\<rparr>"

definition on_close :: "'a stream_hook_scheme \<Rightarrow> nat \<Rightarrow> 'a stream_hook_scheme" where
  "on_close h s =
     (if h_cancelled h then drop_socket h s
      else scheduleReconnect (drop_socket h s) (map_option (\<lambda>n. n - 1) (h_expectedNextSeq h)))"

definition on_error :: "'a stream_hook_scheme \<Rightarrow> 'a stream_hook_scheme" where
  "on_error h = close_socket h"

definition cleanup :: "'a stream_hook_scheme \<Rightarrow> 'a stream_hook_scheme" where
  "cleanup h = close_socket (h\<lparr>h_cancelled := True,
     h_timers := filter (\<lambda>t. Some (t_id t) \<noteq> h_reconnectTimer h) (h_timers h)\<rparr>)"

text \<open>The effect of the hook: nothing without a run, one connection with it.\<close>

definition mount_stream :: "string option \<Rightarrow> stream_hook" where
  "mount_stream experimentId = (if truthy experimentId then connect initial_hook None else initial_hook)"

section \<open>Steps\<close>

inductive hook_step :: "'a stream_hook_scheme \<Rightarrow> 'a stream_hook_scheme \<Rightarrow> bool" where
  step_open: "hook_step h (on_open h)"
| step_message: "w \<in> set (h_sockets h) \<Longrightarrow> \<not> ws_closing w \<Longrightarrow> hook_step h (on_message h frame)"
| step_error: "hook_step h (on_error h)"
| step_close: "w \<in> set (h_sockets h) \<Longrightarrow> hook_step h (on_close h (ws_id w))"
| step_timer: "t \<in> set (h_timers h) \<Longrightarrow> hook_step h (fire_timer h t)"
| step_cleanup: "hook_step h (cleanup h)"

inductive hook_reachable :: "stream_hook \<Rightarrow> bool" where
  hook_mounted: "hook_reachable (mount_stream (Some eid))" if "eid \<noteq> []"
| hook_stepped: "hook_reachable h \<Longrightarrow> hook_step h h' \<Longrightarrow> hook_reachable h'"

section \<open>Invariants\<close>

text \<open>The numbering of the stream, from the frames alone: a snapshot stands for everything up to its \<open>last_seq\<close>, an
  event for its \<open>seq\<close>, and an event follows a frame if its number is the next one.\<close>

fun seq_of :: "stream_frame \<Rightarrow> int" where
  "seq_of (SnapshotFrame f) = sf_last_seq f"
| "seq_of (EventFrame e) = e_seq e"

fun follows :: "stream_frame \<Rightarrow> stream_frame \<Rightarrow> bool" where
  "follows f (SnapshotFrame g) = True"
| "follows f (EventFrame e) = (e_seq e = seq_of f + 1)"

fun contiguous :: "stream_frame list \<Rightarrow> bool" where
  "contiguous (f # g # fs) = (follows f g \<and> contiguous (g # fs))"
| "contiguous _ = True"

definition next_after :: "stream_frame list \<Rightarrow> int option" where
  "next_after fs = (if fs = [] then None else Some (seq_of (last fs) + 1))"

text \<open>The hook's test for a gap and its cursor agree with the numbering.\<close>

lemma frame_next_seq: "frame_next f = seq_of f + 1"
  by (cases f) simp_all

lemma gap_iff: "is_gap (next_after fs) f \<longleftrightarrow> fs \<noteq> [] \<and> \<not> follows (last fs) f"
  by (cases f) (simp_all add: next_after_def)

lemma contiguous_snoc: "contiguous (fs @ [f]) \<longleftrightarrow> contiguous fs \<and> \<not> is_gap (next_after fs) f"
  unfolding gap_iff by (induction fs rule: contiguous.induct) auto

lemma contiguous_nth: "contiguous fs \<longleftrightarrow> (\<forall>i. Suc i < length fs \<longrightarrow> follows (fs ! i) (fs ! Suc i))"
  by (induction fs rule: contiguous.induct) (auto simp: nth_Cons split: nat.split)

definition hook_inv :: "'a stream_hook_scheme \<Rightarrow> bool" where
  "hook_inv h \<longleftrightarrow> contiguous (h_updates h) \<and> h_expectedNextSeq h = next_after (h_updates h) \<and>
     h_schemaError h = None"

lemma hook_inv_frame_fields:
  "hook_inv (close_socket h) = hook_inv h" "hook_inv (scheduleReconnect h since) = hook_inv h"
  "hook_inv (connect h since) = hook_inv h" "hook_inv (drop_socket h s) = hook_inv h"
  "hook_inv (on_open h) = hook_inv h" "hook_inv (fire_timer h t) = hook_inv h"
  "hook_inv (cleanup h) = hook_inv h"
  by (auto simp: hook_inv_def close_socket_def scheduleReconnect_def connect_def drop_socket_def
      on_open_def fire_timer_def cleanup_def split: option.splits)

lemma on_message_accepts:
  "\<not> is_gap (h_expectedNextSeq h) frame \<Longrightarrow>
     on_message h frame = h\<lparr>h_updates := h_updates h @ [frame],
       h_expectedNextSeq := Some (frame_next frame), h_schemaError := None\<rparr>"
  by (simp add: on_message_def apply_frame_def set_state_def)

lemma on_message_inv: "hook_inv h \<Longrightarrow> hook_inv (on_message h frame)"
proof (cases "is_gap (h_expectedNextSeq h) frame")
  case True
  moreover assume "hook_inv h"
  ultimately show ?thesis by (simp add: on_message_def hook_inv_frame_fields)
next
  case False
  moreover assume "hook_inv h"
  ultimately show ?thesis
    by (simp add: on_message_accepts hook_inv_def contiguous_snoc) (simp add: next_after_def frame_next_seq)
qed

lemma hook_step_inv: "hook_step h h' \<Longrightarrow> hook_inv h \<Longrightarrow> hook_inv h'"
  by (induction rule: hook_step.induct)
    (simp_all add: hook_inv_frame_fields on_message_inv on_close_def on_error_def)

lemma hook_reachable_inv: "hook_reachable h \<Longrightarrow> hook_inv h"
  by (induction rule: hook_reachable.induct)
    (auto simp: hook_step_inv mount_stream_def hook_inv_frame_fields,
      simp add: hook_inv_def initial_hook_def next_after_def)

text \<open>The delay: between its bounds, and every pending timer within them.\<close>

definition backoff_inv :: "'a stream_hook_scheme \<Rightarrow> bool" where
  "backoff_inv h \<longleftrightarrow> h_backoff h \<in> {MIN_BACKOFF_MS..MAX_BACKOFF_MS} \<and>
     (\<forall>t \<in> set (h_timers h). t_delay t \<in> {MIN_BACKOFF_MS..MAX_BACKOFF_MS})"

lemma backoff_frame_fields:
  "h_backoff (close_socket h) = h_backoff h" "h_timers (close_socket h) = h_timers h"
  "h_backoff (connect h since) = h_backoff h" "h_timers (connect h since) = h_timers h"
  "h_backoff (drop_socket h s) = h_backoff h" "h_timers (drop_socket h s) = h_timers h"
  by (auto simp: close_socket_def connect_def drop_socket_def split: option.splits)

lemma schedule_backoff: "backoff_inv h \<Longrightarrow> backoff_inv (scheduleReconnect h since)"
  by (auto simp: backoff_inv_def scheduleReconnect_def)

lemma backoff_same:
  "backoff_inv h \<Longrightarrow> h_backoff h' = h_backoff h \<Longrightarrow> set (h_timers h') \<subseteq> set (h_timers h) \<Longrightarrow> backoff_inv h'"
  by (auto simp: backoff_inv_def)

lemma on_message_backoff:
  assumes "backoff_inv h" shows "backoff_inv (on_message h frame)"
proof (cases "is_gap (h_expectedNextSeq h) frame")
  case True
  moreover have "backoff_inv (close_socket h)"
    using assms by (rule backoff_same) (simp_all add: backoff_frame_fields)
  ultimately show ?thesis by (simp add: on_message_def schedule_backoff)
next
  case False
  with assms show ?thesis by (simp add: on_message_accepts backoff_inv_def)
qed

lemma hook_step_backoff: "hook_step h h' \<Longrightarrow> backoff_inv h \<Longrightarrow> backoff_inv h'"
proof (induction rule: hook_step.induct)
  case (step_open h)
  then show ?case by (simp add: on_open_def backoff_inv_def MIN_BACKOFF_MS_def MAX_BACKOFF_MS_def)
next
  case (step_timer t h)
  then show ?case
    by (auto simp: fire_timer_def backoff_inv_def backoff_frame_fields MIN_BACKOFF_MS_def MAX_BACKOFF_MS_def
        dest!: notin_set_remove1)
next
  case (step_cleanup h)
  then show ?case by (auto simp: cleanup_def backoff_inv_def backoff_frame_fields)
qed (auto simp: on_error_def on_close_def on_message_backoff backoff_frame_fields
    intro!: schedule_backoff intro: backoff_same)

lemma hook_reachable_backoff: "hook_reachable h \<Longrightarrow> backoff_inv h"
proof (induction rule: hook_reachable.induct)
  case (hook_mounted eid)
  then show ?case
    by (simp add: mount_stream_def backoff_inv_def backoff_frame_fields initial_hook_def
        MIN_BACKOFF_MS_def MAX_BACKOFF_MS_def)
qed (rule hook_step_backoff)

text \<open>Unless the hook was unmounted there is a socket or a timer that will open one.\<close>

definition trying :: "'a stream_hook_scheme \<Rightarrow> bool" where
  "trying h \<longleftrightarrow> h_cancelled h \<or> h_sockets h \<noteq> [] \<or> h_timers h \<noteq> []"

lemma trying_schedule: "trying (scheduleReconnect h since)"
  by (simp add: trying_def scheduleReconnect_def)

lemma trying_connect: "trying (connect h since)"
  by (simp add: trying_def connect_def)

lemma trying_close_socket: "trying (close_socket h) = trying h"
  by (simp add: trying_def close_socket_def split: option.splits)

lemma hook_step_trying: "hook_step h h' \<Longrightarrow> trying h \<Longrightarrow> trying h'"
proof (induction rule: hook_step.induct)
  case (step_message w h frame)
  then show ?case
    by (cases "is_gap (h_expectedNextSeq h) frame")
      (simp add: on_message_def trying_schedule, simp add: on_message_accepts trying_def)
next
  case (step_close w h)
  then show ?case by (auto simp: on_close_def trying_schedule) (simp add: drop_socket_def trying_def)
next
  case (step_cleanup h)
  then show ?case by (simp add: cleanup_def trying_close_socket) (simp add: trying_def)
qed (simp_all add: on_open_def on_error_def fire_timer_def trying_close_socket trying_connect,
    simp_all add: trying_def)

lemma hook_reachable_trying: "hook_reachable h \<Longrightarrow> trying h"
  by (induction rule: hook_reachable.induct)
    (simp add: mount_stream_def trying_connect, rule hook_step_trying)

section \<open>Properties of \<open>useExperimentStream\<close>\<close>

text \<open>C8. Across any sequence of opens, messages, errors, closes, reconnect timers and the unmount,
  with any number of sockets alive, the frames handed to React are gap-free: the number of every event is one more than
  that of the frame handed over before it, be that an event or a snapshot. The next number asked for is one more than
  that of the last frame. A message is handed over exactly when it is a snapshot, or the first frame of all, or the event
  with that number; no other event is.\<close>

theorem accepted_frames_contiguous:
  assumes "hook_reachable h"
  shows "(\<forall>i e. Suc i < length (h_updates h) \<and> h_updates h ! Suc i = EventFrame e \<longrightarrow>
      e_seq e = (case h_updates h ! i of SnapshotFrame f \<Rightarrow> sf_last_seq f | EventFrame d \<Rightarrow> e_seq d) + 1) \<and>
    h_expectedNextSeq h = (if h_updates h = [] then None
      else Some ((case last (h_updates h) of SnapshotFrame f \<Rightarrow> sf_last_seq f | EventFrame d \<Rightarrow> e_seq d) + 1)) \<and>
    (\<forall>f. h_updates (on_message h (SnapshotFrame f)) = h_updates h @ [SnapshotFrame f]) \<and>
    (\<forall>e. h_updates (on_message h (EventFrame e)) =
      (if h_expectedNextSeq h = None \<or> h_expectedNextSeq h = Some (e_seq e) then h_updates h @ [EventFrame e] else h_updates h))"
proof -
  have seq: "(case f of SnapshotFrame g \<Rightarrow> sf_last_seq g | EventFrame d \<Rightarrow> e_seq d) = seq_of f" for f by (cases f) simp_all
  have inv: "contiguous (h_updates h)" "h_expectedNextSeq h = next_after (h_updates h)"
    using hook_reachable_inv[OF assms] by (simp_all add: hook_inv_def)
  have "h_updates (on_message h (EventFrame e)) =
      (if h_expectedNextSeq h = None \<or> h_expectedNextSeq h = Some (e_seq e) then h_updates h @ [EventFrame e] else h_updates h)" for e
  proof (cases "is_gap (h_expectedNextSeq h) (EventFrame e)")
    case True
    then have "h_expectedNextSeq h \<noteq> None" "h_expectedNextSeq h \<noteq> Some (e_seq e)" by (cases "h_expectedNextSeq h"; simp)+
    with True show ?thesis
      by (simp add: on_message_def close_socket_def scheduleReconnect_def split: option.split)
  next
    case False
    then have "h_expectedNextSeq h = None \<or> h_expectedNextSeq h = Some (e_seq e)" by (cases "h_expectedNextSeq h") simp_all
    with False show ?thesis by (simp add: on_message_accepts)
  qed
  moreover have "\<forall>i e. Suc i < length (h_updates h) \<and> h_updates h ! Suc i = EventFrame e \<longrightarrow> e_seq e = seq_of (h_updates h ! i) + 1"
    using inv(1) unfolding contiguous_nth by (metis follows.simps(2))
  ultimately show ?thesis using inv(2) by (simp add: seq next_after_def on_message_accepts)
qed

definition demo_hook :: stream_hook where
  "demo_hook = on_message (mount_stream (Some ''run'')) (SnapshotFrame demo_snapshot)"

lemma mounted_demo:
  "hook_reachable (mount_stream (Some ''run''))"
  "h_sockets (mount_stream (Some ''run'')) = [\<lparr>ws_id = 0, ws_since = None, ws_closing = False\<rparr>]"
  by (auto simp: mount_stream_def connect_def initial_hook_def
      intro: hook_mounted[of "''run''", unfolded mount_stream_def connect_def initial_hook_def, simplified])

lemma demo_hook_reachable: "hook_reachable demo_hook"
  unfolding demo_hook_def
  by (rule hook_stepped[OF mounted_demo(1)]) (rule step_message[of "\<lparr>ws_id = 0, ws_since = None, ws_closing = False\<rparr>"],
      simp_all add: mounted_demo)

text \<open>The hook after the first event: that event again is not handed over, the next one is.\<close>

definition heard_hook :: stream_hook where
  "heard_hook = on_message demo_hook (EventFrame (demo_event 1 MODEL_REQUESTED None None))"

lemma heard_hook_reachable: "hook_reachable heard_hook"
  unfolding heard_hook_def
  by (rule hook_stepped[OF demo_hook_reachable], rule step_message[of "\<lparr>ws_id = 0, ws_since = None, ws_closing = False\<rparr>"])
    (simp_all add: demo_hook_def on_message_accepts mounted_demo mount_stream_def connect_def initial_hook_def)

theorem accepted_frames_contiguous_witness:
  "h_expectedNextSeq heard_hook = Some 2 \<and>
   h_updates (on_message heard_hook (EventFrame (demo_event 1 MODEL_REQUESTED None None))) = h_updates heard_hook \<and>
   length (h_updates (on_message heard_hook (EventFrame (demo_event 2 MODEL_REQUESTED None None)))) = 3"
proof -
  have "h_updates heard_hook = [SnapshotFrame demo_snapshot, EventFrame (demo_event 1 MODEL_REQUESTED None None)]"
    by (simp add: heard_hook_def demo_hook_def mount_stream_def connect_def initial_hook_def on_message_accepts
        demo_snapshot_def demo_event_def)
  with accepted_frames_contiguous[OF heard_hook_reachable] show ?thesis by (simp add: demo_event_def)
qed

text \<open>C28. The hook never gives up and never hammers the backend: until it is unmounted there is a
  socket or a pending reconnect timer, and every delay lies between 250 and 5000 ms.\<close>

theorem reconnects_within_bounds:
  assumes "hook_reachable h"
  shows "(h_cancelled h \<or> h_sockets h \<noteq> [] \<or> h_timers h \<noteq> []) \<and> h_backoff h \<in> {250..5000} \<and>
         (\<forall>t \<in> set (h_timers h). t_delay t \<in> {250..5000})"
  using hook_reachable_trying[OF assms] hook_reachable_backoff[OF assms]
  by (simp add: trying_def backoff_inv_def MIN_BACKOFF_MS_def MAX_BACKOFF_MS_def)

theorem reconnects_within_bounds_witness: "h_backoff demo_hook \<in> {250..5000}"
  using reconnects_within_bounds[OF demo_hook_reachable] by blast

text \<open>An event of an unknown schema version never reaches the hook's error state: it is accepted
  like any other, its socket stays open, and the next render throws the reducer's error.\<close>

theorem schema_error_only_in_render:
  assumes "\<not> is_gap (h_expectedNextSeq h) (EventFrame e)" and "e_schema_version e \<noteq> CURRENT_SCHEMA_VERSION"
    and "rendered h (length (h_updates h)) = Inr s"
  shows "let h' = on_message h (EventFrame e) in
    h_schemaError h' = None \<and> h_expectedNextSeq h' = Some (e_seq e + 1) \<and> h_sockets h' = h_sockets h \<and>
    rendered h' (length (h_updates h')) = Inl (schema_error (e_schema_version e))"
  using assms by (simp add: on_message_accepts rendered_def reduce_all_append)

theorem schema_error_only_in_render_witness:
  "h_schemaError (on_message demo_hook (EventFrame (demo_event 1 MODEL_REQUESTED None None\<lparr>e_schema_version := 2\<rparr>))) = None"
proof -
  let ?e = "demo_event 1 MODEL_REQUESTED None None\<lparr>e_schema_version := 2\<rparr>"
  have upd: "h_updates demo_hook = [SnapshotFrame demo_snapshot]" and nxt: "h_expectedNextSeq demo_hook = Some 1"
    by (simp_all add: demo_hook_def mount_stream_def connect_def initial_hook_def on_message_accepts demo_snapshot_def)
  have gap: "\<not> is_gap (h_expectedNextSeq demo_hook) (EventFrame ?e)" by (simp add: nxt demo_event_def)
  have version: "e_schema_version ?e \<noteq> CURRENT_SCHEMA_VERSION" by (simp add: CURRENT_SCHEMA_VERSION_def)
  have "rendered demo_hook (length (h_updates demo_hook)) = Inr (reduce_snapshot initialGraphState demo_snapshot)"
    by (simp add: rendered_def upd)
  from schema_error_only_in_render[OF gap version this] show ?thesis by (simp add: Let_def)
qed

text \<open>A gap on the only connection starts two reconnects: one timer from the message handler,
  for a fresh snapshot, and, when the closed socket's close event arrives, a second one that
  resumes at the last accepted event. When both have fired, two open sockets feed the same state,
  and only the newer one is the socket the error and unmount handlers close.\<close>

theorem gap_reconnects_twice:
  assumes "\<not> h_cancelled h" and "h_sockets h = [w]" and "h_socket h = Some (ws_id w)" and "h_timers h = []"
    and "h_expectedNextSeq h = Some n" and "e_seq e \<noteq> n"
  shows "\<exists>t1 t2. t_since t1 = None \<and> t_since t2 = Some (n - 1) \<and>
    h_timers (on_close (on_message h (EventFrame e)) (ws_id w)) = [t1, t2] \<and>
    (let h' = fire_timer (fire_timer (on_close (on_message h (EventFrame e)) (ws_id w)) t1) t2 in
       map ws_since (h_sockets h') = [None, Some (n - 1)] \<and>
       map ws_closing (h_sockets (cleanup h')) = [False, True])"
proof -
  let ?k = "h_next h"
  let ?t1 = "\<lparr>t_id = ?k, t_since = None, t_delay = h_backoff h\<rparr>"
  let ?t2 = "\<lparr>t_id = Suc ?k, t_since = Some (n - 1), t_delay = h_backoff h\<rparr>"
  let ?h = "on_close (on_message h (EventFrame e)) (ws_id w)"
  have h: "?h = h\<lparr>h_sockets := [], h_reconnectTimer := Some (Suc ?k), h_timers := [?t1, ?t2], h_next := Suc (Suc ?k)\<rparr>"
    using assms by (simp add: on_close_def on_message_def scheduleReconnect_def close_socket_def drop_socket_def)
  have "?t1 \<noteq> ?t2" by simp
  then have "fire_timer (fire_timer ?h ?t1) ?t2 = h\<lparr>h_reconnectTimer := Some (Suc ?k), h_timers := [],
      h_socket := Some (Suc (Suc (Suc ?k))), h_backoff := min (min (h_backoff h * 2) MAX_BACKOFF_MS * 2) MAX_BACKOFF_MS,
      h_sockets := [\<lparr>ws_id = Suc (Suc ?k), ws_since = None, ws_closing = False\<rparr>,
                    \<lparr>ws_id = Suc (Suc (Suc ?k)), ws_since = Some (n - 1), ws_closing = False\<rparr>],
      h_next := Suc (Suc (Suc (Suc ?k)))\<rparr>"
    using assms(1) by (simp add: h fire_timer_def connect_def)
  then show ?thesis
    by (intro exI[of _ ?t1] exI[of _ ?t2]) (simp add: h cleanup_def close_socket_def)
qed

theorem gap_reconnects_twice_witness:
  "length (h_timers (on_close (on_message demo_hook (EventFrame (demo_event 5 MODEL_REQUESTED None None))) 0)) = 2"
proof -
  let ?w = "\<lparr>ws_id = 0, ws_since = None, ws_closing = False\<rparr>"
  have d: "\<not> h_cancelled demo_hook" "h_sockets demo_hook = [?w]" "h_socket demo_hook = Some (ws_id ?w)"
    "h_timers demo_hook = []" "h_expectedNextSeq demo_hook = Some 1"
    by (simp_all add: demo_hook_def mount_stream_def connect_def initial_hook_def on_message_accepts demo_snapshot_def)
  have "e_seq (demo_event 5 MODEL_REQUESTED None None) \<noteq> 1" by (simp add: demo_event_def)
  from gap_reconnects_twice[OF d this] show ?thesis by (auto simp: Let_def)
qed

end
