(* ===== verification/Live_Run.thy ===== *)
theory Live_Run
  imports Provider Client Stream_Hook
begin

text \<open>
  How \<open>ExperimentProvider\<close> holds its parts together: every call it makes is a function of
  \<open>api/client.ts\<close>, and the stream lives in a \<open>StreamHost\<close> keyed by the run, so that React replaces the
  host when the run changes. A run of the provider interleaves the handlers and the answers of
  \<open>Provider\<close>, React's commits, and the callbacks of the hook of \<open>Stream_Hook\<close>.
\<close>

section \<open>Calls\<close>

text \<open>Which function of the client each call is. \<open>CallNothing\<close> is \<open>Promise.resolve(null)\<close>.\<close>

fun client_call :: "backend \<Rightarrow> backend_call \<Rightarrow> reply" where
  "client_call B CallNothing = Inr JNull"
| "client_call B (CallAdopt stored) = getExperiment B stored"
| "client_call B (CallCreate _ cfg) = createExperiment B cfg"
| "client_call B (CallPause _ eid) = pauseExperiment B eid"
| "client_call B (CallResume _ eid) = resumeExperiment B eid"
| "client_call B (CallSpeed _ eid v) = setSpeed B eid v"
| "client_call B (CallResetStop _ oldId _) = stopExperiment B oldId"
| "client_call B (CallResetCreate _ cfg) = createExperiment B cfg"
| "client_call B (CallStatus eid _) = getExperiment B eid"

text \<open>What the handlers see of a reply: the body under its cast to a summary, which is not checked and so
  is an argument, or the message of the error.\<close>

definition call_outcome :: "(json \<Rightarrow> experiment_summary) \<Rightarrow> reply \<Rightarrow> call_result" where
  "call_outcome as_summary r = (case r of Inl err \<Rightarrow> CallErr (error_message err) | Inr body \<Rightarrow> CallOk (as_summary body))"

definition settle_over :: "backend \<Rightarrow> (json \<Rightarrow> experiment_summary) \<Rightarrow> provider \<Rightarrow> backend_call \<Rightarrow> provider" where
  "settle_over B as_summary p c = settle p c (call_outcome as_summary (client_call B c))"

section \<open>The stream of the active run\<close>

definition host_key :: "provider \<Rightarrow> string" where
  "host_key p = or_default (c_experimentId (p_state p)) ''no-run''"

record live_run =
  lr_provider :: provider
  lr_stream :: stream_hook

definition live_mounted :: "string option \<Rightarrow> live_run" where
  "live_mounted stored = \<lparr>lr_provider = mount stored, lr_stream = mount_stream None\<rparr>"

text \<open>A commit: with a new key the host is replaced; under the same key the effect of the hook runs again
  if the run is another one, and the state of the hook stays.\<close>

definition rehost :: "provider \<Rightarrow> provider \<Rightarrow> stream_hook \<Rightarrow> stream_hook" where
  "rehost p q h =
     (let next_run = c_experimentId (p_state q)
      in if host_key p \<noteq> host_key q then mount_stream next_run
         else if c_experimentId (p_state p) \<noteq> next_run
           then (mount_stream next_run)\<lparr>h_updates := h_updates h, h_schemaError := h_schemaError h\<rparr>
         else h)"

definition live_commit :: "live_run \<Rightarrow> live_run" where
  "live_commit r = (let p = lr_provider r; q = commit p
     in \<lparr>lr_provider = q, lr_stream = rehost p q (lr_stream r)\<rparr>)"

text \<open>The stream endpoint of a run sends the snapshots of that run.\<close>

fun frame_of :: "string option \<Rightarrow> stream_frame \<Rightarrow> bool" where
  "frame_of run (SnapshotFrame f) = (run = Some (sf_experiment_id f))"
| "frame_of run (EventFrame e) = True"

text \<open>Every step of the provider but the commit leaves the React state alone.\<close>

inductive live_step :: "live_run \<Rightarrow> live_run \<Rightarrow> bool" where
  live_control: "provider_step (lr_provider r) q \<Longrightarrow> p_state q = p_state (lr_provider r) \<Longrightarrow>
    live_step r (r\<lparr>lr_provider := q\<rparr>)"
| live_committed: "live_step r (live_commit r)"
| live_frame: "w \<in> set (h_sockets (lr_stream r)) \<Longrightarrow> \<not> ws_closing w \<Longrightarrow>
    frame_of (c_experimentId (p_state (lr_provider r))) frame \<Longrightarrow>
    live_step r (r\<lparr>lr_stream := on_message (lr_stream r) frame\<rparr>)"
| live_open: "live_step r (r\<lparr>lr_stream := on_open (lr_stream r)\<rparr>)"
| live_error: "live_step r (r\<lparr>lr_stream := on_error (lr_stream r)\<rparr>)"
| live_close: "w \<in> set (h_sockets (lr_stream r)) \<Longrightarrow>
    live_step r (r\<lparr>lr_stream := on_close (lr_stream r) (ws_id w)\<rparr>)"
| live_timer: "t \<in> set (h_timers (lr_stream r)) \<Longrightarrow>
    live_step r (r\<lparr>lr_stream := fire_timer (lr_stream r) t\<rparr>)"

inductive live_reachable :: "live_run \<Rightarrow> bool" where
  live_start: "live_reachable (live_mounted stored)"
| live_stepped: "live_reachable r \<Longrightarrow> live_step r r' \<Longrightarrow> live_reachable r'"

section \<open>A reset over HTTP\<close>

lemma postControl_status:
  assumes "be_fetch B (posting None (plain_get (experiment_url B i @ ''/'' @ action))) = Responded status (Inr body)"
  shows "postControl B i action = (if res_ok status then Inr body else Inl (failure (action @ '' experiment'') status))"
  using assms by (simp add: postControl_def ok_json_def)

lemma failure_404:
  assumes "100 \<le> status" "status < 1000"
  shows "str_includes (error_message (failure ''stop experiment'' status)) ''404'' \<longleftrightarrow> status = 404"
proof -
  have "str_includes (error_message (failure ''stop experiment'' status)) ''404'' \<longleftrightarrow> show_nat status = show_nat 404"
    using assms by (simp add: failure_def show_nat_three digit_char_40) (simp add: digit_char_inj)
  then show ?thesis by simp
qed

text \<open>C10. What the backend's answer to the stop of a reset leads to. A success or a 404 is followed by the
  creation of the new run, with the controls still pending. Any other status ends the reset with the
  error on display, the run and its status as they were, and nothing more is asked of the backend.\<close>

theorem reset_over_http:
  assumes can: "canReset (p_ref p)" and run: "c_experimentId (p_ref p) = Some old" "old \<noteq> []"
    and cfg: "c_activeConfig (p_ref p) = Some cfg"
    and answer: "be_fetch B (posting None (plain_get (experiment_url B old @ ''/stop''))) = Responded status (Inr body)"
    and status: "100 \<le> status" "status < 1000"
  shows "let stop = CallResetStop (p_nextOp p) old cfg; q = settle_over B as_summary (reset p) stop in
    (if res_ok status \<or> status = 404
     then p_calls q = remove1 stop (p_calls p @ [stop]) @ [CallResetCreate (p_nextOp p) cfg] \<and>
          in_flight (p_ref q) = Some (PReset, p_nextOp p)
     else p_calls q = remove1 stop (p_calls p @ [stop]) \<and>
          p_ref q = (p_ref p)\<lparr>c_revision := c_revision (p_ref p) + 1, c_operationId := None,
            c_error := Some (''failed to stop experiment: '' @ show_nat status)\<rparr>)"
proof -
  note opened = reset_opened[OF can run cfg]
  have idle: "c_pending (p_ref p) = None" using can by (simp add: can_defs)
  have reply: "stopExperiment B old = (if res_ok status then Inr body else Inl (failure ''stop experiment'' status))"
    using postControl_status[of B old "''stop''" status body] answer by (simp add: stopExperiment_def)
  let ?c = "CallResetStop (p_nextOp p) old cfg"
  let ?r = "call_outcome as_summary (client_call B ?c)"
  show ?thesis
  proof (cases "res_ok status \<or> status = 404")
    case True
    then have "stop_confirmed ?r"
      using failure_404[OF status] by (auto simp: reply call_outcome_def stop_confirmed_def)
    then have "settle_over B as_summary (reset p) ?c = reset_create (drop_call (reset p) ?c) (p_nextOp p) cfg"
      unfolding settle_over_def by (rule settle_stop_confirmed)
    with True show ?thesis
      by (simp add: Let_def reset_create_def drop_call_def opened in_flight_def open_request_def)
  next
    case False
    then have err: "?r = CallErr (''failed to stop experiment: '' @ show_nat status)"
      by (simp add: reply call_outcome_def failure_def)
    have "\<not> str_includes (''failed to stop experiment: '' @ show_nat status) ''404''"
      using failure_404[OF status] False by (simp add: failure_def)
    then have "settle_over B as_summary (reset p) ?c =
        apply_only (drop_call (reset p) ?c) (ResetFailed (p_nextOp p) (''failed to stop experiment: '' @ show_nat status))"
      unfolding settle_over_def settle_def err by (simp del: append.simps append_Cons)
    moreover have "p_ref (drop_call (reset p) ?c) = open_request (p_ref p) PReset (p_nextOp p)"
      by (simp add: drop_call_def opened)
    ultimately show ?thesis
      using False by (simp add: Let_def reset_answer(1)[OF _ idle] apply_only_ref(2) drop_call_def opened)
  qed
qed

definition demo_backend :: "nat \<Rightarrow> backend" where
  "demo_backend status = \<lparr>be_url = ''http://h'', be_ws_url = ''ws://h'', be_fetch = \<lambda>_. Responded status (Inr JNull)\<rparr>"

theorem reset_over_http_witness:
  "c_error (p_ref (settle_over (demo_backend 500) (\<lambda>_. undefined) (reset demo_running) (CallResetStop 2 ''run'' []))) =
     Some (''failed to stop experiment: '' @ show_nat 500)"
proof -
  have can: "canReset (p_ref demo_running)" and run: "c_experimentId (p_ref demo_running) = Some ''run''"
    and ne: "''run'' \<noteq> ([] :: string)" and cfg: "c_activeConfig (p_ref demo_running) = Some []"
    by (simp_all add: demo_running_simps can_defs)
  have answer: "be_fetch (demo_backend 500)
      (posting None (plain_get (experiment_url (demo_backend 500) ''run'' @ ''/stop''))) = Responded 500 (Inr JNull)"
    by (simp add: demo_backend_def)
  have "\<not> (res_ok 500 \<or> (500::nat) = 404)" by (simp add: res_ok_def)
  with reset_over_http[OF can run ne cfg answer, of "\<lambda>_. undefined"] show ?thesis
    unfolding Let_def by (simp add: demo_running_simps)
qed

section \<open>The stream belongs to the run\<close>

lemma controlReducer_keeps_run:
  "c_experimentId s \<noteq> None \<Longrightarrow> c_experimentId (controlReducer s a) \<noteq> None"
  by (cases a) (auto simp: controlReducer_def Controls.request_defs split: option.split)

lemma commit_keeps_run:
  assumes "c_experimentId (p_state p) \<noteq> None"
  shows "c_experimentId (p_state (commit p)) \<noteq> None"
proof -
  have "c_experimentId s \<noteq> None \<Longrightarrow> c_experimentId (foldl controlReducer s as) \<noteq> None" for s as
    by (induction as arbitrary: s) (use controlReducer_keeps_run in force)+
  with assms show ?thesis by (simp add: commit_def Let_def)
qed

definition live_inv :: "live_run \<Rightarrow> bool" where
  "live_inv r \<longleftrightarrow> (let run = c_experimentId (p_state (lr_provider r)); h = lr_stream r in
     list_all (frame_of run) (h_updates h) \<and>
     (run = None \<longrightarrow> h_updates h = [] \<and> h_sockets h = [] \<and> h_timers h = [] \<and> h_socket h = None))"

lemma mount_stream_updates [simp]: "h_updates (mount_stream run) = []"
  by (simp add: mount_stream_def connect_def initial_hook_def)

lemma mount_stream_idle [simp]:
  "h_sockets (mount_stream None) = []" "h_timers (mount_stream None) = []" "h_socket (mount_stream None) = None"
  by (simp_all add: mount_stream_def initial_hook_def)

lemma live_inv_commit:
  assumes "live_inv r"
  shows "live_inv (live_commit r)"
proof -
  let ?p = "lr_provider r" and ?q = "commit (lr_provider r)"
  have stays: "c_experimentId (p_state ?q) = None \<Longrightarrow> c_experimentId (p_state ?p) = None"
    using commit_keeps_run by blast
  consider (same) "c_experimentId (p_state ?p) = c_experimentId (p_state ?q)"
    | (fresh) "host_key ?p \<noteq> host_key ?q"
    | (rerun) "c_experimentId (p_state ?p) = None" "c_experimentId (p_state ?q) \<noteq> None" "host_key ?p = host_key ?q"
    using stays by (cases "c_experimentId (p_state ?p)"; cases "c_experimentId (p_state ?q)")
      (auto simp: host_key_def)
  then show ?thesis
    using assms by cases (auto simp: live_inv_def live_commit_def rehost_def Let_def host_key_def)
qed

lemma on_message_updates:
  "h_updates (on_message h frame) = h_updates h \<or> h_updates (on_message h frame) = h_updates h @ [frame]"
  by (cases "is_gap (h_expectedNextSeq h) frame")
    (simp_all add: on_message_accepts, simp add: on_message_def scheduleReconnect_def close_socket_def split: option.split)

lemma callback_updates:
  "h_updates (on_open h) = h_updates h" "h_updates (on_error h) = h_updates h"
  "h_updates (on_close h s) = h_updates h" "h_updates (fire_timer h t) = h_updates h"
  by (simp_all add: on_open_def on_error_def on_close_def fire_timer_def close_socket_def drop_socket_def
      scheduleReconnect_def connect_def split: option.split)

lemma live_inv_step: "live_step r r' \<Longrightarrow> live_inv r \<Longrightarrow> live_inv r'"
proof (induction rule: live_step.induct)
  case (live_frame w r frame)
  then show ?case using on_message_updates[of "lr_stream r" frame] by (auto simp: live_inv_def Let_def)
qed (auto simp: live_inv_def Let_def callback_updates live_inv_commit[unfolded live_inv_def Let_def],
    simp_all add: on_open_def on_error_def close_socket_def)

lemma live_reachable_inv: "live_reachable r \<Longrightarrow> live_inv r"
proof (induction rule: live_reachable.induct)
  case (live_start stored)
  show ?case by (simp add: live_inv_def live_mounted_def mount_def initialControlState_def)
qed (rule live_inv_step)

lemma reduce_all_run:
  assumes "reduce_all s fs = Inr g" and "list_all (frame_of run) fs"
    and "gs_experimentId s = None \<or> gs_experimentId s = run"
  shows "gs_experimentId g = None \<or> gs_experimentId g = run"
  using assms
proof (induction fs arbitrary: s)
  case (Cons f fs)
  then obtain t where t: "reduce s f = Inr t" "reduce_all t fs = Inr g" by (auto split: sum.splits)
  have "gs_experimentId t = None \<or> gs_experimentId t = run"
    using t(1) Cons.prems(2,3)
    by (cases f) (auto simp: reduce_snapshot_def apply_event_def Let_def split: if_splits)
  with Cons.IH[OF t(2)] Cons.prems(2) show ?case by simp
qed simp

text \<open>C9. The screens never show the stream of another run. Whatever the order of clicks, answers, commits,
  socket callbacks and frames, the stream state a render computes is of the run of the committed
  control state or of none; without a run there is neither a socket nor a timer; and the commit that
  changes the run leaves nothing of the previous stream behind.\<close>

theorem stream_of_active_run:
  assumes "live_reachable r"
  shows "(\<forall>n g. rendered (lr_stream r) n = Inr g \<longrightarrow>
      gs_experimentId g \<in> {None, c_experimentId (p_state (lr_provider r))}) \<and>
    (c_experimentId (p_state (lr_provider r)) = None \<longrightarrow> h_sockets (lr_stream r) = [] \<and> h_timers (lr_stream r) = []) \<and>
    (c_experimentId (p_state (lr_provider (live_commit r))) \<noteq> c_experimentId (p_state (lr_provider r)) \<longrightarrow>
      rendered (lr_stream (live_commit r)) = (\<lambda>n. Inr initialGraphState))"
proof (intro conjI impI allI)
  let ?run = "c_experimentId (p_state (lr_provider r))"
  have inv: "live_inv r" by (rule live_reachable_inv[OF assms])
  fix n g assume "rendered (lr_stream r) n = Inr g"
  moreover have "list_all (frame_of ?run) (take n (h_updates (lr_stream r)))"
    using inv by (auto simp: live_inv_def Let_def list_all_iff dest: in_set_takeD)
  ultimately show "gs_experimentId g \<in> {None, ?run}"
    using reduce_all_run[of initialGraphState _ g ?run] by (simp add: rendered_def initialGraphState_def)
next
  assume "c_experimentId (p_state (lr_provider r)) = None"
  with live_reachable_inv[OF assms] show "h_sockets (lr_stream r) = []" "h_timers (lr_stream r) = []"
    by (simp_all add: live_inv_def Let_def)
next
  let ?p = "lr_provider r"
  assume new: "c_experimentId (p_state (lr_provider (live_commit r))) \<noteq> c_experimentId (p_state ?p)"
  then have q: "c_experimentId (p_state (commit ?p)) \<noteq> c_experimentId (p_state ?p)" by (simp add: live_commit_def Let_def)
  have "h_updates (lr_stream (live_commit r)) = []"
  proof (cases "host_key ?p = host_key (commit ?p)")
    case True
    with q commit_keeps_run[of ?p] have "c_experimentId (p_state ?p) = None"
      by (cases "c_experimentId (p_state ?p)"; cases "c_experimentId (p_state (commit ?p))") (auto simp: host_key_def)
    with live_reachable_inv[OF assms] q True show ?thesis
      by (simp add: live_inv_def live_commit_def rehost_def Let_def)
  qed (simp add: live_commit_def rehost_def Let_def)
  then show "rendered (lr_stream (live_commit r)) = (\<lambda>n. Inr initialGraphState)"
    by (simp add: rendered_def fun_eq_iff)
qed

lemma settle_keeps_state: "p_state (settle p c r) = p_state p"
proof -
  have "p_state (apply_only q a) = p_state q" for q a
    by (simp add: apply_only_def apply_action_def split: option.split)
  then show ?thesis by (cases c; cases r) (simp_all add: settle_def drop_call_def reset_create_def Let_def)
qed

definition demo_hosted :: live_run where
  "demo_hosted = live_commit \<lparr>lr_provider = demo_running, lr_stream = mount_stream None\<rparr>"

definition run_snapshot :: stream_frame where
  "run_snapshot = SnapshotFrame demo_snapshot"

definition demo_live :: live_run where
  "demo_live = demo_hosted\<lparr>lr_stream := on_message (lr_stream demo_hosted) run_snapshot\<rparr>"

lemma demo_hosted_stream: "lr_stream demo_hosted = mount_stream (Some ''run'')"
  and demo_hosted_run: "c_experimentId (p_state (lr_provider demo_hosted)) = Some ''run''"
proof -
  have q: "foldl controlReducer (p_state demo_running) (p_queue demo_running) = p_ref demo_running"
    using reachable_provider[OF stepped[OF demo_started_reachable, of demo_running]] provider_inv_sync
    by (simp add: demo_running_def step_settle demo_started_calls)
  have st: "p_state demo_running = initialControlState"
    by (simp add: demo_running_def settle_keeps_state demo_started_def start_def issue_def mount_def Let_def apply_action_def)
  show "lr_stream demo_hosted = mount_stream (Some ''run'')"
    "c_experimentId (p_state (lr_provider demo_hosted)) = Some ''run''"
    by (simp_all add: demo_hosted_def live_commit_def Let_def commit_def q rehost_def host_key_def st[symmetric] demo_running_simps)
      (simp_all add: st initialControlState_def)
qed

lemma demo_live_reachable: "live_reachable demo_live"
proof -
  let ?r = "\<lambda>p. \<lparr>lr_provider = p, lr_stream = mount_stream None\<rparr>"
  have "live_reachable (?r (mount None))" using live_start[of None] by (simp add: live_mounted_def)
  moreover have "live_step (?r (mount None)) (?r demo_started)"
    using live_control[of "?r (mount None)" demo_started] step_start[of "mount None" "[]"]
    by (simp add: demo_started_def start_def issue_def Let_def apply_action_def mount_def)
  moreover have "live_step (?r demo_started) (?r demo_running)"
    using live_control[of "?r demo_started" demo_running] step_settle[of "CallCreate 1 []" demo_started
        "CallOk \<lparr>es_experiment_id = ''run'', es_status = RsRunning, es_sim_tick = 0, es_last_seq = 0, es_config = []\<rparr>"]
    unfolding demo_running_def by (simp add: demo_started_calls settle_keeps_state del: settle_call.simps)
  ultimately have "live_reachable (?r demo_running)" by (blast intro: live_stepped)
  then have "live_reachable demo_hosted" unfolding demo_hosted_def by (rule live_stepped[OF _ live_committed])
  moreover have "live_step demo_hosted demo_live"
    unfolding demo_live_def
    by (rule live_frame[of "\<lparr>ws_id = 0, ws_since = None, ws_closing = False\<rparr>"])
      (simp_all add: demo_hosted_stream demo_hosted_run mount_stream_def connect_def initial_hook_def run_snapshot_def demo_snapshot_def)
  ultimately show ?thesis by (rule live_stepped)
qed

theorem stream_of_active_run_witness:
  "\<exists>g. rendered (lr_stream demo_live) 1 = Inr g \<and> gs_experimentId g \<in> {None, Some ''run''}"
proof -
  have "rendered (lr_stream demo_live) 1 = Inr (reduce_snapshot initialGraphState demo_snapshot)"
    by (simp add: demo_live_def demo_hosted_stream run_snapshot_def on_message_def apply_frame_def set_state_def
        mount_stream_def connect_def initial_hook_def rendered_def)
  moreover have "c_experimentId (p_state (lr_provider demo_live)) = Some ''run''"
    by (simp add: demo_live_def demo_hosted_run)
  ultimately show ?thesis using stream_of_active_run[OF demo_live_reachable] by metis
qed

end
