(* ===== verification/Runtime_Stream.thy ===== *)
theory Runtime_Stream
  imports Stream_Hook
begin

text \<open>
  \<open>frontend/src/lib/runtime/useRuntimeStream.ts\<close>: the hook of the live demo. Its socket handling is
  that of \<open>useExperimentStream\<close> with a \<open>connected\<close> flag, so its state extends that hook's record and
  reuses its callbacks; what it adds is \<open>attach\<close>, which reads the snapshot and the replay buffer
  over HTTP, applies them, and only then opens the socket. \<open>attach\<close> is split at its two awaits.
\<close>

section \<open>State and callbacks\<close>

datatype attach_phase = AwaitSnapshot | AwaitEvents snapshot_frame | Attached | AttachReturned

record runtime_hook = stream_hook +
  rh_connected :: bool
  rh_phase :: attach_phase

definition rt_on_open :: "runtime_hook \<Rightarrow> runtime_hook" where
  "rt_on_open h = (on_open h)\<lparr>rh_connected := True\<rparr>"

definition rt_on_close :: "runtime_hook \<Rightarrow> nat \<Rightarrow> runtime_hook" where
  "rt_on_close h s = on_close (h\<lparr>rh_connected := False\<rparr>) s"

definition attach_failed :: "runtime_hook \<Rightarrow> runtime_hook" where
  "attach_failed h = (if h_cancelled h then h\<lparr>rh_phase := AttachReturned\<rparr>
     else (connect h None)\<lparr>rh_phase := Attached\<rparr>)"

definition attach_snapshot :: "runtime_hook \<Rightarrow> string + snapshot_frame \<Rightarrow> runtime_hook" where
  "attach_snapshot h answer = (case answer of
      Inl _ \<Rightarrow> attach_failed h
    | Inr f \<Rightarrow>
        if h_cancelled h then h\<lparr>rh_phase := AttachReturned\<rparr>
        else (case apply_frame h (SnapshotFrame f) of
            (h', ok) \<Rightarrow> if \<not> ok then h'\<lparr>rh_phase := AttachReturned\<rparr> else h'\<lparr>rh_phase := AwaitEvents f\<rparr>))"

fun backfill :: "runtime_hook \<Rightarrow> event list \<Rightarrow> runtime_hook \<times> bool" where
  "backfill h [] = (h, True)"
| "backfill h (e # es) = (case apply_frame h (EventFrame e) of
      (h', ok) \<Rightarrow> if \<not> ok then (h', False) else backfill h' es)"

definition attach_events :: "runtime_hook \<Rightarrow> snapshot_frame \<Rightarrow> string + runtime_event_page \<Rightarrow> runtime_hook" where
  "attach_events h snapshot answer = (case answer of
      Inl _ \<Rightarrow> attach_failed h
    | Inr page \<Rightarrow>
        if h_cancelled h then h\<lparr>rh_phase := AttachReturned\<rparr>
        else (case backfill h (rp_events page) of
            (h', ok) \<Rightarrow> if \<not> ok then h'\<lparr>rh_phase := AttachReturned\<rparr>
                       else (connect h' (Some (sf_last_seq snapshot)))\<lparr>rh_phase := Attached\<rparr>))"

definition mount_runtime :: runtime_hook where
  "mount_runtime = stream_hook.extend initial_hook \<lparr>rh_connected = False, rh_phase = AwaitSnapshot\<rparr>"

section \<open>What attaching leaves\<close>

lemma backfill_all:
  "backfill h es = (h\<lparr>h_updates := h_updates h @ map EventFrame es,
      h_expectedNextSeq := (if es = [] then h_expectedNextSeq h else Some (e_seq (last es) + 1)),
      h_schemaError := (if es = [] then h_schemaError h else None)\<rparr>, True)"
  by (induction es arbitrary: h) (auto simp: apply_frame_def set_state_def)

definition attach_both :: "runtime_hook \<Rightarrow> snapshot_frame \<Rightarrow> event list \<Rightarrow> runtime_hook" where
  "attach_both h f es = attach_events (attach_snapshot h (Inr f)) f
     (Inr \<lparr>rp_session_id = sf_experiment_id f, rp_last_seq = sf_last_seq f, rp_events = es\<rparr>)"

lemma attach_both_eq:
  "\<not> h_cancelled h \<Longrightarrow> attach_both h f es = h\<lparr>h_updates := h_updates h @ SnapshotFrame f # map EventFrame es,
     h_expectedNextSeq := Some (if es = [] then sf_last_seq f + 1 else e_seq (last es) + 1),
     h_schemaError := None, h_socket := Some (h_next h),
     h_sockets := h_sockets h @ [\<lparr>ws_id = h_next h, ws_since = Some (sf_last_seq f), ws_closing = False\<rparr>],
     h_next := Suc (h_next h), rh_phase := Attached\<rparr>"
  by (simp add: attach_both_def attach_snapshot_def attach_events_def backfill_all apply_frame_def
      set_state_def connect_def)

lemma mount_runtime_simps [simp]:
  "h_cancelled mount_runtime = False" "h_updates mount_runtime = []" "h_sockets mount_runtime = []"
  "h_timers mount_runtime = []"
  by (simp_all add: mount_runtime_def stream_hook.defs initial_hook_def)

section \<open>Properties\<close>

text \<open>C30. Attaching to a session shows its history at once: after the snapshot and the replay buffer
  the rendered state is the specification's view of that snapshot and all those events, before the
  socket delivers anything. In particular the counter of compromises adds the compromises of the
  history to the nodes the snapshot already shows as compromised or quarantined, which are
  counted twice: for the counter the backfill is not idempotent.\<close>

theorem attach_renders_history:
  assumes "\<forall>e \<in> set es. e_schema_version e = CURRENT_SCHEMA_VERSION"
  shows "let h = attach_both mount_runtime f es in
    \<exists>s. rendered h (length (h_updates h)) = Inr s \<and> view_of s = spec_view f es \<and>
      newCompromises (gs_metrics s) =
        int (length (filter exposed (sf_nodes f))) + int (length (filter is_new_compromise es))"
proof -
  have fresh: "gs_experimentId initialGraphState \<noteq> Some (sf_experiment_id f)"
    by (simp add: initialGraphState_def)
  obtain s where s: "reduce_all initialGraphState (SnapshotFrame f # map EventFrame es) = Inr s"
    and view: "view_of s = spec_view f es"
    using reduces_to_spec_view[OF fresh assms] by blast
  from view have "cv_compromises (view_of s) = cv_compromises (spec_view f es)" by simp
  then have "newCompromises (gs_metrics s) =
      int (length (filter exposed (sf_nodes f))) + int (length (filter is_new_compromise es))"
    by (simp add: view_of_def spec_view_def Let_def)
  with s view show ?thesis
    by (simp add: Let_def rendered_def attach_both_eq)
qed

definition seized_snapshot :: snapshot_frame where
  "seized_snapshot = demo_snapshot\<lparr>sf_last_seq := 1\<rparr>"

theorem attach_renders_history_witness:
  "let h = attach_both mount_runtime seized_snapshot [demo_event 1 COMPROMISE_SUCCEEDED None (Some ''b'')] in
   \<exists>s. rendered h (length (h_updates h)) = Inr s \<and> newCompromises (gs_metrics s) = 2 \<and>
     sm_totalExposure (selectMetrics s) = 1"
proof -
  let ?es = "[demo_event 1 COMPROMISE_SUCCEEDED None (Some ''b'')]"
  have "\<forall>e \<in> set ?es. e_schema_version e = CURRENT_SCHEMA_VERSION"
    by (simp add: demo_event_def CURRENT_SCHEMA_VERSION_def)
  from attach_renders_history[OF this, of seized_snapshot] obtain s
    where s: "rendered (attach_both mount_runtime seized_snapshot ?es)
        (length (h_updates (attach_both mount_runtime seized_snapshot ?es))) = Inr s"
      and n: "newCompromises (gs_metrics s) = 2"
    by (auto simp: Let_def seized_snapshot_def demo_snapshot_def demo_node_def exposed_def
        is_new_compromise_def demo_event_def meta_is_true_def meta_at_def)
  from s have "s = apply_event (reduce_snapshot initialGraphState seized_snapshot) (demo_event 1 COMPROMISE_SUCCEEDED None (Some ''b''))"
    by (simp add: rendered_def attach_both_eq CURRENT_SCHEMA_VERSION_def demo_event_def)
  then have "sm_totalExposure (selectMetrics s) = 1"
    by (simp add: selectMetrics_def apply_event_def apply_compromise_def apply_quarantine_def demo_event_def
        reduce_snapshot_def Let_def seized_snapshot_def demo_snapshot_def demo_node_def index_nodes_def
        mark_compromised_def)
  with s n show ?thesis by (auto simp: Let_def)
qed

text \<open>The hand-over from the replay buffer to the socket. The socket resumes after the
  snapshot. If the buffer ends there (or is empty) the next event is accepted; but if events were
  published between the two HTTP calls the buffer runs past the snapshot, the first event the
  socket resumes with counts as a gap, and the hook closes the socket and starts over.\<close>

theorem attach_hand_over:
  assumes "e_seq e = sf_last_seq f + 1"
  shows "let h = attach_both mount_runtime f es; h' = on_message h (EventFrame e) in
    ws_since (last (h_sockets h)) = Some (sf_last_seq f) \<and>
    (if es = [] \<or> e_seq (last es) = sf_last_seq f
     then h_updates h' = h_updates h @ [EventFrame e] \<and> h_timers h' = []
     else h_updates h' = h_updates h \<and> map t_since (h_timers h') = [None] \<and>
          ws_closing (last (h_sockets h')))"
proof (cases "es = [] \<or> e_seq (last es) = sf_last_seq f")
  case True
  with assms show ?thesis
    by (auto simp: Let_def attach_both_eq on_message_accepts)
next
  case False
  with assms show ?thesis
    by (simp add: Let_def attach_both_eq on_message_def scheduleReconnect_def close_socket_def)
qed

theorem attach_hand_over_witness:
  "map t_since (h_timers (on_message (attach_both mount_runtime demo_snapshot [demo_event 1 MODEL_REQUESTED None None])
     (EventFrame (demo_event 1 MODEL_REQUESTED None None)))) = [None]"
proof -
  have "e_seq (demo_event 1 MODEL_REQUESTED None None) = sf_last_seq demo_snapshot + 1"
    by (simp add: demo_event_def demo_snapshot_def)
  from attach_hand_over[OF this, of "[demo_event 1 MODEL_REQUESTED None None]"] show ?thesis
    by (simp add: Let_def demo_event_def demo_snapshot_def)
qed

end
