(* ===== verification/Verdict.thy ===== *)
theory Verdict
  imports Schema Event_Folds
begin

text \<open>
  \<open>frontend/src/lib/runtime/verdict.ts\<close>: the four lights of the demo screen. The verdict is a fold
  of the events; each of its fields follows one of the disciplines of \<open>Event_Folds\<close>.
\<close>

section \<open>State\<close>

record completed_step =
  cs_step :: string
  cs_workerId :: "string option"
  cs_detail :: string
  cs_seq :: int

record demo_verdict =
  attackDetected :: bool
  agentQuarantined :: bool
  workflowRecovered :: bool
  testsPassed :: "bool option"
  testSummary :: "string option"
  testCommand :: "string option"
  quarantinedWorkerId :: "string option"
  v_replacementWorkerId :: "string option"
  deniedResource :: "string option"
  violationReason :: "string option"
  violationType :: "string option"
  recoverySummary :: "string option"
  completedSteps :: "completed_step list"

definition EMPTY_VERDICT :: demo_verdict where
  "EMPTY_VERDICT = \<lparr>attackDetected = False, agentQuarantined = False, workflowRecovered = False,
     testsPassed = None, testSummary = None, testCommand = None, quarantinedWorkerId = None,
     v_replacementWorkerId = None, deniedResource = None, violationReason = None, violationType = None,
     recoverySummary = None, completedSteps = []\<rparr>"

section \<open>Deriving the verdict\<close>

definition completed_task :: "demo_verdict \<Rightarrow> event \<Rightarrow> demo_verdict" where
  "completed_task v e = (case str_or_null (meta_at e ''step'') of
      None \<Rightarrow> v
    | Some step \<Rightarrow>
        let w = v\<lparr>completedSteps := completedSteps v @
              [\<lparr>cs_step = step, cs_workerId = e_agent_id e,
                cs_detail = or_default (str_or_null (meta_at e ''detail'')) [], cs_seq = e_seq e\<rparr>]\<rparr>
        in if step = ''pytest''
           then w\<lparr>testsPassed := Some (meta_is_true e ''passed''),
                  testSummary := str_or_null (meta_at e ''detail''),
                  testCommand := str_or_null (meta_at e ''command'')\<rparr>
           else w)"

definition verdict_step :: "demo_verdict \<Rightarrow> event \<Rightarrow> demo_verdict" where
  "verdict_step v e = (case e_event_type e of
      POLICY_VIOLATION \<Rightarrow>
        v\<lparr>attackDetected := True,
          deniedResource := nullish (str_or_null (meta_at e ''resource'')) (deniedResource v),
          violationReason := nullish (str_or_null (meta_at e ''reason'')) (violationReason v),
          violationType := nullish (str_or_null (meta_at e ''violation_type'')) (violationType v)\<rparr>
    | AGENT_QUARANTINED \<Rightarrow>
        v\<lparr>agentQuarantined := True, quarantinedWorkerId := nullish (e_agent_id e) (quarantinedWorkerId v)\<rparr>
    | AGENT_CREATED \<Rightarrow>
        if str_or_null (meta_at e ''replaces'') \<noteq> None
        then v\<lparr>v_replacementWorkerId := nullish (e_agent_id e) (v_replacementWorkerId v)\<rparr> else v
    | TASK_COMPLETED \<Rightarrow> completed_task v e
    | WORKFLOW_RECOVERED \<Rightarrow>
        v\<lparr>workflowRecovered := True, recoverySummary := str_or_null (meta_at e ''summary'')\<rparr>
    | _ \<Rightarrow> v)"

definition deriveVerdict :: "event list \<Rightarrow> demo_verdict" where
  "deriveVerdict events = foldl verdict_step EMPTY_VERDICT events"

section \<open>The lights\<close>

datatype light_status = LsPending | LsLit | LsFailed

record verdict_light =
  vl_key :: string
  vl_label :: string
  vl_status :: light_status
  vl_hint :: string

definition verdictLights :: "demo_verdict \<Rightarrow> verdict_light list" where
  "verdictLights v =
    [\<lparr>vl_key = ''attackDetected'', vl_label = ''Attack detected'',
      vl_status = (if attackDetected v then LsLit else LsPending),
      vl_hint = or_default (violationReason v) ''No policy violation recorded yet.''\<rparr>,
     \<lparr>vl_key = ''agentQuarantined'', vl_label = ''Agent quarantined'',
      vl_status = (if agentQuarantined v then LsLit else LsPending),
      vl_hint = (if truthy (quarantinedWorkerId v)
                 then or_default (quarantinedWorkerId v) [] @ '' was removed from the team.''
                 else ''No worker has been quarantined.'')\<rparr>,
     \<lparr>vl_key = ''workflowRecovered'', vl_label = ''Workflow recovered'',
      vl_status = (if workflowRecovered v then LsLit else LsPending),
      vl_hint = or_default (recoverySummary v) ''The workflow has not completed yet.''\<rparr>,
     \<lparr>vl_key = ''testsPassed'', vl_label = ''Tests passed'',
      vl_status = (if testsPassed v = Some True then LsLit
                   else if testsPassed v = Some False then LsFailed else LsPending),
      vl_hint = or_default (testSummary v) ''No test run reported yet.''\<rparr>]"

section \<open>Each field's discipline\<close>

definition pytest_report :: "event \<Rightarrow> bool" where
  "pytest_report e \<longleftrightarrow> e_event_type e = TASK_COMPLETED \<and> meta_at e ''step'' = Some (JStr ''pytest'')"

definition on_type :: "event_type \<Rightarrow> (event \<Rightarrow> 'v option) \<Rightarrow> event \<Rightarrow> 'v option" where
  "on_type ty f e = (if e_event_type e = ty then f e else None)"

definition step_entry :: "event \<Rightarrow> completed_step option" where
  "step_entry e = on_type TASK_COMPLETED (\<lambda>e. map_option (\<lambda>step.
     \<lparr>cs_step = step, cs_workerId = e_agent_id e,
      cs_detail = or_default (str_or_null (meta_at e ''detail'')) [], cs_seq = e_seq e\<rparr>)
     (str_or_null (meta_at e ''step''))) e"

definition pytest_result :: "event \<Rightarrow> (bool \<times> string option \<times> string option) option" where
  "pytest_result e = (if pytest_report e
     then Some (meta_is_true e ''passed'', str_or_null (meta_at e ''detail''), str_or_null (meta_at e ''command''))
     else None)"

definition test_fields :: "demo_verdict \<Rightarrow> (bool \<times> string option \<times> string option) option" where
  "test_fields v = map_option (\<lambda>p. (p, testSummary v, testCommand v)) (testsPassed v)"

lemma pytest_step: "str_or_null (meta_at e ''step'') = Some ''pytest'' \<longleftrightarrow> meta_at e ''step'' = Some (JStr ''pytest'')"
  by simp

lemmas verdict_defs = verdict_step_def completed_task_def on_type_def Let_def

interpretation attack: latch verdict_step attackDetected "\<lambda>e. e_event_type e = POLICY_VIOLATION"
  by unfold_locales (auto simp: verdict_defs split: event_type.split option.split)

interpretation quarantine: latch verdict_step agentQuarantined "\<lambda>e. e_event_type e = AGENT_QUARANTINED"
  by unfold_locales (auto simp: verdict_defs split: event_type.split option.split)

interpretation recovery: latch verdict_step workflowRecovered "\<lambda>e. e_event_type e = WORKFLOW_RECOVERED"
  by unfold_locales (auto simp: verdict_defs split: event_type.split option.split)

interpretation denied: last_value verdict_step deniedResource
    "on_type POLICY_VIOLATION (\<lambda>e. str_or_null (meta_at e ''resource''))"
  by unfold_locales (auto simp: verdict_defs split: event_type.split option.split)

interpretation violation_reason: last_value verdict_step violationReason
    "on_type POLICY_VIOLATION (\<lambda>e. str_or_null (meta_at e ''reason''))"
  by unfold_locales (auto simp: verdict_defs split: event_type.split option.split)

interpretation violation_type: last_value verdict_step violationType
    "on_type POLICY_VIOLATION (\<lambda>e. str_or_null (meta_at e ''violation_type''))"
  by unfold_locales (auto simp: verdict_defs split: event_type.split option.split)

interpretation quarantined_worker: last_value verdict_step quarantinedWorkerId "on_type AGENT_QUARANTINED e_agent_id"
  by unfold_locales (auto simp: verdict_defs split: event_type.split option.split)

interpretation replacement: last_value verdict_step v_replacementWorkerId
    "on_type AGENT_CREATED (\<lambda>e. if str_or_null (meta_at e ''replaces'') \<noteq> None then e_agent_id e else None)"
  by unfold_locales (auto simp: verdict_defs split: event_type.split option.split)

interpretation steps: append_log verdict_step completedSteps step_entry
  by unfold_locales (auto simp: verdict_defs step_entry_def split: event_type.split option.split)

interpretation tests: last_value verdict_step test_fields pytest_result
  by unfold_locales
    (auto simp: verdict_defs test_fields_def pytest_result_def pytest_report_def split: event_type.split option.split)

text \<open>The recovery summary is overwritten by every recovery, also with nothing.\<close>

definition recovery_report :: "event \<Rightarrow> string option option" where
  "recovery_report e = (if e_event_type e = WORKFLOW_RECOVERED then Some (str_or_null (meta_at e ''summary'')) else None)"

interpretation summary: overwritten verdict_step recoverySummary recovery_report
  by unfold_locales (auto simp: verdict_defs recovery_report_def split: event_type.split option.split)

section \<open>Properties\<close>

lemma derived_summary: "recoverySummary (deriveVerdict es) = or_default (last_some (map recovery_report es)) None"
  by (simp add: deriveVerdict_def summary.field_fold EMPTY_VERDICT_def)

lemma derived_flags:
  "attackDetected (deriveVerdict es) \<longleftrightarrow> (\<exists>e \<in> set es. e_event_type e = POLICY_VIOLATION)"
  "agentQuarantined (deriveVerdict es) \<longleftrightarrow> (\<exists>e \<in> set es. e_event_type e = AGENT_QUARANTINED)"
  "workflowRecovered (deriveVerdict es) \<longleftrightarrow> (\<exists>e \<in> set es. e_event_type e = WORKFLOW_RECOVERED)"
  by (simp_all add: deriveVerdict_def attack.flag_fold quarantine.flag_fold recovery.flag_fold EMPTY_VERDICT_def)

lemma derived_tests: "test_fields (deriveVerdict es) = last_some (map pytest_result es)"
  using tests.field_fold[of EMPTY_VERDICT es]
  by (cases "last_some (map pytest_result es)")
    (simp_all add: deriveVerdict_def test_fields_def EMPTY_VERDICT_def)

lemma derived_test_run:
  "testsPassed (deriveVerdict es) = map_option fst (last_some (map pytest_result es))"
  "testSummary (deriveVerdict es) = (case last_some (map pytest_result es) of None \<Rightarrow> None | Some (p, s, c) \<Rightarrow> s)"
  "testCommand (deriveVerdict es) = (case last_some (map pytest_result es) of None \<Rightarrow> None | Some (p, s, c) \<Rightarrow> c)"
proof -
  have idle: "testsPassed (foldl verdict_step EMPTY_VERDICT es) = None \<Longrightarrow>
      testSummary (foldl verdict_step EMPTY_VERDICT es) = None \<and> testCommand (foldl verdict_step EMPTY_VERDICT es) = None"
    by (induction es rule: rev_induct)
      (auto simp: EMPTY_VERDICT_def verdict_defs split: event_type.splits option.splits if_splits)
  show "testsPassed (deriveVerdict es) = map_option fst (last_some (map pytest_result es))"
    unfolding derived_tests[symmetric] by (cases "testsPassed (deriveVerdict es)") (simp_all add: test_fields_def)
  show "testSummary (deriveVerdict es) = (case last_some (map pytest_result es) of None \<Rightarrow> None | Some (p, s, c) \<Rightarrow> s)"
    "testCommand (deriveVerdict es) = (case last_some (map pytest_result es) of None \<Rightarrow> None | Some (p, s, c) \<Rightarrow> c)"
    unfolding derived_tests[symmetric] using idle[folded deriveVerdict_def]
    by (cases "testsPassed (deriveVerdict es)"; simp add: test_fields_def)+
qed

text \<open>C32. The verdict holds what the events say and nothing else, in all of its fields. The three flags say whether
  their event arrived. The denied path, the reason and the type of the violation, the quarantined worker and the
  replacement are each those of the last event of their kind that names one. The completed steps are all the steps
  reported, in order. The test result, its summary and its command come from one and the same event, the last pytest
  report. The recovery summary is that of the last recovery, and absent if that one has none, also when an earlier
  recovery had one.\<close>

theorem deriveVerdict_justified:
  "deriveVerdict es =
     \<lparr>attackDetected = (\<exists>e \<in> set es. e_event_type e = POLICY_VIOLATION),
      agentQuarantined = (\<exists>e \<in> set es. e_event_type e = AGENT_QUARANTINED),
      workflowRecovered = (\<exists>e \<in> set es. e_event_type e = WORKFLOW_RECOVERED),
      testsPassed = map_option fst (last_some (map pytest_result es)),
      testSummary = (case last_some (map pytest_result es) of None \<Rightarrow> None | Some (p, s, c) \<Rightarrow> s),
      testCommand = (case last_some (map pytest_result es) of None \<Rightarrow> None | Some (p, s, c) \<Rightarrow> c),
      quarantinedWorkerId = last_some (map (on_type AGENT_QUARANTINED e_agent_id) es),
      v_replacementWorkerId = last_some (map (on_type AGENT_CREATED
        (\<lambda>e. if str_or_null (meta_at e ''replaces'') \<noteq> None then e_agent_id e else None)) es),
      deniedResource = last_some (map (on_type POLICY_VIOLATION (\<lambda>e. str_or_null (meta_at e ''resource''))) es),
      violationReason = last_some (map (on_type POLICY_VIOLATION (\<lambda>e. str_or_null (meta_at e ''reason''))) es),
      violationType = last_some (map (on_type POLICY_VIOLATION (\<lambda>e. str_or_null (meta_at e ''violation_type''))) es),
      recoverySummary = (case filter (\<lambda>e. e_event_type e = WORKFLOW_RECOVERED) es of
          [] \<Rightarrow> None | recoveries \<Rightarrow> str_or_null (meta_at (last recoveries) ''summary'')),
      completedSteps = List.map_filter step_entry es\<rparr>"
proof -
  have none: "nullish x None = x" for x :: "string option" by (cases x) auto
  have "last_some (map recovery_report es) = (if filter (\<lambda>e. e_event_type e = WORKFLOW_RECOVERED) es = [] then None
      else Some (str_or_null (meta_at (last (filter (\<lambda>e. e_event_type e = WORKFLOW_RECOVERED) es)) ''summary'')))"
    by (induction es rule: rev_induct) (auto simp: last_some_append recovery_report_def)
  then have summary: "recoverySummary (deriveVerdict es) = (case filter (\<lambda>e. e_event_type e = WORKFLOW_RECOVERED) es of
      [] \<Rightarrow> None | recoveries \<Rightarrow> str_or_null (meta_at (last recoveries) ''summary''))"
    by (simp add: derived_summary split: list.split)
  have fields: "deniedResource (deriveVerdict es) = last_some (map (on_type POLICY_VIOLATION (\<lambda>e. str_or_null (meta_at e ''resource''))) es)"
    "violationReason (deriveVerdict es) = last_some (map (on_type POLICY_VIOLATION (\<lambda>e. str_or_null (meta_at e ''reason''))) es)"
    "violationType (deriveVerdict es) = last_some (map (on_type POLICY_VIOLATION (\<lambda>e. str_or_null (meta_at e ''violation_type''))) es)"
    "quarantinedWorkerId (deriveVerdict es) = last_some (map (on_type AGENT_QUARANTINED e_agent_id) es)"
    "v_replacementWorkerId (deriveVerdict es) = last_some (map (on_type AGENT_CREATED
      (\<lambda>e. if str_or_null (meta_at e ''replaces'') \<noteq> None then e_agent_id e else None)) es)"
    "completedSteps (deriveVerdict es) = List.map_filter step_entry es"
    by (simp_all add: deriveVerdict_def denied.field_fold violation_reason.field_fold violation_type.field_fold
        quarantined_worker.field_fold replacement.field_fold steps.log_fold EMPTY_VERDICT_def none)
  show ?thesis
    by (rule demo_verdict.equality) (simp_all add: fields summary derived_flags derived_test_run)
qed

text \<open>C12. The lights cannot lie. Each of the first three is lit exactly when its event arrived; the
  test light is lit exactly when the last pytest report says that the run passed, red when it says
  anything else, and pending when there is none.\<close>

theorem verdict_lights_honest:
  "map vl_status (verdictLights (deriveVerdict es)) =
    [if \<exists>e \<in> set es. e_event_type e = POLICY_VIOLATION then LsLit else LsPending,
     if \<exists>e \<in> set es. e_event_type e = AGENT_QUARANTINED then LsLit else LsPending,
     if \<exists>e \<in> set es. e_event_type e = WORKFLOW_RECOVERED then LsLit else LsPending,
     case List.find pytest_report (rev es) of
       None \<Rightarrow> LsPending
     | Some e \<Rightarrow> if meta_at e ''passed'' = Some (JBool True) then LsLit else LsFailed]"
proof -
  have last: "last_some (map pytest_result es) = (case List.find pytest_report (rev es) of None \<Rightarrow> None
      | Some e \<Rightarrow> pytest_result e)" for es
  proof (induction es rule: rev_induct)
    case (snoc e es)
    then show ?case by (auto simp: last_some_append pytest_result_def split: option.split)
  qed simp
  have tests: "testsPassed (deriveVerdict es) = map_option (\<lambda>e. meta_at e ''passed'' = Some (JBool True))
      (List.find pytest_report (rev es))"
  proof (cases "List.find pytest_report (rev es)")
    case None
    then show ?thesis using derived_tests[of es] last[of es] by (simp add: test_fields_def)
  next
    case (Some e)
    then have "pytest_report e" by (auto simp: find_Some_iff)
    with Some show ?thesis using derived_tests[of es] last[of es]
      by (auto simp: test_fields_def pytest_result_def meta_is_true_def)
  qed
  show ?thesis
    by (simp add: verdictLights_def derived_flags tests split: option.split)
qed

end
