(* ===== verification/Incident.thy ===== *)
theory Incident
  imports Schema Event_Folds
begin

text \<open>
  \<open>frontend/src/lib/runtime/incident.ts\<close>: the deny cascade in four steps. A scan over the events
  fills the incident's fields and the steps reached; a second pass finds the request that was
  denied by its path. The variables of the loop are the record \<open>incident_scan\<close>.
\<close>

section \<open>State\<close>

datatype cascade_key = CkRequested | CkDenied | CkViolation | CkQuarantined

record reached_step =
  rc_seq :: int
  rc_detail :: string

record cascade_step =
  ck_key :: cascade_key
  ck_label :: string
  ck_detail :: string
  ck_seq :: "int option"

record incident =
  in_detected :: bool
  in_workerId :: "string option"
  in_workerRole :: "string option"
  in_resource :: "string option"
  in_rule :: "string option"
  in_reason :: "string option"
  in_taintedArtifactIds :: "string list"
  in_replacementWorkerId :: "string option"
  in_replacementRole :: "string option"
  in_trustedContextIds :: "string list"
  in_trustedContextOnly :: bool
  in_cascade :: "cascade_step list"

definition EMPTY_INCIDENT :: incident where
  "EMPTY_INCIDENT = \<lparr>in_detected = False, in_workerId = None, in_workerRole = None, in_resource = None,
     in_rule = None, in_reason = None, in_taintedArtifactIds = [], in_replacementWorkerId = None,
     in_replacementRole = None, in_trustedContextIds = [], in_trustedContextOnly = False, in_cascade = []\<rparr>"

fun CASCADE_LABEL :: "cascade_key \<Rightarrow> string" where
  "CASCADE_LABEL CkRequested = ''Tool request''"
| "CASCADE_LABEL CkDenied = ''Request denied''"
| "CASCADE_LABEL CkViolation = ''Policy violation''"
| "CASCADE_LABEL CkQuarantined = ''Worker quarantined''"

record incident_scan =
  is_roles :: "(string, string) jsmap"
  is_reached :: "(cascade_key, reached_step) jsmap"
  is_detected :: bool
  is_workerId :: "string option"
  is_resource :: "string option"
  is_rule :: "string option"
  is_reason :: "string option"
  is_taintedArtifactIds :: "string list"
  is_replacementWorkerId :: "string option"
  is_trustedContextIds :: "string list"
  is_trustedContextOnly :: bool

definition initial_scan :: incident_scan where
  "initial_scan = \<lparr>is_roles = [], is_reached = [], is_detected = False, is_workerId = None,
     is_resource = None, is_rule = None, is_reason = None, is_taintedArtifactIds = [],
     is_replacementWorkerId = None, is_trustedContextIds = [], is_trustedContextOnly = False\<rparr>"

section \<open>The scan\<close>

definition scan_created :: "incident_scan \<Rightarrow> event \<Rightarrow> string \<Rightarrow> incident_scan" where
  "scan_created s e agent =
     (let s1 = (case str_or_null (meta_at e ''role'') of
                  Some role \<Rightarrow> s\<lparr>is_roles := map_set (is_roles s) agent role\<rparr> | None \<Rightarrow> s)
      in if str_or_null (meta_at e ''replaces'') \<noteq> None
         then s1\<lparr>is_replacementWorkerId := Some agent,
                 is_trustedContextIds := json_strings (meta_at e ''trusted_context'')\<rparr>
         else s1)"

definition scan_denied :: "incident_scan \<Rightarrow> event \<Rightarrow> incident_scan" where
  "scan_denied s e =
     (if map_has (is_reached s) CkDenied then s
      else s\<lparr>is_resource := nullish (str_or_null (meta_at e ''resource'')) (is_resource s),
             is_rule := nullish (str_or_null (meta_at e ''violation_type'')) (is_rule s),
             is_reason := nullish (str_or_null (meta_at e ''reason'')) (is_reason s),
             is_reached := map_set (is_reached s) CkDenied
               \<lparr>rc_seq = e_seq e, rc_detail = ''Refused before anything was opened.''\<rparr>\<rparr>)"

definition scan_violation :: "incident_scan \<Rightarrow> event \<Rightarrow> incident_scan" where
  "scan_violation s e =
     s\<lparr>is_detected := True,
       is_workerId := nullish (e_agent_id e) (is_workerId s),
       is_resource := nullish (str_or_null (meta_at e ''resource'')) (is_resource s),
       is_rule := nullish (str_or_null (meta_at e ''violation_type'')) (is_rule s),
       is_reason := nullish (str_or_null (meta_at e ''reason'')) (is_reason s),
       is_reached := (if map_has (is_reached s) CkViolation then is_reached s
         else map_set (is_reached s) CkViolation
           \<lparr>rc_seq = e_seq e,
            rc_detail = or_default (str_or_null (meta_at e ''violation_type'')) ''policy violation''\<rparr>)\<rparr>"

definition scan_quarantined :: "incident_scan \<Rightarrow> event \<Rightarrow> incident_scan" where
  "scan_quarantined s e =
     (if map_has (is_reached s) CkQuarantined then s
      else s\<lparr>is_workerId := nullish (e_agent_id e) (is_workerId s),
             is_taintedArtifactIds := json_strings (meta_at e ''tainted_artifacts''),
             is_reached := map_set (is_reached s) CkQuarantined
               \<lparr>rc_seq = e_seq e, rc_detail = ''Removed from the team; its output is untrusted.''\<rparr>\<rparr>)"

definition incident_step :: "incident_scan \<Rightarrow> event \<Rightarrow> incident_scan" where
  "incident_step s e =
     (if e_event_type e = AGENT_CREATED \<and> truthy (e_agent_id e)
      then scan_created s e (the (e_agent_id e))
      else if e_event_type e = AGENT_STARTED \<and> e_agent_id e = is_replacementWorkerId s \<and>
              str_or_null (meta_at e ''context_policy'') = Some ''trusted_artifacts_only''
      then s\<lparr>is_trustedContextOnly := True\<rparr>
      else case e_event_type e of
        TOOL_DENIED \<Rightarrow> scan_denied s e
      | POLICY_VIOLATION \<Rightarrow> scan_violation s e
      | AGENT_QUARANTINED \<Rightarrow> scan_quarantined s e
      | _ \<Rightarrow> s)"

section \<open>The originating request and the incident\<close>

definition requests_resource :: "string \<Rightarrow> event \<Rightarrow> bool" where
  "requests_resource r e \<longleftrightarrow> e_event_type e = TOOL_REQUESTED \<and> str_or_null (meta_at e ''resource'') = Some r"

definition find_request :: "event list \<Rightarrow> incident_scan \<Rightarrow> incident_scan" where
  "find_request events s = (case is_resource s of
      None \<Rightarrow> s
    | Some r \<Rightarrow> (case List.find (requests_resource r) events of
        None \<Rightarrow> s
      | Some e \<Rightarrow> s\<lparr>is_reached := map_set (is_reached s) CkRequested \<lparr>rc_seq = e_seq e, rc_detail = r\<rparr>\<rparr>))"

definition cascade_of :: "(cascade_key, reached_step) jsmap \<Rightarrow> cascade_key \<Rightarrow> cascade_step" where
  "cascade_of reached key = \<lparr>ck_key = key, ck_label = CASCADE_LABEL key,
     ck_detail = or_default (map_option rc_detail (map_get reached key)) [],
     ck_seq = map_option rc_seq (map_get reached key)\<rparr>"

definition role_of :: "(string, string) jsmap \<Rightarrow> string option \<Rightarrow> string option" where
  "role_of roles worker = (if truthy worker then map_get roles (the worker) else None)"

definition incident_of :: "incident_scan \<Rightarrow> incident" where
  "incident_of s = \<lparr>in_detected = is_detected s, in_workerId = is_workerId s,
     in_workerRole = role_of (is_roles s) (is_workerId s), in_resource = is_resource s,
     in_rule = is_rule s, in_reason = is_reason s, in_taintedArtifactIds = is_taintedArtifactIds s,
     in_replacementWorkerId = is_replacementWorkerId s,
     in_replacementRole = role_of (is_roles s) (is_replacementWorkerId s),
     in_trustedContextIds = is_trustedContextIds s, in_trustedContextOnly = is_trustedContextOnly s,
     in_cascade = map (cascade_of (is_reached s)) [CkRequested, CkDenied, CkViolation, CkQuarantined]\<rparr>"

definition deriveIncident :: "event list \<Rightarrow> incident" where
  "deriveIncident events = incident_of (find_request events (foldl incident_step initial_scan events))"

section \<open>Each field's discipline\<close>

definition on_event :: "event_type \<Rightarrow> (event \<Rightarrow> 'v option) \<Rightarrow> event \<Rightarrow> 'v option" where
  "on_event ty f e = (if e_event_type e = ty then f e else None)"

lemma incident_step_if:
  "incident_step s e =
     (if e_event_type e = AGENT_CREATED \<and> truthy (e_agent_id e)
      then scan_created s e (the (e_agent_id e))
      else if e_event_type e = AGENT_STARTED \<and> e_agent_id e = is_replacementWorkerId s \<and>
              str_or_null (meta_at e ''context_policy'') = Some ''trusted_artifacts_only''
      then s\<lparr>is_trustedContextOnly := True\<rparr>
      else if e_event_type e = TOOL_DENIED then scan_denied s e
      else if e_event_type e = POLICY_VIOLATION then scan_violation s e
      else if e_event_type e = AGENT_QUARANTINED then scan_quarantined s e
      else s)"
  by (cases "e_event_type e") (simp_all add: incident_step_def)

lemmas incident_defs = incident_step_if scan_created_def scan_denied_def scan_violation_def
  scan_quarantined_def on_event_def map_has_def Let_def

definition reached_seq :: "cascade_key \<Rightarrow> incident_scan \<Rightarrow> int option" where
  "reached_seq k s = map_option rc_seq (map_get (is_reached s) k)"

interpretation detected: latch incident_step is_detected "\<lambda>e. e_event_type e = POLICY_VIOLATION"
  by unfold_locales (auto simp: incident_defs split: option.split)

text \<open>The steps reached change with three kinds of event, each at its own key.\<close>

lemma is_reached_step:
  "is_reached (incident_step s e) =
     (if e_event_type e = TOOL_DENIED then is_reached (scan_denied s e)
      else if e_event_type e = POLICY_VIOLATION then is_reached (scan_violation s e)
      else if e_event_type e = AGENT_QUARANTINED then is_reached (scan_quarantined s e)
      else is_reached s)"
  by (simp add: incident_step_if scan_created_def Let_def split: option.split)

lemma scan_reached_seq:
  "reached_seq k (scan_denied s e) =
     (if k = CkDenied then nullish (reached_seq k s) (Some (e_seq e)) else reached_seq k s)"
  "reached_seq k (scan_violation s e) =
     (if k = CkViolation then nullish (reached_seq k s) (Some (e_seq e)) else reached_seq k s)"
  "reached_seq k (scan_quarantined s e) =
     (if k = CkQuarantined then nullish (reached_seq k s) (Some (e_seq e)) else reached_seq k s)"
  by (auto simp: reached_seq_def scan_denied_def scan_violation_def scan_quarantined_def map_has_def)

lemma reached_seq_step:
  "reached_seq k (incident_step s e) =
     (if e_event_type e = TOOL_DENIED then reached_seq k (scan_denied s e)
      else if e_event_type e = POLICY_VIOLATION then reached_seq k (scan_violation s e)
      else if e_event_type e = AGENT_QUARANTINED then reached_seq k (scan_quarantined s e)
      else reached_seq k s)"
  by (simp add: reached_seq_def is_reached_step)

interpretation denied_seq: first_report incident_step "reached_seq CkDenied" "on_event TOOL_DENIED (\<lambda>e. Some (e_seq e))"
  by unfold_locales (simp add: reached_seq_step scan_reached_seq on_event_def)

interpretation violation_seq: first_report incident_step "reached_seq CkViolation"
    "on_event POLICY_VIOLATION (\<lambda>e. Some (e_seq e))"
  by unfold_locales (simp add: reached_seq_step scan_reached_seq on_event_def)

interpretation quarantined_seq: first_report incident_step "reached_seq CkQuarantined"
    "on_event AGENT_QUARANTINED (\<lambda>e. Some (e_seq e))"
  by unfold_locales (simp add: reached_seq_step scan_reached_seq on_event_def)

definition replacement_id :: "event \<Rightarrow> string option" where
  "replacement_id e = on_event AGENT_CREATED
     (\<lambda>e. if truthy (e_agent_id e) \<and> str_or_null (meta_at e ''replaces'') \<noteq> None then e_agent_id e else None) e"

interpretation replacement_worker: last_value incident_step is_replacementWorkerId replacement_id
  by unfold_locales
    (auto simp: incident_defs replacement_id_def truthy_iff split: option.split)

section \<open>Properties\<close>

definition first_seq :: "event_type \<Rightarrow> event list \<Rightarrow> int option" where
  "first_seq ty es = map_option e_seq (List.find (\<lambda>e. e_event_type e = ty) es)"

lemma first_some_seq: "first_some (map (on_event ty (\<lambda>e. Some (e_seq e))) es) = first_seq ty es"
  by (induction es) (auto simp: on_event_def first_seq_def)

definition scanned :: "event list \<Rightarrow> incident_scan" where
  "scanned es = foldl incident_step initial_scan es"

lemma scanned_snoc: "scanned (es @ [e]) = incident_step (scanned es) e"
  by (simp add: scanned_def)

lemma initial_reached [simp]: "reached_seq k initial_scan = None"
  by (simp add: reached_seq_def initial_scan_def)

lemma requested_not_scanned: "reached_seq CkRequested (scanned es) = None"
  by (induction es rule: rev_induct)
    (simp_all add: scanned_snoc reached_seq_step scan_reached_seq, simp add: scanned_def)

lemma scanned_seqs:
  "reached_seq CkDenied (scanned es) = first_seq TOOL_DENIED es"
  "reached_seq CkViolation (scanned es) = first_seq POLICY_VIOLATION es"
  "reached_seq CkQuarantined (scanned es) = first_seq AGENT_QUARANTINED es"
  by (simp_all add: scanned_def denied_seq.field_fold violation_seq.field_fold quarantined_seq.field_fold
      first_some_seq)

definition request_seq :: "event list \<Rightarrow> string option \<Rightarrow> int option" where
  "request_seq es resource = (case resource of None \<Rightarrow> None
     | Some r \<Rightarrow> map_option e_seq (List.find (requests_resource r) es))"

lemma find_request_reached:
  "reached_seq k (find_request es s) =
     (if k = CkRequested then nullish (request_seq es (is_resource s)) (reached_seq k s) else reached_seq k s)"
  by (auto simp: find_request_def request_seq_def reached_seq_def split: option.split)

lemma find_request_fields:
  "is_detected (find_request es s) = is_detected s" "is_resource (find_request es s) = is_resource s"
  "is_rule (find_request es s) = is_rule s" "is_reason (find_request es s) = is_reason s"
  "is_workerId (find_request es s) = is_workerId s"
  "is_replacementWorkerId (find_request es s) = is_replacementWorkerId s"
  by (auto simp: find_request_def split: option.split)

lemma deriveIncident_scanned: "deriveIncident es = incident_of (find_request es (scanned es))"
  by (simp add: deriveIncident_def scanned_def)

lemma cascade_seqs:
  "map ck_seq (in_cascade (deriveIncident es)) =
     [request_seq es (is_resource (scanned es)), first_seq TOOL_DENIED es, first_seq POLICY_VIOLATION es,
      first_seq AGENT_QUARANTINED es]"
  by (simp add: deriveIncident_scanned incident_of_def cascade_of_def reached_seq_def[symmetric]
      find_request_reached scanned_seqs requested_not_scanned)

lemma incident_resource: "in_resource (deriveIncident es) = is_resource (scanned es)"
  by (simp add: deriveIncident_scanned incident_of_def find_request_fields)

lemma is_resource_step:
  "is_resource (incident_step s e) =
     (if e_event_type e = TOOL_DENIED then is_resource (scan_denied s e)
      else if e_event_type e = POLICY_VIOLATION
      then nullish (str_or_null (meta_at e ''resource'')) (is_resource s) else is_resource s)"
  by (simp add: incident_step_if scan_created_def scan_violation_def scan_quarantined_def Let_def split: option.split)

text \<open>The events that name the path of the incident: every violation, and the first denial.\<close>

definition naming_events :: "event list \<Rightarrow> event list" where
  "naming_events es = filter (\<lambda>e. e_event_type e = POLICY_VIOLATION) (takeWhile (\<lambda>e. e_event_type e \<noteq> TOOL_DENIED) es) @
     (case dropWhile (\<lambda>e. e_event_type e \<noteq> TOOL_DENIED) es of [] \<Rightarrow> []
      | d # later \<Rightarrow> d # filter (\<lambda>e. e_event_type e = POLICY_VIOLATION) later)"

lemma naming_events_snoc:
  "naming_events (es @ [e]) = naming_events es @
     (if e_event_type e = POLICY_VIOLATION \<or> e_event_type e = TOOL_DENIED \<and> first_seq TOOL_DENIED es = None then [e] else [])"
proof (cases "first_seq TOOL_DENIED es")
  case None
  then have "\<forall>x \<in> set es. e_event_type x \<noteq> TOOL_DENIED" by (auto simp: first_seq_def find_None_iff)
  moreover from this have whole: "takeWhile (\<lambda>e. e_event_type e \<noteq> TOOL_DENIED) es = es"
      "dropWhile (\<lambda>e. e_event_type e \<noteq> TOOL_DENIED) es = []"
    by (simp_all add: takeWhile_eq_all_conv)
  ultimately show ?thesis
    using None by (simp add: naming_events_def takeWhile_append2 dropWhile_append2 whole)
next
  case (Some d)
  then obtain x where x: "x \<in> set es" "e_event_type x = TOOL_DENIED"
    unfolding first_seq_def by (metis (mono_tags, lifting) find_None_iff option.map_disc_iff option.distinct(1))
  then have cut: "takeWhile (\<lambda>e. e_event_type e \<noteq> TOOL_DENIED) (es @ [e]) = takeWhile (\<lambda>e. e_event_type e \<noteq> TOOL_DENIED) es"
    "dropWhile (\<lambda>e. e_event_type e \<noteq> TOOL_DENIED) (es @ [e]) = dropWhile (\<lambda>e. e_event_type e \<noteq> TOOL_DENIED) es @ [e]"
    by (auto simp: takeWhile_append1 dropWhile_append1)
  have "dropWhile (\<lambda>e. e_event_type e \<noteq> TOOL_DENIED) es \<noteq> []" using x by auto
  with Some cut show ?thesis by (auto simp: naming_events_def split: list.split)
qed

lemma scanned_resource: "is_resource (scanned es) = last_some (map (\<lambda>e. str_or_null (meta_at e ''resource'')) (naming_events es))"
proof (induction es rule: rev_induct)
  case Nil
  show ?case by (simp add: scanned_def initial_scan_def naming_events_def)
next
  case (snoc e es)
  have "map_has (is_reached (scanned es)) CkDenied \<longleftrightarrow> first_seq TOOL_DENIED es \<noteq> None"
    unfolding scanned_seqs(1)[symmetric] by (simp add: map_has_def reached_seq_def)
  with snoc show ?case
    by (auto simp: scanned_snoc is_resource_step scan_denied_def naming_events_snoc last_some_append)
qed

text \<open>C16. The cascade is pinned to the events that prove it. Its denied, violation and quarantined steps carry the
  sequence number of the first event of their kind, and a step is unreached exactly when there is none. The path of the
  incident is the last one named by the first denial or by any violation, so a later denial never moves it and a later
  violation on another path does. The request step is the first request for that path. The incident is detected exactly
  when there is a violation, and its replacement is the last worker created to replace another.\<close>

theorem deriveIncident_cascade:
  "map ck_key (in_cascade (deriveIncident es)) = [CkRequested, CkDenied, CkViolation, CkQuarantined] \<and>
   map ck_seq (in_cascade (deriveIncident es)) =
     [case in_resource (deriveIncident es) of None \<Rightarrow> None
      | Some path \<Rightarrow> map_option e_seq
          (List.find (\<lambda>e. e_event_type e = TOOL_REQUESTED \<and> meta_at e ''resource'' = Some (JStr path)) es),
      first_seq TOOL_DENIED es, first_seq POLICY_VIOLATION es, first_seq AGENT_QUARANTINED es] \<and>
   in_resource (deriveIncident es) = last_some (map (\<lambda>e. str_or_null (meta_at e ''resource'')) (naming_events es)) \<and>
   (in_detected (deriveIncident es) \<longleftrightarrow> (\<exists>e \<in> set es. e_event_type e = POLICY_VIOLATION)) \<and>
   in_replacementWorkerId (deriveIncident es) = last_some (map replacement_id es)"
proof -
  have "is_detected (scanned es) \<longleftrightarrow> (\<exists>e \<in> set es. e_event_type e = POLICY_VIOLATION)"
    by (simp add: scanned_def detected.flag_fold initial_scan_def)
  moreover have "is_replacementWorkerId (scanned es) = last_some (map replacement_id es)"
    using replacement_worker.field_fold[of initial_scan es]
    by (simp add: scanned_def) (simp add: initial_scan_def)
  moreover have "request_seq es (is_resource (scanned es)) = (case is_resource (scanned es) of None \<Rightarrow> None
      | Some path \<Rightarrow> map_option e_seq
          (List.find (\<lambda>e. e_event_type e = TOOL_REQUESTED \<and> meta_at e ''resource'' = Some (JStr path)) es))"
  proof (cases "is_resource (scanned es)")
    case (Some path)
    then have "Some path \<in> set (map (\<lambda>e. str_or_null (meta_at e ''resource'')) (naming_events es))"
      unfolding scanned_resource by (rule last_some_in)
    then have "path \<noteq> []" by (auto simp: str_or_null_def split: option.splits json.splits if_splits)
    then have "requests_resource path = (\<lambda>e. e_event_type e = TOOL_REQUESTED \<and> meta_at e ''resource'' = Some (JStr path))"
      by (auto simp: requests_resource_def fun_eq_iff)
    with Some show ?thesis by (simp add: request_seq_def)
  qed (simp add: request_seq_def)
  ultimately show ?thesis
    unfolding cascade_seqs incident_resource
    by (simp add: deriveIncident_scanned incident_of_def cascade_of_def find_request_fields scanned_resource)
qed

text \<open>Requests and denials after the first denial.\<close>

definition later_request :: "event \<Rightarrow> bool" where
  "later_request e \<longleftrightarrow> e_event_type e = TOOL_REQUESTED \<or> e_event_type e = TOOL_DENIED"

lemma later_request_ignored:
  "reached_seq CkDenied s \<noteq> None \<Longrightarrow> later_request e \<Longrightarrow> incident_step s e = s"
  unfolding later_request_def
  by (erule disjE) (simp_all add: incident_step_def scan_denied_def map_has_def reached_seq_def)

lemma later_requests_ignored:
  "reached_seq CkDenied s \<noteq> None \<Longrightarrow> list_all later_request ds \<Longrightarrow> foldl incident_step s ds = s"
  by (induction ds) (auto simp: later_request_ignored)

lemma find_append_found: "List.find P xs \<noteq> None \<Longrightarrow> List.find P (xs @ ys) = List.find P xs"
  by (induction xs) auto

text \<open>What a quarantined worker does afterwards leaves the incident alone: once the denial and
  the request that caused it are on record, any further requests and denials change nothing.\<close>

theorem later_denials_ignored:
  assumes "first_seq TOOL_DENIED es \<noteq> None"
    and "request_seq es (in_resource (deriveIncident es)) \<noteq> None"
    and "list_all later_request ds"
  shows "deriveIncident (es @ ds) = deriveIncident es"
proof -
  have "scanned (es @ ds) = scanned es"
    using assms(1,3) by (simp add: scanned_def later_requests_ignored scanned_seqs[unfolded scanned_def])
  moreover have "find_request (es @ ds) (scanned es) = find_request es (scanned es)"
    using assms(2) unfolding incident_resource
    by (auto simp: find_request_def request_seq_def find_append_found split: option.splits)
  ultimately show ?thesis by (simp add: deriveIncident_scanned)
qed

definition demo_meta_event :: "int \<Rightarrow> event_type \<Rightarrow> string option \<Rightarrow> json_object \<Rightarrow> event" where
  "demo_meta_event n ty a meta = \<lparr>e_sim_tick = n, e_event_type = ty, e_agent_id = a,
     e_source_agent_id = None, e_target_agent_id = None, e_metadata = Some meta, e_event_id = show_int n,
     e_seq = n, e_schema_version = 1, e_experiment_id = ''run'', e_wall_time = ''2026-09-05T10:00:00Z''\<rparr>"

definition demo_attack :: "int \<Rightarrow> string \<Rightarrow> event list" where
  "demo_attack n path = [demo_meta_event n TOOL_REQUESTED (Some ''w'') [(''resource'', JStr path)],
     demo_meta_event (n + 1) TOOL_DENIED (Some ''w'') [(''resource'', JStr path)],
     demo_meta_event (n + 2) POLICY_VIOLATION (Some ''w'') [(''resource'', JStr path)],
     demo_meta_event (n + 3) AGENT_QUARANTINED (Some ''w'') []]"

lemma demo_attack_split:
  "demo_attack n path = take 2 (demo_attack n path) @
     [demo_meta_event (n + 2) POLICY_VIOLATION (Some ''w'') [(''resource'', JStr path)],
      demo_meta_event (n + 3) AGENT_QUARANTINED (Some ''w'') []]"
  by (simp add: demo_attack_def)

lemma demo_attack_resource: "path \<noteq> [] \<Longrightarrow> is_resource (scanned (es @ demo_attack n path)) = Some path"
  by (subst demo_attack_split)
    (simp add: scanned_def is_resource_step demo_meta_event_def meta_at_def)

theorem later_denials_ignored_witness:
  "deriveIncident (demo_attack 1 ''.env'' @ [demo_meta_event 5 TOOL_DENIED (Some ''w'') [(''resource'', JStr ''README'')]])
     = deriveIncident (demo_attack 1 ''.env'')"
proof -
  let ?es = "demo_attack 1 ''.env''"
  have "first_seq TOOL_DENIED ?es \<noteq> None"
    by (simp add: first_seq_def demo_attack_def demo_meta_event_def)
  moreover have "request_seq ?es (in_resource (deriveIncident ?es)) \<noteq> None"
    using demo_attack_resource[of "''.env''" "[]" 1]
    by (simp add: incident_resource)
      (simp add: request_seq_def demo_attack_def demo_meta_event_def requests_resource_def meta_at_def)
  ultimately show ?thesis
    by (rule later_denials_ignored) (simp add: later_request_def demo_meta_event_def)
qed

text \<open>A second violation takes over the incident but not the cascade: resource and request step
  move to the new violation's path, while the denied and violation steps stay with the first.
  With a later attack on another path the cascade therefore mixes two incidents, and its request
  step comes after its denial.\<close>

theorem second_violation_mixes:
  assumes "e_event_type v = POLICY_VIOLATION" and "meta_at v ''resource'' = Some (JStr path)" and "path \<noteq> []"
    and "first_seq TOOL_DENIED es = Some d" and "first_seq POLICY_VIOLATION es = Some p"
  shows "in_resource (deriveIncident (es @ [v])) = Some path \<and>
    take 3 (map ck_seq (in_cascade (deriveIncident (es @ [v])))) = [request_seq (es @ [v]) (Some path), Some d, Some p]"
proof -
  have found: "first_seq ty (es @ [v]) = first_seq ty es" if "first_seq ty es \<noteq> None" for ty
    using that by (simp add: first_seq_def find_append_found)
  have "is_resource (scanned (es @ [v])) = Some path"
    using assms(1-3) by (simp add: scanned_snoc incident_step_if scan_violation_def)
  with found[of TOOL_DENIED] found[of POLICY_VIOLATION] assms(4,5) show ?thesis
    unfolding cascade_seqs incident_resource by simp
qed

theorem second_violation_mixes_witness:
  "take 2 (map ck_seq (in_cascade (deriveIncident (demo_attack 1 ''.env'' @ demo_attack 11 ''id_rsa'')))) = [Some 11, Some 2]"
proof -
  let ?v = "demo_meta_event 13 POLICY_VIOLATION (Some ''w'') [(''resource'', JStr ''id_rsa'')]"
  let ?q = "demo_meta_event 14 AGENT_QUARANTINED (Some ''w'') []"
  let ?es = "demo_attack 1 ''.env'' @ take 2 (demo_attack 11 ''id_rsa'')"
  have es: "demo_attack 1 ''.env'' @ demo_attack 11 ''id_rsa'' = (?es @ [?v]) @ [?q]"
    by (simp add: demo_attack_def)
  have "first_seq TOOL_DENIED ?es = Some 2" "first_seq POLICY_VIOLATION ?es = Some 3"
    by (simp_all add: first_seq_def demo_attack_def demo_meta_event_def)
  then have "is_resource (scanned (?es @ [?v])) = Some ''id_rsa''"
    using second_violation_mixes[of ?v "''id_rsa''" ?es 2 3]
    by (simp add: demo_meta_event_def meta_at_def incident_resource)
  then have "is_resource (scanned ((?es @ [?v]) @ [?q])) = Some ''id_rsa''"
    unfolding scanned_snoc[of "?es @ [?v]"] by (simp add: is_resource_step demo_meta_event_def)
  then show ?thesis
    unfolding cascade_seqs es[symmetric]
    by (simp add: request_seq_def first_seq_def demo_attack_def demo_meta_event_def requests_resource_def meta_at_def)
qed

end
