(* ===== verification/Test_Runs.thy ===== *)
theory Test_Runs
  imports Schema Event_Folds
begin

text \<open>
  \<open>frontend/src/lib/runtime/testRuns.ts\<close>: the test runs before and after the fix, and the counts in
  pytest's summary line. The regular expression \<open>COUNT_RE\<close> is written out as the left-to-right
  scan it performs: digits, white space, one of the words in any case, each part as long as
  possible. White space is that of ASCII; \<open>errors?\<close> is its two alternatives, the longer first.
\<close>

section \<open>Counts\<close>

record test_count =
  tc_label :: string
  tc_value :: nat

definition COUNT_WORDS :: "string list" where
  "COUNT_WORDS = [''passed'', ''failed'', ''errors'', ''error'', ''skipped'', ''xfailed'', ''xpassed'', ''deselected'']"

definition match_word :: "string \<Rightarrow> string option" where
  "match_word s = List.find (\<lambda>w. map to_lower (take (length w) s) = w) COUNT_WORDS"

text \<open>A match at the start of the string: its two groups and what follows it.\<close>

definition match_count :: "string \<Rightarrow> (string \<times> string \<times> string) option" where
  "match_count s =
     (let digits = takeWhile is_digit s; rest = dropWhile is_digit s; word = dropWhile is_space rest
      in if digits = [] \<or> takeWhile is_space rest = [] then None
         else (case match_word word of
             None \<Rightarrow> None
           | Some w \<Rightarrow> Some (digits, w, drop (length w) word)))"

text \<open>\<open>Number\<close> of a digit string is infinite from the first value that rounds past the largest double.\<close>

definition number_finite :: "nat \<Rightarrow> bool" where
  "number_finite n \<longleftrightarrow> n < 2 ^ 1024 - 2 ^ 970"

lemma match_count_shorter: "match_count s = Some (ds, w, rest) \<Longrightarrow> length rest < length s"
proof -
  assume m: "match_count s = Some (ds, w, rest)"
  let ?r = "dropWhile is_digit s"
  from m have rest: "rest = drop (length w) (dropWhile is_space ?r)" and ne: "takeWhile is_digit s \<noteq> []"
    by (auto simp: match_count_def Let_def split: if_splits option.splits)
  have "length rest \<le> length ?r"
    using length_dropWhile_le[of is_space ?r] rest by simp
  moreover have "length ?r < length s"
  proof -
    have "length (takeWhile is_digit s) + length ?r = length s"
      by (metis length_append takeWhile_dropWhile_id)
    moreover have "0 < length (takeWhile is_digit s)" using ne by simp
    ultimately show ?thesis by linarith
  qed
  ultimately show ?thesis by simp
qed

function scan_counts :: "string \<Rightarrow> test_count list" where
  "scan_counts s = (case match_count s of
      Some (digits, word, rest) \<Rightarrow>
        (if number_finite (digits_value digits) then [\<lparr>tc_label = word, tc_value = digits_value digits\<rparr>] else [])
          @ scan_counts rest
    | None \<Rightarrow> (case s of [] \<Rightarrow> [] | _ # t \<Rightarrow> scan_counts t))"
  by auto
termination
  by (relation "measure length") (auto dest: match_count_shorter)

declare scan_counts.simps [simp del]

definition parseCounts :: "string \<Rightarrow> test_count list" where
  "parseCounts summary = scan_counts summary"

section \<open>Test evidence\<close>

record test_run =
  tr_seq :: int
  tr_workerId :: "string option"
  tr_passed :: bool
  tr_summary :: string
  tr_command :: "string option"
  tr_exitCode :: "jsnum option"
  tr_counts :: "test_count list"

record test_evidence =
  te_runs :: "test_run list"
  te_before :: "test_run option"
  te_after :: "test_run option"
  te_provedRed :: bool
  te_provedGreen :: bool

definition EMPTY_TEST_EVIDENCE :: test_evidence where
  "EMPTY_TEST_EVIDENCE = \<lparr>te_runs = [], te_before = None, te_after = None, te_provedRed = False, te_provedGreen = False\<rparr>"

definition test_run_of :: "event \<Rightarrow> test_run option" where
  "test_run_of e =
     (if e_event_type e \<noteq> TASK_COMPLETED then None
      else if meta_at e ''step'' \<noteq> Some (JStr ''pytest'') then None
      else let summary = or_default (str_or_null (meta_at e ''detail'')) []
        in Some \<lparr>tr_seq = e_seq e, tr_workerId = e_agent_id e, tr_passed = meta_is_true e ''passed'',
                 tr_summary = summary, tr_command = str_or_null (meta_at e ''command''),
                 tr_exitCode = (case meta_at e ''exit_code'' of Some (JNum n) \<Rightarrow> Some n | _ \<Rightarrow> None),
                 tr_counts = parseCounts summary\<rparr>)"

definition push_run :: "test_run list \<Rightarrow> event \<Rightarrow> test_run list" where
  "push_run runs e = (case test_run_of e of None \<Rightarrow> runs | Some r \<Rightarrow> runs @ [r])"

definition deriveTestEvidence :: "event list \<Rightarrow> test_evidence" where
  "deriveTestEvidence events =
     (let runs = foldl push_run [] events
      in if runs = [] then EMPTY_TEST_EVIDENCE
         else let before = runs ! 0;
                  after = (if 1 < length runs then Some (runs ! (length runs - 1)) else None)
           in \<lparr>te_runs = runs, te_before = Some before, te_after = after,
               te_provedRed = (\<not> tr_passed before),
               te_provedGreen = (case after of None \<Rightarrow> False | Some r \<Rightarrow> tr_passed r)\<rparr>)"

interpretation runs: append_log push_run "\<lambda>rs. rs" test_run_of
  by unfold_locales (simp add: push_run_def split: option.split)

lemma test_runs_all: "te_runs (deriveTestEvidence es) = List.map_filter test_run_of es"
  by (simp add: deriveTestEvidence_def Let_def runs.log_fold EMPTY_TEST_EVIDENCE_def)

section \<open>Parsing what pytest prints\<close>

text \<open>The last line of a run as pytest writes it, from its own terminal reporter and not from the pattern: a count and a
  word for every kind of outcome there is, "warning" and "error" in the plural unless there is one, and the
  duration, with a clock in brackets when the run took a minute or longer. The recorder of the runs
  (\<open>workswarm/verify.py\<close>) may cut the clock off, so that it is optional here.\<close>

datatype pytest_outcome =
  PtFailed | PtPassed | PtSkipped | PtDeselected | PtXfailed | PtXpassed | PtWarnings | PtErrors

fun outcome_word :: "pytest_outcome \<Rightarrow> nat \<Rightarrow> string" where
  "outcome_word PtFailed n = ''failed''"
| "outcome_word PtPassed n = ''passed''"
| "outcome_word PtSkipped n = ''skipped''"
| "outcome_word PtDeselected n = ''deselected''"
| "outcome_word PtXfailed n = ''xfailed''"
| "outcome_word PtXpassed n = ''xpassed''"
| "outcome_word PtWarnings n = (if n = 1 then ''warning'' else ''warnings'')"
| "outcome_word PtErrors n = (if n = 1 then ''error'' else ''errors'')"

definition two_digits :: "nat \<Rightarrow> string" where
  "two_digits n = [digit_char (n div 10 mod 10), digit_char (n mod 10)]"

definition pytest_clock :: "nat \<Rightarrow> string" where
  "pytest_clock secs = '' ('' @ (let days = secs div 86400 in
       if days = 0 then [] else show_nat days @ (if days = 1 then '' day, '' else '' days, '')) @
     show_nat (secs mod 86400 div 3600) @ '':'' @ two_digits (secs div 60 mod 60) @ '':'' @ two_digits (secs mod 60) @ '')''"

definition outcome_text :: "pytest_outcome \<times> nat \<Rightarrow> string" where
  "outcome_text p = (case p of (kind, n) \<Rightarrow> show_nat n @ '' '' @ outcome_word kind n)"

definition pytest_line :: "(pytest_outcome \<times> nat) list \<Rightarrow> nat \<Rightarrow> nat \<Rightarrow> bool \<Rightarrow> string" where
  "pytest_line parts secs hundredths clock =
     (if parts = [] then ''no tests ran'' else join '', '' (map outcome_text parts)) @
     '' in '' @ show_nat secs @ ''.'' @ two_digits hundredths @ ''s'' @ (if clock then pytest_clock secs else [])"

lemma to_lower_letters:
  "to_lower (CHR ''a'') = CHR ''a''"
  "to_lower (CHR ''c'') = CHR ''c''"
  "to_lower (CHR ''d'') = CHR ''d''"
  "to_lower (CHR ''e'') = CHR ''e''"
  "to_lower (CHR ''f'') = CHR ''f''"
  "to_lower (CHR ''i'') = CHR ''i''"
  "to_lower (CHR ''k'') = CHR ''k''"
  "to_lower (CHR ''l'') = CHR ''l''"
  "to_lower (CHR ''o'') = CHR ''o''"
  "to_lower (CHR ''p'') = CHR ''p''"
  "to_lower (CHR ''r'') = CHR ''r''"
  "to_lower (CHR ''s'') = CHR ''s''"
  "to_lower (CHR ''t'') = CHR ''t''"
  "to_lower (CHR ''x'') = CHR ''x''"
  by (simp_all add: to_lower_def)

lemma match_error_prefix:
  "\<not> (\<exists>c rest'. rest = c # rest' \<and> to_lower c = CHR ''s'') \<Longrightarrow> map to_lower (take (Suc 0) rest) \<noteq> ''s''"
  by (cases rest) auto

lemma match_word_exact:
  assumes "w \<in> set COUNT_WORDS" and "w = ''error'' \<longrightarrow> \<not> (\<exists>c rest'. rest = c # rest' \<and> to_lower c = CHR ''s'')"
  shows "match_word (w @ rest) = Some w"
proof -
  have err: "w = ''error'' \<longrightarrow> map to_lower (take (Suc 0) rest) \<noteq> ''s''"
    using assms(2) match_error_prefix[of rest] by simp
  from assms(1) show ?thesis
    unfolding COUNT_WORDS_def list.set
    by (elim insertE) (insert err, simp_all add: COUNT_WORDS_def match_word_def to_lower_letters)
qed

lemma word_not_space: "w \<in> set COUNT_WORDS \<Longrightarrow> dropWhile is_space (w @ rest) = w @ rest"
  by (auto simp: COUNT_WORDS_def is_space_def)

lemma takeWhile_show_nat: "\<not> is_digit c \<Longrightarrow> takeWhile is_digit (show_nat n @ c # xs) = show_nat n"
  by (subst takeWhile_append2) (auto simp: show_nat_digits)

lemma dropWhile_show_nat: "\<not> is_digit c \<Longrightarrow> dropWhile is_digit (show_nat n @ c # xs) = c # xs"
  by (subst dropWhile_append2) (auto simp: show_nat_digits)

lemma scan_separator: "\<not> is_digit c \<Longrightarrow> scan_counts (c # s) = scan_counts s"
  by (subst scan_counts.simps) (simp add: match_count_def)

lemma scan_nil [simp]: "scan_counts [] = []"
  by (subst scan_counts.simps) (simp add: match_count_def)

lemma scan_skip: "\<forall>c \<in> set xs. \<not> is_digit c \<Longrightarrow> scan_counts (xs @ rest) = scan_counts rest"
  by (induction xs) (simp_all add: scan_separator)

text \<open>A number that no word of the pattern follows is passed over, digit by digit.\<close>

lemma scan_number:
  assumes "\<forall>c \<in> set ds. is_digit c" and "rest = [] \<or> \<not> is_digit (hd rest)"
    and "takeWhile is_space rest = [] \<or> match_word (dropWhile is_space rest) = None"
  shows "scan_counts (ds @ rest) = scan_counts rest"
  using assms(1)
proof (induction ds)
  case (Cons d ds)
  have "takeWhile is_digit ((d # ds) @ rest) = d # ds" "dropWhile is_digit ((d # ds) @ rest) = rest"
    using Cons.prems assms(2) by (cases rest; simp add: takeWhile_append2 dropWhile_append2)+
  with assms(3) have "match_count ((d # ds) @ rest) = None" by (auto simp: match_count_def Let_def)
  with Cons show ?case by (subst scan_counts.simps) simp
qed simp

lemma plain_chars [simp]:
  "\<not> is_digit (CHR '' '')" "\<not> is_digit (CHR '','')" "\<not> is_digit (CHR ''.'')" "\<not> is_digit (CHR '':'')"
  "\<not> is_digit (CHR ''('')" "\<not> is_digit (CHR '')'')" "\<not> is_digit (CHR ''i'')" "\<not> is_digit (CHR ''n'')" "\<not> is_digit (CHR ''s'')"
  "\<not> is_digit (CHR ''d'')" "\<not> is_digit (CHR ''a'')" "\<not> is_digit (CHR ''y'')" "\<not> is_digit (CHR ''w'')" "\<not> is_digit (CHR ''r'')"
  "\<not> is_digit (CHR ''g'')" "\<not> is_digit (CHR ''t'')" "\<not> is_digit (CHR ''e'')" "\<not> is_digit (CHR ''o'')"
  "is_space (CHR '' '')" "\<not> is_space (CHR '','')" "\<not> is_space (CHR ''.'')" "\<not> is_space (CHR '':'')" "\<not> is_space (CHR '')'')"
  "\<not> is_space (CHR ''s'')" "\<not> is_space (CHR ''w'')" "\<not> is_space (CHR ''d'')"
  by (simp_all add: is_digit_def is_space_def)

lemma word_none:
  "match_word (CHR ''w'' # xs) = None" "match_word (CHR ''d'' # CHR ''a'' # xs) = None"
  by (simp_all add: match_word_def COUNT_WORDS_def to_lower_def)

lemma two_digits_digits: "\<forall>c \<in> set (two_digits n). is_digit c"
  by (simp add: two_digits_def)

lemmas scan_numbers = scan_number[OF two_digits_digits] scan_number[of "show_nat n" for n]

lemma scan_clock: "scan_counts (pytest_clock secs) = []"
proof -
  have time: "scan_counts (show_nat h @ '':'' @ two_digits m @ '':'' @ two_digits s @ '')'') = []" for h m s
    by (simp add: scan_numbers show_nat_digits scan_separator)
  show ?thesis
    unfolding pytest_clock_def Let_def append.simps
    by (simp add: scan_separator scan_numbers show_nat_digits word_none time[simplified])
qed

lemma scan_duration:
  "scan_counts ('' in '' @ show_nat secs @ ''.'' @ two_digits hundredths @ ''s'' @ (if clock then pytest_clock secs else [])) = []"
  using scan_clock[of secs]
  by (simp add: scan_separator scan_numbers show_nat_digits)

definition count_read :: "pytest_outcome \<times> nat \<Rightarrow> test_count list" where
  "count_read p = (case p of (kind, n) \<Rightarrow>
     if kind = PtWarnings then [] else [\<lparr>tc_label = outcome_word kind n, tc_value = n\<rparr>])"

lemma outcome_in_words: "kind \<noteq> PtWarnings \<Longrightarrow> outcome_word kind n \<in> set COUNT_WORDS"
  by (cases kind) (simp_all add: COUNT_WORDS_def)

lemma small_finite:
  assumes "n \<le> 2 ^ 53" shows "number_finite n"
proof -
  have "n < 2 ^ 54" using assms by simp
  also have "(2::nat) ^ 54 \<le> 2 ^ 1024 - 2 ^ 970" by simp
  finally show ?thesis by (simp only: number_finite_def)
qed

lemma scan_outcome:
  assumes "n \<le> 2 ^ 53" and "rest \<noteq> []" "hd rest = CHR '','' \<or> hd rest = CHR '' ''"
  shows "scan_counts (outcome_text (kind, n) @ rest) = count_read (kind, n) @ scan_counts rest"
proof (cases "kind = PtWarnings")
  case True
  obtain c xs where rest: "rest = c # xs" "c = CHR '','' \<or> c = CHR '' ''" using assms(2,3) by (cases rest) auto
  have "scan_counts (outcome_text (kind, n) @ rest) = scan_counts (outcome_word kind n @ rest)"
    using True by (simp add: outcome_text_def scan_numbers show_nat_digits word_none scan_separator)
  also have "\<dots> = scan_counts rest" using True by (intro scan_skip) simp
  finally show ?thesis using True by (simp add: count_read_def)
next
  case False
  let ?w = "outcome_word kind n"
  have word: "?w \<in> set COUNT_WORDS" by (rule outcome_in_words[OF False])
  have "?w = ''error'' \<longrightarrow> \<not> (\<exists>c rest'. rest = c # rest' \<and> to_lower c = CHR ''s'')"
    using assms(3) by (auto simp: to_lower_def)
  then have "match_count (outcome_text (kind, n) @ rest) = Some (show_nat n, ?w, rest)"
    using word by (simp add: match_count_def Let_def outcome_text_def takeWhile_show_nat dropWhile_show_nat
        word_not_space match_word_exact)
  with small_finite[OF assms(1)] False show ?thesis by (subst scan_counts.simps) (simp add: count_read_def)
qed

lemma scan_outcomes:
  assumes "\<forall>(kind, n) \<in> set parts. n \<le> 2 ^ 53" and "parts \<noteq> []" and "rest \<noteq> []" "hd rest = CHR '' ''"
  shows "scan_counts (join '', '' (map outcome_text parts) @ rest) = concat (map count_read parts) @ scan_counts rest"
  using assms
proof (induction parts rule: induct_list012)
  case (2 p)
  then show ?case by (cases p) (simp add: scan_outcome)
next
  case (3 p q parts)
  then show ?case by (cases p) (simp add: scan_outcome scan_separator)
qed simp

text \<open>C15. Parsing loses nothing pytest counts and adds nothing. From a last line with any outcomes in any order and
  number, in the words and plurals of pytest, with any duration, with or without the clock, \<open>parseCounts\<close> reads back
  every count with its word, in order, except the warnings, which are not results of tests; nothing is read from
  the duration or from "no tests ran". The counts are those a JavaScript number holds exactly.\<close>

theorem parseCounts_roundtrip:
  assumes "\<forall>(kind, n) \<in> set parts. n \<le> 2 ^ 53"
  shows "parseCounts (pytest_line parts secs hundredths clock) =
    map (\<lambda>(kind, n). \<lparr>tc_label = outcome_word kind n, tc_value = n\<rparr>) (filter (\<lambda>(kind, n). kind \<noteq> PtWarnings) parts)"
proof -
  let ?rest = "'' in '' @ show_nat secs @ ''.'' @ two_digits hundredths @ ''s'' @ (if clock then pytest_clock secs else [])"
  have read: "concat (map count_read ps) =
      map (\<lambda>(kind, n). \<lparr>tc_label = outcome_word kind n, tc_value = n\<rparr>) (filter (\<lambda>(kind, n). kind \<noteq> PtWarnings) ps)" for ps
    by (induction ps) (auto simp: count_read_def)
  show ?thesis
  proof (cases "parts = []")
    case True
    have "scan_counts (''no tests ran'' @ ?rest) = scan_counts ?rest" by (rule scan_skip) simp
    then show ?thesis using True scan_duration[of secs hundredths clock] by (simp only: parseCounts_def pytest_line_def) simp
  next
    case False
    have "scan_counts (join '', '' (map outcome_text parts) @ ?rest) = concat (map count_read parts) @ scan_counts ?rest"
      by (rule scan_outcomes[OF assms False]) simp_all
    then show ?thesis
      using False by (simp only: parseCounts_def pytest_line_def scan_duration read if_False append_Nil2)
  qed
qed

theorem parseCounts_roundtrip_witness:
  "pytest_line [(PtFailed, 4), (PtPassed, 10), (PtWarnings, 2)] 0 29 False = ''4 failed, 10 passed, 2 warnings in 0.29s'' \<and>
   parseCounts ''4 failed, 10 passed, 2 warnings in 0.29s'' =
     [\<lparr>tc_label = ''failed'', tc_value = 4\<rparr>, \<lparr>tc_label = ''passed'', tc_value = 10\<rparr>]"
proof -
  have line: "pytest_line [(PtFailed, 4), (PtPassed, 10), (PtWarnings, 2)] 0 29 False = ''4 failed, 10 passed, 2 warnings in 0.29s''"
    by (simp add: pytest_line_def outcome_text_def two_digits_def show_nat.simps digit_char_def char_of_def bit_0)
  have "\<forall>(kind, n) \<in> set [(PtFailed, 4), (PtPassed, 10), (PtWarnings, 2)]. n \<le> (2::nat) ^ 53" by simp
  from parseCounts_roundtrip[OF this, of 0 29 False] show ?thesis unfolding line by simp
qed

text \<open>The evidence is the recorded runs and only them: red is proved exactly when the first
  recorded run did not report \<open>passed: true\<close>, green exactly when there are at least two runs and
  the last one did, and no pair is claimed from a single run.\<close>

theorem deriveTestEvidence_pair:
  "let rs = List.map_filter test_run_of es; ev = deriveTestEvidence es in
    te_runs ev = rs \<and>
    te_before ev = (if rs = [] then None else Some (hd rs)) \<and>
    te_after ev = (if length rs \<le> 1 then None else Some (last rs)) \<and>
    (te_provedRed ev \<longleftrightarrow> rs \<noteq> [] \<and> \<not> tr_passed (hd rs)) \<and>
    (te_provedGreen ev \<longleftrightarrow> 2 \<le> length rs \<and> tr_passed (last rs))"
  unfolding test_runs_all[symmetric]
  by (cases "foldl push_run [] es" rule: rev_cases)
    (auto simp: deriveTestEvidence_def Let_def EMPTY_TEST_EVIDENCE_def hd_conv_nth nth_append Suc_le_eq)

end
