(* ===== verification/Clock.thy ===== *)
theory Clock
  imports Schema Event_Folds
begin

text \<open>
  \<open>frontend/src/lib/runtime/clock.ts\<close>: how long a run has been going, from the events' wall time.
  \<open>Date.parse\<close> is a parameter, because what it makes of a string that is not the standard's own
  date format is up to the engine: it answers milliseconds, or \<open>None\<close> for \<open>NaN\<close>.
\<close>

record run_window =
  startedAt :: "int option"
  lastEventAt :: "int option"

definition epoch :: "(string \<Rightarrow> int option) \<Rightarrow> string \<Rightarrow> int option" where
  "epoch date_parse text = date_parse text"

definition window_step :: "(string \<Rightarrow> int option) \<Rightarrow> run_window \<Rightarrow> event \<Rightarrow> run_window" where
  "window_step date_parse w e = (case epoch date_parse (e_wall_time e) of
      None \<Rightarrow> w
    | Some ms \<Rightarrow>
        let w1 = (case startedAt w of
                    None \<Rightarrow> w\<lparr>startedAt := Some ms\<rparr>
                  | Some a \<Rightarrow> if ms < a then w\<lparr>startedAt := Some ms\<rparr> else w)
        in case lastEventAt w1 of
             None \<Rightarrow> w1\<lparr>lastEventAt := Some ms\<rparr>
           | Some b \<Rightarrow> if b < ms then w1\<lparr>lastEventAt := Some ms\<rparr> else w1)"

definition runWindow :: "(string \<Rightarrow> int option) \<Rightarrow> event list \<Rightarrow> run_window" where
  "runWindow date_parse events = foldl (window_step date_parse) \<lparr>startedAt = None, lastEventAt = None\<rparr> events"

definition elapsedMs :: "run_window \<Rightarrow> bool \<Rightarrow> int \<Rightarrow> int option" where
  "elapsedMs w live now = (case startedAt w of
      None \<Rightarrow> None
    | Some a \<Rightarrow> Some (max 0 ((if live then now else or_default (lastEventAt w) a) - a)))"

definition padStart :: "nat \<Rightarrow> char \<Rightarrow> string \<Rightarrow> string" where
  "padStart n c s = replicate (n - length s) c @ s"

definition formatDuration :: "int option \<Rightarrow> string" where
  "formatDuration ms = (case ms of
      None \<Rightarrow> em_dash
    | Some t \<Rightarrow>
        let total = t div 1000; seconds = total mod 60; minutes = (total div 60) mod 60; hours = total div 3600;
            mm = padStart (if 0 < hours then 2 else 1) (CHR ''0'') (show_int minutes);
            ss = padStart 2 (CHR ''0'') (show_int seconds)
        in if 0 < hours then show_int hours @ '':'' @ mm @ '':'' @ ss else mm @ '':'' @ ss)"

section \<open>The window\<close>

text \<open>The instants of the events that have one.\<close>

definition instants :: "(string \<Rightarrow> int option) \<Rightarrow> event list \<Rightarrow> int list" where
  "instants date_parse es = List.map_filter (\<lambda>e. date_parse (e_wall_time e)) es"

definition window_of :: "int list \<Rightarrow> run_window" where
  "window_of ts = (if ts = [] then \<lparr>startedAt = None, lastEventAt = None\<rparr>
     else \<lparr>startedAt = Some (Min (set ts)), lastEventAt = Some (Max (set ts))\<rparr>)"

lemma window_step_of:
  "window_step dp (window_of ts) e = window_of (ts @ instants dp [e])"
proof (cases "dp (e_wall_time e)")
  case None
  then show ?thesis by (simp add: window_step_def epoch_def instants_def map_filter_simps)
next
  case (Some ms)
  show ?thesis
  proof (cases "ts = []")
    case True
    with Some show ?thesis by (simp add: window_step_def epoch_def instants_def map_filter_simps window_of_def Let_def)
  next
    case False
    define a b where "a = Min (set ts)" and "b = Max (set ts)"
    have "Min (insert ms (set ts)) = min ms a" "Max (insert ms (set ts)) = max ms b"
      using False by (simp_all add: a_def b_def)
    then have "window_of (ts @ [ms]) = \<lparr>startedAt = Some (min ms a), lastEventAt = Some (max ms b)\<rparr>"
      by (simp add: window_of_def)
    moreover have "window_of ts = \<lparr>startedAt = Some a, lastEventAt = Some b\<rparr>"
      using False by (simp add: window_of_def a_def b_def)
    ultimately show ?thesis
      using Some by (auto simp: window_step_def epoch_def instants_def map_filter_simps Let_def)
  qed
qed

lemma instants_snoc: "instants dp (es @ [e]) = instants dp es @ instants dp [e]"
  by (simp add: instants_def List.map_filter_def)

lemma runWindow_of: "runWindow dp es = window_of (instants dp es)"
proof (induction es rule: rev_induct)
  case Nil
  show ?case by (simp add: runWindow_def window_of_def instants_def map_filter_simps)
next
  case (snoc e es)
  then show ?case by (simp add: runWindow_def instants_snoc window_step_of)
qed

text \<open>The window of a run is the earliest and the latest instant among the events that have one,
  whatever order they arrive in, and the elapsed time is never negative; of a finished run it is
  the distance between the two, of a live one the time since the first event.\<close>

theorem runWindow_extremes:
  "let ts = instants date_parse es; w = runWindow date_parse es in
    startedAt w = (if ts = [] then None else Some (Min (set ts))) \<and>
    lastEventAt w = (if ts = [] then None else Some (Max (set ts))) \<and>
    elapsedMs w False now = (if ts = [] then None else Some (Max (set ts) - Min (set ts))) \<and>
    elapsedMs w True now = (if ts = [] then None else Some (max 0 (now - Min (set ts))))"
proof (cases "instants date_parse es = []")
  case True
  then show ?thesis by (simp add: runWindow_of window_of_def elapsedMs_def)
next
  case False
  then have "Min (set (instants date_parse es)) \<le> Max (set (instants date_parse es))"
    by (metis List.finite_set Max_ge Min_in set_empty)
  with False show ?thesis by (simp add: Let_def runWindow_of window_of_def elapsedMs_def)
qed

section \<open>The label\<close>

text \<open>Reading a label back: base 60, most significant part first.\<close>

fun split_colon :: "string \<Rightarrow> string list" where
  "split_colon [] = [[]]"
| "split_colon (c # cs) =
     (if c = CHR '':'' then [] # split_colon cs
      else case split_colon cs of [] \<Rightarrow> [[c]] | p # ps \<Rightarrow> (c # p) # ps)"

definition parse_clock :: "string \<Rightarrow> int" where
  "parse_clock s = foldl (\<lambda>a p. 60 * a + int (digits_value p)) 0 (split_colon s)"

lemma split_colon_nonempty [simp]: "split_colon s \<noteq> []"
  by (cases s) (auto split: list.split)

lemma split_colon_digits:
  "(\<forall>c \<in> set p. is_digit c) \<Longrightarrow> split_colon (p @ '':'' @ s) = p # split_colon s"
  by (induction p) (auto simp: is_digit_def)

lemma split_colon_last: "(\<forall>c \<in> set p. is_digit c) \<Longrightarrow> split_colon p = [p]"
  by (induction p) (auto simp: is_digit_def)

lemma digits_value_pad: "digits_value (padStart n (CHR ''0'') s) = digits_value s"
proof -
  have "digits_value (replicate k (CHR ''0'') @ s) = digits_value s" for k
    by (induction k) (simp_all add: digits_value_def)
  then show ?thesis by (simp add: padStart_def)
qed

lemma pad_digits: "(\<forall>c \<in> set s. is_digit c) \<Longrightarrow> (\<forall>c \<in> set (padStart n (CHR ''0'') s). is_digit c)"
  by (auto simp: padStart_def is_digit_def)

lemma show_int_digits: "0 \<le> i \<Longrightarrow> (\<forall>c \<in> set (show_int i). is_digit c)"
  by (auto simp: show_int_def show_nat_digits)

lemma digits_value_show_int: "0 \<le> i \<Longrightarrow> int (digits_value (show_int i)) = i"
  by (simp add: show_int_def)

lemma seconds_split: "60 * (60 * (t div 3600) + t div 60 mod 60) + t mod 60 = (t :: int)"
proof -
  have "t div 3600 = t div 60 div 60" by (simp add: zdiv_zmult2_eq[symmetric])
  then show ?thesis by simp
qed

lemma parse_label:
  assumes "0 \<le> h" and "0 \<le> m" and "0 \<le> s"
  shows "parse_clock (show_int h @ '':'' @ padStart k (CHR ''0'') (show_int m) @ '':'' @ padStart l (CHR ''0'') (show_int s)) =
      60 * (60 * h + m) + s" (is ?long)
    and "parse_clock (padStart k (CHR ''0'') (show_int m) @ '':'' @ padStart l (CHR ''0'') (show_int s)) = 60 * m + s" (is ?short)
proof -
  note digits = show_int_digits[OF assms(1)] pad_digits[OF show_int_digits[OF assms(2)]]
    pad_digits[OF show_int_digits[OF assms(3)]]
  show ?long
    by (simp only: parse_clock_def split_colon_digits[OF digits(1)] split_colon_digits[OF digits(2)]
        split_colon_last[OF digits(3)] foldl.simps digits_value_pad digits_value_show_int assms mult_zero_right add_0)
  show ?short
    by (simp only: parse_clock_def split_colon_digits[OF digits(2)]
        split_colon_last[OF digits(3)] foldl.simps digits_value_pad digits_value_show_int assms mult_zero_right add_0)
qed

text \<open>The clock never rounds up: read back, the label of a duration is exactly its whole
  seconds.\<close>

theorem formatDuration_roundtrip:
  assumes "0 \<le> ms"
  shows "parse_clock (formatDuration (Some ms)) = ms div 1000"
proof -
  let ?t = "ms div 1000"
  have pos: "0 \<le> ?t div 3600" "0 \<le> ?t div 60 mod 60" "0 \<le> ?t mod 60"
    using assms by (simp_all add: pos_imp_zdiv_nonneg_iff)
  note label = parse_label[OF pos]
  show ?thesis
  proof (cases "0 < ?t div 3600")
    case True
    then have "formatDuration (Some ms) = show_int (?t div 3600) @ '':'' @
        padStart 2 (CHR ''0'') (show_int (?t div 60 mod 60)) @ '':'' @ padStart 2 (CHR ''0'') (show_int (?t mod 60))"
      unfolding formatDuration_def Let_def option.case by (simp only: if_True)
    then show ?thesis using label(1)[of 2 2] seconds_split[of ?t] by (simp only:)
  next
    case False
    then have "formatDuration (Some ms) =
        padStart 1 (CHR ''0'') (show_int (?t div 60 mod 60)) @ '':'' @ padStart 2 (CHR ''0'') (show_int (?t mod 60))"
      unfolding formatDuration_def Let_def option.case by (simp only: if_False)
    moreover have zero: "?t div 3600 = 0" by (rule antisym[OF leI[OF False] pos(1)])
    have "60 * (?t div 60 mod 60) + ?t mod 60 = ?t"
      using seconds_split[of ?t] unfolding zero mult_zero_right add_0 .
    ultimately show ?thesis using label(2)[of 1 2] by (simp only:)
  qed
qed

theorem formatDuration_roundtrip_witness: "parse_clock (formatDuration (Some 3725999)) = 3725"
  using formatDuration_roundtrip[of 3725999] by simp

end
