(* ===== verification/Provenance.thy ===== *)
theory Provenance
  imports Schema Event_Folds
begin

text \<open>
  \<open>frontend/src/lib/runtime/provenance.ts\<close>: which model answered and who served it, folded from the
  \<open>MODEL_REQUESTED\<close> events. The two maps of the loop and its counter are \<open>prov_scan\<close>. The patterns
  of \<open>HOST_LABEL\<close> all say "this domain or a subdomain of it, in any case".
\<close>

section \<open>State\<close>

record model_provenance =
  mp_model :: string
  mp_provider :: string
  mp_endpointHost :: string
  mp_route :: string
  mp_fallbackUsed :: bool
  mp_calls :: int
  mp_latencyMs :: rat

record fallback_route =
  fr_workerId :: string
  fr_route :: string

record provenance_index =
  pi_byWorker :: "(string, model_provenance) jsmap"
  pi_fallbacks :: "fallback_route list"
  pi_distinct :: "model_provenance list"
  pi_primary :: "model_provenance option"
  pi_calls :: int

definition lower_char :: "char \<Rightarrow> char" where
  "lower_char c = (if 65 \<le> (of_char c :: nat) \<and> (of_char c :: nat) \<le> 90 then char_of ((of_char c :: nat) + 32) else c)"

definition ends_with :: "string \<Rightarrow> string \<Rightarrow> bool" where
  "ends_with s t \<longleftrightarrow> length t \<le> length s \<and> drop (length s - length t) s = t"

definition in_domain :: "string \<Rightarrow> string \<Rightarrow> bool" where
  "in_domain domain host = (let h = map lower_char host in h = domain \<or> ends_with h (CHR ''.'' # domain))"

definition HOST_LABEL :: "(string list \<times> string) list" where
  "HOST_LABEL = [([''openrouter.ai''], ''OpenRouter''), ([''runpod.ai'', ''runpod.io''], ''RunPod''),
     ([''api.openai.com''], ''OpenAI''), ([''anthropic.com''], ''Anthropic'')]"

definition providerLabel :: "string \<Rightarrow> string" where
  "providerLabel endpointHost =
     (case List.find (\<lambda>(domains, label). \<exists>d \<in> set domains. in_domain d endpointHost) HOST_LABEL of
        Some (domains, label) \<Rightarrow> label
      | None \<Rightarrow> endpointHost)"

definition routeLabel :: "string \<Rightarrow> string" where
  "routeLabel route = map (\<lambda>c. if c = CHR ''_'' then CHR '' '' else c) route"

definition finite_num :: "json option \<Rightarrow> rat" where
  "finite_num v = (case v of Some (JNum (Fin q)) \<Rightarrow> q | _ \<Rightarrow> 0)"

section \<open>The fold\<close>

record prov_scan =
  ps_byWorker :: "(string, model_provenance) jsmap"
  ps_distinct :: "(string, model_provenance) jsmap"
  ps_calls :: int

definition model_call :: "event \<Rightarrow> model_provenance" where
  "model_call e = \<lparr>mp_model = str_or_empty (meta_at e ''model''),
     mp_provider = providerLabel (str_or_empty (meta_at e ''endpoint_host'')),
     mp_endpointHost = str_or_empty (meta_at e ''endpoint_host''),
     mp_route = str_or_empty (meta_at e ''provider_route''),
     mp_fallbackUsed = meta_is_true e ''fallback_used'', mp_calls = 1,
     mp_latencyMs = finite_num (meta_at e ''latency_ms'')\<rparr>"

definition add_call :: "model_provenance \<Rightarrow> model_provenance \<Rightarrow> model_provenance \<Rightarrow> model_provenance" where
  "add_call base prev entry = base\<lparr>mp_calls := mp_calls prev + 1, mp_latencyMs := mp_latencyMs prev + mp_latencyMs entry,
     mp_fallbackUsed := (mp_fallbackUsed prev \<or> mp_fallbackUsed entry)\<rparr>"

definition count_worker :: "(string, model_provenance) jsmap \<Rightarrow> string option \<Rightarrow> model_provenance \<Rightarrow> (string, model_provenance) jsmap" where
  "count_worker m agent entry =
     (if truthy agent
      then map_set m (the agent) (case map_get m (the agent) of
             Some prev \<Rightarrow> add_call entry prev entry | None \<Rightarrow> entry)
      else m)"

definition distinct_key :: "model_provenance \<Rightarrow> string" where
  "distinct_key p = mp_model p @ ''@'' @ mp_endpointHost p"

definition count_distinct :: "(string, model_provenance) jsmap \<Rightarrow> model_provenance \<Rightarrow> (string, model_provenance) jsmap" where
  "count_distinct m entry = map_set m (distinct_key entry) (case map_get m (distinct_key entry) of
      Some seen \<Rightarrow> add_call seen seen entry | None \<Rightarrow> entry)"

definition counted :: "event \<Rightarrow> bool" where
  "counted e \<longleftrightarrow> e_event_type e = MODEL_REQUESTED \<and>
     \<not> (str_or_empty (meta_at e ''model'') = [] \<and> str_or_empty (meta_at e ''endpoint_host'') = [])"

definition prov_step :: "prov_scan \<Rightarrow> event \<Rightarrow> prov_scan" where
  "prov_step s e =
     (if \<not> counted e then s
      else \<lparr>ps_byWorker = count_worker (ps_byWorker s) (e_agent_id e) (model_call e),
            ps_distinct = count_distinct (ps_distinct s) (model_call e),
            ps_calls = ps_calls s + 1\<rparr>)"

definition by_calls :: "model_provenance \<Rightarrow> model_provenance \<Rightarrow> int" where
  "by_calls a b = mp_calls b - mp_calls a"

definition prov_scanned :: "event list \<Rightarrow> prov_scan" where
  "prov_scanned events = foldl prov_step \<lparr>ps_byWorker = [], ps_distinct = [], ps_calls = 0\<rparr> events"

definition deriveProvenance :: "event list \<Rightarrow> provenance_index" where
  "deriveProvenance events =
     (let s = prov_scanned events;
          ranked = sort_by by_calls (map_values (ps_distinct s))
      in \<lparr>pi_byWorker = ps_byWorker s,
          pi_fallbacks = map (\<lambda>(w, p). \<lparr>fr_workerId = w, fr_route = mp_route p\<rparr>)
            (filter (\<lambda>(w, p). mp_fallbackUsed p) (ps_byWorker s)),
          pi_distinct = ranked,
          pi_primary = (case ranked of [] \<Rightarrow> None | p # _ \<Rightarrow> Some p),
          pi_calls = ps_calls s\<rparr>)"

section \<open>Each part's discipline\<close>

definition worker_call :: "string \<Rightarrow> event \<Rightarrow> bool" where
  "worker_call w e \<longleftrightarrow> counted e \<and> w \<noteq> [] \<and> e_agent_id e = Some w"

definition worker_calls :: "string \<Rightarrow> prov_scan \<Rightarrow> int" where
  "worker_calls w s = (case map_get (ps_byWorker s) w of None \<Rightarrow> 0 | Some p \<Rightarrow> mp_calls p)"

definition total_calls :: "prov_scan \<Rightarrow> int" where
  "total_calls s = sum_list (map mp_calls (map_values (ps_distinct s)))"

lemma sum_set: "sum_list (map f (map_values (map_set m k v))) =
    sum_list (map f (map_values m)) + f v - (case map_get m k of None \<Rightarrow> 0 | Some u \<Rightarrow> f u)"
  for f :: "'v \<Rightarrow> int"
  by (induction m) auto

lemma model_call_calls [simp]: "mp_calls (model_call e) = 1"
  by (simp add: model_call_def)

lemma add_call_fields [simp]:
  "mp_calls (add_call b p e) = mp_calls p + 1" "mp_model (add_call b p e) = mp_model b"
  "mp_endpointHost (add_call b p e) = mp_endpointHost b" "mp_route (add_call b p e) = mp_route b"
  "mp_provider (add_call b p e) = mp_provider b"
  "mp_fallbackUsed (add_call b p e) = (mp_fallbackUsed p \<or> mp_fallbackUsed e)"
  by (simp_all add: add_call_def)

lemma count_worker_get:
  "map_get (count_worker m agent entry) w =
     (if agent = Some w \<and> w \<noteq> []
      then Some (case map_get m w of Some prev \<Rightarrow> add_call entry prev entry | None \<Rightarrow> entry)
      else map_get m w)"
  by (cases agent) (auto simp: count_worker_def)

interpretation all_calls: tally prov_step ps_calls counted
  by unfold_locales (simp add: prov_step_def)

interpretation distinct_calls: tally prov_step total_calls counted
  by unfold_locales (auto simp: prov_step_def total_calls_def count_distinct_def sum_set simp del: map_map split: option.split)

interpretation by_worker: tally prov_step "worker_calls w" "worker_call w" for w
  by unfold_locales (auto simp: prov_step_def worker_calls_def worker_call_def count_worker_get split: option.split)

definition identity_of :: "model_provenance \<Rightarrow> string \<times> string \<times> string \<times> string" where
  "identity_of p = (mp_model p, mp_provider p, mp_endpointHost p, mp_route p)"

interpretation worker_identity: last_value prov_step "\<lambda>s. map_option identity_of (map_get (ps_byWorker s) w)"
    "\<lambda>e. if worker_call w e then Some (identity_of (model_call e)) else None" for w
  by unfold_locales
    (auto simp: prov_step_def worker_call_def count_worker_get identity_of_def split: option.split)

interpretation worker_fallback: latch prov_step
    "\<lambda>s. \<exists>p. map_get (ps_byWorker s) w = Some p \<and> mp_fallbackUsed p"
    "\<lambda>e. worker_call w e \<and> meta_is_true e ''fallback_used''" for w
  by unfold_locales
    (auto simp: prov_step_def worker_call_def count_worker_get model_call_def split: option.split)

interpretation ranking: comparator by_calls
  by unfold_locales (auto simp: by_calls_def)

section \<open>Properties\<close>

text \<open>The entry of a key: the first call's identity, with the calls of the key counted.\<close>

definition key_call :: "string \<Rightarrow> event \<Rightarrow> bool" where
  "key_call k e \<longleftrightarrow> counted e \<and> distinct_key (model_call e) = k"

lemma distinct_key_add [simp]: "distinct_key (add_call b p e) = distinct_key b"
  by (simp add: distinct_key_def)

lemma prov_scanned_snoc: "prov_scanned (es @ [e]) = prov_step (prov_scanned es) e"
  by (simp add: prov_scanned_def)

lemma distinct_entry:
  "map_get (ps_distinct (prov_scanned es)) k = Some p \<Longrightarrow>
     distinct_key p = k \<and> mp_calls p = int (length (filter (key_call k) es)) \<and> mp_provider p = providerLabel (mp_endpointHost p)"
  "map_get (ps_distinct (prov_scanned es)) k = None \<Longrightarrow> filter (key_call k) es = []"
proof (induction es arbitrary: p rule: rev_induct)
  case (snoc e es)
  {
    case 1
    show ?case
    proof (cases "key_call k e")
      case True
      with 1 have p: "p = (case map_get (ps_distinct (prov_scanned es)) k of None \<Rightarrow> model_call e
          | Some seen \<Rightarrow> add_call seen seen (model_call e))"
        by (simp add: prov_scanned_snoc prov_step_def count_distinct_def key_call_def)
      show ?thesis
      proof (cases "map_get (ps_distinct (prov_scanned es)) k")
        case None
        with p True snoc.IH(2) show ?thesis by (simp add: key_call_def) (simp add: model_call_def)
      next
        case (Some seen)
        from snoc.IH(1)[OF Some] p Some True show ?thesis by simp
      qed
    next
      case False
      with 1 have "map_get (ps_distinct (prov_scanned es)) k = Some p"
        by (auto simp: prov_scanned_snoc prov_step_def count_distinct_def key_call_def split: if_splits)
      from snoc.IH(1)[OF this] False show ?thesis by simp
    qed
  next
    case 2
    then have "\<not> key_call k e" and "map_get (ps_distinct (prov_scanned es)) k = None"
      by (auto simp: prov_scanned_snoc prov_step_def count_distinct_def key_call_def split: if_splits)
    with snoc.IH(2) show ?case by simp
  }
qed (simp_all add: prov_scanned_def)

lemma distinct_keys: "distinct (map_keys (ps_distinct (prov_scanned es)))"
  by (induction es rule: rev_induct)
    (simp_all add: prov_scanned_snoc prov_step_def count_distinct_def distinct_update, simp add: prov_scanned_def)

lemma worker_keys: "distinct (map_keys (ps_byWorker (prov_scanned es)))"
  by (induction es rule: rev_induct)
    (simp_all add: prov_scanned_snoc prov_step_def count_worker_def distinct_update, simp add: prov_scanned_def)

lemma worker_latency:
  "map_get (ps_byWorker (prov_scanned es)) w = Some p \<Longrightarrow>
     mp_latencyMs p = sum_list (map (\<lambda>e. finite_num (meta_at e ''latency_ms'')) (filter (worker_call w) es))"
  "map_get (ps_byWorker (prov_scanned es)) w = None \<Longrightarrow> filter (worker_call w) es = []"
proof (induction es arbitrary: p rule: rev_induct)
  case (snoc e es)
  have get: "map_get (ps_byWorker (prov_scanned (es @ [e]))) w =
      (if worker_call w e then Some (case map_get (ps_byWorker (prov_scanned es)) w of
           Some prev \<Rightarrow> add_call (model_call e) prev (model_call e) | None \<Rightarrow> model_call e)
       else map_get (ps_byWorker (prov_scanned es)) w)"
    by (auto simp: prov_scanned_snoc prov_step_def count_worker_get worker_call_def)
  {
    case 1
    with get snoc.IH show ?case
      by (cases "worker_call w e"; cases "map_get (ps_byWorker (prov_scanned es)) w")
        (auto simp: add_call_def model_call_def)
  next
    case 2
    with get snoc.IH(2) show ?case by (cases "worker_call w e") auto
  }
qed (simp_all add: prov_scanned_def)

text \<open>C33. No call is lost or counted twice, and each is credited to whom it was made. The session's calls are the
  \<open>MODEL_REQUESTED\<close> events, and no other events, that name a model or a host. The distinct models share them out
  exactly, each with the calls of its own model and host. Each worker is listed exactly when it made a call and has
  exactly its own: it reads as the model, host and route its last call names, and as the provider of that host,
  with the latencies of all of them added up, and with the fallback if one of them used it; and the fallbacks list it
  exactly then, with that route.\<close>

theorem deriveProvenance_counts:
  "let ix = deriveProvenance es;
       model = \<lambda>e. str_or_empty (meta_at e ''model''); host = \<lambda>e. str_or_empty (meta_at e ''endpoint_host'');
       real = filter (\<lambda>e. e_event_type e = MODEL_REQUESTED \<and> (model e \<noteq> [] \<or> host e \<noteq> [])) es;
       own = filter (\<lambda>e. w \<noteq> [] \<and> e_agent_id e = Some w) real;
       fell_back = (\<exists>e \<in> set own. meta_at e ''fallback_used'' = Some (JBool True))
   in pi_calls ix = int (length real) \<and>
      sum_list (map mp_calls (pi_distinct ix)) = pi_calls ix \<and>
      (\<forall>p \<in> set (pi_distinct ix). mp_provider p = providerLabel (mp_endpointHost p) \<and>
         mp_calls p = int (length (filter (\<lambda>e. model e @ ''@'' @ host e = mp_model p @ ''@'' @ mp_endpointHost p) real))) \<and>
      (case map_get (pi_byWorker ix) w of
         None \<Rightarrow> own = []
       | Some p \<Rightarrow> own \<noteq> [] \<and> mp_calls p = int (length own) \<and> mp_model p = model (last own) \<and>
           mp_endpointHost p = host (last own) \<and> mp_provider p = providerLabel (host (last own)) \<and>
           mp_route p = str_or_empty (meta_at (last own) ''provider_route'') \<and> (mp_fallbackUsed p \<longleftrightarrow> fell_back) \<and>
           mp_latencyMs p = sum_list (map (\<lambda>e. case meta_at e ''latency_ms'' of Some (JNum (Fin q)) \<Rightarrow> q | _ \<Rightarrow> 0) own)) \<and>
      (\<forall>route. \<lparr>fr_workerId = w, fr_route = route\<rparr> \<in> set (pi_fallbacks ix) \<longleftrightarrow>
         fell_back \<and> route = str_or_empty (meta_at (last own) ''provider_route''))"
proof -
  let ?s = "prov_scanned es" and ?own = "filter (worker_call w) es"
  have counted: "counted e \<longleftrightarrow> e_event_type e = MODEL_REQUESTED \<and>
      (str_or_empty (meta_at e ''model'') \<noteq> [] \<or> str_or_empty (meta_at e ''endpoint_host'') \<noteq> [])" for e
    by (auto simp: counted_def)
  have own: "filter (\<lambda>e. w \<noteq> [] \<and> e_agent_id e = Some w) (filter counted es) = ?own"
    by (simp add: worker_call_def[abs_def] conj_ac)
  have key: "filter (\<lambda>e. str_or_empty (meta_at e ''model'') @ ''@'' @ str_or_empty (meta_at e ''endpoint_host'') = k) (filter counted es)
      = filter (key_call k) es" for k
    by (simp add: key_call_def[abs_def] distinct_key_def model_call_def conj_ac)
  have totals: "ps_calls ?s = int (length (filter counted es))" "total_calls ?s = int (length (filter counted es))"
    "worker_calls w ?s = int (length ?own)"
    by (simp_all add: prov_scanned_def all_calls.total_fold distinct_calls.total_fold by_worker.total_fold)
      (simp_all add: total_calls_def worker_calls_def)
  have sum: "sum_list (map mp_calls (sort_by by_calls vs)) = sum_list (map mp_calls vs)" for vs
    by (metis mset_map mset_sort_by sum_mset_sum_list)
  have models: "mp_provider p = providerLabel (mp_endpointHost p) \<and> mp_calls p = int (length (filter (key_call (distinct_key p)) es))"
    if "p \<in> set (map_values (ps_distinct ?s))" for p
  proof -
    from that obtain k where "(k, p) \<in> set (ps_distinct ?s)" by auto
    then have "map_get (ps_distinct ?s) k = Some p" by (simp add: distinct_keys)
    from distinct_entry(1)[OF this] show ?thesis by simp
  qed
  have last: "last_some (map (\<lambda>e. if worker_call w e then Some (identity_of (model_call e)) else None) es) =
      (if ?own = [] then None else Some (identity_of (model_call (last ?own))))"
    by (induction es rule: rev_induct) (auto simp: last_some_append)
  have ident: "map_option identity_of (map_get (ps_byWorker ?s) w) =
      (if ?own = [] then None else Some (identity_of (model_call (last ?own))))"
    unfolding last[symmetric] by (simp add: prov_scanned_def worker_identity.field_fold)
  have fallback: "(\<exists>p. map_get (ps_byWorker ?s) w = Some p \<and> mp_fallbackUsed p) \<longleftrightarrow>
      (\<exists>e \<in> set ?own. meta_at e ''fallback_used'' = Some (JBool True))"
    by (auto simp: prov_scanned_def worker_fallback.flag_fold meta_is_true_def)
  have worker: "case map_get (ps_byWorker ?s) w of
       None \<Rightarrow> ?own = []
     | Some p \<Rightarrow> ?own \<noteq> [] \<and> mp_calls p = int (length ?own) \<and> identity_of p = identity_of (model_call (last ?own)) \<and>
         (mp_fallbackUsed p \<longleftrightarrow> (\<exists>e \<in> set ?own. meta_at e ''fallback_used'' = Some (JBool True))) \<and>
         mp_latencyMs p = sum_list (map (\<lambda>e. finite_num (meta_at e ''latency_ms'')) ?own)"
    using ident totals(3) fallback worker_latency[of es w]
    by (cases "map_get (ps_byWorker ?s) w") (auto simp: worker_calls_def split: if_splits)
  have listed: "\<lparr>fr_workerId = w, fr_route = route\<rparr> \<in> set (pi_fallbacks (deriveProvenance es)) \<longleftrightarrow>
      (\<exists>p. map_get (ps_byWorker ?s) w = Some p \<and> mp_fallbackUsed p \<and> route = mp_route p)" for route
  proof -
    have "\<lparr>fr_workerId = w, fr_route = route\<rparr> \<in> set (pi_fallbacks (deriveProvenance es)) \<longleftrightarrow>
        (\<exists>p. (w, p) \<in> set (ps_byWorker ?s) \<and> mp_fallbackUsed p \<and> route = mp_route p)"
      by (auto simp: deriveProvenance_def Let_def image_iff)
    then show ?thesis by (simp add: map_of_eq_Some_iff[OF worker_keys])
  qed
  have parts: "pi_calls (deriveProvenance es) = ps_calls ?s" "pi_byWorker (deriveProvenance es) = ps_byWorker ?s"
    "pi_distinct (deriveProvenance es) = sort_by by_calls (map_values (ps_distinct ?s))"
    by (simp_all add: deriveProvenance_def Let_def)
  have shared: "\<forall>p \<in> set (pi_distinct (deriveProvenance es)). mp_provider p = providerLabel (mp_endpointHost p) \<and>
      mp_calls p = int (length (filter (key_call (mp_model p @ ''@'' @ mp_endpointHost p)) es))"
    using models by (simp only: parts set_sort_by distinct_key_def) blast
  have split: "sum_list (map mp_calls (pi_distinct (deriveProvenance es))) = int (length (filter counted es))"
    using totals(2) by (simp only: parts sum total_calls_def)
  have detail: "case map_get (ps_byWorker ?s) w of
       None \<Rightarrow> ?own = []
     | Some p \<Rightarrow> ?own \<noteq> [] \<and> mp_calls p = int (length ?own) \<and> mp_model p = str_or_empty (meta_at (last ?own) ''model'') \<and>
         mp_endpointHost p = str_or_empty (meta_at (last ?own) ''endpoint_host'') \<and>
         mp_provider p = providerLabel (str_or_empty (meta_at (last ?own) ''endpoint_host'')) \<and>
         mp_route p = str_or_empty (meta_at (last ?own) ''provider_route'') \<and>
         (mp_fallbackUsed p \<longleftrightarrow> (\<exists>e \<in> set ?own. meta_at e ''fallback_used'' = Some (JBool True))) \<and>
         mp_latencyMs p = sum_list (map (\<lambda>e. finite_num (meta_at e ''latency_ms'')) ?own)"
    using worker by (cases "map_get (ps_byWorker ?s) w") (auto simp: identity_of_def model_call_def)
  have routes: "\<lparr>fr_workerId = w, fr_route = route\<rparr> \<in> set (pi_fallbacks (deriveProvenance es)) \<longleftrightarrow>
      (\<exists>e \<in> set ?own. meta_at e ''fallback_used'' = Some (JBool True)) \<and> route = str_or_empty (meta_at (last ?own) ''provider_route'')"
    for route using detail unfolding listed by (cases "map_get (ps_byWorker ?s) w") auto
  show ?thesis
    unfolding Let_def counted[symmetric] own key finite_num_def[symmetric]
    by (intro conjI allI shared routes) (use totals(1) split detail in \<open>simp_all only: parts\<close>)
qed

text \<open>A request and its response: one call, credited to the host that was called and not to the protocol it spoke.\<close>

definition call_event :: "event_type \<Rightarrow> event" where
  "call_event ty = \<lparr>e_sim_tick = 1, e_event_type = ty, e_agent_id = Some ''w'', e_source_agent_id = None,
     e_target_agent_id = None, e_metadata = Some [(''model'', JStr ''glm''), (''provider'', JStr ''OpenAI''),
       (''endpoint_host'', JStr ''openrouter.ai'')], e_event_id = ''1'', e_seq = 1, e_schema_version = 1,
     e_experiment_id = ''run'', e_wall_time = []\<rparr>"

theorem deriveProvenance_counts_witness:
  "let ix = deriveProvenance [call_event MODEL_REQUESTED, call_event MODEL_RESPONDED] in
     pi_calls ix = 1 \<and> map_option mp_provider (map_get (pi_byWorker ix) ''w'') = Some ''OpenRouter''"
proof -
  let ?es = "[call_event MODEL_REQUESTED, call_event MODEL_RESPONDED]"
  have meta: "meta_at (call_event ty) ''model'' = Some (JStr ''glm'')" "meta_at (call_event ty) ''endpoint_host'' = Some (JStr ''openrouter.ai'')"
    "e_agent_id (call_event ty) = Some ''w''" "e_event_type (call_event ty) = ty" for ty
    by (simp_all add: call_event_def meta_at_def)
  have label: "providerLabel ''openrouter.ai'' = ''OpenRouter''"
    by (simp add: providerLabel_def HOST_LABEL_def in_domain_def lower_char_def)
  from deriveProvenance_counts[of ?es "''w''"] show ?thesis
    unfolding Let_def
    by (cases "map_get (pi_byWorker (deriveProvenance ?es)) ''w''") (simp_all add: meta label)
qed

text \<open>The ranking is by use: no model stands before one with more calls, models with the same
  number of calls keep the order in which they were first seen, and the primary model is one with
  the most calls, absent exactly when no call was made.\<close>

theorem provenance_ranking:
  "let ix = deriveProvenance es; seen = map_values (ps_distinct (prov_scanned es)) in
    sorted_wrt (\<lambda>a b. mp_calls b \<le> mp_calls a) (pi_distinct ix) \<and>
    filter (\<lambda>p. mp_calls p = n) (pi_distinct ix) = filter (\<lambda>p. mp_calls p = n) seen \<and>
    mset (pi_distinct ix) = mset seen \<and>
    (case pi_primary ix of None \<Rightarrow> pi_calls ix = 0
     | Some p \<Rightarrow> p \<in> set seen \<and> (\<forall>q \<in> set seen. mp_calls q \<le> mp_calls p))"
proof -
  let ?s = "prov_scanned es"
  let ?seen = "map_values (ps_distinct ?s)"
  let ?ranked = "sort_by by_calls ?seen"
  have le: "(\<lambda>a b. by_calls a b \<le> 0) = (\<lambda>a b. mp_calls b \<le> mp_calls a)"
    by (simp add: by_calls_def)
  have sorted: "sorted_wrt (\<lambda>a b. mp_calls b \<le> mp_calls a) ?ranked"
    using ranking.sort_by_sorted[of ?seen] unfolding le by simp
  have stable: "filter (\<lambda>p. mp_calls p = n) ?ranked = filter (\<lambda>p. mp_calls p = n) ?seen"
    by (rule sort_by_stable) (simp add: by_calls_def)
  have calls: "ps_calls ?s = total_calls ?s"
    by (simp add: prov_scanned_def all_calls.total_fold distinct_calls.total_fold) (simp add: total_calls_def)
  have "case (case ?ranked of [] \<Rightarrow> None | p # _ \<Rightarrow> Some p) of None \<Rightarrow> ps_calls ?s = 0
     | Some p \<Rightarrow> p \<in> set ?seen \<and> (\<forall>q \<in> set ?seen. mp_calls q \<le> mp_calls p)"
  proof (cases ?ranked)
    case Nil
    then have "?seen = []" by (metis length_0_conv length_sort_by)
    then show ?thesis by (simp add: Nil calls total_calls_def)
  next
    case (Cons p ps)
    then have "set ?seen = insert p (set ps)" by (metis list.simps(15) set_sort_by)
    then show ?thesis using sorted by (simp add: Cons)
  qed
  moreover have "pi_distinct (deriveProvenance es) = ?ranked" "pi_calls (deriveProvenance es) = ps_calls ?s"
    "pi_primary (deriveProvenance es) = (case ?ranked of [] \<Rightarrow> None | p # _ \<Rightarrow> Some p)"
    by (simp_all add: deriveProvenance_def Let_def)
  ultimately show ?thesis using sorted stable by (simp only: Let_def mset_sort_by)
qed

end
