(* ===== verification/Vocabulary.thy ===== *)
theory Vocabulary
  imports Schema Controls
begin

text \<open>
  \<open>frontend/src/lib/severity.ts\<close> and \<open>frontend/src/lib/vocabulary.ts\<close>: the tables that turn machine
  names into severities, labels and layers, and the thresholds of the severity functions. A table
  indexed by a union type is a function of the datatype; a table indexed by an arbitrary string is
  an association list, read as the object's own properties. Severities are ordered from \<open>neutral\<close>
  to \<open>critical\<close>, as \<open>security/summary.ts\<close> ranks them, so that the library's \<open>Max\<close> and \<open>mono\<close> apply.
\<close>

section \<open>Severities\<close>

datatype severity = SevNeutral | SevOk | SevContained | SevWarn | SevHigh | SevCritical

fun severity_rank :: "severity \<Rightarrow> nat" where
  "severity_rank SevNeutral = 0"
| "severity_rank SevOk = 1"
| "severity_rank SevContained = 2"
| "severity_rank SevWarn = 3"
| "severity_rank SevHigh = 4"
| "severity_rank SevCritical = 5"

lemma severity_rank_inj: "severity_rank a = severity_rank b \<Longrightarrow> a = b"
  by (cases a; cases b) simp_all

instantiation severity :: linorder
begin

definition less_eq_severity :: "severity \<Rightarrow> severity \<Rightarrow> bool" where
  "less_eq_severity a b = (severity_rank a \<le> severity_rank b)"

definition less_severity :: "severity \<Rightarrow> severity \<Rightarrow> bool" where
  "less_severity a b = (severity_rank a < severity_rank b)"

instance
  by standard (auto simp: less_eq_severity_def less_severity_def intro: severity_rank_inj)

end

lemma SevNeutral_least [simp]: "SevNeutral \<le> s"
  by (simp add: less_eq_severity_def)

fun SECURITY_STATE_LABEL :: "security_state \<Rightarrow> string" where
  "SECURITY_STATE_LABEL Healthy = ''Healthy''"
| "SECURITY_STATE_LABEL Suspicious = ''Suspicious''"
| "SECURITY_STATE_LABEL Compromised = ''Compromised''"
| "SECURITY_STATE_LABEL Quarantined = ''Quarantined''"
| "SECURITY_STATE_LABEL Recovered = ''Recovered''"

fun SECURITY_STATE_SEVERITY :: "security_state \<Rightarrow> severity" where
  "SECURITY_STATE_SEVERITY Healthy = SevNeutral"
| "SECURITY_STATE_SEVERITY Suspicious = SevWarn"
| "SECURITY_STATE_SEVERITY Compromised = SevCritical"
| "SECURITY_STATE_SEVERITY Quarantined = SevContained"
| "SECURITY_STATE_SEVERITY Recovered = SevOk"

fun SECURITY_STATE_HINT :: "security_state \<Rightarrow> string" where
  "SECURITY_STATE_HINT Healthy = ''No policy violation observed.''"
| "SECURITY_STATE_HINT Suspicious = ''Anomalous behaviour flagged, not yet confirmed.''"
| "SECURITY_STATE_HINT Compromised = (''Attacker-controlled '' @ em_dash @ '' a policy violation was observed.'')"
| "SECURITY_STATE_HINT Quarantined = ''Isolated by the defense; can no longer propagate.''"
| "SECURITY_STATE_HINT Recovered = ''Returned to a trusted state after containment.''"

fun SEVERITY_HEX :: "severity \<Rightarrow> string" where
  "SEVERITY_HEX SevCritical = ''#f2555f''"
| "SEVERITY_HEX SevHigh = ''#f5834e''"
| "SEVERITY_HEX SevWarn = ''#e0b341''"
| "SEVERITY_HEX SevContained = ''#a273f2''"
| "SEVERITY_HEX SevOk = ''#3fb87a''"
| "SEVERITY_HEX SevNeutral = ''#7b8698''"

fun SEVERITY_TEXT :: "severity \<Rightarrow> string" where
  "SEVERITY_TEXT SevCritical = ''text-critical''"
| "SEVERITY_TEXT SevHigh = ''text-high''"
| "SEVERITY_TEXT SevWarn = ''text-warn''"
| "SEVERITY_TEXT SevContained = ''text-contained''"
| "SEVERITY_TEXT SevOk = ''text-ok''"
| "SEVERITY_TEXT SevNeutral = ''text-neutral''"

fun SEVERITY_BG :: "severity \<Rightarrow> string" where
  "SEVERITY_BG SevCritical = ''bg-critical''"
| "SEVERITY_BG SevHigh = ''bg-high''"
| "SEVERITY_BG SevWarn = ''bg-warn''"
| "SEVERITY_BG SevContained = ''bg-contained''"
| "SEVERITY_BG SevOk = ''bg-ok''"
| "SEVERITY_BG SevNeutral = ''bg-neutral''"

fun SEVERITY_CHIP :: "severity \<Rightarrow> string" where
  "SEVERITY_CHIP SevCritical = ''bg-critical-soft text-critical ring-critical/25''"
| "SEVERITY_CHIP SevHigh = ''bg-high-soft text-high ring-high/25''"
| "SEVERITY_CHIP SevWarn = ''bg-warn-soft text-warn ring-warn/25''"
| "SEVERITY_CHIP SevContained = ''bg-contained-soft text-contained ring-contained/25''"
| "SEVERITY_CHIP SevOk = ''bg-ok-soft text-ok ring-ok/25''"
| "SEVERITY_CHIP SevNeutral = ''bg-neutral-soft text-fg-muted ring-line-strong/60''"

fun RUN_STATUS_LABEL :: "control_status \<Rightarrow> string" where
  "RUN_STATUS_LABEL CsIdle = ''No run''"
| "RUN_STATUS_LABEL CsRunning = ''Running''"
| "RUN_STATUS_LABEL CsPaused = ''Paused''"
| "RUN_STATUS_LABEL CsFinished = ''Complete''"
| "RUN_STATUS_LABEL CsStopped = ''Stopped''"

fun RUN_STATUS_SEVERITY :: "control_status \<Rightarrow> severity" where
  "RUN_STATUS_SEVERITY CsIdle = SevNeutral"
| "RUN_STATUS_SEVERITY CsRunning = SevOk"
| "RUN_STATUS_SEVERITY CsPaused = SevWarn"
| "RUN_STATUS_SEVERITY CsFinished = SevNeutral"
| "RUN_STATUS_SEVERITY CsStopped = SevNeutral"

definition severityForRisk :: "jsnum \<Rightarrow> severity" where
  "severityForRisk fraction =
     (if js_le (Fin (1/2)) fraction then SevCritical
      else if js_le (Fin (1/4)) fraction then SevHigh
      else if js_less (Fin 0) fraction then SevWarn
      else SevOk)"

definition severityForHealth :: "jsnum \<Rightarrow> severity" where
  "severityForHealth fraction =
     (if js_le (Fin (9/10)) fraction then SevOk
      else if js_le (Fin (6/10)) fraction then SevWarn
      else if js_le (Fin (3/10)) fraction then SevHigh
      else SevCritical)"

section \<open>Events\<close>

datatype event_category = CatAttack | CatDefense | CatModel | CatLifecycle | CatSecurityPlane | CatWorkflow

record event_meta =
  em_label :: string
  em_category :: event_category
  em_severity :: severity

definition ATTACK :: "string \<Rightarrow> severity \<Rightarrow> event_meta" where
  "ATTACK label sev = \<lparr>em_label = label, em_category = CatAttack, em_severity = sev\<rparr>"

definition DEFENSE :: "string \<Rightarrow> severity \<Rightarrow> event_meta" where
  "DEFENSE label sev = \<lparr>em_label = label, em_category = CatDefense, em_severity = sev\<rparr>"

definition PLANE :: "string \<Rightarrow> severity \<Rightarrow> event_meta" where
  "PLANE label sev = \<lparr>em_label = label, em_category = CatSecurityPlane, em_severity = sev\<rparr>"

definition MODEL :: "string \<Rightarrow> event_meta" where
  "MODEL label = \<lparr>em_label = label, em_category = CatModel, em_severity = SevNeutral\<rparr>"

definition WORKFLOW :: "string \<Rightarrow> severity \<Rightarrow> event_meta" where
  "WORKFLOW label sev = \<lparr>em_label = label, em_category = CatWorkflow, em_severity = sev\<rparr>"

definition LIFECYCLE :: "string \<Rightarrow> event_meta" where
  "LIFECYCLE label = \<lparr>em_label = label, em_category = CatLifecycle, em_severity = SevNeutral\<rparr>"

definition EVENT_META :: "(string \<times> event_meta) list" where
  "EVENT_META = [
     (''EXPERIMENT_STARTED'', LIFECYCLE ''Assessment started''),
     (''EXPERIMENT_STOPPED'', LIFECYCLE ''Assessment stopped''),
     (''AGENT_CREATED'', LIFECYCLE ''Agent registered''),
     (''AGENT_STARTED'', LIFECYCLE ''Agent started''),
     (''AGENT_STOPPED'', LIFECYCLE ''Agent stopped''),
     (''MESSAGE_SENT'', LIFECYCLE ''Message sent''),
     (''MESSAGE_RECEIVED'', LIFECYCLE ''Message received''),
     (''MODEL_REQUESTED'', MODEL ''Model call''),
     (''MODEL_RESPONDED'', MODEL ''Model response''),
     (''TOOL_REQUESTED'', MODEL ''Tool requested''),
     (''TOOL_EXECUTED'', MODEL ''Tool executed''),
     (''TOOL_DENIED'', DEFENSE ''Tool denied'' SevWarn),
     (''MEMORY_READ'', MODEL ''Memory read''),
     (''MEMORY_WRITE'', MODEL ''Memory write''),
     (''CREDENTIAL_ACCESSED'', ATTACK ''Credential accessed'' SevWarn),
     (''CREDENTIAL_REVOKED'', DEFENSE ''Credential revoked'' SevOk),
     (''COMPROMISE_ATTEMPTED'', ATTACK ''Compromise attempted'' SevWarn),
     (''COMPROMISE_SUCCEEDED'', ATTACK ''Compromise succeeded'' SevCritical),
     (''COMPROMISE_FAILED'', ATTACK ''Compromise blocked'' SevOk),
     (''POLICY_VIOLATION'', ATTACK ''Policy violation'' SevCritical),
     (''ANOMALY_DETECTED'', DEFENSE ''Anomaly detected'' SevWarn),
     (''AGENT_QUARANTINED'', DEFENSE ''Agent quarantined'' SevContained),
     (''AGENT_RELEASED'', DEFENSE ''Agent released'' SevOk),
     (''AGENT_RECOVERED'', DEFENSE ''Agent recovered'' SevOk),
     (''PERMISSION_CHANGED'', DEFENSE ''Permission changed'' SevNeutral),
     (''INFERENCE_DISABLED'', DEFENSE ''Inference disabled'' SevContained),
     (''THREAT_SIGNATURE_PUBLISHED'', PLANE ''Threat signature published'' SevWarn),
     (''THREAT_SIGNATURE_RECEIVED'', PLANE ''Threat signature received'' SevNeutral),
     (''ATTESTATION_ISSUED'', PLANE ''Attestation issued'' SevNeutral),
     (''ATTESTATION_VERIFIED'', PLANE ''Attestation verified'' SevNeutral),
     (''TASK_ASSIGNED'', WORKFLOW ''Task assigned'' SevNeutral),
     (''TASK_REASSIGNED'', WORKFLOW ''Task reassigned'' SevContained),
     (''TASK_COMPLETED'', WORKFLOW ''Task completed'' SevOk),
     (''WORKFLOW_RECOVERED'', WORKFLOW ''Workflow recovered'' SevOk)]"

text \<open>The machine name of an event type, as it is on the wire.\<close>

fun event_type_name :: "event_type \<Rightarrow> string" where
  "event_type_name EXPERIMENT_STARTED = ''EXPERIMENT_STARTED''"
| "event_type_name EXPERIMENT_STOPPED = ''EXPERIMENT_STOPPED''"
| "event_type_name AGENT_CREATED = ''AGENT_CREATED''"
| "event_type_name AGENT_STARTED = ''AGENT_STARTED''"
| "event_type_name AGENT_STOPPED = ''AGENT_STOPPED''"
| "event_type_name MESSAGE_SENT = ''MESSAGE_SENT''"
| "event_type_name MESSAGE_RECEIVED = ''MESSAGE_RECEIVED''"
| "event_type_name MODEL_REQUESTED = ''MODEL_REQUESTED''"
| "event_type_name MODEL_RESPONDED = ''MODEL_RESPONDED''"
| "event_type_name TOOL_REQUESTED = ''TOOL_REQUESTED''"
| "event_type_name TOOL_EXECUTED = ''TOOL_EXECUTED''"
| "event_type_name TOOL_DENIED = ''TOOL_DENIED''"
| "event_type_name MEMORY_READ = ''MEMORY_READ''"
| "event_type_name MEMORY_WRITE = ''MEMORY_WRITE''"
| "event_type_name CREDENTIAL_ACCESSED = ''CREDENTIAL_ACCESSED''"
| "event_type_name CREDENTIAL_REVOKED = ''CREDENTIAL_REVOKED''"
| "event_type_name COMPROMISE_ATTEMPTED = ''COMPROMISE_ATTEMPTED''"
| "event_type_name COMPROMISE_SUCCEEDED = ''COMPROMISE_SUCCEEDED''"
| "event_type_name COMPROMISE_FAILED = ''COMPROMISE_FAILED''"
| "event_type_name ANOMALY_DETECTED = ''ANOMALY_DETECTED''"
| "event_type_name AGENT_QUARANTINED = ''AGENT_QUARANTINED''"
| "event_type_name AGENT_RELEASED = ''AGENT_RELEASED''"
| "event_type_name PERMISSION_CHANGED = ''PERMISSION_CHANGED''"
| "event_type_name INFERENCE_DISABLED = ''INFERENCE_DISABLED''"
| "event_type_name THREAT_SIGNATURE_PUBLISHED = ''THREAT_SIGNATURE_PUBLISHED''"
| "event_type_name THREAT_SIGNATURE_RECEIVED = ''THREAT_SIGNATURE_RECEIVED''"
| "event_type_name AGENT_RECOVERED = ''AGENT_RECOVERED''"
| "event_type_name POLICY_VIOLATION = ''POLICY_VIOLATION''"
| "event_type_name ATTESTATION_ISSUED = ''ATTESTATION_ISSUED''"
| "event_type_name ATTESTATION_VERIFIED = ''ATTESTATION_VERIFIED''"
| "event_type_name TASK_ASSIGNED = ''TASK_ASSIGNED''"
| "event_type_name TASK_REASSIGNED = ''TASK_REASSIGNED''"
| "event_type_name TASK_COMPLETED = ''TASK_COMPLETED''"
| "event_type_name WORKFLOW_RECOVERED = ''WORKFLOW_RECOVERED''"
| "event_type_name (OTHER_EVENT s) = s"

definition eventMeta :: "event_type \<Rightarrow> event_meta" where
  "eventMeta ty = or_default (map_of EVENT_META (event_type_name ty)) (LIFECYCLE (event_type_name ty))"

definition meta_value_is :: "json_object option \<Rightarrow> string \<Rightarrow> bool \<Rightarrow> bool" where
  "meta_value_is metadata key b = (case metadata of None \<Rightarrow> False | Some m \<Rightarrow> map_of m key = Some (JBool b))"

definition eventSeverity :: "event_type \<Rightarrow> json_object option \<Rightarrow> severity" where
  "eventSeverity ty metadata =
     (if ty = ATTESTATION_VERIFIED \<and> meta_value_is metadata ''replayed'' True then SevCritical
      else if ty = AGENT_QUARANTINED \<and> meta_value_is metadata ''legitimate'' False then SevHigh
      else if ty = THREAT_SIGNATURE_PUBLISHED \<and> meta_value_is metadata ''legitimate'' False then SevHigh
      else if ty = COMPROMISE_SUCCEEDED \<and> meta_value_is metadata ''already_compromised'' True then SevWarn
      else em_severity (eventMeta ty))"

fun EVENT_CATEGORY_LABEL :: "event_category \<Rightarrow> string" where
  "EVENT_CATEGORY_LABEL CatAttack = ''Attack''"
| "EVENT_CATEGORY_LABEL CatDefense = ''Defense''"
| "EVENT_CATEGORY_LABEL CatSecurityPlane = ''Security plane''"
| "EVENT_CATEGORY_LABEL CatModel = ''Model / tool''"
| "EVENT_CATEGORY_LABEL CatLifecycle = ''Lifecycle''"
| "EVENT_CATEGORY_LABEL CatWorkflow = ''Workflow''"

section \<open>Node and edge types\<close>

datatype plane = PlWorkload | PlData | PlSecurity

record node_type_meta =
  nt_label :: string
  nt_plural :: string
  nt_plane :: plane
  nt_hint :: string

definition NODE_TYPE_META :: "(string \<times> node_type_meta) list" where
  "NODE_TYPE_META = [
     (''agent'', \<lparr>nt_label = ''Agent'', nt_plural = ''Agents'', nt_plane = PlWorkload,
        nt_hint = ''An autonomous actor in the system. Compromise spreads between agents.''\<rparr>),
     (''tool'', \<lparr>nt_label = ''Tool'', nt_plural = ''Tools'', nt_plane = PlWorkload,
        nt_hint = ''A callable capability an agent can invoke.''\<rparr>),
     (''mcp_server'', \<lparr>nt_label = ''MCP server'', nt_plural = ''MCP servers'', nt_plane = PlWorkload,
        nt_hint = ''A tool-hosting server reachable by agents.''\<rparr>),
     (''credential'', \<lparr>nt_label = ''Credential'', nt_plural = ''Credentials'', nt_plane = PlData,
        nt_hint = ''A secret an agent holds to unlock access to a resource.''\<rparr>),
     (''resource'', \<lparr>nt_label = ''Resource'', nt_plural = ''Resources'', nt_plane = PlData,
        nt_hint = ''A protected asset reachable through a credential.''\<rparr>),
     (''memory_store'', \<lparr>nt_label = ''Memory store'', nt_plural = ''Memory stores'', nt_plane = PlData,
        nt_hint = (''An agent's persistent memory '' @ em_dash @ '' a poisoning target.'')\<rparr>),
     (''sentinel'', \<lparr>nt_label = ''Sentinel'', nt_plural = ''Sentinels'', nt_plane = PlSecurity,
        nt_hint = ''A monitor watching agents, with authority to quarantine them.''\<rparr>),
     (''security_control'', \<lparr>nt_label = ''Security control'', nt_plural = ''Security controls'', nt_plane = PlSecurity,
        nt_hint = ''Control-plane service: trust manager, threat memory, attestation, quarantine.''\<rparr>)]"

definition nodeTypeMeta :: "string \<Rightarrow> node_type_meta" where
  "nodeTypeMeta nodeType = or_default (map_of NODE_TYPE_META nodeType)
     \<lparr>nt_label = nodeType, nt_plural = nodeType, nt_plane = PlWorkload, nt_hint = []\<rparr>"

fun PLANE_LABEL :: "plane \<Rightarrow> string" where
  "PLANE_LABEL PlWorkload = ''Workload plane''"
| "PLANE_LABEL PlData = ''Data plane''"
| "PLANE_LABEL PlSecurity = ''Security plane''"

datatype edge_layer = LayerMesh | LayerAccess | LayerOversight

definition EDGE_LAYER_OF :: "(string \<times> edge_layer) list" where
  "EDGE_LAYER_OF = [
     (''communicates_with'', LayerMesh),
     (''delegates_to'', LayerMesh),
     (''trusts'', LayerMesh),
     (''can_access'', LayerAccess),
     (''uses_credential'', LayerAccess),
     (''monitors'', LayerOversight),
     (''quarantine_authority'', LayerOversight),
     (''updates_threat_memory'', LayerOversight)]"

record edge_layer_meta =
  el_label :: string
  el_hint :: string
  el_color :: string

fun EDGE_LAYER_META :: "edge_layer \<Rightarrow> edge_layer_meta" where
  "EDGE_LAYER_META LayerMesh = \<lparr>el_label = ''Communication'', el_hint = (''Agent-to-agent messaging and trust '' @ em_dash @ '' the path compromise propagates along.''), el_color = ''#2b3340''\<rparr>"
| "EDGE_LAYER_META LayerAccess = \<lparr>el_label = ''Access'', el_hint = ''Which agents can reach which tools, credentials and resources.'', el_color = ''#3a4c63''\<rparr>"
| "EDGE_LAYER_META LayerOversight = \<lparr>el_label = ''Oversight'', el_hint = ''Which sentinels monitor which agents, and who holds quarantine authority.'', el_color = ''#3d3357''\<rparr>"

section \<open>Scenarios and configuration labels\<close>

record scenario_meta =
  sc_value :: string
  sc_label :: string
  sc_hint :: string
  sc_requires :: "string list option"
  sc_exclusiveWith :: "string list option"

definition SCENARIOS :: "scenario_meta list" where
  "SCENARIOS = [
     \<lparr>sc_value = ''propagation'', sc_label = ''Lateral propagation'',
        sc_hint = ''Probabilistic compromise spread along communication edges, faster within a software type than across.'',
        sc_requires = None, sc_exclusiveWith = Some [''adaptive_attacker'']\<rparr>,
     \<lparr>sc_value = ''adaptive_attacker'', sc_label = ''Adaptive attacker'',
        sc_hint = ''Observes the quarantine rate each tick and switches between aggressive and stealthy targeting.'',
        sc_requires = None, sc_exclusiveWith = Some [''propagation'']\<rparr>,
     \<lparr>sc_value = ''prompt_injection'', sc_label = ''Indirect prompt injection'',
        sc_hint = ''A compromised LLM-backed agent tries to extract a neighbour's confidential token. Needs real agents.'',
        sc_requires = Some [''real_agent_count''], sc_exclusiveWith = None\<rparr>,
     \<lparr>sc_value = ''sentinel_compromise'', sc_label = ''Sentinel subversion'',
        sc_hint = ''A sentinel watching a compromised agent is itself subverted, then suppresses detection and poisons threat memory.'',
        sc_requires = Some [''sentinel_count'', ''sentinel_compromise_rate''], sc_exclusiveWith = None\<rparr>,
     \<lparr>sc_value = ''attestation'', sc_label = ''Attestation replay'',
        sc_hint = ''A compromised agent presents a stale attestation nonce and is accepted.'',
        sc_requires = Some [''sentinel_count'', ''attestation_replay_rate''], sc_exclusiveWith = None\<rparr>,
     \<lparr>sc_value = ''byzantine_collusion'', sc_label = ''Byzantine collusion'',
        sc_hint = ''Two compromised agents jointly exceed credential scope on a credential neither legitimately holds.'',
        sc_requires = Some [''credential_count'', ''byzantine_collusion_rate''], sc_exclusiveWith = None\<rparr>]"

definition scenarioMeta :: "string \<Rightarrow> scenario_meta" where
  "scenarioMeta v = or_default (List.find (\<lambda>s. sc_value s = v) SCENARIOS)
     \<lparr>sc_value = v, sc_label = v, sc_hint = [], sc_requires = None, sc_exclusiveWith = None\<rparr>"

definition CONFIG_LABEL :: "(string \<times> string) list" where
  "CONFIG_LABEL = [
     (''seed'', ''Seed''),
     (''node_count'', ''Agents''),
     (''edge_density'', ''Edge density''),
     (''software_type_count'', ''Software diversity''),
     (''p_same'', ''Same-stack infection rate''),
     (''p_cross'', ''Cross-stack infection rate''),
     (''max_ticks'', ''Max ticks''),
     (''detector_sensitivity'', ''Detector sensitivity''),
     (''defense_enabled'', ''Defense''),
     (''initial_compromised'', ''Initial foothold''),
     (''real_agent_count'', ''LLM-backed agents''),
     (''model_provider'', ''Model provider''),
     (''tool_count'', ''Tools''),
     (''credential_count'', ''Credentials''),
     (''resource_count'', ''Resources''),
     (''sentinel_count'', ''Sentinels''),
     (''adaptive_detection_threshold'', ''Adaptive threshold''),
     (''false_quarantine_rate'', ''False-quarantine rate''),
     (''sentinel_compromise_rate'', ''Sentinel-subversion rate''),
     (''attestation_replay_rate'', ''Attestation-replay rate''),
     (''byzantine_collusion_rate'', ''Collusion rate''),
     (''active_scenarios'', ''Attack scenarios'')]"

definition configLabel :: "string \<Rightarrow> string" where
  "configLabel key = or_default (map_of CONFIG_LABEL key) key"

section \<open>Properties\<close>

text \<open>The severity thresholds respect the order of severities.\<close>

lemma js_le_trans: "js_le a b \<Longrightarrow> js_le b c \<Longrightarrow> js_le a c"
  by (cases a; cases b; cases c) (auto simp: js_le_def)

lemma js_less_le_trans: "js_less a b \<Longrightarrow> js_le b c \<Longrightarrow> js_less a c"
  by (cases a; cases b; cases c) (auto simp: js_le_def)

text \<open>A higher risk is never shown as less severe, and a better health never as more severe;
  every risk of at least one half is critical, and no positive risk passes as fine.\<close>

theorem severity_monotone:
  assumes "js_le a b"
  shows "severityForRisk a \<le> severityForRisk b \<and> severityForHealth b \<le> severityForHealth a \<and>
    (js_less (Fin 0) a \<longrightarrow> SevWarn \<le> severityForRisk a)"
  using js_le_trans[OF _ assms] js_less_le_trans[OF _ assms]
  by (simp add: severityForRisk_def severityForHealth_def less_eq_severity_def)

theorem severity_monotone_witness: "severityForRisk (Fin (1/3)) \<le> severityForRisk (Fin (2/3))"
  using severity_monotone[of "Fin (1/3)" "Fin (2/3)"] by simp

definition known_event_types :: "event_type list" where
  "known_event_types = [EXPERIMENT_STARTED, EXPERIMENT_STOPPED, AGENT_CREATED, AGENT_STARTED, AGENT_STOPPED, MESSAGE_SENT, MESSAGE_RECEIVED, MODEL_REQUESTED, MODEL_RESPONDED, TOOL_REQUESTED, TOOL_EXECUTED, TOOL_DENIED, MEMORY_READ, MEMORY_WRITE, CREDENTIAL_ACCESSED, CREDENTIAL_REVOKED, COMPROMISE_ATTEMPTED, COMPROMISE_SUCCEEDED, COMPROMISE_FAILED, ANOMALY_DETECTED, AGENT_QUARANTINED, AGENT_RELEASED, PERMISSION_CHANGED, INFERENCE_DISABLED, THREAT_SIGNATURE_PUBLISHED, THREAT_SIGNATURE_RECEIVED, AGENT_RECOVERED, POLICY_VIOLATION, ATTESTATION_ISSUED, ATTESTATION_VERIFIED, TASK_ASSIGNED, TASK_REASSIGNED, TASK_COMPLETED, WORKFLOW_RECOVERED]"

lemma known_event_type: "(\<forall>s. ty \<noteq> OTHER_EVENT s) \<Longrightarrow> ty \<in> set known_event_types"
  by (cases ty) (simp_all add: known_event_types_def)

lemma known_labels:
  "list_all (\<lambda>ty. case map_of EVENT_META (event_type_name ty) of None \<Rightarrow> False
     | Some m \<Rightarrow> em_label m \<noteq> event_type_name ty) known_event_types"
  by code_simp

text \<open>No event of the backend's vocabulary is ever shown under its machine name: each type has a
  label, category and severity of its own, and only events of an unknown type fall back to the
  lifecycle category.\<close>

theorem event_vocabulary_complete:
  assumes "\<forall>s. ty \<noteq> OTHER_EVENT s"
  shows "\<exists>m. map_of EVENT_META (event_type_name ty) = Some m \<and> eventMeta ty = m \<and>
    em_label m \<noteq> event_type_name ty"
  using known_labels known_event_type[OF assms]
  by (auto simp: list_all_iff eventMeta_def split: option.splits dest!: bspec)

theorem event_vocabulary_complete_witness: "em_label (eventMeta TASK_REASSIGNED) \<noteq> ''TASK_REASSIGNED''"
  using event_vocabulary_complete[of TASK_REASSIGNED] by auto

end
