(* ===== verification/Narrative.thy ===== *)
theory Narrative
  imports Vocabulary Event_Folds
begin

text \<open>
  \<open>frontend/src/lib/runtime/narrative.ts\<close>: the run as a list of beats. A milestone event is a beat of
  its own, consecutive events that read the same are folded into one activity beat. The open
  activity is the last element of \<open>beats\<close> and is updated in place; here it is kept beside the
  finished beats in \<open>ns_open\<close> and appended when it is closed, which every push and the end do first.

  \<open>STEP_COPY[step]\<close> reads an object literal with a key from the event, so a key that is a member of
  \<open>Object.prototype\<close> finds the inherited member; spreading that gives neither label nor severity,
  so both are optional in a milestone and a beat.
\<close>

section \<open>Beats\<close>

datatype beat_kind = BkMilestone | BkActivity

record beat =
  b_id :: string
  b_seq :: int
  b_tick :: int
  b_wallTime :: string
  b_kind :: beat_kind
  b_severity :: "severity option"
  b_label :: "string option"
  b_detail :: string
  b_actor :: "string option"
  b_actorRole :: "string option"
  b_count :: nat

definition ACTIVITY_NOUN :: "(event_type \<times> string \<times> string) list" where
  "ACTIVITY_NOUN = [
     (TOOL_REQUESTED, ''file requested'', ''files requested''),
     (TOOL_EXECUTED, ''file read'', ''files read''),
     (MODEL_REQUESTED, ''model call'', ''model calls''),
     (MEMORY_READ, ''memory read'', ''memory reads''),
     (MEMORY_WRITE, ''memory write'', ''memory writes''),
     (MESSAGE_SENT, ''message'', ''messages''),
     (MESSAGE_RECEIVED, ''message'', ''messages''),
     (AGENT_CREATED, ''worker registered'', ''workers registered'')]"

definition SILENT :: "event_type list" where
  "SILENT = [MODEL_RESPONDED, AGENT_STOPPED]"

definition STEP_COPY :: "(string \<times> string \<times> severity) list" where
  "STEP_COPY = [
     (''analysis'', ''Repository analysed'', SevNeutral),
     (''research'', ''Vulnerability investigated'', SevNeutral),
     (''regression_test'', ''Regression coverage added'', SevNeutral),
     (''vulnerability_proven'', ''Vulnerability reproduced'', SevWarn),
     (''vulnerability_NOT_proven'', ''Vulnerability NOT reproduced'', SevHigh),
     (''patch'', ''Patch applied'', SevNeutral),
     (''review'', ''Independently reviewed'', SevOk)]"

text \<open>The members every object inherits.\<close>

definition object_prototype :: "string list" where
  "object_prototype = [''constructor'', ''toString'', ''toLocaleString'', ''valueOf'', ''hasOwnProperty'',
     ''isPrototypeOf'', ''propertyIsEnumerable'', ''__proto__'', ''__defineGetter__'', ''__defineSetter__'',
     ''__lookupGetter__'', ''__lookupSetter__'']"

definition plural :: "nat \<Rightarrow> string \<times> string \<Rightarrow> string" where
  "plural n nouns = show_nat n @ '' '' @ (if n = 1 then fst nouns else snd nouns)"

record milestone =
  ms_label :: "string option"
  ms_severity :: "severity option"
  ms_detail :: string

definition ms :: "string \<Rightarrow> severity \<Rightarrow> string \<Rightarrow> milestone" where
  "ms label sev detail = \<lparr>ms_label = Some label, ms_severity = Some sev, ms_detail = detail\<rparr>"

definition text_at :: "event \<Rightarrow> string \<Rightarrow> string" where
  "text_at e key = str_or_empty (meta_at e key)"

definition completed_milestone :: "event \<Rightarrow> milestone option" where
  "completed_milestone e =
     (let step = text_at e ''step''
      in if step = ''pytest''
         then let passed = meta_is_true e ''passed''
              in Some (ms (if passed then ''Regression suite passed'' else ''Regression suite failed'')
                     (if passed then SevOk else SevCritical) (text_at e ''detail''))
         else (case map_of STEP_COPY step of
             Some (label, sev) \<Rightarrow> Some (ms label sev (text_at e ''detail''))
           | None \<Rightarrow>
               if step \<in> set object_prototype
               then Some \<lparr>ms_label = None, ms_severity = None, ms_detail = text_at e ''detail''\<rparr>
               else if step \<noteq> [] then Some (ms step SevNeutral (text_at e ''detail'')) else None))"

definition milestoneFor :: "event \<Rightarrow> string list \<Rightarrow> milestone option" where
  "milestoneFor e replacementIds = (case e_event_type e of
      TASK_ASSIGNED \<Rightarrow> Some (ms ''Task assigned'' SevNeutral (text_at e ''task''))
    | TOOL_DENIED \<Rightarrow> Some (ms ''AgentShield denied the request'' SevCritical (text_at e ''resource''))
    | POLICY_VIOLATION \<Rightarrow> Some (ms ''Policy violation'' SevCritical
        (if text_at e ''reason'' \<noteq> [] then text_at e ''reason'' else text_at e ''violation_type''))
    | ANOMALY_DETECTED \<Rightarrow> Some (ms ''Anomaly detected'' SevWarn (text_at e ''detector''))
    | AGENT_QUARANTINED \<Rightarrow> Some (ms ''Worker quarantined'' SevContained (text_at e ''reason''))
    | TASK_REASSIGNED \<Rightarrow> Some (ms ''Task reassigned'' SevContained
        (if truthy (e_target_agent_id e) then ''to '' @ the (e_target_agent_id e) else text_at e ''task''))
    | AGENT_CREATED \<Rightarrow>
        (if text_at e ''replaces'' \<noteq> []
         then Some (ms ''Replacement worker created'' SevContained (''replaces '' @ text_at e ''replaces''))
         else None)
    | AGENT_STARTED \<Rightarrow>
        (if truthy (e_agent_id e) \<and> the (e_agent_id e) \<in> set replacementIds
         then Some (ms ''Replacement started on trusted context only'' SevOk (text_at e ''context_policy''))
         else None)
    | AGENT_RECOVERED \<Rightarrow> Some (ms ''Worker recovered'' SevOk [])
    | TASK_COMPLETED \<Rightarrow> completed_milestone e
    | WORKFLOW_RECOVERED \<Rightarrow> Some (ms ''Workflow recovered'' SevOk (text_at e ''summary''))
    | EXPERIMENT_STOPPED \<Rightarrow> Some (ms ''Workflow stopped'' SevHigh (text_at e ''reason''))
    | _ \<Rightarrow> None)"

section \<open>The fold\<close>

definition note_worker :: "(string, string) jsmap \<times> string list \<Rightarrow> event \<Rightarrow> (string, string) jsmap \<times> string list" where
  "note_worker acc e =
     (if e_event_type e \<noteq> AGENT_CREATED \<or> \<not> truthy (e_agent_id e) then acc
      else let agent = the (e_agent_id e); (roles, replacementIds) = acc
        in ((if text_at e ''role'' \<noteq> [] then map_set roles agent (text_at e ''role'') else roles),
            (if text_at e ''replaces'' \<noteq> [] then set_add replacementIds agent else replacementIds)))"

record narrative_scan =
  ns_beats :: "beat list"
  ns_open :: "(beat \<times> (event_type, nat) jsmap) option"

definition activity_detail :: "(event_type, nat) jsmap \<Rightarrow> string" where
  "activity_detail counts = join '', '' (List.map_filter
     (\<lambda>(ty, n). map_option (plural n) (map_of ACTIVITY_NOUN ty)) counts)"

definition closeActivity :: "narrative_scan \<Rightarrow> narrative_scan" where
  "closeActivity s = (case ns_open s of
      None \<Rightarrow> s
    | Some (b, counts) \<Rightarrow>
        s\<lparr>ns_beats := ns_beats s @ [b\<lparr>b_detail := activity_detail counts\<rparr>], ns_open := None\<rparr>)"

definition role_for :: "(string, string) jsmap \<Rightarrow> string option \<Rightarrow> string option" where
  "role_for roles actor = (if truthy actor then map_get roles (the actor) else None)"

definition milestone_beat :: "(string, string) jsmap \<Rightarrow> event \<Rightarrow> milestone \<Rightarrow> beat" where
  "milestone_beat roles e m = \<lparr>b_id = e_event_id e, b_seq = e_seq e, b_tick = e_sim_tick e,
     b_wallTime = e_wall_time e, b_kind = BkMilestone, b_severity = ms_severity m, b_label = ms_label m,
     b_detail = ms_detail m, b_actor = e_agent_id e, b_actorRole = role_for roles (e_agent_id e), b_count = 1\<rparr>"

definition activity_actor :: "event \<Rightarrow> string option" where
  "activity_actor e = (if e_event_type e = AGENT_CREATED then None else e_agent_id e)"

definition activity_label :: "(string, string) jsmap \<Rightarrow> event \<Rightarrow> string" where
  "activity_label roles e =
     (if e_event_type e = AGENT_CREATED then ''Team assembled''
      else if truthy (activity_actor e)
      then or_default (map_get roles (the (activity_actor e))) (the (activity_actor e)) @ '' working''
      else ''Session activity'')"

definition activity_beat :: "(string, string) jsmap \<Rightarrow> event \<Rightarrow> beat" where
  "activity_beat roles e = \<lparr>b_id = e_event_id e, b_seq = e_seq e, b_tick = e_sim_tick e,
     b_wallTime = e_wall_time e, b_kind = BkActivity, b_severity = Some SevNeutral,
     b_label = Some (activity_label roles e), b_detail = [], b_actor = activity_actor e,
     b_actorRole = role_for roles (activity_actor e), b_count = 1\<rparr>"

definition fold_activity :: "(string, string) jsmap \<Rightarrow> narrative_scan \<Rightarrow> event \<Rightarrow> narrative_scan" where
  "fold_activity roles s e = (case ns_open s of
      Some (b, counts) \<Rightarrow>
        if b_label b = Some (activity_label roles e)
        then s\<lparr>ns_open := Some (b\<lparr>b_count := b_count b + 1\<rparr>,
               map_set counts (e_event_type e) (or_default (map_get counts (e_event_type e)) 0 + 1))\<rparr>
        else (closeActivity s)\<lparr>ns_open := Some (activity_beat roles e, [(e_event_type e, 1)])\<rparr>
    | None \<Rightarrow> s\<lparr>ns_open := Some (activity_beat roles e, [(e_event_type e, 1)])\<rparr>)"

definition narrative_step :: "(string, string) jsmap \<Rightarrow> string list \<Rightarrow> narrative_scan \<Rightarrow> event \<Rightarrow> narrative_scan" where
  "narrative_step roles replacementIds s e =
     (if e_event_type e \<in> set SILENT then s
      else (case milestoneFor e replacementIds of
          Some m \<Rightarrow> (closeActivity s)\<lparr>ns_beats := ns_beats (closeActivity s) @ [milestone_beat roles e m]\<rparr>
        | None \<Rightarrow> fold_activity roles s e))"

definition deriveNarrative :: "event list \<Rightarrow> beat list" where
  "deriveNarrative events =
     (let (roles, replacementIds) = foldl note_worker ([], []) events
      in ns_beats (closeActivity
           (foldl (narrative_step roles replacementIds) \<lparr>ns_beats = [], ns_open = None\<rparr> events)))"

section \<open>Nothing is dropped\<close>

text \<open>The beats as they would stand if the fold ended here: those closed and the open one.\<close>

definition beats_now :: "narrative_scan \<Rightarrow> beat list" where
  "beats_now s = ns_beats s @ (case ns_open s of None \<Rightarrow> [] | Some (b, _) \<Rightarrow> [b])"

definition spoken :: "event \<Rightarrow> bool" where
  "spoken e \<longleftrightarrow> e_event_type e \<notin> set SILENT"

definition beat_total :: "narrative_scan \<Rightarrow> int" where
  "beat_total s = sum_list (map (\<lambda>b. int (b_count b)) (beats_now s))"

lemma closeActivity_simps:
  "ns_open (closeActivity s) = None"
  "map b_count (ns_beats (closeActivity s)) = map b_count (beats_now s)"
  "map b_kind (ns_beats (closeActivity s)) = map b_kind (beats_now s)"
  "map b_label (ns_beats (closeActivity s)) = map b_label (beats_now s)"
  "map b_seq (ns_beats (closeActivity s)) = map b_seq (beats_now s)"
  by (auto simp: closeActivity_def beats_now_def split: option.split)

lemma milestone_beat_simps [simp]:
  "b_count (milestone_beat roles e m) = 1" "b_kind (milestone_beat roles e m) = BkMilestone"
  "b_seq (milestone_beat roles e m) = e_seq e" "b_label (milestone_beat roles e m) = ms_label m"
  by (simp_all add: milestone_beat_def)

lemma activity_beat_simps [simp]:
  "b_count (activity_beat roles e) = 1" "b_kind (activity_beat roles e) = BkActivity"
  "b_seq (activity_beat roles e) = e_seq e" "b_label (activity_beat roles e) = Some (activity_label roles e)"
  by (simp_all add: activity_beat_def)

text \<open>What one spoken event does to the beats: it adds its own beat, or counts up the open one.\<close>

definition folds_into :: "(string, string) jsmap \<Rightarrow> string list \<Rightarrow> narrative_scan \<Rightarrow> event \<Rightarrow> bool" where
  "folds_into roles rids s e \<longleftrightarrow> milestoneFor e rids = None \<and>
     (\<exists>b counts. ns_open s = Some (b, counts) \<and> b_label b = Some (activity_label roles e))"

lemma sum_counts_closed:
  "sum_list (map (\<lambda>b. int (b_count b)) (ns_beats (closeActivity s))) = beat_total s"
  using arg_cong[OF closeActivity_simps(2), of "\<lambda>xs. sum_list (map int xs)"]
  by (simp add: beat_total_def comp_def)

interpretation beat_count: tally "narrative_step roles rids" beat_total spoken for roles rids
proof unfold_locales
  fix s e
  show "beat_total (narrative_step roles rids s e) = beat_total s + (if spoken e then 1 else 0)"
    using sum_counts_closed[of s]
    by (auto simp: narrative_step_def fold_activity_def spoken_def beat_total_def beats_now_def
        closeActivity_simps split: option.splits)
qed

text \<open>The milestones, in order, provided that what is open is an activity.\<close>

definition milestone_entry :: "(string, string) jsmap \<Rightarrow> string list \<Rightarrow> event \<Rightarrow> beat option" where
  "milestone_entry roles rids e =
     (if spoken e then map_option (milestone_beat roles e) (milestoneFor e rids) else None)"

definition closed_milestones :: "narrative_scan \<Rightarrow> beat list" where
  "closed_milestones s = filter (\<lambda>b. b_kind b = BkMilestone) (ns_beats s)"

definition open_is_activity :: "narrative_scan \<Rightarrow> bool" where
  "open_is_activity s \<longleftrightarrow> (\<forall>b counts. ns_open s = Some (b, counts) \<longrightarrow> b_kind b = BkActivity)"

lemma closed_milestones_close: "open_is_activity s \<Longrightarrow> closed_milestones (closeActivity s) = closed_milestones s"
  by (auto simp: open_is_activity_def closed_milestones_def closeActivity_def split: option.split)

lemma fold_activity_beats:
  "ns_beats (fold_activity roles s e) = ns_beats s \<or> ns_beats (fold_activity roles s e) = ns_beats (closeActivity s)"
  "open_is_activity s \<Longrightarrow> open_is_activity (fold_activity roles s e)"
  by (auto simp: fold_activity_def open_is_activity_def split: option.splits)

lemma fold_activity_milestones:
  "open_is_activity s \<Longrightarrow> closed_milestones (fold_activity roles s e) = closed_milestones s"
  using fold_activity_beats(1)[of roles s e] closed_milestones_close[of s]
  by (auto simp: closed_milestones_def)

interpretation milestones: guarded_append_log "narrative_step roles rids" open_is_activity closed_milestones
    "milestone_entry roles rids" for roles rids
proof unfold_locales
  fix s e
  assume inv: "open_is_activity s"
  then show "open_is_activity (narrative_step roles rids s e)"
    by (auto simp: narrative_step_def fold_activity_beats(2) split: option.split)
      (simp add: open_is_activity_def closeActivity_simps)
  show "closed_milestones (narrative_step roles rids s e) =
      closed_milestones s @ (case milestone_entry roles rids e of None \<Rightarrow> [] | Some v \<Rightarrow> [v])"
    using closed_milestones_close[OF inv] fold_activity_milestones[OF inv, of roles e]
    by (auto simp: narrative_step_def milestone_entry_def spoken_def split: option.split)
      (simp add: closed_milestones_def)
qed

text \<open>Neighbours never read the same, unless one of them is a milestone.\<close>

definition reads_same :: "beat_kind \<times> string option \<Rightarrow> beat_kind \<times> string option \<Rightarrow> bool" where
  "reads_same a b \<longleftrightarrow> fst a = BkActivity \<and> fst b = BkActivity \<and> snd a = snd b"

definition shapes :: "beat list \<Rightarrow> (beat_kind \<times> string option) list" where
  "shapes bs = map (\<lambda>b. (b_kind b, b_label b)) bs"

definition apart :: "narrative_scan \<Rightarrow> bool" where
  "apart s \<longleftrightarrow> successively (\<lambda>a b. \<not> reads_same a b) (shapes (beats_now s)) \<and>
     (ns_open s = None \<longrightarrow> beats_now s = [] \<or> b_kind (last (beats_now s)) = BkMilestone)"

lemma shapes_closed: "shapes (ns_beats (closeActivity s)) = shapes (beats_now s)"
  by (auto simp: shapes_def closeActivity_def beats_now_def split: option.split)

lemma shapes_nonempty: "shapes bs = [] \<longleftrightarrow> bs = []"
  by (simp add: shapes_def)

lemma last_shapes: "bs \<noteq> [] \<Longrightarrow> last (shapes bs) = (b_kind (last bs), b_label (last bs))"
  by (simp add: shapes_def last_map)

lemma shapes_snoc: "shapes (bs @ [b]) = shapes bs @ [(b_kind b, b_label b)]"
  by (simp add: shapes_def)

lemma fold_activity_apart:
  assumes "apart s" shows "apart (fold_activity roles s e)"
proof (cases "ns_open s")
  case None
  then have "beats_now (fold_activity roles s e) = ns_beats s @ [activity_beat roles e]"
    by (simp add: fold_activity_def beats_now_def)
  moreover have "ns_beats s = beats_now s" using None by (simp add: beats_now_def)
  moreover have "ns_open (fold_activity roles s e) \<noteq> None" using None by (simp add: fold_activity_def)
  ultimately show ?thesis
    using assms None
    by (auto simp: apart_def shapes_snoc successively_append_iff last_shapes shapes_nonempty reads_same_def)
next
  case (Some p)
  then obtain b counts where b: "ns_open s = Some (b, counts)" by (cases p) auto
  show ?thesis
  proof (cases "b_label b = Some (activity_label roles e)")
    case True
    then have "shapes (beats_now (fold_activity roles s e)) = shapes (beats_now s)"
      and "ns_open (fold_activity roles s e) \<noteq> None"
      by (auto simp: fold_activity_def b beats_now_def shapes_def)
    with assms show ?thesis by (auto simp: apart_def)
  next
    case False
    then have "beats_now (fold_activity roles s e) = ns_beats (closeActivity s) @ [activity_beat roles e]"
      and "ns_open (fold_activity roles s e) \<noteq> None"
      by (auto simp: fold_activity_def b beats_now_def)
    moreover have "last (shapes (beats_now s)) = (b_kind b, b_label b)" "shapes (beats_now s) \<noteq> []"
      by (simp_all add: beats_now_def b shapes_snoc)
    ultimately show ?thesis
      using assms False
      by (auto simp: apart_def shapes_snoc shapes_closed successively_append_iff reads_same_def)
  qed
qed

lemma milestone_apart:
  assumes "apart s"
  shows "apart ((closeActivity s)\<lparr>ns_beats := ns_beats (closeActivity s) @ [milestone_beat roles e m]\<rparr>)"
  using assms
  by (auto simp: apart_def beats_now_def[of "_\<lparr>ns_beats := _\<rparr>"] closeActivity_simps shapes_snoc shapes_closed
      successively_append_iff reads_same_def)

lemma narrative_step_apart: "apart s \<Longrightarrow> apart (narrative_step roles rids s e)"
  by (auto simp: narrative_step_def fold_activity_apart milestone_apart split: option.split)

lemma narrative_apart: "apart s \<Longrightarrow> apart (foldl (narrative_step roles rids) s es)"
  by (induction es arbitrary: s) (auto simp: narrative_step_apart)

section \<open>Properties\<close>

definition narrative_scanned :: "event list \<Rightarrow> narrative_scan" where
  "narrative_scanned es = (case foldl note_worker ([], []) es of
      (roles, rids) \<Rightarrow> foldl (narrative_step roles rids) \<lparr>ns_beats = [], ns_open = None\<rparr> es)"

lemma deriveNarrative_scanned: "deriveNarrative es = ns_beats (closeActivity (narrative_scanned es))"
  by (simp add: deriveNarrative_def narrative_scanned_def split: prod.split)

text \<open>C34. Nothing is dropped and nothing counted twice: the counts of all beats add up to the number
  of events that are not silent, and the milestone beats are exactly the milestones of the events,
  each with its own event's number, label, severity and detail, in the order of the events.\<close>

theorem narrative_accounts_for_everything:
  "sum_list (map b_count (deriveNarrative es)) = length (filter spoken es) \<and>
   filter (\<lambda>b. b_kind b = BkMilestone) (deriveNarrative es) =
     (let (roles, rids) = foldl note_worker ([], []) es in List.map_filter (milestone_entry roles rids) es)"
proof -
  obtain roles rids where rr: "foldl note_worker ([], []) es = (roles, rids)" by fastforce
  let ?s = "foldl (narrative_step roles rids) \<lparr>ns_beats = [], ns_open = None\<rparr> es"
  have start: "open_is_activity \<lparr>ns_beats = [], ns_open = None\<rparr>" by (simp add: open_is_activity_def)
  have "beat_total ?s = int (length (filter spoken es))"
    by (simp add: beat_count.total_fold) (simp add: beat_total_def beats_now_def)
  then have "sum_list (map (\<lambda>b. int (b_count b)) (ns_beats (closeActivity ?s))) = int (length (filter spoken es))"
    using sum_counts_closed[of ?s] by simp
  moreover have eq: "int (sum_list (map b_count bs)) = sum_list (map (\<lambda>b. int (b_count b)) bs)" for bs
    by (induction bs) auto
  ultimately have "int (sum_list (map b_count (ns_beats (closeActivity ?s)))) = int (length (filter spoken es))"
    by (simp only: eq)
  moreover have "closed_milestones (closeActivity ?s) = List.map_filter (milestone_entry roles rids) es"
    using closed_milestones_close[OF milestones.inv_fold[OF start]]
      milestones.guarded_log_fold[OF start, of roles rids es] by (simp add: closed_milestones_def)
  ultimately show ?thesis
    by (simp add: deriveNarrative_scanned narrative_scanned_def rr closed_milestones_def)
qed

text \<open>Two activity beats that read identically never stand next to each other.\<close>

theorem narrative_no_repeats:
  "successively (\<lambda>a b. \<not> (b_kind a = BkActivity \<and> b_kind b = BkActivity \<and> b_label a = b_label b))
     (deriveNarrative es)"
proof -
  have "apart (narrative_scanned es)"
    by (auto simp: narrative_scanned_def intro!: narrative_apart split: prod.split)
      (simp add: apart_def beats_now_def shapes_def)
  then have "successively (\<lambda>a b. \<not> reads_same a b) (shapes (deriveNarrative es))"
    by (simp add: apart_def deriveNarrative_scanned shapes_closed)
  then show ?thesis by (simp add: shapes_def successively_map reads_same_def)
qed

text \<open>A completed step whose name is a member every object inherits becomes a milestone with
  neither label nor severity, because the table of step names is read through the prototype.\<close>

theorem inherited_step_has_no_label:
  assumes "e_event_type e = TASK_COMPLETED" and "meta_at e ''step'' = Some (JStr step)"
    and "step \<in> set object_prototype"
  shows "\<exists>m. milestoneFor e rids = Some m \<and> ms_label m = None \<and> ms_severity m = None"
proof -
  have "map_of STEP_COPY step = None" "step \<noteq> ''pytest''"
    using assms(3) by (auto simp: object_prototype_def STEP_COPY_def)
  with assms show ?thesis
    by (simp add: milestoneFor_def completed_milestone_def text_at_def)
qed

theorem inherited_step_has_no_label_witness:
  "\<exists>m. milestoneFor \<lparr>e_sim_tick = 1, e_event_type = TASK_COMPLETED, e_agent_id = None, e_source_agent_id = None,
      e_target_agent_id = None, e_metadata = Some [(''step'', JStr ''constructor'')], e_event_id = ''1'', e_seq = 1,
      e_schema_version = 1, e_experiment_id = ''run'', e_wall_time = []\<rparr> [] = Some m \<and> ms_label m = None"
  using inherited_step_has_no_label[of "\<lparr>e_sim_tick = 1, e_event_type = TASK_COMPLETED, e_agent_id = None,
      e_source_agent_id = None, e_target_agent_id = None, e_metadata = Some [(''step'', JStr ''constructor'')],
      e_event_id = ''1'', e_seq = 1, e_schema_version = 1, e_experiment_id = ''run'', e_wall_time = []\<rparr>"
      "''constructor''" "[]"]
  by (auto simp: meta_at_def object_prototype_def)

end
