(* ===== verification/Graph_Model.thy ===== *)
theory Graph_Model
  imports Stream_Reducer Vocabulary
begin

text \<open>
  \<open>frontend/src/lib/graph/model.ts\<close>: the topology that is drawn. Structure comes from the security
  graph when there is one and from the stream otherwise; security state is overlaid from the
  stream. Then the edges that are rendered and the neighbourhoods the inspector lists.
\<close>

section \<open>The model\<close>

record topology_node =
  tn_id :: string
  tn_nodeType :: string
  tn_securityState :: security_state
  tn_attrs :: json_object

record topology_edge =
  te_source :: string
  te_target :: string
  te_edgeType :: string

record topology_model =
  tm_structureKey :: string
  tm_nodes :: "topology_node list"
  tm_edges :: "topology_edge list"
  tm_meshOnly :: bool

fun agent_kind_name :: "agent_kind \<Rightarrow> string" where
  "agent_kind_name Simulated = ''simulated''"
| "agent_kind_name RealAgent = ''real''"

definition live_attrs :: "node_view \<Rightarrow> json_object \<Rightarrow> json_object" where
  "live_attrs n attrs = map_set (map_set attrs ''software_type'' (JStr (nv_software_type n)))
     ''agent_kind'' (JStr (agent_kind_name (nv_agent_kind n)))"

definition structure_key :: "string \<Rightarrow> string option \<Rightarrow> nat \<Rightarrow> nat \<Rightarrow> string" where
  "structure_key prefix run n m = prefix @ '':'' @ or_default run ''none'' @ '':'' @ show_nat n @ '':'' @ show_nat m"

definition live_states :: "graph_state \<Rightarrow> (string, node_view) jsmap" where
  "live_states stream = foldl (\<lambda>m n. map_set m (nv_id n) n) [] (map_values (gs_nodes stream))"

definition stream_topology :: "graph_state \<Rightarrow> topology_model" where
  "stream_topology stream =
     (let nodes = map (\<lambda>n. \<lparr>tn_id = nv_id n, tn_nodeType = ''agent'', tn_securityState = nv_security_state n,
            tn_attrs = live_attrs n []\<rparr>) (map_values (gs_nodes stream));
          edges = map (\<lambda>e. \<lparr>te_source = ev_source e, te_target = ev_target e,
            te_edgeType = ''communicates_with''\<rparr>) (gs_edges stream)
      in \<lparr>tm_structureKey = structure_key ''stream'' (gs_experimentId stream) (length nodes) (length edges),
          tm_nodes = nodes, tm_edges = edges, tm_meshOnly = True\<rparr>)"

definition overlay_node :: "(string, node_view) jsmap \<Rightarrow> graph_node_view \<Rightarrow> topology_node" where
  "overlay_node liveStates n =
     (let live = map_get liveStates (gn_id n)
      in \<lparr>tn_id = gn_id n, tn_nodeType = gn_node_type n,
          tn_securityState = or_default (map_option nv_security_state live) (gn_security_state n),
          tn_attrs = (case live of None \<Rightarrow> gn_attrs n | Some l \<Rightarrow> live_attrs l (gn_attrs n))\<rparr>)"

definition buildTopologyModel :: "security_graph_view option \<Rightarrow> graph_state \<Rightarrow> topology_model" where
  "buildTopologyModel securityGraph stream = (case securityGraph of
      None \<Rightarrow> stream_topology stream
    | Some g \<Rightarrow>
        let nodes = map (overlay_node (live_states stream)) (sg_nodes g);
            edges = map (\<lambda>e. \<lparr>te_source = ge_source e, te_target = ge_target e, te_edgeType = ge_edge_type e\<rparr>)
              (sg_edges g)
        in \<lparr>tm_structureKey = structure_key ''graph'' (gs_experimentId stream) (length nodes) (length edges),
            tm_nodes = nodes, tm_edges = edges,
            tm_meshOnly = list_all (\<lambda>n. tn_nodeType n = ''agent'') nodes\<rparr>)"

section \<open>Visual encoding\<close>

datatype node_shape = ShCircle | ShSquare | ShDiamond | ShHexagon | ShTriangle | ShShield

definition NODE_SHAPE :: "(string \<times> node_shape) list" where
  "NODE_SHAPE = [(''agent'', ShCircle), (''tool'', ShSquare), (''mcp_server'', ShSquare),
     (''credential'', ShDiamond), (''resource'', ShHexagon), (''memory_store'', ShHexagon),
     (''sentinel'', ShTriangle), (''security_control'', ShShield)]"

definition NODE_SIZE :: "(string \<times> rat) list" where
  "NODE_SIZE = [(''agent'', 34/10), (''tool'', 5), (''mcp_server'', 54/10), (''credential'', 52/10),
     (''resource'', 56/10), (''memory_store'', 5), (''sentinel'', 66/10), (''security_control'', 6)]"

definition nodeShape :: "string \<Rightarrow> node_shape" where
  "nodeShape nodeType = or_default (map_of NODE_SHAPE nodeType) ShCircle"

definition nodeSize :: "topology_node \<Rightarrow> rat" where
  "nodeSize n =
     (let base = or_default (map_of NODE_SIZE (tn_nodeType n)) 4
      in if tn_nodeType n = ''agent'' \<and> map_of (tn_attrs n) ''agent_kind'' = Some (JStr ''real'')
         then base * (3/2) else base)"

definition nodeColor :: "topology_node \<Rightarrow> string" where
  "nodeColor n = SEVERITY_HEX (SECURITY_STATE_SEVERITY (tn_securityState n))"

section \<open>Edges\<close>

definition edgeLayer :: "string \<Rightarrow> edge_layer" where
  "edgeLayer edgeType = or_default (map_of EDGE_LAYER_OF edgeType) LayerMesh"

fun layer_name :: "edge_layer \<Rightarrow> string" where
  "layer_name LayerMesh = ''mesh''"
| "layer_name LayerAccess = ''access''"
| "layer_name LayerOversight = ''oversight''"

definition ordered_ends :: "topology_edge \<Rightarrow> string \<times> string" where
  "ordered_ends e = (if te_source e < te_target e then (te_source e, te_target e) else (te_target e, te_source e))"

definition render_key :: "topology_edge \<Rightarrow> string" where
  "render_key e = (case ordered_ends e of (a, b) \<Rightarrow> layer_name (edgeLayer (te_edgeType e)) @ '':'' @ a @ '':'' @ b)"

definition renderable :: "edge_layer list \<Rightarrow> topology_edge \<Rightarrow> bool" where
  "renderable layers e \<longleftrightarrow> te_source e \<noteq> te_target e \<and> edgeLayer (te_edgeType e) \<in> set layers"

definition renderableEdges :: "topology_edge list \<Rightarrow> edge_layer list \<Rightarrow> topology_edge list" where
  "renderableEdges edges layers = snd (keep_first (renderable layers) render_key edges)"

definition mesh_step :: "string \<Rightarrow> string list \<Rightarrow> topology_edge \<Rightarrow> string list" where
  "mesh_step nodeId out e =
     (if edgeLayer (te_edgeType e) \<noteq> LayerMesh then out
      else if te_source e = nodeId then set_add out (te_target e)
      else if te_target e = nodeId then set_add out (te_source e)
      else out)"

definition meshNeighbors :: "topology_edge list \<Rightarrow> string \<Rightarrow> string list" where
  "meshNeighbors edges nodeId = sort (foldl (mesh_step nodeId) [] edges)"

definition touches :: "string \<Rightarrow> topology_edge \<Rightarrow> bool" where
  "touches nodeId e \<longleftrightarrow> te_source e = nodeId \<or> te_target e = nodeId"

definition other_end :: "string \<Rightarrow> topology_edge \<Rightarrow> string" where
  "other_end nodeId e = (if te_source e = nodeId then te_target e else te_source e)"

definition incidentEdges :: "topology_edge list \<Rightarrow> string \<Rightarrow> topology_edge list" where
  "incidentEdges edges nodeId =
     snd (keep_first (touches nodeId) (\<lambda>e. te_edgeType e @ '':'' @ other_end nodeId e) edges)"

section \<open>Properties\<close>

text \<open>The line an edge is drawn as: its layer and its two ends, in no order.\<close>

definition line_of :: "topology_edge \<Rightarrow> edge_layer \<times> string set" where
  "line_of e = (edgeLayer (te_edgeType e), {te_source e, te_target e})"

definition plain_ends :: "topology_edge \<Rightarrow> bool" where
  "plain_ends e \<longleftrightarrow> CHR '':'' \<notin> set (te_source e) \<and> CHR '':'' \<notin> set (te_target e)"

lemma layer_name_plain: "CHR '':'' \<notin> set (layer_name l)"
  by (cases l) auto

lemma layer_name_inj: "layer_name l = layer_name l' \<longleftrightarrow> l = l'"
  by (cases l; cases l') auto

lemma ordered_ends_set: "{fst (ordered_ends e), snd (ordered_ends e)} = {te_source e, te_target e}"
  by (auto simp: ordered_ends_def)

lemma ordered_ends_eq:
  "ordered_ends e = ordered_ends f \<longleftrightarrow> {te_source e, te_target e} = {te_source f, te_target f}"
  by (auto simp: ordered_ends_def doubleton_eq_iff)

lemma render_key_line: "plain_ends e \<Longrightarrow> plain_ends f \<Longrightarrow> render_key e = render_key f \<longleftrightarrow> line_of e = line_of f"
proof -
  assume e: "plain_ends e" and f: "plain_ends f"
  have plain: "CHR '':'' \<notin> set (fst (ordered_ends e))" "CHR '':'' \<notin> set (fst (ordered_ends f))"
    using e f by (auto simp: plain_ends_def ordered_ends_def)
  have "render_key e = render_key f \<longleftrightarrow>
      layer_name (edgeLayer (te_edgeType e)) = layer_name (edgeLayer (te_edgeType f)) \<and> ordered_ends e = ordered_ends f"
    using plain append_sep_inj[OF layer_name_plain layer_name_plain]
      append_sep_inj[of "CHR '':''" "fst (ordered_ends e)" "fst (ordered_ends f)"]
    by (simp add: render_key_def split_beta prod_eq_iff)
  then show ?thesis by (simp add: layer_name_inj ordered_ends_eq line_of_def)
qed

text \<open>One line per connection. When no id contains the key's separator, the rendered edges are
  edges of the graph on the enabled layers without self-loops, no two of them draw the same line,
  and every line some edge of the enabled layers asks for is drawn.\<close>

theorem renderableEdges_exact:
  assumes "\<forall>e \<in> set edges. plain_ends e"
  shows "set (renderableEdges edges layers) \<subseteq> {e \<in> set edges. renderable layers e} \<and>
    distinct (map line_of (renderableEdges edges layers)) \<and>
    line_of ` set (renderableEdges edges layers) = line_of ` {e \<in> set edges. renderable layers e}"
proof -
  let ?out = "renderableEdges edges layers"
  have sub: "set ?out \<subseteq> {e \<in> set edges. renderable layers e}"
    unfolding renderableEdges_def by (rule keep_first_subset)
  have plain: "\<forall>e \<in> set ?out. plain_ends e" using sub assms by auto
  have "distinct (map render_key ?out)"
    unfolding renderableEdges_def keep_first_seen[symmetric] by (rule keep_first_distinct)
  then have "distinct (map line_of ?out)"
    using plain by (auto simp: distinct_map inj_on_def render_key_line)
  moreover have "line_of x \<in> line_of ` set ?out" if x: "x \<in> set edges" "renderable layers x" for x
  proof -
    obtain y where y: "y \<in> set ?out" and k: "render_key y = render_key x"
      using keep_first_complete[of x edges "renderable layers" render_key] x unfolding renderableEdges_def by blast
    then have "line_of y = line_of x" using render_key_line[of y x] plain assms x(1) by blast
    then show ?thesis using y by (metis imageI)
  qed
  ultimately show ?thesis using sub by blast
qed

definition demo_edge :: "string \<Rightarrow> string \<Rightarrow> string \<Rightarrow> topology_edge" where
  "demo_edge a b ty = \<lparr>te_source = a, te_target = b, te_edgeType = ty\<rparr>"

theorem renderableEdges_exact_witness:
  "distinct (map line_of (renderableEdges [demo_edge ''a'' ''b'' ''trusts'', demo_edge ''b'' ''a'' ''communicates_with'']
     [LayerMesh]))"
  using renderableEdges_exact[of "[demo_edge ''a'' ''b'' ''trusts'', demo_edge ''b'' ''a'' ''communicates_with'']" "[LayerMesh]"]
  by (simp add: demo_edge_def plain_ends_def)

lemma mesh_fold_set:
  "set (foldl (mesh_step a) out es) = set out \<union>
     {b. \<exists>e \<in> set es. edgeLayer (te_edgeType e) = LayerMesh \<and> {te_source e, te_target e} = {a, b}}"
  by (induction es arbitrary: out) (auto simp: mesh_step_def doubleton_eq_iff)

lemma mesh_fold_distinct: "distinct out \<Longrightarrow> distinct (foldl (mesh_step a) out es)"
  by (induction es arbitrary: out) (auto simp: mesh_step_def)

text \<open>The mesh neighbours of a node are exactly the other ends of its mesh edges, in either
  direction, each once and in order; being neighbours is symmetric.\<close>

theorem meshNeighbors_exact:
  "sorted (meshNeighbors edges a) \<and> distinct (meshNeighbors edges a) \<and>
   set (meshNeighbors edges a) =
     {b. \<exists>e \<in> set edges. edgeLayer (te_edgeType e) = LayerMesh \<and> {te_source e, te_target e} = {a, b}} \<and>
   (b \<in> set (meshNeighbors edges a) \<longleftrightarrow> a \<in> set (meshNeighbors edges b))"
  by (simp add: meshNeighbors_def mesh_fold_distinct mesh_fold_set insert_commute)

lemma live_states_get:
  assumes "nodes_wf (gs_nodes s)"
  shows "map_get (live_states s) a = map_get (gs_nodes s) a"
proof -
  have *: "nodes_wf (m0 @ m) \<Longrightarrow>
      foldl (\<lambda>m n. map_set m (nv_id n) n) m0 (map_values m) = m0 @ m" for m0 m
  proof (induction m arbitrary: m0)
    case (Cons x m)
    obtain k n where x: "x = (k, n)" by (cases x)
    from Cons.prems have "nv_id n = k" "k \<notin> set (map_keys m0)" by (auto simp: nodes_wf_def x)
    moreover have "map_set m0 k n = m0 @ [(k, n)]" using \<open>k \<notin> set (map_keys m0)\<close> by (induction m0) auto
    ultimately show ?case using Cons by (simp add: x)
  qed simp
  from *[of "[]"] assms show ?thesis by (simp add: live_states_def)
qed

text \<open>The live overlay is faithful: for a stream state folded from frames, every node of the
  security graph keeps its identity, type and place; its security state is the stream's when the
  stream knows the node and the graph's otherwise; and no node or edge is added or lost.\<close>

theorem buildTopologyModel_overlay:
  assumes "gs_wf s"
  shows "let m = buildTopologyModel (Some g) s in
    map tn_id (tm_nodes m) = map gn_id (sg_nodes g) \<and> map tn_nodeType (tm_nodes m) = map gn_node_type (sg_nodes g) \<and>
    map tn_securityState (tm_nodes m) =
      map (\<lambda>n. or_default (agent_state (gn_id n) s) (gn_security_state n)) (sg_nodes g) \<and>
    length (tm_edges m) = length (sg_edges g) \<and>
    (tm_meshOnly m \<longleftrightarrow> (\<forall>n \<in> set (sg_nodes g). gn_node_type n = ''agent''))"
proof -
  have "nodes_wf (gs_nodes s)" using assms by (simp add: gs_wf_def)
  then show ?thesis
    by (simp add: buildTopologyModel_def Let_def overlay_node_def live_states_get agent_state_def comp_def list_all_iff)
qed

theorem buildTopologyModel_overlay_witness:
  "map tn_securityState (tm_nodes (buildTopologyModel
      (Some \<lparr>sg_nodes = [\<lparr>gn_id = ''b'', gn_node_type = ''agent'', gn_security_state = Healthy, gn_attrs = []\<rparr>], sg_edges = []\<rparr>)
      (reduce_snapshot initialGraphState demo_snapshot))) = [Compromised]"
proof -
  have wf: "gs_wf (reduce_snapshot initialGraphState demo_snapshot)"
    by (rule reduce_snapshot_wf[OF initialGraphState_wf])
  show ?thesis
    using buildTopologyModel_overlay[OF wf, of "\<lparr>sg_nodes = [\<lparr>gn_id = ''b'', gn_node_type = ''agent'',
      gn_security_state = Healthy, gn_attrs = []\<rparr>], sg_edges = []\<rparr>"]
    by (simp add: Let_def agent_state_def reduce_snapshot_def demo_snapshot_def demo_node_def index_nodes_def)
qed

end
