(* ===== verification/Swarm_Model.thy ===== *)
theory Swarm_Model
  imports Graph_Model
begin

text \<open>
  \<open>frontend/src/lib/runtime/swarmModel.ts\<close>: the swarm's graph, from the session summary with the
  security state overlaid from the stream. The nested function \<open>add\<close> and the variables it updates
  are the pair of \<open>keep_first\<close>, applied to the handoffs in the order the two loops propose them.
\<close>

definition live_nodes :: "runtime_session_summary \<Rightarrow> graph_state \<Rightarrow> (string, node_view) jsmap option" where
  "live_nodes summary stream =
     (if gs_experimentId stream = Some (rs_session_id summary) then Some (gs_nodes stream) else None)"

definition live_security :: "(string, node_view) jsmap option \<Rightarrow> worker_view \<Rightarrow> security_state" where
  "live_security live w = (case live of
      None \<Rightarrow> w_security_state w
    | Some m \<Rightarrow> or_default (map_option nv_security_state (map_get m (w_id w))) (w_security_state w))"

definition json_opt_str :: "string option \<Rightarrow> json" where
  "json_opt_str x = (case x of None \<Rightarrow> JNull | Some s \<Rightarrow> JStr s)"

definition swarm_node :: "(string, node_view) jsmap option \<Rightarrow> worker_view \<Rightarrow> topology_node" where
  "swarm_node live w = \<lparr>tn_id = w_id w, tn_nodeType = ''agent'', tn_securityState = live_security live w,
     tn_attrs = [(''software_type'', JStr (w_role w)), (''agent_kind'', JStr ''real''),
                 (''replaces'', json_opt_str (w_replaces w)), (''model_backed'', JBool (w_model_backed w))]\<rparr>"

definition upstream_of :: "worker_view \<Rightarrow> string list" where
  "upstream_of w = or_default (w_upstream w) []"

definition declared_handoffs :: "worker_view list \<Rightarrow> (string \<times> string) list" where
  "declared_handoffs workers = concat (map (\<lambda>w. map (\<lambda>u. (u, w_id w)) (upstream_of w)) workers)"

definition inherited_handoffs :: "worker_view list \<Rightarrow> (string \<times> string) list" where
  "inherited_handoffs workers = concat (map (\<lambda>w.
     if \<not> truthy (w_replaces w) then []
     else map (\<lambda>other. (w_id w, w_id other))
       (filter (\<lambda>other. the (w_replaces w) \<in> set (upstream_of other)) workers)) workers)"

definition handoff_key :: "string \<times> string \<Rightarrow> string" where
  "handoff_key h = fst h @ ''|'' @ snd h"

definition swarm_edges :: "worker_view list \<Rightarrow> (string \<times> string) list" where
  "swarm_edges workers =
     (let known = map w_id workers
      in snd (keep_first (\<lambda>(s, t). s \<in> set known \<and> t \<in> set known) handoff_key
           (declared_handoffs workers @ inherited_handoffs workers)))"

definition buildSwarmModel :: "runtime_session_summary option \<Rightarrow> graph_state \<Rightarrow> topology_model" where
  "buildSwarmModel summary stream = (case summary of
      None \<Rightarrow> \<lparr>tm_structureKey = ''swarm:none'', tm_nodes = [], tm_edges = [], tm_meshOnly = True\<rparr>
    | Some sm \<Rightarrow>
        let nodes = map (swarm_node (live_nodes sm stream)) (rs_workers sm);
            edges = map (\<lambda>(s, t). \<lparr>te_source = s, te_target = t, te_edgeType = ''delegates_to''\<rparr>)
              (swarm_edges (rs_workers sm))
        in \<lparr>tm_structureKey = structure_key ''swarm'' (Some (rs_session_id sm)) (length nodes) (length edges),
            tm_nodes = nodes, tm_edges = edges, tm_meshOnly = True\<rparr>)"

section \<open>Properties\<close>

definition plain_id :: "string \<Rightarrow> bool" where
  "plain_id s \<longleftrightarrow> CHR ''|'' \<notin> set s"

text \<open>Who hands work to whom: the declared upstreams, and every replacement in the place of the
  worker it replaced.\<close>

definition hands_to :: "worker_view list \<Rightarrow> string \<Rightarrow> string \<Rightarrow> bool" where
  "hands_to workers a b \<longleftrightarrow> a \<in> w_id ` set workers \<and> b \<in> w_id ` set workers \<and>
     (\<exists>w \<in> set workers. w_id w = b \<and>
        (a \<in> set (upstream_of w) \<or>
         (\<exists>v \<in> set workers. w_id v = a \<and> truthy (w_replaces v) \<and> the (w_replaces v) \<in> set (upstream_of w))))"

lemma declared_in: "(a, b) \<in> set (declared_handoffs ws) \<longleftrightarrow> (\<exists>w \<in> set ws. w_id w = b \<and> a \<in> set (upstream_of w))"
  by (auto simp: declared_handoffs_def)

lemma inherited_in:
  "(a, b) \<in> set (inherited_handoffs ws) \<longleftrightarrow> (\<exists>v \<in> set ws. w_id v = a \<and> truthy (w_replaces v) \<and>
     (\<exists>w \<in> set ws. w_id w = b \<and> the (w_replaces v) \<in> set (upstream_of w)))"
  by (auto simp: inherited_handoffs_def)

lemma hands_to_iff:
  "hands_to ws a b \<longleftrightarrow> ((a, b) \<in> set (declared_handoffs ws) \<or> (a, b) \<in> set (inherited_handoffs ws)) \<and>
     a \<in> w_id ` set ws \<and> b \<in> w_id ` set ws"
  unfolding hands_to_def declared_in inherited_in by blast

lemma handoffs_set:
  "{h \<in> set (declared_handoffs ws @ inherited_handoffs ws). fst h \<in> w_id ` set ws \<and> snd h \<in> w_id ` set ws} =
     {(a, b). hands_to ws a b}"
  by (auto simp: hands_to_iff)

lemma handoff_key_inj:
  "plain_id (fst g) \<Longrightarrow> plain_id (fst h) \<Longrightarrow> handoff_key g = handoff_key h \<longleftrightarrow> g = h"
  by (cases g; cases h) (simp add: handoff_key_def plain_id_def append_sep_inj)

text \<open>The swarm graph is exactly the handoff relation: when no worker id contains the key's
  separator, its edges are each handoff between known workers once, a replacement having those of
  the worker it took over from; its nodes are the workers in order, each with the stream's security
  state when the stream belongs to the session and knows the worker.\<close>

theorem buildSwarmModel_handoffs:
  assumes "\<forall>w \<in> set (rs_workers sm). plain_id (w_id w)"
  shows "let m = buildSwarmModel (Some sm) s in
    distinct (map (\<lambda>e. (te_source e, te_target e)) (tm_edges m)) \<and>
    (\<lambda>e. (te_source e, te_target e)) ` set (tm_edges m) = {(a, b). hands_to (rs_workers sm) a b} \<and>
    map tn_id (tm_nodes m) = map w_id (rs_workers sm) \<and>
    map tn_securityState (tm_nodes m) = map (\<lambda>w.
      if gs_experimentId s = Some (rs_session_id sm)
      then or_default (agent_state (w_id w) s) (w_security_state w) else w_security_state w) (rs_workers sm)"
proof -
  let ?ws = "rs_workers sm"
  let ?hs = "declared_handoffs ?ws @ inherited_handoffs ?ws"
  let ?adm = "\<lambda>(s, t). s \<in> set (map w_id ?ws) \<and> t \<in> set (map w_id ?ws)"
  let ?out = "snd (keep_first ?adm handoff_key ?hs)"
  have out: "swarm_edges ?ws = ?out" by (simp add: swarm_edges_def Let_def)
  have adm: "{h \<in> set ?hs. ?adm h} = {(a, b). hands_to ?ws a b}"
    using handoffs_set[of ?ws] by (auto simp: split_beta)
  have plain: "plain_id (fst h)" if "h \<in> {h \<in> set ?hs. ?adm h}" for h
    using that assms unfolding adm by (auto simp: hands_to_def)
  have sub: "set ?out \<subseteq> {h \<in> set ?hs. ?adm h}" by (rule keep_first_subset)
  have "distinct (map handoff_key ?out)"
    unfolding keep_first_seen[symmetric] by (rule keep_first_distinct)
  then have dist: "distinct ?out" by (simp add: distinct_map)
  have all: "h \<in> set ?out" if h: "h \<in> set ?hs" "?adm h" for h
  proof -
    obtain g where g: "g \<in> set ?out" and k: "handoff_key g = handoff_key h"
      using keep_first_complete[of h ?hs ?adm handoff_key] h by blast
    then have "g = h" using handoff_key_inj[of g h] plain sub h by blast
    with g show ?thesis by simp
  qed
  have edges: "set ?out = {(a, b). hands_to ?ws a b}"
    unfolding adm[symmetric] using sub all by blast
  have map_id: "map (\<lambda>e. (te_source e, te_target e))
      (map (\<lambda>(s, t). \<lparr>te_source = s, te_target = t, te_edgeType = ''delegates_to''\<rparr>) hs) = hs" for hs
    by (induction hs) auto
  let ?m = "buildSwarmModel (Some sm) s"
  have te: "map (\<lambda>e. (te_source e, te_target e)) (tm_edges ?m) = ?out"
    by (simp only: buildSwarmModel_def option.case Let_def topology_model.simps map_id out)
  then have "(\<lambda>e. (te_source e, te_target e)) ` set (tm_edges ?m) = set ?out"
    by (metis list.set_map)
  moreover have "map tn_id (tm_nodes ?m) = map w_id ?ws"
    by (simp add: buildSwarmModel_def Let_def swarm_node_def)
  moreover have "map tn_securityState (tm_nodes ?m) = map (\<lambda>w.
      if gs_experimentId s = Some (rs_session_id sm)
      then or_default (agent_state (w_id w) s) (w_security_state w) else w_security_state w) ?ws"
    by (simp add: buildSwarmModel_def Let_def swarm_node_def live_security_def live_nodes_def agent_state_def)
  ultimately show ?thesis unfolding Let_def using te dist edges by simp
qed

definition demo_worker :: "string \<Rightarrow> string list \<Rightarrow> string option \<Rightarrow> worker_view" where
  "demo_worker a up repl = \<lparr>w_id = a, w_role = ''Researcher'', w_security_state = Healthy, w_current_task = None,
     w_upstream = Some up, w_replaces = repl, w_model_backed = True, w_quarantine_reason = None\<rparr>"

definition demo_summary :: "worker_view list \<Rightarrow> runtime_session_summary" where
  "demo_summary ws = \<lparr>rs_session_id = ''s'', rs_objective = [], rs_workflow_state = WfRunning, rs_step = 0,
     rs_last_seq = 0, rs_attack_detected = False, rs_recovery_required = False, rs_workers = ws\<rparr>"

theorem buildSwarmModel_handoffs_witness:
  "(''c'', ''b'') \<in> (\<lambda>e. (te_source e, te_target e)) ` set (tm_edges (buildSwarmModel
     (Some (demo_summary [demo_worker ''a'' [] None, demo_worker ''b'' [''a''] None, demo_worker ''c'' [] (Some ''a'')]))
     initialGraphState))"
proof -
  let ?ws = "[demo_worker ''a'' [] None, demo_worker ''b'' [''a''] None, demo_worker ''c'' [] (Some ''a'')]"
  have plain: "\<forall>w \<in> set (rs_workers (demo_summary ?ws)). plain_id (w_id w)"
    by (simp add: demo_summary_def demo_worker_def plain_id_def)
  have "hands_to ?ws ''c'' ''b''" by (simp add: hands_to_def demo_worker_def upstream_of_def)
  moreover have "rs_workers (demo_summary ?ws) = ?ws" by (simp add: demo_summary_def)
  ultimately show ?thesis
    using buildSwarmModel_handoffs[OF plain, of initialGraphState] unfolding Let_def by simp
qed

end
