(* ===== verification/Stage.thy ===== *)
theory Stage
  imports Swarm_Model
begin

text \<open>
  \<open>frontend/src/lib/runtime/stage.ts\<close>: the causal layout of the swarm. The column of a worker is its
  depth in the handoff chain, computed by passes over the workers until nothing changes, at most
  one pass more than there are workers. The bound is the fuel of \<open>depth_loop\<close>; for a chain without
  a cycle it is proved to be enough.
\<close>

section \<open>Depths\<close>

definition parents_of :: "worker_view \<Rightarrow> string list" where
  "parents_of w = (case w_replaces w of Some r \<Rightarrow> [r] | None \<Rightarrow> upstream_of w)"

text \<open>The depth a worker's parents give it, when \<open>f\<close> is the depth of each.\<close>

definition next_depth :: "string list \<Rightarrow> (string \<Rightarrow> nat) \<Rightarrow> worker_view \<Rightarrow> nat" where
  "next_depth known f w = foldl (\<lambda>next parentId.
     if parentId \<notin> set known then next
     else if w_replaces w = Some parentId then max next (f parentId)
     else max next (f parentId + 1)) 0 (parents_of w)"

definition depth_at :: "(string, nat) jsmap \<Rightarrow> string \<Rightarrow> nat" where
  "depth_at d i = or_default (map_get d i) 0"

definition depth_update :: "string list \<Rightarrow> (string, nat) jsmap \<times> bool \<Rightarrow> worker_view \<Rightarrow> (string, nat) jsmap \<times> bool" where
  "depth_update known acc w = (case acc of (d, changed) \<Rightarrow>
     let next = next_depth known (depth_at d) w
     in if map_get d (w_id w) \<noteq> Some next then (map_set d (w_id w) next, True) else (d, changed))"

definition depth_pass :: "worker_view list \<Rightarrow> (string, nat) jsmap \<Rightarrow> (string, nat) jsmap \<times> bool" where
  "depth_pass workers d = foldl (depth_update (map w_id workers)) (d, False) workers"

fun depth_loop :: "nat \<Rightarrow> worker_view list \<Rightarrow> (string, nat) jsmap \<Rightarrow> (string, nat) jsmap" where
  "depth_loop 0 workers d = d"
| "depth_loop (Suc k) workers d = (case depth_pass workers d of
     (d', changed) \<Rightarrow> if \<not> changed then d' else depth_loop k workers d')"

definition depths :: "worker_view list \<Rightarrow> (string, nat) jsmap" where
  "depths workers = depth_loop (length workers + 1) workers []"

section \<open>The stage\<close>

record stage_node =
  st_id :: string
  st_role :: string
  st_securityState :: security_state
  st_currentTask :: "string option"
  st_quarantineReason :: "string option"
  st_replaces :: "string option"
  st_modelBacked :: bool
  st_column :: nat

record stage_column =
  sc_column :: nat
  sc_nodes :: "stage_node list"

record stage =
  sg_columns :: "stage_column list"
  sg_reassignments :: "(string, string) jsmap"
  sg_breached :: bool

definition EMPTY_STAGE :: stage where
  "EMPTY_STAGE = \<lparr>sg_columns = [], sg_reassignments = [], sg_breached = False\<rparr>"

definition stage_node_of :: "(string, node_view) jsmap option \<Rightarrow> (string, nat) jsmap \<Rightarrow> worker_view \<Rightarrow> stage_node" where
  "stage_node_of live depth w = \<lparr>st_id = w_id w, st_role = w_role w, st_securityState = live_security live w,
     st_currentTask = w_current_task w, st_quarantineReason = w_quarantine_reason w,
     st_replaces = w_replaces w, st_modelBacked = w_model_backed w, st_column = depth_at depth (w_id w)\<rparr>"

definition node_index :: "stage_node list \<Rightarrow> string \<Rightarrow> int" where
  "node_index nodes i = or_default (map_get
     (foldl (\<lambda>m (k, n). map_set m (st_id n) (int k)) [] (enumerate 0 nodes)) i) 0"

definition below :: "(string \<Rightarrow> int) \<Rightarrow> stage_node \<Rightarrow> stage_node \<Rightarrow> int" where
  "below order a b =
     (if st_replaces a = Some (st_id b) then 1
      else if st_replaces b = Some (st_id a) then -1
      else order (st_id a) - order (st_id b))"

definition add_to_bucket :: "(nat, stage_node list) jsmap \<Rightarrow> stage_node \<Rightarrow> (nat, stage_node list) jsmap" where
  "add_to_bucket m n = map_set m (st_column n) (or_default (map_get m (st_column n)) [] @ [n])"

definition grouped :: "stage_node list \<Rightarrow> (nat, stage_node list) jsmap" where
  "grouped nodes = foldl add_to_bucket [] nodes"

definition by_column :: "nat \<times> stage_node list \<Rightarrow> nat \<times> stage_node list \<Rightarrow> int" where
  "by_column a b = int (fst a) - int (fst b)"

definition stage_of :: "stage_node list \<Rightarrow> stage" where
  "stage_of nodes = \<lparr>
     sg_columns = map (\<lambda>(c, g). \<lparr>sc_column = c, sc_nodes = sort_by (below (node_index nodes)) g\<rparr>)
       (sort_by by_column (grouped nodes)),
     sg_reassignments = foldl (\<lambda>m n. if truthy (st_replaces n) then map_set m (the (st_replaces n)) (st_id n) else m) [] nodes,
     sg_breached = list_ex (\<lambda>n. st_securityState n = Quarantined) nodes\<rparr>"

definition stage_nodes :: "runtime_session_summary \<Rightarrow> graph_state \<Rightarrow> stage_node list" where
  "stage_nodes sm stream = map (stage_node_of (live_nodes sm stream) (depths (rs_workers sm))) (rs_workers sm)"

definition buildStage :: "runtime_session_summary option \<Rightarrow> graph_state \<Rightarrow> stage" where
  "buildStage summary stream = (case summary of
      None \<Rightarrow> EMPTY_STAGE
    | Some sm \<Rightarrow> if rs_workers sm = [] then EMPTY_STAGE else stage_of (stage_nodes sm stream))"

section \<open>The passes reach the depths\<close>

lemma next_depth_eq:
  "next_depth known f w = foldl (\<lambda>m p. max m (f p + (if w_replaces w = Some p then 0 else 1))) 0
     (filter (\<lambda>p. p \<in> set known) (parents_of w))"
proof -
  have "foldl (\<lambda>next p. if p \<notin> set known then next
       else if w_replaces w = Some p then max next (f p) else max next (f p + 1)) n ps =
     foldl (\<lambda>m p. max m (f p + (if w_replaces w = Some p then 0 else 1))) n (filter (\<lambda>p. p \<in> set known) ps)" for n ps
    by (induction ps arbitrary: n) auto
  then show ?thesis by (simp add: next_depth_def)
qed

lemma next_depth_cong:
  "(\<And>p. p \<in> set (parents_of w) \<Longrightarrow> p \<in> set known \<Longrightarrow> f p = g p) \<Longrightarrow> next_depth known f w = next_depth known g w"
  unfolding next_depth_eq by (rule foldl_cong) auto

text \<open>A pass that changes nothing ends the loop where further passes would stay.\<close>

lemma depth_update_pair:
  "depth_update known (d, changed) w =
     (if map_get d (w_id w) \<noteq> Some (next_depth known (depth_at d) w)
      then (map_set d (w_id w) (next_depth known (depth_at d) w), True) else (d, changed))"
  by (simp add: depth_update_def Let_def)

lemma depth_update_unchanged: "snd (foldl (depth_update known) (d, True) ws)"
  by (induction ws arbitrary: d) (auto simp: depth_update_pair)

lemma unchanged_pass: "foldl (depth_update known) (d, False) ws = (d', False) \<Longrightarrow> d' = d"
proof (induction ws)
  case (Cons w ws)
  show ?case
  proof (cases "map_get d (w_id w) = Some (next_depth known (depth_at d) w)")
    case True
    with Cons show ?thesis by (simp add: depth_update_pair)
  next
    case False
    with Cons.prems depth_update_unchanged[of known "map_set d (w_id w) (next_depth known (depth_at d) w)" ws]
    show ?thesis by (simp add: depth_update_pair)
  qed
qed simp

lemma depth_loop_passes: "depth_loop k ws d = ((\<lambda>d. fst (depth_pass ws d)) ^^ k) d"
proof (induction k arbitrary: d)
  case (Suc k)
  obtain d' changed where p: "depth_pass ws d = (d', changed)" by fastforce
  show ?case
  proof (cases changed)
    case True
    with p Suc show ?thesis by (simp add: funpow_Suc_right del: funpow.simps)
  next
    case False
    then have "d' = d" using p unchanged_pass[of "map w_id ws" d ws d'] by (simp add: depth_pass_def)
    with p False have fix_d: "fst (depth_pass ws d) = d" by simp
    then have "((\<lambda>d. fst (depth_pass ws d)) ^^ n) d = d" for n by (induction n) simp_all
    with p False \<open>d' = d\<close> show ?thesis by simp
  qed
qed simp

text \<open>What a worker's depth should be, to a given height of the chain.\<close>

fun true_depth :: "worker_view list \<Rightarrow> nat \<Rightarrow> string \<Rightarrow> nat" where
  "true_depth ws 0 i = 0"
| "true_depth ws (Suc k) i = (case List.find (\<lambda>w. w_id w = i) ws of
     None \<Rightarrow> 0 | Some w \<Rightarrow> next_depth (map w_id ws) (true_depth ws k) w)"

text \<open>A ranking of the workers in which every known parent stands lower.\<close>

definition ranked :: "worker_view list \<Rightarrow> (string \<Rightarrow> nat) \<Rightarrow> bool" where
  "ranked ws rank \<longleftrightarrow> (\<forall>w \<in> set ws. \<forall>p \<in> set (parents_of w). p \<in> w_id ` set ws \<longrightarrow> rank p < rank (w_id w))"

lemma find_worker: "distinct (map w_id ws) \<Longrightarrow> w \<in> set ws \<Longrightarrow> List.find (\<lambda>v. w_id v = w_id w) ws = Some w"
  by (induction ws) auto

lemma true_depth_stable:
  assumes "distinct (map w_id ws)" and "ranked ws rank" and "w \<in> set ws" and "rank (w_id w) < k" and "k \<le> l"
  shows "true_depth ws k (w_id w) = true_depth ws l (w_id w)"
  using assms(3-5)
proof (induction k arbitrary: w l)
  case (Suc k)
  then obtain m where l: "l = Suc m" "k \<le> m" by (cases l) auto
  have "next_depth (map w_id ws) (true_depth ws k) w = next_depth (map w_id ws) (true_depth ws m) w"
  proof (rule next_depth_cong)
    fix p assume p: "p \<in> set (parents_of w)" "p \<in> set (map w_id ws)"
    then obtain v where v: "v \<in> set ws" "w_id v = p" by auto
    with assms(2) Suc.prems(1,2) p have "rank (w_id v) < k" by (fastforce simp: ranked_def)
    from Suc.IH[OF v(1) this l(2)] v(2) show "true_depth ws k p = true_depth ws m p" by simp
  qed
  then show ?case by (simp add: l find_worker[OF assms(1) Suc.prems(1)])
qed simp

definition settled :: "worker_view list \<Rightarrow> (string \<Rightarrow> nat) \<Rightarrow> (string \<Rightarrow> nat) \<Rightarrow> nat \<Rightarrow> (string, nat) jsmap \<Rightarrow> bool" where
  "settled ws rank D k d \<longleftrightarrow> (\<forall>w \<in> set ws. rank (w_id w) < k \<longrightarrow> map_get d (w_id w) = Some (D (w_id w)))"

lemma settled_pass:
  assumes ranked: "ranked ws rank"
    and D: "\<And>w. w \<in> set ws \<Longrightarrow> D (w_id w) = next_depth (map w_id ws) D w"
    and "settled ws rank D k d"
  shows "settled ws rank D (Suc k) (fst (depth_pass ws d))"
proof -
  have fold: "set vs \<subseteq> set ws \<Longrightarrow> settled ws rank D k d \<Longrightarrow>
      \<forall>w \<in> set us. rank (w_id w) < Suc k \<longrightarrow> map_get d (w_id w) = Some (D (w_id w)) \<Longrightarrow>
      (\<forall>w \<in> set us \<union> set vs. rank (w_id w) < Suc k \<longrightarrow>
         map_get (fst (foldl (depth_update (map w_id ws)) (d, b) vs)) (w_id w) = Some (D (w_id w)))" for us vs d b
  proof (induction vs arbitrary: us d b)
    case (Cons v vs)
    let ?next = "next_depth (map w_id ws) (depth_at d) v"
    let ?acc = "depth_update (map w_id ws) (d, b) v"
    have get: "map_get (fst ?acc) i = (if i = w_id v then Some ?next else map_get d i)" for i
      by (simp add: depth_update_pair)
    have v: "v \<in> set ws" using Cons.prems(1) by simp
    have next_D: "?next = D (w_id v)" if "rank (w_id v) < Suc k"
    proof -
      have "?next = next_depth (map w_id ws) D v"
      proof (rule next_depth_cong)
        fix p assume p: "p \<in> set (parents_of v)" "p \<in> set (map w_id ws)"
        then obtain u where u: "u \<in> set ws" "w_id u = p" by auto
        with ranked v p that have "rank (w_id u) < k" by (fastforce simp: ranked_def)
        with Cons.prems(2) u show "depth_at d p = D p" by (auto simp: settled_def depth_at_def)
      qed
      then show ?thesis by (simp add: D[OF v])
    qed
    have st: "settled ws rank D k (fst ?acc)"
      using Cons.prems(2) next_D by (auto simp: settled_def get)
    have us: "\<forall>w \<in> set (v # us). rank (w_id w) < Suc k \<longrightarrow> map_get (fst ?acc) (w_id w) = Some (D (w_id w))"
      using Cons.prems(3) next_D by (auto simp: get)
    have "set vs \<subseteq> set ws" using Cons.prems(1) by simp
    from Cons.IH[OF this st us, of "snd ?acc"] show ?case by auto
  qed simp
  from fold[of ws d "[]" False] assms(3) show ?thesis
    by (simp add: settled_def depth_pass_def)
qed

lemma depths_settled:
  assumes "distinct (map w_id ws)" and "ranked ws rank" and "\<forall>w \<in> set ws. rank (w_id w) < length ws" and "w \<in> set ws"
  shows "map_get (depths ws) (w_id w) = Some (true_depth ws (length ws) (w_id w))"
    and "true_depth ws (length ws) (w_id w) = next_depth (map w_id ws) (true_depth ws (length ws)) w"
proof -
  let ?n = "length ws" and ?D = "true_depth ws (length ws)"
  have D: "?D (w_id v) = next_depth (map w_id ws) ?D v" if v: "v \<in> set ws" for v
    using true_depth_stable[OF assms(1,2) v, of ?n "Suc ?n"] assms(3) v by (simp add: find_worker[OF assms(1) v])
  show "?D (w_id w) = next_depth (map w_id ws) ?D w" by (rule D[OF assms(4)])
  have "settled ws rank ?D k (((\<lambda>d. fst (depth_pass ws d)) ^^ k) [])" for k
  proof (induction k)
    case (Suc k)
    from settled_pass[OF assms(2) D Suc] show ?case by simp
  qed (simp add: settled_def)
  from this[of "?n + 1"] assms(3,4) show "map_get (depths ws) (w_id w) = Some (?D (w_id w))"
    unfolding depths_def depth_loop_passes settled_def by fastforce
qed

text \<open>Without a cycle there is such a ranking, by the number of a worker's ancestors.\<close>

definition handoff :: "worker_view list \<Rightarrow> (string \<times> string) set" where
  "handoff ws = {(p, w_id w) | p w. w \<in> set ws \<and> p \<in> set (parents_of w) \<and> p \<in> w_id ` set ws}"

lemma acyclic_ranked:
  assumes "acyclic (handoff ws)" and "distinct (map w_id ws)"
  defines "rank \<equiv> \<lambda>i. card {j. (j, i) \<in> (handoff ws)\<^sup>+}"
  shows "ranked ws rank" and "\<forall>w \<in> set ws. rank (w_id w) < length ws"
proof -
  have sub: "{j. (j, i) \<in> (handoff ws)\<^sup>+} \<subseteq> w_id ` set ws" for i
  proof
    fix j assume "j \<in> {j. (j, i) \<in> (handoff ws)\<^sup>+}"
    then have "(j, i) \<in> (handoff ws)\<^sup>+" by simp
    then show "j \<in> w_id ` set ws" by (rule converse_tranclE) (auto simp: handoff_def)
  qed
  have fin: "finite {j. (j, i) \<in> (handoff ws)\<^sup>+}" for i using finite_subset[OF sub] by simp
  show "ranked ws rank" unfolding ranked_def
  proof (intro ballI impI)
    fix w p assume w: "w \<in> set ws" and p: "p \<in> set (parents_of w)" "p \<in> w_id ` set ws"
    have e: "(p, w_id w) \<in> handoff ws" using w p by (auto simp: handoff_def)
    have "p \<notin> {j. (j, p) \<in> (handoff ws)\<^sup>+}" using assms(1) by (simp add: acyclic_def)
    moreover have "{j. (j, p) \<in> (handoff ws)\<^sup>+} \<subseteq> {j. (j, w_id w) \<in> (handoff ws)\<^sup>+}"
      using e by (auto intro: trancl.trancl_into_trancl)
    moreover have "p \<in> {j. (j, w_id w) \<in> (handoff ws)\<^sup>+}" using e by auto
    ultimately show "rank p < rank (w_id w)"
      unfolding rank_def by (intro psubset_card_mono[OF fin]) blast
  qed
  show "\<forall>w \<in> set ws. rank (w_id w) < length ws"
  proof
    fix w assume w: "w \<in> set ws"
    have "w_id w \<notin> {j. (j, w_id w) \<in> (handoff ws)\<^sup>+}" using assms(1) by (simp add: acyclic_def)
    then have "{j. (j, w_id w) \<in> (handoff ws)\<^sup>+} \<subset> w_id ` set ws" using sub[of "w_id w"] w by blast
    then have "rank (w_id w) < card (w_id ` set ws)" unfolding rank_def by (intro psubset_card_mono) simp_all
    also have "\<dots> = length ws" using assms(2) by (metis distinct_card length_map list.set_map)
    finally show "rank (w_id w) < length ws" .
  qed
qed

section \<open>Properties\<close>

lemma foldl_max_ge: "m \<le> foldl (\<lambda>m p. max m (g p)) m ps"
  for g :: "'a \<Rightarrow> nat"
  by (induction ps arbitrary: m) (auto intro: order_trans[OF max.cobounded1])

lemma foldl_max_mem: "p \<in> set ps \<Longrightarrow> g p \<le> foldl (\<lambda>m p. max m (g p)) m ps"
  for g :: "'a \<Rightarrow> nat"
proof (induction ps arbitrary: m)
  case (Cons q ps)
  have "g q \<le> foldl (\<lambda>m p. max m (g p)) (max m (g q)) ps"
    by (rule order_trans[OF max.cobounded2 foldl_max_ge])
  with Cons show ?case by (cases "p = q") simp_all
qed simp

lemma foldl_max_attained:
  "foldl (\<lambda>m p. max m (g p)) m ps = m \<or> (\<exists>p \<in> set ps. foldl (\<lambda>m p. max m (g p)) m ps = g p)"
  for g :: "'a \<Rightarrow> nat"
proof (induction ps arbitrary: m)
  case (Cons p ps)
  from Cons[of "max m (g p)"] show ?case by (auto simp: max_def split: if_splits)
qed simp

text \<open>C17. In a chain without a cycle the columns are the causal depths: a replacement stands in the
  column of the worker it replaced, every other worker one column after the furthest of its known
  upstreams and in the first column when it has none. The bound on the passes is always enough.\<close>

theorem depths_solve_handoffs:
  assumes "acyclic (handoff ws)" and "distinct (map w_id ws)" and "w \<in> set ws"
  defines "d \<equiv> depth_at (depths ws)"
  shows "(\<forall>r. w_replaces w = Some r \<longrightarrow> d (w_id w) = (if r \<in> w_id ` set ws then d r else 0)) \<and>
    (w_replaces w = None \<longrightarrow>
      (\<forall>u \<in> set (upstream_of w) \<inter> w_id ` set ws. d u < d (w_id w)) \<and>
      (d (w_id w) = 0 \<or> (\<exists>u \<in> set (upstream_of w) \<inter> w_id ` set ws. d (w_id w) = Suc (d u))))"
proof -
  note rk = acyclic_ranked[OF assms(1,2)]
  let ?D = "true_depth ws (length ws)"
  have dD: "d (w_id v) = ?D (w_id v)" if "v \<in> set ws" for v
    using depths_settled(1)[OF assms(2) rk that] by (simp add: d_def depth_at_def)
  have "?D (w_id w) = next_depth (map w_id ws) ?D w" by (rule depths_settled(2)[OF assms(2) rk assms(3)])
  also have "\<dots> = next_depth (map w_id ws) d w"
    by (rule next_depth_cong) (use dD in auto)
  finally have eq: "d (w_id w) = next_depth (map w_id ws) d w" by (simp add: dD[OF assms(3)])
  show ?thesis
  proof (cases "w_replaces w")
    case (Some r)
    with eq show ?thesis by (simp add: next_depth_def parents_of_def)
  next
    case None
    let ?us = "filter (\<lambda>p. p \<in> set (map w_id ws)) (upstream_of w)"
    have max: "d (w_id w) = foldl (\<lambda>m p. max m (d p + 1)) 0 ?us"
      using eq None by (simp add: next_depth_eq parents_of_def)
    have "d u < d (w_id w)" if "u \<in> set (upstream_of w) \<inter> w_id ` set ws" for u
      using foldl_max_mem[of u ?us "\<lambda>p. d p + 1" 0] that by (simp add: max)
    moreover have "d (w_id w) = 0 \<or> (\<exists>u \<in> set (upstream_of w) \<inter> w_id ` set ws. d (w_id w) = Suc (d u))"
      using foldl_max_attained[of "\<lambda>p. d p + 1" 0 ?us] by (auto simp: max)
    ultimately show ?thesis using None by simp
  qed
qed

definition demo_team :: "worker_view list" where
  "demo_team = [demo_worker ''a'' [] None, demo_worker ''b'' [''a''] None, demo_worker ''c'' [] (Some ''b'')]"

lemma demo_team_acyclic: "acyclic (handoff demo_team)" "distinct (map w_id demo_team)"
proof -
  let ?height = "\<lambda>i. if i = ''a'' then 0 else if i = ''b'' then 1 else (2::nat)"
  have "handoff demo_team \<subseteq> measure ?height"
    by (auto simp: handoff_def demo_team_def demo_worker_def parents_of_def upstream_of_def)
  then show "acyclic (handoff demo_team)" by (rule acyclic_subset[OF wf_acyclic[OF wf_measure]])
  show "distinct (map w_id demo_team)" by (simp add: demo_team_def demo_worker_def)
qed

theorem depths_solve_handoffs_witness:
  "depth_at (depths demo_team) ''c'' = depth_at (depths demo_team) ''b''"
  using depths_solve_handoffs[OF demo_team_acyclic, of "demo_worker ''c'' [] (Some ''b'')"]
  by (auto simp: demo_team_def demo_worker_def)

text \<open>The grouping of the nodes by column.\<close>

lemma grouped_snoc: "grouped (ns @ [n]) = add_to_bucket (grouped ns) n"
  by (simp add: grouped_def)

lemma grouped_get:
  "map_get (grouped ns) c = (if filter (\<lambda>n. st_column n = c) ns = [] then None
     else Some (filter (\<lambda>n. st_column n = c) ns))"
  by (induction ns rule: rev_induct) (auto simp: grouped_snoc add_to_bucket_def, simp add: grouped_def)

lemma grouped_distinct: "distinct (map_keys (grouped ns))"
  by (induction ns rule: rev_induct)
    (auto simp: grouped_snoc add_to_bucket_def distinct_update, simp add: grouped_def)

lemma grouped_entry: "(c, g) \<in> set (grouped ns) \<longleftrightarrow> g \<noteq> [] \<and> g = filter (\<lambda>n. st_column n = c) ns"
  using grouped_get[of ns c] grouped_distinct[of ns]
  by (metis map_of_eq_Some_iff option.distinct(1) option.inject)

interpretation columns: comparator by_column
  by unfold_locales (auto simp: by_column_def)

lemma columns_ascending: "sorted_wrt (<) (map fst (sort_by by_column (grouped ns)))"
proof -
  have "(\<lambda>a b. by_column a b \<le> 0) = (\<lambda>a b. fst a \<le> fst b)" by (auto simp: by_column_def fun_eq_iff)
  then have "sorted (map fst (sort_by by_column (grouped ns)))"
    using columns.sort_by_sorted[of "grouped ns"] by (simp add: sorted_map)
  moreover have "distinct (map fst (sort_by by_column (grouped ns)))"
    using grouped_distinct[of ns] by (metis mset_eq_imp_distinct_iff mset_map mset_sort_by)
  ultimately show ?thesis by (simp add: strict_sorted_iff)
qed

definition column_nodes :: "stage \<Rightarrow> (nat \<times> stage_node list) list" where
  "column_nodes st = map (\<lambda>c. (sc_column c, sc_nodes c)) (sg_columns st)"

lemma column_nodes_stage:
  "column_nodes (stage_of ns) = map (\<lambda>(c, g). (c, sort_by (below (node_index ns)) g)) (sort_by by_column (grouped ns))"
  by (simp add: column_nodes_def stage_of_def comp_def split_beta)

text \<open>Every worker is drawn once, in the column of its depth: the columns ascend, a column holds
  exactly the workers of its depth, none is empty and every depth that occurs has one.\<close>

theorem stage_partition:
  "let st = stage_of ns in
    sorted_wrt (<) (map fst (column_nodes st)) \<and>
    (\<forall>(c, g) \<in> set (column_nodes st). g \<noteq> [] \<and> mset g = mset (filter (\<lambda>n. st_column n = c) ns)) \<and>
    set (map fst (column_nodes st)) = st_column ` set ns"
proof -
  have keys: "map fst (column_nodes (stage_of ns)) = map fst (sort_by by_column (grouped ns))"
    by (simp add: column_nodes_stage comp_def split_beta)
  have "g \<noteq> [] \<and> mset g = mset (filter (\<lambda>n. st_column n = c) ns)" if "(c, g) \<in> set (column_nodes (stage_of ns))" for c g
  proof -
    from that obtain h where h: "(c, h) \<in> set (grouped ns)" and g: "g = sort_by (below (node_index ns)) h"
      by (auto simp: column_nodes_stage)
    from h have "h \<noteq> []" and "h = filter (\<lambda>n. st_column n = c) ns" unfolding grouped_entry by blast+
    moreover have "length g = length h" "mset g = mset h" by (simp_all add: g)
    ultimately show ?thesis by (metis length_0_conv)
  qed
  moreover have "set (map fst (sort_by by_column (grouped ns))) = st_column ` set ns"
  proof -
    have "set (map fst (sort_by by_column (grouped ns))) = {c. map_get (grouped ns) c \<noteq> None}"
      by (auto simp: map_of_eq_None_iff)
    then show ?thesis by (auto simp: grouped_get filter_empty_conv)
  qed
  ultimately show ?thesis unfolding Let_def using columns_ascending[of ns] keys by auto
qed

text \<open>The order within a column.\<close>

lemma node_index_nth:
  assumes "distinct (map st_id ns)" and "i < length ns"
  shows "node_index ns (st_id (ns ! i)) = int i"
proof -
  have *: "distinct (map st_id xs) \<Longrightarrow> j < length xs \<Longrightarrow>
      map_get (foldl (\<lambda>m (k, n). map_set m (st_id n) (int k)) m0 (enumerate k0 xs)) (st_id (xs ! j)) = Some (int (k0 + j))"
    for xs j k0 m0
  proof (induction xs arbitrary: j k0 m0 rule: rev_induct)
    case (snoc x xs)
    show ?case
    proof (cases "j < length xs")
      case True
      with snoc.prems have "st_id x \<notin> st_id ` set xs" by auto
      moreover have "st_id (xs ! j) \<in> st_id ` set xs" using True by simp
      ultimately have "st_id (xs ! j) \<noteq> st_id x" by metis
      with True snoc show ?thesis by (simp add: enumerate_append_eq nth_append)
    next
      case False
      with snoc.prems have "j = length xs" by simp
      then show ?thesis by (simp add: enumerate_append_eq)
    qed
  qed simp
  from *[OF assms, of "[]" 0] show ?thesis by (simp add: node_index_def)
qed

text \<open>No worker was registered before the one it replaces.\<close>

definition registered_in_order :: "stage_node list \<Rightarrow> bool" where
  "registered_in_order ns \<longleftrightarrow> sorted_wrt (\<lambda>a b. st_replaces a \<noteq> Some (st_id b)) ns"

lemma below_in_order:
  assumes "distinct (map st_id ns)" and "registered_in_order ns"
  shows "sorted_wrt (\<lambda>a b. below (node_index ns) a b \<le> 0) ns"
  using assms(2) node_index_nth[OF assms(1)]
  by (auto simp: sorted_wrt_iff_nth_less registered_in_order_def below_def)

text \<open>When the registry lists every worker before its replacement, each column shows its workers
  in the order of the registry, so a replacement stands below the worker it replaced.\<close>

theorem stage_column_order:
  assumes "distinct (map st_id ns)" and "registered_in_order ns"
  shows "\<forall>(c, g) \<in> set (column_nodes (stage_of ns)). g = filter (\<lambda>n. st_column n = c) ns"
proof -
  have "sort_by (below (node_index ns)) (filter P ns) = filter P ns" for P
    by (rule sort_by_id) (rule sorted_wrt_filter[OF below_in_order[OF assms]])
  then show ?thesis by (auto simp: column_nodes_stage grouped_entry)
qed

definition demo_stage_node :: "string \<Rightarrow> string option \<Rightarrow> stage_node" where
  "demo_stage_node i r = \<lparr>st_id = i, st_role = ''Researcher'', st_securityState = Healthy, st_currentTask = None,
     st_quarantineReason = None, st_replaces = r, st_modelBacked = True, st_column = 1\<rparr>"

theorem stage_column_order_witness:
  "column_nodes (stage_of [demo_stage_node ''a'' None, demo_stage_node ''c'' None, demo_stage_node ''b'' (Some ''a'')]) =
     [(1, [demo_stage_node ''a'' None, demo_stage_node ''c'' None, demo_stage_node ''b'' (Some ''a'')])]"
proof -
  let ?ns = "[demo_stage_node ''a'' None, demo_stage_node ''c'' None, demo_stage_node ''b'' (Some ''a'')]"
  have "distinct (map st_id ?ns)" "registered_in_order ?ns"
    by (simp_all add: demo_stage_node_def registered_in_order_def)
  from stage_column_order[OF this]
  have all: "\<forall>(c, g) \<in> set (column_nodes (stage_of ?ns)). g = filter (\<lambda>n. st_column n = c) ?ns" .
  have "map fst (column_nodes (stage_of ?ns)) = [1]"
    by (simp add: column_nodes_stage grouped_def add_to_bucket_def demo_stage_node_def sort_by_def)
  then obtain g where "column_nodes (stage_of ?ns) = [(1, g)]" by (cases "column_nodes (stage_of ?ns)") auto
  with all show ?thesis by (simp add: demo_stage_node_def)
qed

text \<open>Otherwise the order is not defined. When a replacement is listed before the worker it
  replaced and a third worker of the column between the two, the comparator is cyclic: each of the
  three has to stand above the next, and no order of them satisfies it.\<close>

theorem stage_comparator_cycle:
  assumes "distinct (map st_id ns)" and "i < j" and "j < k" and "k < length ns"
    and "st_replaces (ns ! i) = Some (st_id (ns ! k))"
    and "st_replaces (ns ! j) = None" and "st_replaces (ns ! k) = None"
  shows "let cmp = below (node_index ns) in
    cmp (ns ! i) (ns ! j) < 0 \<and> cmp (ns ! j) (ns ! k) < 0 \<and> cmp (ns ! k) (ns ! i) < 0"
proof -
  have ids: "st_id (ns ! i) \<noteq> st_id (ns ! j)" "st_id (ns ! k) \<noteq> st_id (ns ! j)" "st_id (ns ! i) \<noteq> st_id (ns ! k)"
    using assms(1-4) by (simp_all add: distinct_conv_nth)
  have index: "node_index ns (st_id (ns ! m)) = int m" if "m \<le> k" for m
    by (rule node_index_nth[OF assms(1)]) (use that assms(4) in simp)
  show ?thesis
    using assms(2,3,5-7) ids by (simp add: Let_def below_def index)
qed

theorem stage_comparator_cycle_witness:
  "below (node_index [demo_stage_node ''b'' (Some ''a''), demo_stage_node ''c'' None, demo_stage_node ''a'' None])
     (demo_stage_node ''a'' None) (demo_stage_node ''b'' (Some ''a'')) < 0"
  using stage_comparator_cycle[of "[demo_stage_node ''b'' (Some ''a''), demo_stage_node ''c'' None, demo_stage_node ''a'' None]" 0 1 2]
  by (simp add: demo_stage_node_def Let_def)

end
