(* ===== verification/Replay.thy ===== *)
theory Replay
  imports Stream_Reducer
begin

text \<open>
  \<open>frontend/src/lib/replay\<close>: the replay of a recorded run. \<open>controlReducer.ts\<close> is the local control
  state, \<open>loadReplayData.ts\<close> fetches the snapshot and every page of the event log, and
  \<open>useReplayStream.ts\<close> plays and seeks. The paging loop has no bound of its own, so
  \<open>load_pages\<close> takes fuel and answers \<open>None\<close> when it runs out; with the backend's endpoint
  (\<open>backend/app/api/routes_history.py\<close>, \<open>get_experiment_events\<close>) one more than the events left is
  always enough. A call that fails is a left value with its message.
\<close>

section \<open>Control state\<close>

definition MIN_SPEED :: rat where "MIN_SPEED = 1/4"
definition MAX_SPEED :: rat where "MAX_SPEED = 8"

record replay_control_state =
  rp_playing :: bool
  rp_speed :: jsnum

definition initialReplayControlState :: replay_control_state where
  "initialReplayControlState = \<lparr>rp_playing = False, rp_speed = Fin 1\<rparr>"

datatype replay_control_action = Play | PausePlayback | TogglePlay | SetSpeed jsnum | ResetReplay

fun replayControlReducer :: "replay_control_state \<Rightarrow> replay_control_action \<Rightarrow> replay_control_state" where
  "replayControlReducer s Play = s\<lparr>rp_playing := True\<rparr>"
| "replayControlReducer s PausePlayback = s\<lparr>rp_playing := False\<rparr>"
| "replayControlReducer s TogglePlay = s\<lparr>rp_playing := \<not> rp_playing s\<rparr>"
| "replayControlReducer s (SetSpeed v) =
     s\<lparr>rp_speed := math_min (Fin MAX_SPEED) (math_max (Fin MIN_SPEED) v)\<rparr>"
| "replayControlReducer s ResetReplay = initialReplayControlState"

section \<open>Loading\<close>

definition EVENT_PAGE_LIMIT :: nat where "EVENT_PAGE_LIMIT = 500"

record replay_data =
  rd_incomplete :: bool
  rd_initialState :: graph_state
  rd_events :: "event list"

type_synonym fetch_events = "int \<Rightarrow> string + event_history_response"

fun load_pages :: "nat \<Rightarrow> fetch_events \<Rightarrow> int \<Rightarrow> event list \<Rightarrow> (string + event list) option" where
  "load_pages 0 fetch sinceSeq events = None"
| "load_pages (Suc fuel) fetch sinceSeq events = (case fetch sinceSeq of
      Inl err \<Rightarrow> Some (Inl err)
    | Inr page \<Rightarrow> (case eh_next_seq page of
        None \<Rightarrow> Some (Inr (events @ eh_events page))
      | Some n \<Rightarrow> load_pages fuel fetch n (events @ eh_events page)))"

definition loadReplayData ::
  "nat \<Rightarrow> string + experiment_detail \<Rightarrow> string + snapshot_frame \<Rightarrow> fetch_events \<Rightarrow> (string + replay_data) option" where
  "loadReplayData fuel detailAnswer snapshotAnswer fetch = (case detailAnswer of
      Inl err \<Rightarrow> Some (Inl err)
    | Inr detail \<Rightarrow> (case snapshotAnswer of
        Inl err \<Rightarrow> Some (Inl err)
      | Inr snapshot \<Rightarrow> (case reduce initialGraphState (SnapshotFrame snapshot) of
          Inl err \<Rightarrow> Some (Inl err)
        | Inr initialState \<Rightarrow> (case load_pages fuel fetch (sf_last_seq snapshot) [] of
            None \<Rightarrow> None
          | Some (Inl err) \<Rightarrow> Some (Inl err)
          | Some (Inr events) \<Rightarrow> Some (Inr
              \<lparr>rd_incomplete = (ed_is_complete detail \<noteq> Some True), rd_initialState = initialState,
               rd_events = events\<rparr>)))))"

text \<open>
  The backend's endpoint. The stored rows of a run are keyed by their sequence number (the primary
  key of \<open>experiment_events\<close>), \<open>ORDER BY seq\<close> puts them in order, and a page is the first \<open>limit\<close> of
  them after the cursor, with a cursor to go on from when the page is full.
\<close>

definition event_rows :: "(int, event) jsmap \<Rightarrow> event list" where
  "event_rows table = map (\<lambda>s. (the (map_get table s))\<lparr>e_seq := s\<rparr>) (sorted_list_of_set (set (map_keys table)))"

definition get_experiment_events :: "(int, event) jsmap \<Rightarrow> int \<Rightarrow> nat \<Rightarrow> event_history_response" where
  "get_experiment_events table since_seq limit =
     (let events = take limit (filter (\<lambda>e. since_seq < e_seq e) (event_rows table))
      in \<lparr>eh_events = events, eh_next_seq = (if length events = limit then Some (e_seq (last events)) else None)\<rparr>)"

lemma event_rows_sorted: "sorted_wrt (\<lambda>a b. e_seq a < e_seq b) (event_rows table)"
  using strict_sorted_list_of_set[of "set (map_keys table)"]
  by (simp add: event_rows_def sorted_wrt_map)

text \<open>Past the last element of a prefix of a strictly increasing list comes the rest of it.\<close>

lemma filter_past_prefix:
  fixes f :: "'a \<Rightarrow> int"
  assumes "sorted_wrt (\<lambda>a b. f a < f b) xs" and "take k xs \<noteq> []"
  shows "filter (\<lambda>x. f (last (take k xs)) < f x) xs = drop k xs"
proof -
  let ?ys = "butlast (take k xs)" and ?l = "last (take k xs)" and ?zs = "drop k xs"
  have xs: "xs = ?ys @ ?l # ?zs"
    using assms(2) append_take_drop_id[of k xs] append_butlast_last_id[of "take k xs"]
    by (metis append.assoc append_Cons append_Nil)
  with assms(1) have "sorted_wrt (\<lambda>a b. f a < f b) (?ys @ ?l # ?zs)" by simp
  then have "\<forall>a \<in> set ?ys. f a < f ?l" and "\<forall>b \<in> set ?zs. f ?l < f b"
    by (simp_all only: sorted_wrt_append sorted_wrt.simps) auto
  then have "filter (\<lambda>x. f ?l < f x) (?ys @ ?l # ?zs) = ?zs"
    by (auto simp: filter_empty_conv filter_id_conv not_less dest: less_imp_le)
  then show ?thesis using xs by metis
qed

text \<open>
  What the loader relies on: the log is in sequence order, a page is a prefix of what comes after
  the cursor, all of it when there is no next cursor, and otherwise not empty with the next cursor
  at its last event.
\<close>

locale paged_log =
  fixes fetch :: "int \<Rightarrow> event_history_response"
    and log :: "event list"
  assumes in_order: "sorted_wrt (\<lambda>a b. e_seq a < e_seq b) log"
    and page_prefix: "\<exists>k. eh_events (fetch s) = take k (filter (\<lambda>e. s < e_seq e) log)"
    and page_end: "eh_next_seq (fetch s) = None \<Longrightarrow> eh_events (fetch s) = filter (\<lambda>e. s < e_seq e) log"
    and page_next: "eh_next_seq (fetch s) = Some n \<Longrightarrow> eh_events (fetch s) \<noteq> [] \<and> n = e_seq (last (eh_events (fetch s)))"
begin

lemma after_page:
  assumes "eh_next_seq (fetch s) = Some n"
  shows "filter (\<lambda>e. s < e_seq e) log = eh_events (fetch s) @ filter (\<lambda>e. n < e_seq e) log"
proof -
  let ?rest = "filter (\<lambda>e. s < e_seq e) log"
  obtain k where k: "eh_events (fetch s) = take k ?rest" using page_prefix by blast
  from page_next[OF assms] k have ne: "take k ?rest \<noteq> []" and n: "n = e_seq (last (take k ?rest))" by simp_all
  have "last (take k ?rest) \<in> set ?rest" using ne by (meson in_set_takeD last_in_set)
  then have "s < n" by (simp add: n)
  then have "filter (\<lambda>e. n < e_seq e) log = filter (\<lambda>e. n < e_seq e) ?rest" by (auto intro!: filter_cong)
  also have "\<dots> = drop k ?rest"
    unfolding n by (rule filter_past_prefix[OF sorted_wrt_filter[OF in_order] ne])
  finally show ?thesis by (simp add: k)
qed

lemma load_pages_all:
  "length (filter (\<lambda>e. s < e_seq e) log) < fuel \<Longrightarrow>
     load_pages fuel (\<lambda>s. Inr (fetch s)) s acc = Some (Inr (acc @ filter (\<lambda>e. s < e_seq e) log))"
proof (induction fuel arbitrary: s acc)
  case (Suc fuel)
  show ?case
  proof (cases "eh_next_seq (fetch s)")
    case None
    then show ?thesis by (simp add: page_end)
  next
    case (Some n)
    have "0 < length (eh_events (fetch s))" using page_next[OF Some] by simp
    with Suc.prems have "length (filter (\<lambda>e. n < e_seq e) log) < fuel"
      unfolding after_page[OF Some] length_append by linarith
    from Suc.IH[OF this, of "acc @ eh_events (fetch s)"] show ?thesis
      by (simp add: Some after_page[OF Some])
  qed
qed simp

end

interpretation stored: paged_log "\<lambda>s. get_experiment_events table s EVENT_PAGE_LIMIT" "event_rows table" for table
proof unfold_locales
  fix s
  let ?rest = "filter (\<lambda>e. s < e_seq e) (event_rows table)"
  show "sorted_wrt (\<lambda>a b. e_seq a < e_seq b) (event_rows table)" by (rule event_rows_sorted)
  show "\<exists>k. eh_events (get_experiment_events table s EVENT_PAGE_LIMIT) = take k ?rest"
    by (auto simp: get_experiment_events_def Let_def)
  show "eh_events (get_experiment_events table s EVENT_PAGE_LIMIT) = ?rest"
    if "eh_next_seq (get_experiment_events table s EVENT_PAGE_LIMIT) = None"
    using that by (auto simp: get_experiment_events_def Let_def split: if_splits)
  show "eh_events (get_experiment_events table s EVENT_PAGE_LIMIT) \<noteq> [] \<and>
      n = e_seq (last (eh_events (get_experiment_events table s EVENT_PAGE_LIMIT)))"
    if "eh_next_seq (get_experiment_events table s EVENT_PAGE_LIMIT) = Some n" for n
    using that by (auto simp: get_experiment_events_def Let_def EVENT_PAGE_LIMIT_def split: if_splits)
qed

section \<open>Playing and seeking\<close>

fun foldEvents :: "graph_state \<Rightarrow> event list \<Rightarrow> nat \<Rightarrow> string + graph_state" where
  "foldEvents s events 0 = Inr s"
| "foldEvents s [] (Suc n) = Inl ''Cannot read properties of undefined''"
| "foldEvents s (e # es) (Suc n) = (case reduce s (EventFrame e) of Inl err \<Rightarrow> Inl err | Inr t \<Rightarrow> foldEvents t es n)"

record replay_hook =
  rh_state :: "string + graph_state"
  rh_loading :: bool
  rh_loadedEvents :: nat
  rh_error :: "string option"
  rh_incomplete :: bool
  rh_playedCount :: nat
  rh_totalEvents :: nat
  rh_snapshotState :: graph_state
  rh_events :: "event list"
  rh_playedIndex :: nat

definition initial_replay :: replay_hook where
  "initial_replay = \<lparr>rh_state = Inr initialGraphState, rh_loading = True, rh_loadedEvents = 0, rh_error = None,
     rh_incomplete = False, rh_playedCount = 0, rh_totalEvents = 0, rh_snapshotState = initialGraphState,
     rh_events = [], rh_playedIndex = 0\<rparr>"

definition replay_loaded :: "replay_hook \<Rightarrow> string + replay_data \<Rightarrow> replay_hook" where
  "replay_loaded h answer = (case answer of
      Inl err \<Rightarrow> h\<lparr>rh_error := Some err, rh_loading := False\<rparr>
    | Inr d \<Rightarrow> h\<lparr>rh_snapshotState := rd_initialState d, rh_events := rd_events d, rh_incomplete := rd_incomplete d,
        rh_totalEvents := length (rd_events d), rh_state := Inr (rd_initialState d), rh_loading := False\<rparr>)"

definition replay_interval :: "jsnum \<Rightarrow> jsnum" where
  "replay_interval speed = (case math_min (Fin MAX_SPEED) (math_max (Fin MIN_SPEED) speed) of
      Fin q \<Rightarrow> Fin (250 / q) | _ \<Rightarrow> NaN)"

text \<open>One firing of the interval. A state the reducer threw on stays thrown: the screen is gone.\<close>

definition replay_tick :: "replay_hook \<Rightarrow> replay_hook" where
  "replay_tick h =
     (let idx = rh_playedIndex h
      in if length (rh_events h) \<le> idx then h
         else h\<lparr>rh_state := (case rh_state h of Inl err \<Rightarrow> Inl err
                  | Inr s \<Rightarrow> reduce s (EventFrame (rh_events h ! idx))),
                rh_playedIndex := idx + 1, rh_playedCount := idx + 1\<rparr>)"

definition seek :: "replay_hook \<Rightarrow> int \<Rightarrow> replay_hook" where
  "seek h index =
     (let clamped = nat (max 0 (min index (int (length (rh_events h)))))
      in case foldEvents (rh_snapshotState h) (rh_events h) clamped of
           Inl err \<Rightarrow> h
         | Inr next \<Rightarrow> h\<lparr>rh_playedIndex := clamped, rh_playedCount := clamped, rh_state := Inr next\<rparr>)"

datatype replay_input = Tick | SeekTo int

fun replay_input_step :: "replay_hook \<Rightarrow> replay_input \<Rightarrow> replay_hook" where
  "replay_input_step h Tick = replay_tick h"
| "replay_input_step h (SeekTo i) = seek h i"

section \<open>Lemmas\<close>

lemma foldEvents_take: "n \<le> length es \<Longrightarrow> foldEvents s es n = reduce_all s (map EventFrame (take n es))"
  by (induction s es n rule: foldEvents.induct) (auto split: sum.split)

lemma foldEvents_Suc:
  "n < length es \<Longrightarrow> foldEvents s es (Suc n) =
     (case foldEvents s es n of Inl err \<Rightarrow> Inl err | Inr t \<Rightarrow> reduce t (EventFrame (es ! n)))"
  by (simp add: foldEvents_take take_Suc_conv_app_nth reduce_all_append split: sum.split)

definition replay_inv :: "replay_hook \<Rightarrow> bool" where
  "replay_inv h \<longleftrightarrow> rh_playedIndex h \<le> length (rh_events h) \<and> rh_playedCount h = rh_playedIndex h \<and>
     rh_state h = foldEvents (rh_snapshotState h) (rh_events h) (rh_playedIndex h)"

lemma replay_tick_inv: "replay_inv h \<Longrightarrow> replay_inv (replay_tick h)"
  by (auto simp: replay_inv_def replay_tick_def Let_def foldEvents_Suc split: sum.split)

lemma seek_inv: "replay_inv h \<Longrightarrow> replay_inv (seek h i)"
  by (auto simp: replay_inv_def seek_def Let_def split: sum.split)

lemma replay_inputs_inv: "replay_inv h \<Longrightarrow> replay_inv (foldl replay_input_step h ins)"
proof (induction ins arbitrary: h)
  case (Cons i ins)
  then show ?case by (cases i) (simp_all add: replay_tick_inv seek_inv)
qed simp

lemma replay_data_kept:
  "rh_snapshotState (replay_input_step h i) = rh_snapshotState h" "rh_events (replay_input_step h i) = rh_events h"
  by (cases i; simp add: replay_tick_def seek_def Let_def split: sum.split)+

lemma replay_inputs_kept:
  "rh_snapshotState (foldl replay_input_step h ins) = rh_snapshotState h \<and>
   rh_events (foldl replay_input_step h ins) = rh_events h"
  by (induction ins arbitrary: h) (simp_all add: replay_data_kept)

lemma replay_loaded_inv: "replay_inv (replay_loaded initial_replay answer)"
  by (simp add: replay_inv_def replay_loaded_def initial_replay_def split: sum.split)

section \<open>Properties\<close>

text \<open>C14. Loading ends and misses nothing: against the backend's endpoint, however many pages the log
  takes, the loop returns with every stored event after the snapshot, in sequence order and once
  each, on the state of the snapshot, and the replay counts as incomplete unless the record
  proved otherwise.\<close>

theorem loadReplayData_complete:
  "\<exists>fuel. loadReplayData fuel (Inr detail) (Inr snapshot)
      (\<lambda>s. Inr (get_experiment_events table s EVENT_PAGE_LIMIT)) =
    Some (Inr \<lparr>rd_incomplete = (ed_is_complete detail \<noteq> Some True),
      rd_initialState = reduce_snapshot initialGraphState snapshot,
      rd_events = filter (\<lambda>e. sf_last_seq snapshot < e_seq e) (event_rows table)\<rparr>)"
proof -
  let ?rest = "filter (\<lambda>e. sf_last_seq snapshot < e_seq e) (event_rows table)"
  have "load_pages (Suc (length ?rest)) (\<lambda>s. Inr (get_experiment_events table s EVENT_PAGE_LIMIT))
      (sf_last_seq snapshot) [] = Some (Inr ?rest)"
    using stored.load_pages_all[of "sf_last_seq snapshot" table "Suc (length ?rest)" "[]"] by simp
  then have "loadReplayData (Suc (length ?rest)) (Inr detail) (Inr snapshot)
      (\<lambda>s. Inr (get_experiment_events table s EVENT_PAGE_LIMIT)) =
    Some (Inr \<lparr>rd_incomplete = (ed_is_complete detail \<noteq> Some True),
      rd_initialState = reduce_snapshot initialGraphState snapshot, rd_events = ?rest\<rparr>)"
    by (simp add: loadReplayData_def)
  then show ?thesis by (rule exI)
qed

text \<open>C13. Replay is exact: after any sequence of interval firings and seeks, to any index, the screen
  shows exactly what folding the first \<open>playedCount\<close> events onto the snapshot gives, the same as a
  live client that received them; the index never leaves the log.\<close>

theorem replay_equals_fold:
  "let h = foldl replay_input_step (replay_loaded initial_replay (Inr d)) inputs in
    rh_playedCount h \<le> length (rd_events d) \<and>
    rh_state h = reduce_all (rd_initialState d) (map EventFrame (take (rh_playedCount h) (rd_events d)))"
proof -
  let ?h0 = "replay_loaded initial_replay (Inr d)"
  have inv: "replay_inv (foldl replay_input_step ?h0 inputs)"
    by (rule replay_inputs_inv[OF replay_loaded_inv])
  have "rh_snapshotState ?h0 = rd_initialState d" "rh_events ?h0 = rd_events d"
    by (simp_all add: replay_loaded_def)
  with replay_inputs_kept[of ?h0 inputs] inv show ?thesis
    unfolding Let_def by (auto simp: replay_inv_def foldEvents_take)
qed

definition speed_given :: "replay_control_action \<Rightarrow> bool" where
  "speed_given a \<longleftrightarrow> a \<noteq> SetSpeed NaN"

lemma speed_in_range:
  "list_all speed_given as \<Longrightarrow> \<exists>q. rp_speed s = Fin q \<and> MIN_SPEED \<le> q \<and> q \<le> MAX_SPEED \<Longrightarrow>
     \<exists>q. rp_speed (foldl replayControlReducer s as) = Fin q \<and> MIN_SPEED \<le> q \<and> q \<le> MAX_SPEED"
proof (induction as arbitrary: s)
  case (Cons a as)
  have le: "MIN_SPEED \<le> MAX_SPEED" by (simp add: MIN_SPEED_def MAX_SPEED_def)
  have "\<exists>q. rp_speed (replayControlReducer s a) = Fin q \<and> MIN_SPEED \<le> q \<and> q \<le> MAX_SPEED"
  proof (cases a)
    case (SetSpeed v)
    with Cons.prems(1) have "v \<noteq> NaN" by (simp add: speed_given_def)
    with math_clamp_finite[OF this, of MAX_SPEED MIN_SPEED] math_clamp_range[OF le this] SetSpeed
    show ?thesis by auto
  qed (use Cons.prems(2) in \<open>auto simp: initialReplayControlState_def MIN_SPEED_def MAX_SPEED_def\<close>)
  with Cons show ?case by simp
qed simp

text \<open>Whatever speeds are set, short of \<open>NaN\<close>, the speed stays between a quarter and eight, and the
  interval between 31.25 and 1000 ms.\<close>

theorem replay_speed_bounded:
  assumes "list_all speed_given as"
  shows "\<exists>q i. rp_speed (foldl replayControlReducer initialReplayControlState as) = Fin q \<and>
    1/4 \<le> q \<and> q \<le> 8 \<and> replay_interval (Fin q) = Fin i \<and> 125/4 \<le> i \<and> i \<le> 1000"
proof -
  obtain q where q: "rp_speed (foldl replayControlReducer initialReplayControlState as) = Fin q"
    and r: "1/4 \<le> q" "q \<le> 8"
    using speed_in_range[OF assms, of initialReplayControlState]
    by (auto simp: initialReplayControlState_def MIN_SPEED_def MAX_SPEED_def)
  have "math_min (Fin MAX_SPEED) (math_max (Fin MIN_SPEED) (Fin q)) = Fin q"
    by (rule math_clamp_id) (use r in \<open>simp_all add: MIN_SPEED_def MAX_SPEED_def\<close>)
  then have "replay_interval (Fin q) = Fin (250 / q)" by (simp add: replay_interval_def)
  moreover have "125/4 \<le> 250 / q" "250 / q \<le> 1000" using r by (simp_all add: field_simps)
  ultimately show ?thesis using q r by blast
qed

theorem replay_speed_bounded_witness:
  "\<exists>q. rp_speed (foldl replayControlReducer initialReplayControlState [SetSpeed PosInf, Play]) = Fin q \<and> q \<le> 8"
  using replay_speed_bounded[of "[SetSpeed PosInf, Play]"] by (auto simp: speed_given_def)

end
