(* ===== verification/Client_Routes.thy ===== *)
theory Client_Routes
  imports Client
begin

text \<open>
  The route table of the backend (the decorators of \<open>backend/app/api/*.py\<close> in the order
  \<open>backend/app/main.py\<close> includes them), against which the two clients are checked. The theorems follow
  a request from the function that makes it to the handler it reaches, with the query and the body
  that handler gets.
\<close>

section \<open>The routes of the backend\<close>

text \<open>A route is the name of its handler, its method and its path, segment by segment. A request goes to
  the first route in order of inclusion whose method and path match; a parameter matches one segment
  that is not empty.\<close>

datatype path_part = Lit string | Param

type_synonym route = "string \<times> http_method \<times> path_part list"

definition experiment_routes :: "route list" where
  "experiment_routes = [
    (''create_experiment'', POST, [Lit ''api'', Lit ''experiments'']),
    (''get_experiment'', GET, [Lit ''api'', Lit ''experiments'', Param]),
    (''stop_experiment'', POST, [Lit ''api'', Lit ''experiments'', Param, Lit ''stop'']),
    (''pause_experiment'', POST, [Lit ''api'', Lit ''experiments'', Param, Lit ''pause'']),
    (''resume_experiment'', POST, [Lit ''api'', Lit ''experiments'', Param, Lit ''resume'']),
    (''set_experiment_speed'', POST, [Lit ''api'', Lit ''experiments'', Param, Lit ''speed''])]"

definition graph_routes :: "route list" where
  "graph_routes = [
    (''get_security_graph'', GET, [Lit ''api'', Lit ''experiments'', Param, Lit ''graph'']),
    (''get_attack_paths'', GET, [Lit ''api'', Lit ''experiments'', Param, Lit ''analysis'', Lit ''attack-paths'']),
    (''get_blast_radius'', GET, [Lit ''api'', Lit ''experiments'', Param, Lit ''analysis'', Lit ''blast-radius'']),
    (''get_critical_nodes'', GET, [Lit ''api'', Lit ''experiments'', Param, Lit ''analysis'', Lit ''critical-nodes'']),
    (''get_provenance'', GET, [Lit ''api'', Lit ''experiments'', Param, Lit ''analysis'', Lit ''provenance'']),
    (''get_metrics'', GET, [Lit ''api'', Lit ''experiments'', Param, Lit ''metrics'']),
    (''get_remediation'', GET, [Lit ''api'', Lit ''experiments'', Param, Lit ''remediation''])]"

definition history_routes :: "route list" where
  "history_routes = [
    (''list_experiments'', GET, [Lit ''api'', Lit ''experiments'']),
    (''get_experiment_detail'', GET, [Lit ''api'', Lit ''experiments'', Param, Lit ''detail'']),
    (''get_experiment_events'', GET, [Lit ''api'', Lit ''experiments'', Param, Lit ''events'']),
    (''get_experiment_incidents'', GET, [Lit ''api'', Lit ''experiments'', Param, Lit ''incidents'']),
    (''get_replay_snapshot'', GET, [Lit ''api'', Lit ''experiments'', Param, Lit ''replay-snapshot'']),
    (''get_replay_graph'', GET, [Lit ''api'', Lit ''experiments'', Param, Lit ''replay'', Lit ''graph'']),
    (''get_replay_attack_paths'', GET, [Lit ''api'', Lit ''experiments'', Param, Lit ''replay'', Lit ''analysis'', Lit ''attack-paths'']),
    (''get_replay_blast_radius'', GET, [Lit ''api'', Lit ''experiments'', Param, Lit ''replay'', Lit ''analysis'', Lit ''blast-radius'']),
    (''get_replay_critical_nodes'', GET, [Lit ''api'', Lit ''experiments'', Param, Lit ''replay'', Lit ''analysis'', Lit ''critical-nodes'']),
    (''get_replay_provenance'', GET, [Lit ''api'', Lit ''experiments'', Param, Lit ''replay'', Lit ''analysis'', Lit ''provenance'']),
    (''get_replay_metrics'', GET, [Lit ''api'', Lit ''experiments'', Param, Lit ''replay'', Lit ''metrics'']),
    (''get_replay_remediation'', GET, [Lit ''api'', Lit ''experiments'', Param, Lit ''replay'', Lit ''remediation''])]"

definition runtime_routes :: "route list" where
  "runtime_routes = [
    (''create_session'', POST, [Lit ''api'', Lit ''runtime'', Lit ''sessions'']),
    (''reset_sessions'', DELETE, [Lit ''api'', Lit ''runtime'', Lit ''sessions'']),
    (''get_current_session'', GET, [Lit ''api'', Lit ''runtime'', Lit ''sessions'', Lit ''current'']),
    (''get_session'', GET, [Lit ''api'', Lit ''runtime'', Lit ''sessions'', Param]),
    (''get_session_events'', GET, [Lit ''api'', Lit ''runtime'', Lit ''sessions'', Param, Lit ''events'']),
    (''get_session_snapshot'', GET, [Lit ''api'', Lit ''runtime'', Lit ''sessions'', Param, Lit ''snapshot'']),
    (''register_worker'', POST, [Lit ''api'', Lit ''runtime'', Lit ''sessions'', Param, Lit ''workers'']),
    (''request_resource'', POST, [Lit ''api'', Lit ''runtime'', Lit ''sessions'', Param, Lit ''resource-request'']),
    (''record_model_call'', POST, [Lit ''api'', Lit ''runtime'', Lit ''sessions'', Param, Lit ''model-call'']),
    (''start_task'', POST, [Lit ''api'', Lit ''runtime'', Lit ''sessions'', Param, Lit ''tasks'', Lit ''start'']),
    (''complete_task'', POST, [Lit ''api'', Lit ''runtime'', Lit ''sessions'', Param, Lit ''tasks'', Lit ''complete'']),
    (''record_artifact'', POST, [Lit ''api'', Lit ''runtime'', Lit ''sessions'', Param, Lit ''artifacts'']),
    (''reassign'', POST, [Lit ''api'', Lit ''runtime'', Lit ''sessions'', Param, Lit ''reassign'']),
    (''record_test_run'', POST, [Lit ''api'', Lit ''runtime'', Lit ''sessions'', Param, Lit ''test-run'']),
    (''recover'', POST, [Lit ''api'', Lit ''runtime'', Lit ''sessions'', Param, Lit ''recover'']),
    (''fail'', POST, [Lit ''api'', Lit ''runtime'', Lit ''sessions'', Param, Lit ''fail'']),
    (''get_explanation'', GET, [Lit ''api'', Lit ''runtime'', Lit ''sessions'', Param, Lit ''explanation''])]"

definition other_routes :: "route list" where
  "other_routes = [
    (''get_stream_frame_schema'', GET, [Lit ''api'', Lit ''schema'', Lit ''events'']),
    (''get_otel_trace'', GET, [Lit ''api'', Lit ''experiments'', Param, Lit ''otel-trace'']),
    (''health'', GET, [Lit ''health''])]"

definition backend_routes :: "route list" where
  "backend_routes = experiment_routes @ graph_routes @ history_routes @ runtime_routes @ other_routes"

fun segments :: "string \<Rightarrow> string list" where
  "segments [] = [[]]"
| "segments (c # s) = (if c = CHR ''/'' then [] # segments s
     else (case segments s of [] \<Rightarrow> [[c]] | p # ps \<Rightarrow> (c # p) # ps))"

fun match_path :: "path_part list \<Rightarrow> string list \<Rightarrow> string list option" where
  "match_path [] [] = Some []"
| "match_path (Lit l # ps) (s # ss) = (if l = s then match_path ps ss else None)"
| "match_path (Param # ps) (s # ss) = (if s = [] then None else map_option ((#) s) (match_path ps ss))"
| "match_path _ _ = None"

fun dispatch :: "route list \<Rightarrow> http_method \<Rightarrow> string list \<Rightarrow> (string \<times> string list) option" where
  "dispatch [] m path = None"
| "dispatch ((h, m', pat) # rs) m path =
     (case (if m = m' then match_path pat path else None) of
        Some args \<Rightarrow> Some (h, args)
      | None \<Rightarrow> dispatch rs m path)"

text \<open>A backend at an address that answers by its handlers. A path only other methods match is 405, and a
  path no route matches is 404.\<close>

type_synonym handlers = "string \<Rightarrow> string list \<Rightarrow> (string, string) jsmap \<Rightarrow> json option \<Rightarrow> fetch_result"

definition path_known :: "string list \<Rightarrow> bool" where
  "path_known path = list_ex (\<lambda>(h, m, pat). match_path pat path \<noteq> None) backend_routes"

definition serve :: "handlers \<Rightarrow> string \<Rightarrow> http_request \<Rightarrow> fetch_result" where
  "serve handle base rq = (case tl (segments (drop (length base) (rq_url rq))) of path \<Rightarrow>
     (case dispatch backend_routes (rq_method rq) path of
        Some (h, args) \<Rightarrow> handle h args (rq_query rq) (rq_body rq)
      | None \<Rightarrow> Responded (if path_known path then 405 else 404) (Inr JNull)))"
section \<open>Which handler a call reaches\<close>

text \<open>An id as the backend makes them: one segment of a path.\<close>

definition id_segment :: "string \<Rightarrow> bool" where
  "id_segment s \<longleftrightarrow> s \<noteq> [] \<and> CHR ''/'' \<notin> set s"

lemma segments_id [simp]: "id_segment a \<Longrightarrow> segments (a @ CHR ''/'' # s) = a # segments s"
proof -
  have "CHR ''/'' \<notin> set a \<Longrightarrow> segments (a @ CHR ''/'' # s) = a # segments s" by (induction a) auto
  then show "id_segment a \<Longrightarrow> ?thesis" by (simp add: id_segment_def)
qed

lemma segments_last [simp]: "id_segment a \<Longrightarrow> segments a = [a]"
proof -
  have "CHR ''/'' \<notin> set a \<Longrightarrow> a \<noteq> [] \<Longrightarrow> segments a = [a]"
  proof (induction a)
    case (Cons c a)
    then show ?case by (cases a) auto
  qed simp
  then show "id_segment a \<Longrightarrow> ?thesis" by (simp add: id_segment_def)
qed

lemma id_segment_nonempty [simp]: "id_segment a \<Longrightarrow> a \<noteq> []"
  by (simp add: id_segment_def)

lemmas route_tables = backend_routes_def experiment_routes_def graph_routes_def history_routes_def
  runtime_routes_def other_routes_def

text \<open>Which of the tables' rows a request matches, with its id left symbolic.\<close>

definition served_by :: "handlers \<Rightarrow> string \<Rightarrow> string \<Rightarrow> backend" where
  "served_by handle base ws = \<lparr>be_url = base, be_ws_url = ws, be_fetch = serve handle base\<rparr>"

lemmas client_call_defs = served_by_def experiment_url_def experiments_url_def sessions_url_def
  request_defs serve_def route_tables postControl_def fetchEventPage_def non_empty_def

text \<open>Every call of the experiment client reaches the handler it is meant for, with the run's id, the query
  and the body that handler expects, and fails with its own message.\<close>

theorem experiment_client_routed:
  assumes "id_segment i" and "B = served_by handle base ws"
  shows "createExperiment B cfg = ok_json ''create experiment'' (handle ''create_experiment'' [] [] (Some (JObj cfg))) \<and>
     getExperiment B i = ok_json ''get experiment'' (handle ''get_experiment'' [i] [] None) \<and>
     stopExperiment B i = ok_json ''stop experiment'' (handle ''stop_experiment'' [i] [] None) \<and>
     pauseExperiment B i = ok_json ''pause experiment'' (handle ''pause_experiment'' [i] [] None) \<and>
     resumeExperiment B i = ok_json ''resume experiment'' (handle ''resume_experiment'' [i] [] None) \<and>
     setSpeed B i v = ok_json ''set speed'' (handle ''set_experiment_speed'' [i] [] (Some (JObj [(''multiplier'', JNum v)]))) \<and>
     getExperimentDetail B i = ok_json ''get experiment detail'' (handle ''get_experiment_detail'' [i] [] None) \<and>
     fetchEventHistory B i n (Some k) = ok_json ''fetch events'' (handle ''get_experiment_events'' [i] [(''since_seq'', show_int n), (''limit'', show_int k)] None) \<and>
     fetchIncidents B i n (Some k) = ok_json ''fetch incidents'' (handle ''get_experiment_incidents'' [i] [(''since_seq'', show_int n), (''limit'', show_int k)] None) \<and>
     fetchReplaySnapshot B i = ok_json ''fetch replay snapshot'' (handle ''get_replay_snapshot'' [i] [] None) \<and>
     listExperiments B \<lparr>lp_status = None, lp_defenseEnabled = Some d, lp_limit = Some k, lp_cursor = Some cur\<rparr> = ok_json ''list experiments'' (handle ''list_experiments'' [] ([(''defense_enabled'', show_bool d), (''limit'', show_int k)] @ (if cur = [] then [] else [(''cursor'', cur)])) None)"
  using assms
  by (intro conjI; simp add: createExperiment_def fetchEventHistory_def fetchIncidents_def fetchReplaySnapshot_def getExperimentDetail_def getExperiment_def listExperiments_def pauseExperiment_def resumeExperiment_def setSpeed_def stopExperiment_def client_call_defs)

theorem experiment_client_routed_witness:
  "stopExperiment (served_by (\<lambda>h args q b. if h = ''stop_experiment'' \<and> args = [''5f''] then Responded 200 (Inr JNull)
     else Responded 500 (Inr JNull)) ''http://localhost:8000'' ''ws://localhost:8000'') ''5f'' = Inr JNull"
  using experiment_client_routed[of "''5f''" _ "\<lambda>h args q b. if h = ''stop_experiment'' \<and> args = [''5f'']
     then Responded 200 (Inr JNull) else Responded 500 (Inr JNull)" "''http://localhost:8000''" "''ws://localhost:8000''", OF _ refl]
  by (simp add: id_segment_def ok_json_def res_ok_def)

text \<open>The analysis of a live run and that of a stored one go to two different handlers with the same
  arguments.\<close>

theorem analysis_client_routed:
  assumes "id_segment i" and "B = served_by handle base ws"
  shows "getSecurityGraph B i = ok_json ''get security graph'' (handle ''get_security_graph'' [i] [] None) \<and>
     getAttackPaths B i a b = ok_json ''get attack paths'' (handle ''get_attack_paths'' [i] [(''source'', a), (''target'', b)] None) \<and>
     getBlastRadius B i = ok_json ''get blast radius'' (handle ''get_blast_radius'' [i] [] None) \<and>
     getCriticalNodes B i (Some k) = ok_json ''get critical nodes'' (handle ''get_critical_nodes'' [i] [(''top_n'', show_int k)] None) \<and>
     getProvenance B i a = ok_json ''get provenance'' (handle ''get_provenance'' [i] [(''node_id'', a)] None) \<and>
     getMetrics B i = ok_json ''get metrics'' (handle ''get_metrics'' [i] [] None) \<and>
     getRemediation B i = ok_json ''get remediation'' (handle ''get_remediation'' [i] [] None) \<and>
     getReplaySecurityGraph B i = ok_json ''get replay security graph'' (handle ''get_replay_graph'' [i] [] None) \<and>
     getReplayAttackPaths B i a b = ok_json ''get replay attack paths'' (handle ''get_replay_attack_paths'' [i] [(''source'', a), (''target'', b)] None) \<and>
     getReplayBlastRadius B i = ok_json ''get replay blast radius'' (handle ''get_replay_blast_radius'' [i] [] None) \<and>
     getReplayCriticalNodes B i (Some k) = ok_json ''get replay critical nodes'' (handle ''get_replay_critical_nodes'' [i] [(''top_n'', show_int k)] None) \<and>
     getReplayProvenance B i a = ok_json ''get replay provenance'' (handle ''get_replay_provenance'' [i] [(''node_id'', a)] None) \<and>
     getReplayMetrics B i = ok_json ''get replay metrics'' (handle ''get_replay_metrics'' [i] [] None) \<and>
     getReplayRemediation B i = ok_json ''get replay remediation'' (handle ''get_replay_remediation'' [i] [] None)"
  using assms
  by (intro conjI; simp add: getAttackPaths_def getBlastRadius_def getCriticalNodes_def getMetrics_def getProvenance_def getRemediation_def getReplayAttackPaths_def getReplayBlastRadius_def getReplayCriticalNodes_def getReplayMetrics_def getReplayProvenance_def getReplayRemediation_def getReplaySecurityGraph_def getSecurityGraph_def client_call_defs)

theorem analysis_client_routed_witness:
  "getReplayMetrics (served_by (\<lambda>h args q b. Responded 200 (Inr (JStr h))) ''http://h'' ''ws://h'') ''5f'' = Inr (JStr ''get_replay_metrics'')"
  using analysis_client_routed[of "''5f''" _ "\<lambda>h args q b. Responded 200 (Inr (JStr h))" "''http://h''" "''ws://h''", OF _ refl]
  by (simp add: id_segment_def ok_json_def res_ok_def)

text \<open>Every call of the runtime client reaches the handler it is meant for; only the id \<open>current\<close> would be
  taken for another resource.\<close>

theorem runtime_client_routed:
  assumes "id_segment i" and "B = served_by handle base ws"
  shows "getCurrentRuntimeSession B = session_json ''get the live runtime session'' (handle ''get_current_session'' [] [] None) \<and>
     getRuntimeSnapshot B i = session_json ''get the runtime snapshot'' (handle ''get_session_snapshot'' [i] [] None) \<and>
     getRuntimeEvents B i n = session_json ''get runtime events'' (handle ''get_session_events'' [i] [(''since_seq'', show_int (or_default n (- 1)))] None) \<and>
     getRuntimeExplanation B i = ok_json ''get the incident explanation'' (handle ''get_explanation'' [i] [] None) \<and>
     resetRuntimeSessions B = ok_json ''reset the demo'' (handle ''reset_sessions'' [] [] None) \<and>
     getRuntimeSession B i = session_json ''get runtime session''
       (if i = ''current'' then handle ''get_current_session'' [] [] None else handle ''get_session'' [i] [] None)"
  using assms
  by (intro conjI; simp add: getCurrentRuntimeSession_def getRuntimeEvents_def getRuntimeExplanation_def getRuntimeSession_def getRuntimeSnapshot_def resetRuntimeSessions_def client_call_defs or_default_conv)

theorem runtime_client_routed_witness:
  "getRuntimeSession (served_by (\<lambda>h args q b. Responded 404 (Inr JNull)) ''http://h'' ''ws://h'') ''5f'' = Inl NoLiveSessionError"
  using runtime_client_routed[of "''5f''" _ "\<lambda>h args q b. Responded 404 (Inr JNull)" "''http://h''" "''ws://h''", OF _ refl]
  by (simp add: id_segment_def session_json_def)

end
