(* ===== verification/Security_Summary.thy ===== *)
theory Security_Summary
  imports Vocabulary
begin

text \<open>
  \<open>frontend/src/lib/security/summary.ts\<close>: what the insight panels derive from a security graph. Two
  of the functions accumulate a \<open>Map\<close> or an object keyed by a property of the nodes; the locale
  \<open>grouping\<close> states once what such an accumulator holds. \<open>localeCompare\<close> is an argument: the order
  of the summary is only claimed for one that orders consistently.
\<close>

section \<open>Accumulating by key\<close>

locale grouping =
  fixes step :: "('k, 'v) jsmap \<Rightarrow> 'e \<Rightarrow> ('k, 'v) jsmap"
    and key :: "'e \<Rightarrow> 'k option"
    and start :: 'v
    and upd :: "'e \<Rightarrow> 'v \<Rightarrow> 'v"
  assumes group_step: "step m e =
    (case key e of None \<Rightarrow> m | Some k \<Rightarrow> map_set m k (upd e (or_default (map_get m k) start)))"
begin

definition group_of :: "'k \<Rightarrow> 'e list \<Rightarrow> 'e list" where
  "group_of k es = filter (\<lambda>e. key e = Some k) es"

lemma group_get:
  "map_get (foldl step m es) k =
     (if group_of k es = [] then map_get m k
      else Some (foldl (\<lambda>v e. upd e v) (or_default (map_get m k) start) (group_of k es)))"
proof (induction es arbitrary: m)
  case Nil
  show ?case by (simp add: group_of_def)
next
  case (Cons e es)
  show ?case
  proof (cases "key e = Some k")
    case True
    then have "map_get (step m e) k = Some (upd e (or_default (map_get m k) start))"
      by (simp add: group_step)
    with True Cons.IH[of "step m e"] show ?thesis by (simp add: group_of_def)
  next
    case False
    then have "map_get (step m e) k = map_get m k" by (auto simp: group_step split: option.splits)
    with False Cons.IH[of "step m e"] show ?thesis by (simp add: group_of_def)
  qed
qed

lemma group_keys_distinct: "distinct (map_keys m) \<Longrightarrow> distinct (map_keys (foldl step m es))"
  by (induction es arbitrary: m) (auto simp: group_step map_keys_set split: option.splits)

lemma group_keys: "set (map_keys (foldl step [] es)) = {k. \<exists>e \<in> set es. key e = Some k}"
proof -
  have "k \<in> set (map_keys (foldl step [] es)) \<longleftrightarrow> group_of k es \<noteq> []" for k
    unfolding map_has_iff[symmetric] map_has_def group_get by simp
  then show ?thesis by (auto simp: group_of_def filter_empty_conv)
qed

end

text \<open>Counting the elements of a list that satisfy a predicate.\<close>

definition count_of :: "('a \<Rightarrow> bool) \<Rightarrow> 'a list \<Rightarrow> int" where
  "count_of P xs = int (length (filter P xs))"

lemma count_of_simps [simp]:
  "count_of P [] = 0" "count_of P (x # xs) = (if P x then 1 else 0) + count_of P xs"
  by (simp_all add: count_of_def)

lemma foldl_count: "foldl (\<lambda>n e. n + 1) (n :: int) xs = n + int (length xs)"
  by (induction xs arbitrary: n) auto

section \<open>The summary of the nodes that are not agents\<close>

record type_count =
  tc_total :: int
  tc_compromised :: int

record non_agent_summary =
  na_nodeType :: string
  na_total :: int
  na_compromised :: int

definition no_count :: type_count where
  "no_count = \<lparr>tc_total = 0, tc_compromised = 0\<rparr>"

definition count_node :: "graph_node_view \<Rightarrow> type_count \<Rightarrow> type_count" where
  "count_node node c = \<lparr>tc_total = tc_total c + 1,
     tc_compromised = (if gn_security_state node = Compromised then tc_compromised c + 1 else tc_compromised c)\<rparr>"

definition count_non_agent :: "(string, type_count) jsmap \<Rightarrow> graph_node_view \<Rightarrow> (string, type_count) jsmap" where
  "count_non_agent counts node = (if gn_node_type node = ''agent'' then counts
     else map_set counts (gn_node_type node)
            (count_node node (or_default (map_get counts (gn_node_type node)) no_count)))"

definition summary_row :: "string \<times> type_count \<Rightarrow> non_agent_summary" where
  "summary_row entry = \<lparr>na_nodeType = fst entry, na_total = tc_total (snd entry), na_compromised = tc_compromised (snd entry)\<rparr>"

definition summarizeNonAgentNodes :: "(string \<Rightarrow> string \<Rightarrow> int) \<Rightarrow> security_graph_view \<Rightarrow> non_agent_summary list" where
  "summarizeNonAgentNodes localeCompare graph =
     sort_by (\<lambda>a b. localeCompare (na_nodeType a) (na_nodeType b))
       (map summary_row (foldl count_non_agent [] (sg_nodes graph)))"

definition non_agent_type :: "graph_node_view \<Rightarrow> string option" where
  "non_agent_type node = (if gn_node_type node = ''agent'' then None else Some (gn_node_type node))"

interpretation by_type: grouping count_non_agent non_agent_type no_count count_node
  by unfold_locales (simp add: count_non_agent_def non_agent_type_def)

lemma count_nodes: "foldl (\<lambda>c node. count_node node c) c nodes =
  \<lparr>tc_total = tc_total c + int (length nodes),
   tc_compromised = tc_compromised c + count_of (\<lambda>n. gn_security_state n = Compromised) nodes\<rparr>"
  by (induction nodes arbitrary: c) (auto simp: count_node_def)

lemma group_counts:
  assumes "(t, c) \<in> set (foldl count_non_agent [] nodes)"
  shows "c = \<lparr>tc_total = count_of (\<lambda>n. gn_node_type n = t) nodes,
    tc_compromised = count_of (\<lambda>n. gn_node_type n = t \<and> gn_security_state n = Compromised) nodes\<rparr> \<and> t \<noteq> ''agent''"
proof -
  let ?m = "foldl count_non_agent [] nodes"
  have "distinct (map_keys ?m)" by (rule by_type.group_keys_distinct) simp
  with assms have get: "map_get ?m t = Some c" by simp
  then have c: "c = foldl (\<lambda>v e. count_node e v) no_count (by_type.group_of t nodes)"
    and ne: "by_type.group_of t nodes \<noteq> []"
    by (auto simp: by_type.group_get split: if_splits)
  from ne have t: "t \<noteq> ''agent''" by (auto simp: by_type.group_of_def filter_empty_conv non_agent_type_def split: if_splits)
  then have "by_type.group_of t nodes = filter (\<lambda>n. gn_node_type n = t) nodes"
    by (auto simp: by_type.group_of_def non_agent_type_def intro: filter_cong)
  with c t show ?thesis by (simp add: count_nodes count_of_def no_count_def conj_commute)
qed

lemma sorted_by_total:
  assumes "\<And>a b. cmp a b \<le> 0 \<or> cmp b a \<le> 0" and "\<And>a b c. cmp a b \<le> 0 \<Longrightarrow> cmp b c \<le> 0 \<Longrightarrow> cmp a c \<le> 0"
  shows "sorted_wrt (\<lambda>a b. cmp a b \<le> 0) (sort_by cmp xs)"
  using comparator_on.sort_by_sorted[of UNIV cmp xs] assms by (simp add: comparator_on_def)

text \<open>The summary has one row per node type other than agent that occurs, with the number of nodes of
  the type and the number of compromised ones, in the order of \<open>localeCompare\<close> when that is
  consistent.\<close>

theorem summarizeNonAgentNodes_counts:
  assumes "\<And>a b. localeCompare a b \<le> 0 \<or> localeCompare b a \<le> 0"
    and "\<And>a b c. localeCompare a b \<le> 0 \<Longrightarrow> localeCompare b c \<le> 0 \<Longrightarrow> localeCompare a c \<le> 0"
  shows "let rows = summarizeNonAgentNodes localeCompare graph; nodes = sg_nodes graph in
    distinct (map na_nodeType rows) \<and>
    set (map na_nodeType rows) = gn_node_type ` {n \<in> set nodes. gn_node_type n \<noteq> ''agent''} \<and>
    (\<forall>r \<in> set rows. na_total r = count_of (\<lambda>n. gn_node_type n = na_nodeType r) nodes \<and>
       na_compromised r = count_of (\<lambda>n. gn_node_type n = na_nodeType r \<and> gn_security_state n = Compromised) nodes) \<and>
    sorted_wrt (\<lambda>a b. localeCompare (na_nodeType a) (na_nodeType b) \<le> 0) rows"
proof -
  let ?nodes = "sg_nodes graph" and ?m = "foldl count_non_agent [] (sg_nodes graph)"
  let ?cmp = "\<lambda>a b. localeCompare (na_nodeType a) (na_nodeType b)"
  let ?rows = "summarizeNonAgentNodes localeCompare graph"
  have rows: "?rows = sort_by ?cmp (map summary_row ?m)" by (simp add: summarizeNonAgentNodes_def)
  have names: "map na_nodeType (map summary_row ?m) = map_keys ?m" by (simp add: summary_row_def comp_def)
  have "mset (map na_nodeType ?rows) = mset (map_keys ?m)"
    unfolding rows mset_map mset_sort_by names[symmetric] ..
  then have "distinct (map na_nodeType ?rows)" "set (map na_nodeType ?rows) = set (map_keys ?m)"
    using by_type.group_keys_distinct[of "[]" ?nodes] mset_eq_imp_distinct_iff mset_eq_setD by fastforce+
  moreover have "set (map_keys ?m) = gn_node_type ` {n \<in> set ?nodes. gn_node_type n \<noteq> ''agent''}"
    unfolding by_type.group_keys by (auto simp: non_agent_type_def split: if_splits)
  moreover have "\<forall>r \<in> set ?rows. na_total r = count_of (\<lambda>n. gn_node_type n = na_nodeType r) ?nodes \<and>
      na_compromised r = count_of (\<lambda>n. gn_node_type n = na_nodeType r \<and> gn_security_state n = Compromised) ?nodes"
    using group_counts by (fastforce simp: rows summary_row_def)
  moreover have "sorted_wrt (\<lambda>a b. ?cmp a b \<le> 0) ?rows"
    unfolding rows using assms by (intro sorted_by_total) blast+
  ultimately show ?thesis
    unfolding Let_def by simp
qed

theorem summarizeNonAgentNodes_counts_witness:
  "map na_nodeType (summarizeNonAgentNodes (\<lambda>a b. if a \<le> b then - 1 else 1)
     \<lparr>sg_nodes = [\<lparr>gn_id = ''t1'', gn_node_type = ''tool'', gn_security_state = Compromised, gn_attrs = []\<rparr>], sg_edges = []\<rparr>)
   = [''tool'']"
  using summarizeNonAgentNodes_counts[of "\<lambda>a b. if a \<le> b then - 1 else 1"
    "\<lparr>sg_nodes = [\<lparr>gn_id = ''t1'', gn_node_type = ''tool'', gn_security_state = Compromised, gn_attrs = []\<rparr>], sg_edges = []\<rparr>"]
  by (auto split: if_splits simp: summarizeNonAgentNodes_def sort_by_def count_non_agent_def summary_row_def)

section \<open>Histogram, worst state and exposed assets\<close>

definition tally_node :: "string option \<Rightarrow> (security_state, int) jsmap \<Rightarrow> graph_node_view \<Rightarrow> (security_state, int) jsmap" where
  "tally_node nodeType tally node =
     (if truthy nodeType \<and> Some (gn_node_type node) \<noteq> nodeType then tally
      else map_set tally (gn_security_state node) (or_default (map_get tally (gn_security_state node)) 0 + 1))"

definition tallySecurityStates :: "security_graph_view \<Rightarrow> string option \<Rightarrow> (security_state, int) jsmap" where
  "tallySecurityStates graph nodeType = foldl (tally_node nodeType) [] (sg_nodes graph)"

definition tallied_state :: "string option \<Rightarrow> graph_node_view \<Rightarrow> security_state option" where
  "tallied_state nodeType node =
     (if truthy nodeType \<and> Some (gn_node_type node) \<noteq> nodeType then None else Some (gn_security_state node))"

interpretation by_state: grouping "tally_node nodeType" "tallied_state nodeType" 0 "\<lambda>node n. n + 1" for nodeType
  by unfold_locales (simp add: tally_node_def tallied_state_def)

text \<open>The keys of \<open>SECURITY_STATE_SEVERITY\<close>. A name that is not one of them reads \<open>undefined\<close>, or a
  member of \<open>Object.prototype\<close>, which \<open>order.indexOf\<close> does not find either.\<close>

definition state_names :: "(string \<times> security_state) list" where
  "state_names = [(''healthy'', Healthy), (''suspicious'', Suspicious), (''compromised'', Compromised),
     (''quarantined'', Quarantined), (''recovered'', Recovered)]"

definition worse :: "severity \<Rightarrow> string \<Rightarrow> severity" where
  "worse worst state = (case map_of state_names state of
      None \<Rightarrow> worst
    | Some st \<Rightarrow> if severity_rank (SECURITY_STATE_SEVERITY st) > severity_rank worst
                 then SECURITY_STATE_SEVERITY st else worst)"

definition worstSeverity :: "string list \<Rightarrow> severity" where
  "worstSeverity states = foldl worse SevNeutral states"

record exposed_asset =
  xa_id :: string
  xa_nodeType :: string
  xa_securityState :: security_state

definition exposedAssets :: "security_graph_view \<Rightarrow> string list \<Rightarrow> exposed_asset list" where
  "exposedAssets graph reachable = map (\<lambda>n. \<lparr>xa_id = gn_id n, xa_nodeType = gn_node_type n, xa_securityState = gn_security_state n\<rparr>)
     (filter (\<lambda>n. (gn_node_type n = ''credential'' \<or> gn_node_type n = ''resource'') \<and> gn_id n \<in> set reachable) (sg_nodes graph))"

definition histogram_nodes :: "string option \<Rightarrow> security_graph_view \<Rightarrow> graph_node_view list" where
  "histogram_nodes nodeType graph = filter (\<lambda>n. truthy nodeType \<longrightarrow> Some (gn_node_type n) = nodeType) (sg_nodes graph)"

text \<open>The histogram has an entry for exactly the states that occur among the nodes of the type, with
  their number; without a type, or with an empty one, it counts every node.\<close>

theorem tallySecurityStates_counts:
  "map_get (tallySecurityStates graph nodeType) st =
     (let k = count_of (\<lambda>n. gn_security_state n = st) (histogram_nodes nodeType graph)
      in if k = 0 then None else Some k)"
proof -
  have "by_state.group_of nodeType st (sg_nodes graph) = filter (\<lambda>n. gn_security_state n = st) (histogram_nodes nodeType graph)"
    by (auto simp: by_state.group_of_def histogram_nodes_def tallied_state_def intro!: filter_cong)
  then show ?thesis
    by (simp add: tallySecurityStates_def by_state.group_get foldl_count count_of_def)
qed

text \<open>The severity a group is coloured by is the greatest of its known members', and neutral without
  any.\<close>

theorem worstSeverity_is_Max:
  "worstSeverity states = Max (insert SevNeutral
     {SECURITY_STATE_SEVERITY st | st. \<exists>name \<in> set states. map_of state_names name = Some st})"
proof -
  let ?S = "\<lambda>xs. SECURITY_STATE_SEVERITY ` {st. \<exists>name \<in> set xs. map_of state_names name = Some st}"
  have fin: "finite (?S xs)" for xs
  proof -
    have "{st. \<exists>name \<in> set xs. map_of state_names name = Some st} \<subseteq> ran (map_of state_names)"
      by (auto simp: ran_def)
    then show ?thesis using finite_ran[OF finite_dom_map_of] finite_subset finite_imageI by blast
  qed
  have "worstSeverity xs = Max (insert SevNeutral (?S xs))" for xs
  proof (induction xs rule: rev_induct)
    case Nil
    show ?case by (simp add: worstSeverity_def)
  next
    case (snoc x xs)
    have step: "worstSeverity (xs @ [x]) = worse (worstSeverity xs) x" by (simp add: worstSeverity_def)
    show ?case
    proof (cases "map_of state_names x")
      case None
      then show ?thesis using snoc by (simp add: step worse_def)
    next
      case (Some st)
      then have "?S (xs @ [x]) = insert (SECURITY_STATE_SEVERITY st) (?S xs)" by auto
      moreover have "worse (worstSeverity xs) x = max (SECURITY_STATE_SEVERITY st) (worstSeverity xs)"
        using Some by (auto simp: worse_def max_def less_eq_severity_def intro: severity_rank_inj)
      ultimately show ?thesis using fin[of xs] snoc by (simp add: step insert_commute[of SevNeutral] )
    qed
  qed
  moreover have "?S states = {SECURITY_STATE_SEVERITY st | st. \<exists>name \<in> set states. map_of state_names name = Some st}"
    by auto
  ultimately show ?thesis by simp
qed

text \<open>The assets listed as exposed are the credentials and resources of the graph the blast radius
  reaches: with distinct node ids, each once.\<close>

theorem exposedAssets_exact:
  "set (exposedAssets graph reachable) =
     {\<lparr>xa_id = gn_id n, xa_nodeType = gn_node_type n, xa_securityState = gn_security_state n\<rparr> | n.
        n \<in> set (sg_nodes graph) \<and> gn_node_type n \<in> {''credential'', ''resource''} \<and> gn_id n \<in> set reachable} \<and>
   (distinct (map gn_id (sg_nodes graph)) \<longrightarrow> distinct (map xa_id (exposedAssets graph reachable)))"
  by (auto simp: exposedAssets_def comp_def distinct_map_filter)

end
