(* ===== verification/Insights.thy ===== *)
theory Insights
  imports Client
begin

text \<open>
  The hooks that fetch derived resources: \<open>frontend/src/lib/security/useSecurityInsights.ts\<close>, which
  polls five endpoints, and \<open>frontend/src/lib/security/useProvenance.ts\<close>, which fetches once per
  selection. Each run of an effect is a generation; its cleanup cancels it, after which the answers
  still under way change nothing. That contract is the locale \<open>cancelled_effect\<close>. What an endpoint
  answers is an argument; only which endpoints are called, and what their answers do, is modelled.
\<close>

section \<open>Answers of cancelled effects are dropped\<close>

locale cancelled_effect =
  fixes gen :: "'s \<Rightarrow> nat"
    and settle :: "'s \<Rightarrow> nat \<Rightarrow> 'r \<Rightarrow> 's"
    and shown :: "'s \<Rightarrow> 'v"
    and rerun :: "'s \<Rightarrow> 'd \<Rightarrow> 's"
  assumes settle_gen: "gen (settle s g r) = gen s"
    and settle_stale: "g \<noteq> gen s \<Longrightarrow> shown (settle s g r) = shown s"
    and rerun_gen: "gen (rerun s d) = Suc (gen s)"
    and rerun_shown: "shown (rerun s d) = shown s"
begin

lemma stale_answers_dropped:
  "\<forall>(g, r) \<in> set answers. g \<noteq> gen s \<Longrightarrow> shown (foldl (\<lambda>s (g, r). settle s g r) s answers) = shown s"
proof (induction answers arbitrary: s)
  case (Cons a answers)
  obtain g r where a: "a = (g, r)" by (cases a)
  with Cons.prems have "g \<noteq> gen s" and "\<forall>(g, r) \<in> set answers. g \<noteq> gen (settle s g r)"
    by (auto simp: settle_gen)
  moreover have "\<forall>(g', r') \<in> set answers. g' \<noteq> gen (settle s g r)"
    using Cons.prems by (auto simp: settle_gen)
  ultimately show ?case using Cons.IH[of "settle s g r"] a by (simp add: settle_stale)
qed simp

text \<open>After the effect has run again, every answer to what ran before changes nothing.\<close>

lemma switch_drops:
  assumes "\<forall>(g, r) \<in> set answers. g \<le> gen s"
  shows "shown (foldl (\<lambda>s (g, r). settle s g r) (rerun s d) answers) = shown s"
proof -
  have "\<forall>(g, r) \<in> set answers. g \<noteq> gen (rerun s d)" using assms by (fastforce simp: rerun_gen)
  from stale_answers_dropped[OF this] show ?thesis by (simp add: rerun_shown)
qed

end

section \<open>The security insights\<close>

datatype insights_mode = Live | ReplayMode

text \<open>What a successful load stores. The critical nodes and the remediation are not read here.\<close>

record insights_load =
  il_metrics :: metrics_response
  il_graph :: security_graph_view
  il_criticalNodes :: "json list"
  il_remediation :: json
  il_blastRadius :: blast_radius_response

record insights =
  si_loaded :: "insights_load option"
  si_loading :: bool
  si_error :: "string option"

text \<open>The five resources are set together or not at all, so the state keeps them as one optional load; an
  absent load reads as \<open>null\<close> and, for the critical nodes, as the empty list.\<close>

definition EMPTY_INSIGHTS :: insights where
  "EMPTY_INSIGHTS = \<lparr>si_loaded = None, si_loading = True, si_error = None\<rparr>"

definition CRITICAL_NODE_COUNT :: int where
  "CRITICAL_NODE_COUNT = 6"

text \<open>The calls of one \<open>fetchAll\<close>, in the order of the array.\<close>

definition fetchAll :: "backend \<Rightarrow> insights_mode \<Rightarrow> string \<Rightarrow> reply list" where
  "fetchAll B mode i = (case mode of
      Live \<Rightarrow> [getMetrics B i, getSecurityGraph B i, getCriticalNodes B i (Some CRITICAL_NODE_COUNT),
               getRemediation B i, getBlastRadius B i]
    | ReplayMode \<Rightarrow> [getReplayMetrics B i, getReplaySecurityGraph B i,
               getReplayCriticalNodes B i (Some CRITICAL_NODE_COUNT), getReplayRemediation B i,
               getReplayBlastRadius B i])"

text \<open>\<open>ih_active\<close> holds the run and mode of the effect in force, \<open>ih_pending\<close> the loads under way by
  generation, \<open>ih_timer\<close> the armed poll timer.\<close>

record insights_hook =
  ih_insights :: insights
  ih_experimentId :: "string option"
  ih_gen :: nat
  ih_active :: "(string \<times> insights_mode) option"
  ih_pending :: "nat list"
  ih_timer :: bool

definition insights_mounted :: insights_hook where
  "insights_mounted = \<lparr>ih_insights = EMPTY_INSIGHTS, ih_experimentId = None, ih_gen = 0, ih_active = None,
     ih_pending = [], ih_timer = False\<rparr>"

text \<open>\<open>poll\<close>: a load of the current generation goes out.\<close>

definition insights_poll :: "insights_hook \<Rightarrow> insights_hook" where
  "insights_poll h = h\<lparr>ih_pending := ih_pending h @ [ih_gen h]\<rparr>"

text \<open>The effect runs again when the run or the mode changes: cleanup, then a first poll.\<close>

definition insights_effect :: "insights_hook \<Rightarrow> string option \<times> insights_mode \<Rightarrow> insights_hook" where
  "insights_effect h d = (case d of (experimentId, mode) \<Rightarrow>
     let h' = h\<lparr>ih_experimentId := experimentId, ih_gen := Suc (ih_gen h), ih_timer := False\<rparr>
     in case experimentId of
          Some i \<Rightarrow> if i = [] then h'\<lparr>ih_active := None\<rparr> else insights_poll (h'\<lparr>ih_active := Some (i, mode)\<rparr>)
        | None \<Rightarrow> h'\<lparr>ih_active := None\<rparr>)"

text \<open>One load settles: \<open>then\<close> or \<open>catch\<close>, followed by \<open>finally\<close>.\<close>

definition insights_settle :: "insights_hook \<Rightarrow> nat \<Rightarrow> string + insights_load \<Rightarrow> insights_hook" where
  "insights_settle h g answer =
     (let h' = h\<lparr>ih_pending := remove1 g (ih_pending h)\<rparr>
      in case ih_active h of
           None \<Rightarrow> h'
         | Some (i, mode) \<Rightarrow>
             if g \<noteq> ih_gen h then h'
             else h'\<lparr>ih_insights := (case answer of
                        Inr load \<Rightarrow> \<lparr>si_loaded = Some load, si_loading = False, si_error = None\<rparr>
                      | Inl msg \<Rightarrow> (ih_insights h)\<lparr>si_loading := False, si_error := Some msg\<rparr>),
                    ih_timer := (mode = Live)\<rparr>)"

definition insights_timer :: "insights_hook \<Rightarrow> insights_hook" where
  "insights_timer h = (if ih_timer h then insights_poll (h\<lparr>ih_timer := False\<rparr>) else h)"

definition insights_unmount :: "insights_hook \<Rightarrow> insights_hook" where
  "insights_unmount h = h\<lparr>ih_gen := Suc (ih_gen h), ih_active := None, ih_timer := False\<rparr>"

text \<open>\<open>return experimentId ? insights : EMPTY\<close>.\<close>

definition useSecurityInsights :: "insights_hook \<Rightarrow> insights" where
  "useSecurityInsights h = (if truthy (ih_experimentId h) then ih_insights h else EMPTY_INSIGHTS)"

inductive insights_step :: "insights_hook \<Rightarrow> insights_hook \<Rightarrow> bool" where
  ins_effect: "insights_step h (insights_effect h d)"
| ins_settle: "g \<in> set (ih_pending h) \<Longrightarrow> insights_step h (insights_settle h g answer)"
| ins_timer: "insights_step h (insights_timer h)"
| ins_unmount: "insights_step h (insights_unmount h)"

inductive insights_reachable :: "insights_hook \<Rightarrow> bool" where
  ins_mounted: "insights_reachable insights_mounted"
| ins_stepped: "insights_reachable h \<Longrightarrow> insights_step h k \<Longrightarrow> insights_reachable k"

lemmas insights_defs = insights_effect_def insights_settle_def insights_timer_def insights_poll_def
  insights_unmount_def

interpretation insights_effects: cancelled_effect ih_gen insights_settle ih_insights insights_effect
  by unfold_locales (auto simp: insights_defs Let_def split: option.splits)

section \<open>The poll loop\<close>

text \<open>At most one load of the current generation is under way, it is never accompanied by a timer, and
  in live mode one of the two is always there. No generation is from the future.\<close>

definition insights_inv :: "insights_hook \<Rightarrow> bool" where
  "insights_inv h \<longleftrightarrow>
     (\<forall>g \<in> set (ih_pending h). g \<le> ih_gen h) \<and>
     (case ih_active h of
        None \<Rightarrow> \<not> ih_timer h \<and> count_list (ih_pending h) (ih_gen h) = 0
      | Some (i, mode) \<Rightarrow> i \<noteq> [] \<and> ih_experimentId h = Some i \<and>
          count_list (ih_pending h) (ih_gen h) + (if ih_timer h then 1 else 0) \<le> 1 \<and>
          (mode = ReplayMode \<longrightarrow> \<not> ih_timer h) \<and>
          (mode = Live \<longrightarrow> count_list (ih_pending h) (ih_gen h) + (if ih_timer h then 1 else 0) = 1))"

lemma count_list_future: "\<forall>g \<in> set gs. g \<le> n \<Longrightarrow> count_list gs (Suc n) = 0"
  by (induction gs) auto

lemma count_list_snoc [simp]: "count_list (xs @ ys) x = count_list xs x + count_list ys x"
  by (induction xs) auto

lemma count_list_remove1: "count_list (remove1 g gs) n = count_list gs n - (if g = n then 1 else 0)"
  by (induction gs) auto

lemma remove1_le: "\<forall>g \<in> set gs. g \<le> (n::nat) \<Longrightarrow> \<forall>g \<in> set (remove1 x gs). g \<le> n"
  using set_remove1_subset by fastforce

lemma insights_inv_step:
  assumes "insights_step h k" and inv: "insights_inv h"
  shows "insights_inv k"
  using assms(1)
proof (cases rule: insights_step.cases)
  case (ins_effect d)
  have fut: "\<forall>g \<in> set (ih_pending h). g \<le> ih_gen h" using inv by (simp add: insights_inv_def)
  then have older: "\<forall>g \<in> set (ih_pending h). g \<le> Suc (ih_gen h)" by fastforce
  obtain eid mode where d: "d = (eid, mode)" by (cases d)
  show ?thesis unfolding ins_effect d using fut older count_list_future[OF fut]
    by (cases eid; cases mode) (auto simp: insights_inv_def insights_defs Let_def)
next
  case (ins_settle g answer)
  have fut: "\<forall>g \<in> set (ih_pending h). g \<le> ih_gen h" using inv by (simp add: insights_inv_def)
  have pos: "g = ih_gen h \<Longrightarrow> 0 < count_list (ih_pending h) (ih_gen h)"
    using ins_settle(2) by (metis count_list_0_iff gr0I)
  show ?thesis unfolding ins_settle(1) using inv pos remove1_le[OF fut, of g]
    by (cases "ih_active h"; cases "g = ih_gen h")
       (auto simp: insights_inv_def insights_settle_def Let_def count_list_remove1)
next
  case ins_timer
  then show ?thesis using inv
    by (auto simp: insights_inv_def insights_defs split: option.splits prod.splits)
next
  case ins_unmount
  have "\<forall>g \<in> set (ih_pending h). g \<le> ih_gen h" using inv by (simp add: insights_inv_def)
  then show ?thesis unfolding ins_unmount using count_list_future[of "ih_pending h" "ih_gen h"]
    by (auto simp: insights_inv_def insights_unmount_def le_Suc_eq)
qed

lemma insights_reachable_inv: "insights_reachable h \<Longrightarrow> insights_inv h"
  by (induction rule: insights_reachable.induct)
     (simp add: insights_mounted_def insights_inv_def, erule (1) insights_inv_step)

text \<open>A generation only ends by another run of the effect or the unmount. A replayed run whose load is answered stays
  quiet as long as its generation lasts.\<close>

definition quiet_since :: "nat \<Rightarrow> insights_hook \<Rightarrow> bool" where
  "quiet_since g h \<longleftrightarrow> g < ih_gen h \<or> g = ih_gen h \<and> \<not> ih_timer h \<and> count_list (ih_pending h) g = 0 \<and>
     (\<exists>i. ih_active h = Some (i, ReplayMode))"

lemma quiet_step:
  assumes "insights_step h k" and "quiet_since g h"
  shows "quiet_since g k"
  using assms(1)
proof (cases rule: insights_step.cases)
  case (ins_effect d)
  with assms(2) show ?thesis
    by (cases d; cases "fst d") (auto simp: quiet_since_def insights_defs Let_def)
next
  case (ins_settle g' answer)
  show ?thesis
  proof (cases "g < ih_gen h")
    case True
    then show ?thesis by (simp add: ins_settle quiet_since_def insights_effects.settle_gen)
  next
    case False
    with assms(2) obtain i where h: "g = ih_gen h" "\<not> ih_timer h" "count_list (ih_pending h) g = 0" "ih_active h = Some (i, ReplayMode)"
      by (auto simp: quiet_since_def)
    then have "g' \<noteq> g" using ins_settle(2) by (metis count_list_0_iff)
    with h show ?thesis by (simp add: ins_settle quiet_since_def insights_settle_def Let_def count_list_remove1)
  qed
next
  case ins_timer
  with assms(2) show ?thesis by (auto simp: quiet_since_def insights_timer_def insights_poll_def)
next
  case ins_unmount
  with assms(2) show ?thesis by (auto simp: quiet_since_def insights_unmount_def)
qed

lemma quiet_steps: "insights_step\<^sup>*\<^sup>* h k \<Longrightarrow> quiet_since g h \<Longrightarrow> quiet_since g k"
  by (induction rule: rtranclp_induct) (auto intro: quiet_step)

text \<open>C37. A live run is polled for as long as its effect is in force, and a replayed run is asked once. A run of the
  effect sends one load. While it is in force, a live run has either exactly one load of its generation under way or the
  timer of the next one armed, and never both. A replayed run never has a timer and at most one load under way; and once
  that is answered, in any way, no load of its generation is under way and no timer is armed in any state that
  follows, whatever happens, until the effect runs again.\<close>

theorem insights_polling:
  assumes "insights_reachable h"
  shows "(\<forall>j m. j \<noteq> [] \<longrightarrow> (let k = insights_effect h (Some j, m) in
        ih_active k = Some (j, m) \<and> count_list (ih_pending k) (ih_gen k) = 1 \<and> \<not> ih_timer k)) \<and>
    (\<forall>i. ih_active h = Some (i, Live) \<longrightarrow>
        ih_timer h \<and> count_list (ih_pending h) (ih_gen h) = 0 \<or> \<not> ih_timer h \<and> count_list (ih_pending h) (ih_gen h) = 1) \<and>
    (\<forall>i. ih_active h = Some (i, ReplayMode) \<longrightarrow>
        \<not> ih_timer h \<and> count_list (ih_pending h) (ih_gen h) \<le> 1 \<and>
        (\<forall>answer k. insights_step\<^sup>*\<^sup>* (insights_settle h (ih_gen h) answer) k \<and> ih_gen k = ih_gen h \<longrightarrow>
           count_list (ih_pending k) (ih_gen h) = 0 \<and> \<not> ih_timer k))"
proof (intro conjI allI impI)
  have inv: "insights_inv h" by (rule insights_reachable_inv[OF assms])
  fix j :: string and m assume "j \<noteq> []"
  moreover have "count_list (ih_pending h) (Suc (ih_gen h)) = 0" using inv by (intro count_list_future) (simp add: insights_inv_def)
  ultimately show "let k = insights_effect h (Some j, m) in
      ih_active k = Some (j, m) \<and> count_list (ih_pending k) (ih_gen k) = 1 \<and> \<not> ih_timer k"
    by (simp add: insights_defs Let_def)
next
  fix i assume "ih_active h = Some (i, Live)"
  with insights_reachable_inv[OF assms]
  show "ih_timer h \<and> count_list (ih_pending h) (ih_gen h) = 0 \<or> \<not> ih_timer h \<and> count_list (ih_pending h) (ih_gen h) = 1"
    by (auto simp: insights_inv_def split: if_splits)
next
  fix i assume active: "ih_active h = Some (i, ReplayMode)"
  with insights_reachable_inv[OF assms] show "\<not> ih_timer h" "count_list (ih_pending h) (ih_gen h) \<le> 1"
    by (auto simp: insights_inv_def split: if_splits)
  then have settled: "quiet_since (ih_gen h) (insights_settle h (ih_gen h) answer)" for answer
    using active by (auto simp: quiet_since_def insights_settle_def Let_def count_list_remove1)
  fix answer k assume "insights_step\<^sup>*\<^sup>* (insights_settle h (ih_gen h) answer) k \<and> ih_gen k = ih_gen h"
  with quiet_steps[OF _ settled[of answer], of k]
  show "count_list (ih_pending k) (ih_gen h) = 0" "\<not> ih_timer k" by (auto simp: quiet_since_def)
qed

text \<open>A stored run is opened, answered, and stays quiet when the timer step comes.\<close>

theorem insights_polling_witness:
  "count_list (ih_pending (insights_effect insights_mounted (Some ''r1'', Live))) 1 = 1 \<and>
   ih_pending (insights_timer (insights_settle (insights_effect insights_mounted (Some ''r1'', ReplayMode)) 1 (Inl ''HTTP 500''))) = []"
proof -
  let ?h = "insights_effect insights_mounted (Some ''r1'', ReplayMode)"
  let ?k = "insights_settle ?h 1 (Inl ''HTTP 500'')"
  have r: "insights_reachable ?h" by (rule ins_stepped[OF ins_mounted ins_effect])
  have h: "ih_active ?h = Some (''r1'', ReplayMode)" "ih_gen ?h = 1" "ih_pending ?h = [1]"
    by (simp_all add: insights_defs insights_mounted_def)
  have "insights_step\<^sup>*\<^sup>* ?k (insights_timer ?k)" by (intro r_into_rtranclp ins_timer)
  moreover have k: "ih_gen (insights_timer ?k) = 1" "set (ih_pending (insights_timer ?k)) \<subseteq> {1}"
    by (simp_all add: insights_defs insights_mounted_def)
  ultimately have "count_list (ih_pending (insights_timer ?k)) 1 = 0"
    using insights_polling[OF r] h by (metis (no_types, lifting))
  with k(2) have "ih_pending (insights_timer ?k) = []"
    by (cases "ih_pending (insights_timer ?k)") (auto split: if_splits)
  moreover have "count_list (ih_pending (insights_effect insights_mounted (Some ''r1'', Live))) 1 = 1"
    using insights_polling[OF ins_mounted] by (simp add: Let_def) (simp add: insights_defs insights_mounted_def)
  ultimately show ?thesis by simp
qed

text \<open>The answer to the current load replaces everything at once; a failure keeps the last load, adds the
  message, and ends \<open>loading\<close> even when nothing has been loaded yet.\<close>

theorem insights_answer:
  assumes "ih_active h = Some (i, mode)" and "ih_experimentId h = Some i" and "i \<noteq> []"
  shows "useSecurityInsights (insights_settle h (ih_gen h) (Inr load)) =
      \<lparr>si_loaded = Some load, si_loading = False, si_error = None\<rparr> \<and>
    useSecurityInsights (insights_settle h (ih_gen h) (Inl msg)) =
      \<lparr>si_loaded = si_loaded (ih_insights h), si_loading = False, si_error = Some msg\<rparr>"
  using assms by (simp add: useSecurityInsights_def insights_settle_def Let_def)

theorem insights_answer_witness:
  "useSecurityInsights (insights_settle (insights_effect insights_mounted (Some ''r1'', Live)) 1 (Inl ''HTTP 500'')) =
     \<lparr>si_loaded = None, si_loading = False, si_error = Some ''HTTP 500''\<rparr>"
  using insights_answer[of "insights_effect insights_mounted (Some ''r1'', Live)" "''r1''" Live undefined "''HTTP 500''"]
  by (simp add: insights_defs insights_mounted_def EMPTY_INSIGHTS_def)

text \<open>Switching to another run does not clear the screen: until its own first load succeeds, the new run
  is shown with the load of the previous one and \<open>loading\<close> false, also when its load fails.\<close>

theorem insights_of_previous_run:
  assumes "si_loaded (ih_insights h) = Some load" and "j \<noteq> []" and "\<forall>(g, r) \<in> set answers. g \<le> ih_gen h"
  shows "let k = foldl (\<lambda>s (g, r). insights_settle s g r) (insights_effect h (Some j, mode)) answers in
    useSecurityInsights k = ih_insights h \<and>
    si_loaded (useSecurityInsights (insights_settle k (ih_gen k) (Inl msg))) = Some load"
proof -
  let ?k = "foldl (\<lambda>s (g, r). insights_settle s g r) (insights_effect h (Some j, mode)) answers"
  have shown: "ih_insights ?k = ih_insights h" by (rule insights_effects.switch_drops[OF assms(3)])
  have kept: "ih_experimentId (foldl (\<lambda>s (g, r). insights_settle s g r) s answers) = ih_experimentId s"
    for s by (induction answers arbitrary: s) (auto simp: insights_settle_def Let_def split: option.splits)
  have "ih_experimentId ?k = Some j" using assms(2) kept[of "insights_effect h (Some j, mode)"]
    by (simp add: insights_defs)
  with shown assms(1,2) show ?thesis
    by (auto simp: useSecurityInsights_def insights_settle_def Let_def split: option.splits)
qed

theorem insights_of_previous_run_witness:
  "let h = insights_settle (insights_effect insights_mounted (Some ''r1'', Live)) 1 (Inr load) in
     useSecurityInsights (insights_effect h (Some ''r2'', Live)) = ih_insights h \<and> si_loaded (ih_insights h) = Some load"
proof -
  let ?h = "insights_settle (insights_effect insights_mounted (Some ''r1'', Live)) 1 (Inr load)"
  have "si_loaded (ih_insights ?h) = Some load"
    by (simp add: insights_defs insights_mounted_def)
  from insights_of_previous_run[OF this, of "''r2''" "[]" Live] this show ?thesis by (simp add: Let_def)
qed

text \<open>What a live and a stored run show comes from the same five resources, each from its own handlers.\<close>

lemma fetchAll_length: "length (fetchAll B mode i) = 5"
  by (cases mode) (simp_all add: fetchAll_def)

section \<open>The provenance of the selected node\<close>

record provenance_state =
  pv_chain :: "string list option"
  pv_loading :: bool
  pv_error :: "string option"

record provenance_hook =
  ph_state :: provenance_state
  ph_gen :: nat
  ph_pending :: "(nat \<times> (string \<times> string) option) list"

definition provenance_mounted :: provenance_hook where
  "provenance_mounted = \<lparr>ph_state = \<lparr>pv_chain = None, pv_loading = False, pv_error = None\<rparr>, ph_gen = 0, ph_pending = []\<rparr>"

text \<open>The effect of a selection: a request, or a settled promise when there is nothing to fetch.\<close>

definition provenance_effect :: "provenance_hook \<Rightarrow> string option \<times> string option \<Rightarrow> provenance_hook" where
  "provenance_effect h d = (case d of (experimentId, nodeId) \<Rightarrow>
     let g = Suc (ph_gen h);
         request = (if \<not> truthy experimentId \<or> \<not> truthy nodeId then None else Some (the experimentId, the nodeId))
     in h\<lparr>ph_gen := g, ph_pending := ph_pending h @ [(g, request)]\<rparr>)"

definition provenance_request :: "backend \<Rightarrow> insights_mode \<Rightarrow> string \<Rightarrow> string \<Rightarrow> reply" where
  "provenance_request B mode experimentId nodeId = (case mode of
      Live \<Rightarrow> getProvenance B experimentId nodeId
    | ReplayMode \<Rightarrow> getReplayProvenance B experimentId nodeId)"

text \<open>The response is \<open>null\<close> for the settled promise, or the chain the endpoint sent.\<close>

definition provenance_settle :: "provenance_hook \<Rightarrow> nat \<Rightarrow> string + string list option \<Rightarrow> provenance_hook" where
  "provenance_settle h g answer =
     (let h' = h\<lparr>ph_pending := filter (\<lambda>p. fst p \<noteq> g) (ph_pending h)\<rparr>
      in if g \<noteq> ph_gen h then h'
         else h'\<lparr>ph_state := (case answer of
             Inr chain \<Rightarrow> \<lparr>pv_chain = chain, pv_loading = False, pv_error = None\<rparr>
           | Inl msg \<Rightarrow> \<lparr>pv_chain = None, pv_loading = False, pv_error = Some msg\<rparr>)\<rparr>)"

interpretation provenance_effects: cancelled_effect ph_gen provenance_settle ph_state provenance_effect
  by unfold_locales (auto simp: provenance_settle_def provenance_effect_def Let_def split: prod.splits)

text \<open>The trace shown is the answer for the node selected last, whatever the order in which the answers
  to earlier selections arrive; until it arrives the trace of the previous node stays, never marked
  as loading.\<close>

theorem provenance_of_selection:
  assumes "\<forall>(g, r) \<in> set before \<union> set after. g \<le> ph_gen h"
  shows "let settle_all = foldl (\<lambda>s (g, r). provenance_settle s g r);
             k = settle_all (provenance_effect h sel) before;
             k' = settle_all (provenance_settle k (ph_gen k) (Inr chain)) after
    in ph_state k = ph_state h \<and> ph_state k' = \<lparr>pv_chain = chain, pv_loading = False, pv_error = None\<rparr>"
proof -
  let ?settle = "foldl (\<lambda>s (g, r). provenance_settle s g r)"
  let ?k = "?settle (provenance_effect h sel) before"
  let ?m = "provenance_settle ?k (ph_gen ?k) (Inr chain)"
  have gens: "ph_gen (?settle s xs) = ph_gen s" for s xs
    by (induction xs arbitrary: s) (auto simp: provenance_effects.settle_gen)
  have first: "ph_state ?k = ph_state h"
    by (rule provenance_effects.switch_drops) (use assms in auto)
  have m: "ph_state ?m = \<lparr>pv_chain = chain, pv_loading = False, pv_error = None\<rparr>" "ph_gen ?m = Suc (ph_gen h)"
    using gens[of "provenance_effect h sel" before]
    by (simp_all add: provenance_settle_def Let_def provenance_effects.rerun_gen)
  have "\<forall>(g, r) \<in> set after. g \<noteq> ph_gen ?m" 
  proof (unfold m(2), safe)
    fix r assume "(Suc (ph_gen h), r) \<in> set after"
    with assms have "Suc (ph_gen h) \<le> ph_gen h" by blast
    then show False by simp
  qed
  from provenance_effects.stale_answers_dropped[OF this] first m show ?thesis by (simp add: Let_def)
qed

theorem provenance_of_selection_witness:
  "let h = provenance_effect provenance_mounted (Some ''r'', Some ''n1'');
       k = provenance_effect h (Some ''r'', Some ''n2'')
   in ph_state (provenance_settle (provenance_settle k 2 (Inr (Some [''n0'', ''n2'']))) 1 (Inr (Some [''n1''])))
     = \<lparr>pv_chain = Some [''n0'', ''n2''], pv_loading = False, pv_error = None\<rparr>"
proof -
  let ?h = "provenance_effect provenance_mounted (Some ''r'', Some ''n1'')"
  have g: "ph_gen provenance_mounted = 0" by (simp add: provenance_mounted_def)
  show ?thesis
    using provenance_of_selection[of "[]" "[(1, Inr (Some [''n1'']))]" ?h "(Some ''r'', Some ''n2'')" "Some [''n0'', ''n2'']"]
    by (simp add: g Let_def provenance_effects.rerun_gen numeral_2_eq_2)
qed

end
