(* ===== verification/Run_To_Completion.thy ===== *)
theory Run_To_Completion
  imports Stream_Reducer
begin

text \<open>
  \<open>frontend/src/lib/comparison/runToCompletion.ts\<close>: creates an experiment, follows it over a socket,
  waits for its end by polling, waits for the socket to catch up, reads the metrics and stops the
  run. The function is a machine whose phases are its \<open>await\<close>s; the inputs are the answers of the
  backend, the timers, the frames and close of the socket, and the abort signal. \<open>Date.now()\<close> is
  part of the inputs that read it. The machine logs the calls it makes.
\<close>

section \<open>State\<close>

definition CATCH_UP_TIMEOUT_MS :: int where
  "CATCH_UP_TIMEOUT_MS = 5000"

datatype run_call = CreateCall | StatusCall | MetricsCall | StopCall

record run_result =
  rr_experimentId :: string
  rr_metrics :: metrics_response

text \<open>What the promise rejects with: the error of a call, or the \<open>AbortError\<close>.\<close>

datatype run_error = CallFailed string | Aborted

datatype run_phase =
    Creating
  | PollTimer
  | AwaitStatus
  | CatchingUp int int
  | AwaitMetrics
  | AwaitStop "run_error + run_result"
  | Settled "run_error + run_result"

text \<open>\<open>CatchingUp finalLastSeq deadline\<close> sleeps between two tests of the loop. \<open>rn_socketOpen\<close> is the
  variable the close event clears; \<open>rn_closed\<close> says that \<open>ws.close()\<close> was called. \<open>rn_aborted\<close> is the
  signal's \<open>aborted\<close>.\<close>

record run_machine =
  rn_phase :: run_phase
  rn_experimentId :: string
  rn_graph :: graph_state
  rn_socketOpen :: bool
  rn_closed :: bool
  rn_aborted :: bool
  rn_calls :: "run_call list"

definition run_begin :: "bool \<Rightarrow> run_machine" where
  "run_begin aborted = \<lparr>rn_phase = Creating, rn_experimentId = [], rn_graph = initialGraphState, rn_socketOpen = False,
     rn_closed = False, rn_aborted = aborted, rn_calls = [CreateCall]\<rparr>"

section \<open>Inputs\<close>

datatype run_input =
    Created "string + experiment_summary"
  | PollFires
  | StatusAnswer "string + experiment_summary" int
  | AbortSignal
  | SocketFrame stream_frame
  | SocketClosed
  | Wakes int
  | MetricsAnswer "string + metrics_response"
  | StopAnswer "string + experiment_summary"

definition call_out :: "run_call \<Rightarrow> run_phase \<Rightarrow> run_machine \<Rightarrow> run_machine" where
  "call_out c ph r = r\<lparr>rn_phase := ph, rn_calls := rn_calls r @ [c]\<rparr>"

text \<open>The \<open>catch\<close> block of the wait: close the socket, stop the run, rethrow.\<close>

definition abandon :: "run_machine \<Rightarrow> run_machine" where
  "abandon r = call_out StopCall (AwaitStop (Inl Aborted)) (r\<lparr>rn_closed := True\<rparr>)"

text \<open>One test of the catch-up loop.\<close>

definition caught_up :: "run_machine \<Rightarrow> int \<Rightarrow> int \<Rightarrow> int \<Rightarrow> bool" where
  "caught_up r final deadline now \<longleftrightarrow> \<not> (gs_lastSeq (rn_graph r) < final \<and> rn_socketOpen r \<and> now < deadline)"

definition catch_up :: "run_machine \<Rightarrow> int \<Rightarrow> int \<Rightarrow> int \<Rightarrow> run_machine" where
  "catch_up r final deadline now =
     (if caught_up r final deadline now then call_out MetricsCall AwaitMetrics (r\<lparr>rn_closed := True\<rparr>)
      else r\<lparr>rn_phase := CatchingUp final deadline\<rparr>)"

fun run_step :: "run_machine \<Rightarrow> run_input \<Rightarrow> run_machine" where
  "run_step r (Created answer) = (if rn_phase r \<noteq> Creating then r else
     case answer of
       Inl msg \<Rightarrow> r\<lparr>rn_phase := Settled (Inl (CallFailed msg))\<rparr>
     | Inr summary \<Rightarrow>
         let r' = r\<lparr>rn_experimentId := es_experiment_id summary, rn_socketOpen := True\<rparr>
         in if rn_aborted r then abandon r' else r'\<lparr>rn_phase := PollTimer\<rparr>)"
| "run_step r PollFires = (if rn_phase r \<noteq> PollTimer then r else call_out StatusCall AwaitStatus r)"
| "run_step r (StatusAnswer answer now) = (if rn_phase r \<noteq> AwaitStatus then r else
     case answer of
       Inl _ \<Rightarrow> r\<lparr>rn_phase := PollTimer\<rparr>
     | Inr s \<Rightarrow> if es_status s = RsFinished \<or> es_status s = RsStopped
               then catch_up r (es_last_seq s) (now + CATCH_UP_TIMEOUT_MS) now
               else r\<lparr>rn_phase := PollTimer\<rparr>)"
| "run_step r AbortSignal =
     (let r' = r\<lparr>rn_aborted := True\<rparr>
      in if \<not> rn_aborted r \<and> (rn_phase r = PollTimer \<or> rn_phase r = AwaitStatus) then abandon r' else r')"
| "run_step r (SocketFrame f) = (if rn_phase r = Creating \<or> \<not> rn_socketOpen r \<or> rn_closed r then r else
     case reduce (rn_graph r) f of Inl _ \<Rightarrow> r | Inr g \<Rightarrow> r\<lparr>rn_graph := g\<rparr>)"
| "run_step r SocketClosed = r\<lparr>rn_socketOpen := False\<rparr>"
| "run_step r (Wakes now) = (case rn_phase r of
       CatchingUp final deadline \<Rightarrow> catch_up r final deadline now
     | _ \<Rightarrow> r)"
| "run_step r (MetricsAnswer answer) = (if rn_phase r \<noteq> AwaitMetrics then r else
     case answer of
       Inl msg \<Rightarrow> r\<lparr>rn_phase := Settled (Inl (CallFailed msg))\<rparr>
     | Inr metrics \<Rightarrow> call_out StopCall
         (AwaitStop (Inr \<lparr>rr_experimentId = rn_experimentId r, rr_metrics = metrics\<rparr>)) r)"
| "run_step r (StopAnswer answer) = (case rn_phase r of
       AwaitStop outcome \<Rightarrow> r\<lparr>rn_phase := Settled outcome\<rparr>
     | _ \<Rightarrow> r)"

definition runExperimentToCompletion :: "bool \<Rightarrow> run_input list \<Rightarrow> run_machine" where
  "runExperimentToCompletion aborted inputs = foldl run_step (run_begin aborted) inputs"

section \<open>The order of the calls\<close>

definition polled :: "run_call list \<Rightarrow> bool" where
  "polled cs \<longleftrightarrow> (\<exists>n. cs = CreateCall # replicate n StatusCall)"

definition polled_then :: "run_call list \<Rightarrow> run_call list \<Rightarrow> bool" where
  "polled_then cs rest \<longleftrightarrow> (\<exists>n. cs = CreateCall # replicate n StatusCall @ rest)"

lemma polled_start: "polled [CreateCall]"
  unfolding polled_def by (rule exI[of _ 0]) simp

lemma polled_status: "polled cs \<Longrightarrow> polled (cs @ [StatusCall])"
  unfolding polled_def by (metis append_Cons replicate_Suc replicate_append_same)

lemma polled_last: "polled cs \<Longrightarrow> polled_then (cs @ [c]) [c]"
  by (auto simp: polled_def polled_then_def)

lemma polled_then_snoc: "polled_then cs rest \<Longrightarrow> polled_then (cs @ [c]) (rest @ [c])"
  by (auto simp: polled_then_def)

lemmas polled_intros = polled_start polled_status polled_last

text \<open>What the log and the socket are in each phase.\<close>

fun run_wf :: "run_phase \<Rightarrow> run_machine \<Rightarrow> bool" where
  "run_wf Creating r = (rn_calls r = [CreateCall])"
| "run_wf PollTimer r = polled (rn_calls r)"
| "run_wf AwaitStatus r = polled (rn_calls r)"
| "run_wf (CatchingUp final deadline) r = polled (rn_calls r)"
| "run_wf AwaitMetrics r = (polled_then (rn_calls r) [MetricsCall] \<and> rn_closed r)"
| "run_wf (AwaitStop (Inl e)) r = (e = Aborted \<and> polled_then (rn_calls r) [StopCall] \<and> rn_closed r)"
| "run_wf (AwaitStop (Inr res)) r =
     (rr_experimentId res = rn_experimentId r \<and> polled_then (rn_calls r) [MetricsCall, StopCall] \<and> rn_closed r)"
| "run_wf (Settled (Inl Aborted)) r = (polled_then (rn_calls r) [StopCall] \<and> rn_closed r)"
| "run_wf (Settled (Inl (CallFailed msg))) r =
     (rn_calls r = [CreateCall] \<or> polled_then (rn_calls r) [MetricsCall] \<and> rn_closed r)"
| "run_wf (Settled (Inr res)) r =
     (rr_experimentId res = rn_experimentId r \<and> polled_then (rn_calls r) [MetricsCall, StopCall] \<and> rn_closed r)"

lemma run_wf_cong:
  "rn_calls r' = rn_calls r \<Longrightarrow> rn_closed r' = rn_closed r \<Longrightarrow> rn_experimentId r' = rn_experimentId r \<Longrightarrow>
     run_wf ph r' = run_wf ph r"
  by (cases "(ph, r)" rule: run_wf.cases) simp_all

lemma catch_up_wf: "polled (rn_calls r) \<Longrightarrow> run_wf (rn_phase (catch_up r f d now)) (catch_up r f d now)"
  by (simp add: catch_up_def call_out_def polled_intros)

lemma abandon_wf: "polled (rn_calls r) \<Longrightarrow> run_wf (rn_phase (abandon r)) (abandon r)"
  by (simp add: abandon_def call_out_def polled_intros)

lemma run_step_wf:
  assumes wf: "run_wf (rn_phase r) r"
  shows "run_wf (rn_phase (run_step r i)) (run_step r i)"
proof (cases i)
  case (Created answer)
  then show ?thesis using wf
    by (cases answer) (auto simp: Let_def polled_start abandon_wf)
next
  case PollFires
  then show ?thesis using wf by (auto simp: call_out_def polled_status)
next
  case (StatusAnswer answer now)
  then show ?thesis using wf by (cases answer) (auto simp: catch_up_wf)
next
  case AbortSignal
  have "run_wf (rn_phase r) (r\<lparr>rn_aborted := True\<rparr>)" using wf run_wf_cong[of "r\<lparr>rn_aborted := True\<rparr>" r] by simp
  then show ?thesis using wf AbortSignal by (auto simp: Let_def abandon_wf)
next
  case (SocketFrame f)
  have "run_wf (rn_phase r) (r\<lparr>rn_graph := g\<rparr>)" for g using wf run_wf_cong[of "r\<lparr>rn_graph := g\<rparr>" r] by simp
  then show ?thesis using wf SocketFrame by (simp split: sum.split)
next
  case SocketClosed
  then show ?thesis using wf run_wf_cong[of "r\<lparr>rn_socketOpen := False\<rparr>" r] by simp
next
  case (Wakes now)
  then show ?thesis using wf by (cases "rn_phase r") (simp_all add: catch_up_wf)
next
  case (MetricsAnswer answer)
  then show ?thesis using wf polled_then_snoc[of "rn_calls r" "[MetricsCall]" StopCall]
    by (cases answer) (auto simp: call_out_def)
next
  case (StopAnswer answer)
  show ?thesis
  proof (cases "rn_phase r")
    case (AwaitStop outcome)
    with wf StopAnswer show ?thesis by (cases outcome) auto
  qed (use wf StopAnswer in simp_all)
qed

lemma run_wf_all: "run_wf (rn_phase (runExperimentToCompletion a is)) (runExperimentToCompletion a is)"
  by (induction "is" rule: rev_induct)
     (simp_all add: runExperimentToCompletion_def run_begin_def run_step_wf)

text \<open>C22. Whatever the backend, the socket, the timers and the abort signal do, a run that settles did one of
  four things: it never got past the creation; it polled, read the metrics and stopped the run, in
  this order, and hands over those metrics under the id the creation returned; it was aborted while
  polling and stopped the run; or the metrics call failed, and the run was never stopped. The socket
  is closed in all but the first.\<close>

theorem run_protocol:
  assumes "rn_phase (runExperimentToCompletion aborted inputs) = Settled outcome"
  shows "let r = runExperimentToCompletion aborted inputs in
    case outcome of
      Inr res \<Rightarrow> rr_experimentId res = rn_experimentId r \<and> rn_closed r \<and>
        (\<exists>n. rn_calls r = CreateCall # replicate n StatusCall @ [MetricsCall, StopCall])
    | Inl Aborted \<Rightarrow> rn_closed r \<and> (\<exists>n. rn_calls r = CreateCall # replicate n StatusCall @ [StopCall])
    | Inl (CallFailed msg) \<Rightarrow> rn_calls r = [CreateCall] \<or>
        rn_closed r \<and> (\<exists>n. rn_calls r = CreateCall # replicate n StatusCall @ [MetricsCall])"
  using run_wf_all[of aborted inputs] assms
  by (auto simp: Let_def polled_then_def split: sum.split run_error.split)

definition failing_metrics :: "run_input list" where
  "failing_metrics = [Created (Inr \<lparr>es_experiment_id = ''r1'', es_status = RsRunning, es_sim_tick = 0, es_last_seq = -1, es_config = []\<rparr>),
     PollFires,
     StatusAnswer (Inr \<lparr>es_experiment_id = ''r1'', es_status = RsFinished, es_sim_tick = 9, es_last_seq = 40, es_config = []\<rparr>) 0,
     SocketClosed, Wakes 20, MetricsAnswer (Inl ''HTTP 500'')]"

theorem run_protocol_witness:
  "rn_phase (runExperimentToCompletion False failing_metrics) = Settled (Inl (CallFailed ''HTTP 500'')) \<and>
   rn_calls (runExperimentToCompletion False failing_metrics) = [CreateCall, StatusCall, MetricsCall]"
proof -
  have ph: "rn_phase (runExperimentToCompletion False failing_metrics) = Settled (Inl (CallFailed ''HTTP 500''))"
    and len: "length (rn_calls (runExperimentToCompletion False failing_metrics)) = 3"
    by (simp_all add: runExperimentToCompletion_def failing_metrics_def run_begin_def call_out_def catch_up_def
        caught_up_def initialGraphState_def CATCH_UP_TIMEOUT_MS_def)
  have "\<exists>n. rn_calls (runExperimentToCompletion False failing_metrics) = CreateCall # replicate n StatusCall @ [MetricsCall]"
    using run_protocol[OF ph] len by (auto simp: Let_def)
  then obtain n where n: "rn_calls (runExperimentToCompletion False failing_metrics) = CreateCall # replicate n StatusCall @ [MetricsCall]" ..
  with len have "n = 1" by simp
  with ph n show ?thesis by simp
qed

section \<open>The catch-up\<close>

definition waiting_for :: "run_machine \<Rightarrow> (int \<times> int) option" where
  "waiting_for r = (case rn_phase r of CatchingUp final deadline \<Rightarrow> Some (final, deadline) | _ \<Rightarrow> None)"

lemma waiting_step:
  assumes "waiting_for (run_step r i) = Some (f, d)"
  shows "waiting_for r = Some (f, d) \<and> (\<forall>now. i = Wakes now \<longrightarrow> now < d \<and> gs_lastSeq (rn_graph r) < f \<and> rn_socketOpen r) \<or>
    (\<exists>s now. i = StatusAnswer (Inr s) now \<and> f = es_last_seq s \<and> d = now + CATCH_UP_TIMEOUT_MS)"
proof (cases i)
  case (StatusAnswer answer now)
  then show ?thesis using assms
    by (cases answer) (auto simp: waiting_for_def catch_up_def call_out_def split: if_splits run_phase.splits)
next
  case (Wakes now)
  then show ?thesis using assms
    by (auto simp: waiting_for_def catch_up_def caught_up_def call_out_def split: if_splits run_phase.splits)
next
  case (SocketFrame f)
  then show ?thesis using assms by (auto simp: waiting_for_def split: if_splits sum.splits run_phase.splits)
qed (use assms in \<open>auto simp: waiting_for_def Let_def call_out_def abandon_def split: if_splits sum.splits run_phase.splits\<close>)

text \<open>The wait for the socket is bounded: once the end is reported at time \<open>t\<close>, the metrics are requested
  at the first wake-up at which the socket is closed, the last event of the run has been seen, or
  five seconds have passed.\<close>

theorem catch_up_bounded:
  assumes "rn_phase r = AwaitStatus" and "es_status s = RsFinished \<or> es_status s = RsStopped"
    and "rn_phase (foldl run_step r (StatusAnswer (Inr s) t # inputs @ [Wakes now])) = CatchingUp f d"
    and "\<And>s' t'. StatusAnswer (Inr s') t' \<notin> set inputs"
  shows "f = es_last_seq s \<and> d = t + 5000 \<and> now < t + 5000 \<and>
    (let k = foldl run_step r (StatusAnswer (Inr s) t # inputs) in gs_lastSeq (rn_graph k) < f \<and> rn_socketOpen k)"
proof -
  let ?k = "\<lambda>js. foldl run_step r (StatusAnswer (Inr s) t # js)"
  have first: "waiting_for (?k []) = Some (f', d') \<Longrightarrow> f' = es_last_seq s \<and> d' = t + 5000" for f' d'
    using assms(1,2) by (auto simp: waiting_for_def catch_up_def call_out_def CATCH_UP_TIMEOUT_MS_def split: if_splits)
  have kept: "waiting_for (?k js) = Some (f', d') \<Longrightarrow> set js \<subseteq> set inputs \<Longrightarrow> f' = es_last_seq s \<and> d' = t + 5000" for js f' d'
  proof (induction js rule: rev_induct)
    case Nil
    then show ?case using first by simp
  next
    case (snoc i js)
    then have step: "waiting_for (run_step (?k js) i) = Some (f', d')" and "i \<in> set inputs" by simp_all
    with assms(4) waiting_step[OF step] have "waiting_for (?k js) = Some (f', d')" by auto
    with snoc show ?case by simp
  qed
  have wf: "waiting_for (run_step (?k inputs) (Wakes now)) = Some (f, d)"
    using assms(3) by (simp add: waiting_for_def)
  from waiting_step[OF this] have "waiting_for (?k inputs) = Some (f, d)" "now < d"
    "gs_lastSeq (rn_graph (?k inputs)) < f" "rn_socketOpen (?k inputs)" by auto
  moreover from this kept[of inputs f d] have "f = es_last_seq s" "d = t + 5000" by simp_all
  ultimately show ?thesis by (simp add: Let_def)
qed

theorem catch_up_bounded_witness:
  "rn_phase (foldl run_step ((run_begin False)\<lparr>rn_phase := AwaitStatus, rn_socketOpen := True\<rparr>)
      [StatusAnswer (Inr \<lparr>es_experiment_id = ''r1'', es_status = RsFinished, es_sim_tick = 9, es_last_seq = 40, es_config = []\<rparr>) 100,
       Wakes 120]) = CatchingUp 40 5100 \<and> (120::int) < 100 + 5000"
proof -
  let ?r = "(run_begin False)\<lparr>rn_phase := AwaitStatus, rn_socketOpen := True\<rparr>"
  let ?s = "\<lparr>es_experiment_id = ''r1'', es_status = RsFinished, es_sim_tick = 9, es_last_seq = 40, es_config = []\<rparr>"
  have ph: "rn_phase (foldl run_step ?r (StatusAnswer (Inr ?s) 100 # [] @ [Wakes 120])) = CatchingUp 40 5100"
    by (simp add: run_begin_def catch_up_def caught_up_def initialGraphState_def CATCH_UP_TIMEOUT_MS_def)
  from catch_up_bounded[OF _ _ ph] ph show ?thesis by simp
qed

end
