(* ===== verification/Comparison.thy ===== *)
theory Comparison
  imports Run_To_Completion
begin

text \<open>
  Two runs side by side: \<open>frontend/src/lib/comparison/useComparison.ts\<close> (defended against undefended,
  or two stored runs), \<open>comparison/loadHistoricalArm.ts\<close>, and \<open>remediation/useFixTrial.ts\<close> (before
  against after a recommended change). Both hooks share one contract, the locale \<open>two_arms\<close>: a launch
  while arms are under way is ignored, each arm settles once and on its own, and the hook is free
  again when both have. How an arm gets its result is \<open>Run_To_Completion\<close>; here its outcome is an
  input. The \<open>finally\<close> of a launch runs in the same task as the callback of the last arm and is part
  of it.
\<close>

section \<open>The contract of a pair of arms\<close>

datatype arm = ArmA | ArmB

locale two_arms =
  fixes busy :: "'s \<Rightarrow> bool"
    and open_arms :: "'s \<Rightarrow> arm set"
    and launch :: "'s \<Rightarrow> 'c \<Rightarrow> 's"
    and settle :: "'s \<Rightarrow> arm \<Rightarrow> 'r \<Rightarrow> 's"
  assumes launch_busy: "busy s \<Longrightarrow> launch s c = s"
    and launch_idle: "\<not> busy s \<Longrightarrow> busy (launch s c) \<and> open_arms (launch s c) = {ArmA, ArmB}"
    and settle_open: "a \<in> open_arms s \<Longrightarrow> open_arms (settle s a r) = open_arms s - {a}"
    and settle_busy: "a \<in> open_arms s \<Longrightarrow> busy (settle s a r) \<longleftrightarrow> open_arms s \<noteq> {a} \<and> busy s"
begin

text \<open>What can happen: a launch at any time, or the outcome of an arm that is under way.\<close>

inductive reached :: "'s \<Rightarrow> 's \<Rightarrow> bool" for s0 where
  start: "reached s0 s0"
| launched: "reached s0 s \<Longrightarrow> reached s0 (launch s c)"
| settled: "reached s0 s \<Longrightarrow> a \<in> open_arms s \<Longrightarrow> reached s0 (settle s a r)"

lemma busy_iff_open:
  "reached s0 s \<Longrightarrow> \<not> busy s0 \<Longrightarrow> open_arms s0 = {} \<Longrightarrow> busy s \<longleftrightarrow> open_arms s \<noteq> {}"
proof (induction rule: reached.induct)
  case (launched s c)
  then show ?case by (cases "busy s") (auto simp: launch_busy launch_idle)
next
  case (settled s a r)
  then show ?case using settle_open[of a s r] settle_busy[of a s r] by auto
qed simp

text \<open>Both outcomes, in either order, free the hook.\<close>

lemma both_settle:
  assumes "\<not> busy s" and "{a, b} = {ArmA, ArmB}"
  shows "busy (settle (launch s c) a r)" and "\<not> busy (settle (settle (launch s c) a r) b r')"
proof -
  have ab: "a \<noteq> b" using assms(2) by (cases a; cases b) auto
  have o: "open_arms (launch s c) = {a, b}" using launch_idle[OF assms(1)] assms(2) by simp
  then have o1: "open_arms (settle (launch s c) a r) = {b}" using settle_open[of a "launch s c" r] ab by auto
  show "busy (settle (launch s c) a r)"
    using settle_busy[of a "launch s c" r] launch_idle[OF assms(1), of c] o ab by auto
  show "\<not> busy (settle (settle (launch s c) a r) b r')" using settle_busy[of b _ r'] o1 by simp
qed

end

section \<open>Configurations\<close>

text \<open>\<open>{ ...base, [key]: value }\<close> and \<open>{ ...base, ...diff }\<close>.\<close>

abbreviation obj_set :: "json_object \<Rightarrow> string \<Rightarrow> json \<Rightarrow> json_object" where
  "obj_set ob k v \<equiv> map_set ob k v"

definition obj_spread :: "json_object \<Rightarrow> json_object \<Rightarrow> json_object" where
  "obj_spread base diff = foldl (\<lambda>ob (k, v). obj_set ob k v) base diff"

lemma obj_spread_get:
  "distinct (map_keys diff) \<Longrightarrow> map_get (obj_spread base diff) k = nullish (map_get diff k) (map_get base k)"
proof (induction diff arbitrary: base)
  case (Cons p diff)
  obtain k' v where p: "p = (k', v)" by (cases p)
  with Cons.prems have "k' \<notin> set (map_keys diff)" by simp
  then have none: "map_get diff k' = None" by (simp add: map_of_eq_None_iff)
  have "map_get (obj_spread base (p # diff)) k = nullish (map_get diff k) (map_get (obj_set base k' v) k)"
    using Cons by (simp add: obj_spread_def p)
  then show ?case using none by (cases "map_get diff k") (auto simp: p)
qed (simp add: obj_spread_def)

definition buildComparisonConfigs :: "experiment_config \<Rightarrow> experiment_config \<times> experiment_config" where
  "buildComparisonConfigs baseConfig =
     (obj_set baseConfig ''defense_enabled'' (JBool True), obj_set baseConfig ''defense_enabled'' (JBool False))"

text \<open>The two configurations of a comparison agree with the base, and so with each other, in every field
  but \<open>defense_enabled\<close>, which is on in the first and off in the second; they have the base's fields
  and no other but that one.\<close>

theorem comparison_configs_differ_in_defense:
  "let (a, b) = buildComparisonConfigs base in
    map_get a ''defense_enabled'' = Some (JBool True) \<and> map_get b ''defense_enabled'' = Some (JBool False) \<and>
    (\<forall>k. k = ''defense_enabled'' \<or> map_get a k = map_get base k \<and> map_get b k = map_get base k) \<and>
    map_keys a = map_keys b \<and> set (map_keys a) = insert ''defense_enabled'' (set (map_keys base))"
  by (auto simp: buildComparisonConfigs_def map_keys_set simp del: set_map)

section \<open>An arm from a stored run\<close>

record historical_arm_result =
  ha_experimentId :: string
  ha_metrics :: metrics_response
  ha_incomplete :: bool

text \<open>\<open>Promise.all\<close> of the two requests: the first rejection, and if both reject, that of the one that
  rejected first.\<close>

definition loadHistoricalArm ::
  "string \<Rightarrow> string + metrics_response \<Rightarrow> string + experiment_detail \<Rightarrow> bool \<Rightarrow> string + historical_arm_result" where
  "loadHistoricalArm experimentId metrics detail detailFirst = (case (metrics, detail) of
      (Inr m, Inr d) \<Rightarrow> Inr \<lparr>ha_experimentId = experimentId, ha_metrics = m, ha_incomplete = (ed_is_complete d \<noteq> Some True)\<rparr>
    | (Inl e, Inr d) \<Rightarrow> Inl e
    | (Inr m, Inl e) \<Rightarrow> Inl e
    | (Inl e, Inl e') \<Rightarrow> Inl (if detailFirst then e' else e))"

section \<open>\<open>useComparison\<close>\<close>

datatype arm_result = ArmMetrics metrics_response "bool option" | ArmFailed string

datatype arm_state = ArmIdle | ArmRunning | ArmDone metrics_response "bool option" | ArmError string

record comparison =
  cp_armA :: arm_state
  cp_armB :: arm_state
  cp_running :: bool

definition initial_comparison :: comparison where
  "initial_comparison = \<lparr>cp_armA = ArmIdle, cp_armB = ArmIdle, cp_running = False\<rparr>"

text \<open>The message of what a run rejected with: \<open>err instanceof Error ? err.message : String(err)\<close>; the
  message of the \<open>DOMException\<close> is "Aborted".\<close>

fun run_error_message :: "run_error \<Rightarrow> string" where
  "run_error_message (CallFailed msg) = msg"
| "run_error_message Aborted = ''Aborted''"

fun live_result :: "run_error + run_result \<Rightarrow> arm_result" where
  "live_result (Inr r) = ArmMetrics (rr_metrics r) None"
| "live_result (Inl e) = ArmFailed (run_error_message e)"

fun historical_result :: "string + historical_arm_result \<Rightarrow> arm_result" where
  "historical_result (Inr r) = ArmMetrics (ha_metrics r) (Some (ha_incomplete r))"
| "historical_result (Inl msg) = ArmFailed msg"

fun next_arm :: "arm_result \<Rightarrow> arm_state" where
  "next_arm (ArmFailed msg) = ArmError msg"
| "next_arm (ArmMetrics m incomplete) = ArmDone m incomplete"

fun applyResult :: "comparison \<Rightarrow> arm \<Rightarrow> arm_result \<Rightarrow> comparison" where
  "applyResult s ArmA result = s\<lparr>cp_armA := next_arm result\<rparr>"
| "applyResult s ArmB result = s\<lparr>cp_armB := next_arm result\<rparr>"

text \<open>\<open>runComparison\<close> and \<open>compareHistorical\<close> differ only in the runs they start, so both are a launch.\<close>

datatype comparison_request = RunComparison experiment_config | CompareHistorical string string

definition launch_comparison :: "comparison \<Rightarrow> comparison_request \<Rightarrow> comparison" where
  "launch_comparison s rq = (if cp_running s then s
     else s\<lparr>cp_running := True, cp_armA := ArmRunning, cp_armB := ArmRunning\<rparr>)"

text \<open>What each arm of a request runs.\<close>

datatype arm_job = LiveRun experiment_config | StoredRun string

fun arm_job_of :: "comparison_request \<Rightarrow> arm \<Rightarrow> arm_job" where
  "arm_job_of (RunComparison base) ArmA = LiveRun (fst (buildComparisonConfigs base))"
| "arm_job_of (RunComparison base) ArmB = LiveRun (snd (buildComparisonConfigs base))"
| "arm_job_of (CompareHistorical a b) ArmA = StoredRun a"
| "arm_job_of (CompareHistorical a b) ArmB = StoredRun b"

definition running_arms :: "comparison \<Rightarrow> arm set" where
  "running_arms s = (if cp_armA s = ArmRunning then {ArmA} else {}) \<union> (if cp_armB s = ArmRunning then {ArmB} else {})"

definition settle_arm :: "comparison \<Rightarrow> arm \<Rightarrow> arm_result \<Rightarrow> comparison" where
  "settle_arm s a result =
     (let t = applyResult s a result in if running_arms t = {} then t\<lparr>cp_running := False\<rparr> else t)"

lemma next_arm_settled [simp]: "next_arm r \<noteq> ArmRunning"
  by (cases r) auto

lemma running_arms_apply: "a \<in> running_arms s \<Longrightarrow> running_arms (applyResult s a r) = running_arms s - {a}"
  by (cases a) (auto simp: running_arms_def split: if_splits)

lemma running_arms_flag [simp]: "running_arms (s\<lparr>cp_running := x\<rparr>) = running_arms s"
  by (simp add: running_arms_def)

lemma applyResult_running [simp]: "cp_running (applyResult s a r) = cp_running s"
  by (cases a) simp_all

interpretation comparison: two_arms cp_running running_arms launch_comparison settle_arm
  by unfold_locales
     (auto simp: launch_comparison_def settle_arm_def Let_def running_arms_apply, auto simp: running_arms_def)

lemma comparison_simps:
  "cp_armA (settle_arm s ArmA r) = next_arm r" "cp_armB (settle_arm s ArmA r) = cp_armB s"
  "cp_armB (settle_arm s ArmB r) = next_arm r" "cp_armA (settle_arm s ArmB r) = cp_armA s"
  by (simp_all add: settle_arm_def Let_def)

text \<open>C38. A comparison in progress cannot be disturbed: in every state the hook can reach the re-entrancy
  guard is set exactly while an arm is running, a launch then changes nothing, and once both arms
  have reported, in either order, each shows its own result and a new comparison can start.\<close>

theorem comparison_single_flight:
  assumes "comparison.reached initial_comparison s"
  shows "(cp_running s \<longleftrightarrow> cp_armA s = ArmRunning \<or> cp_armB s = ArmRunning) \<and>
    (if cp_running s then launch_comparison s rq = s
     else let t = launch_comparison s rq;
              ab = settle_arm (settle_arm t ArmA ra) ArmB rb; ba = settle_arm (settle_arm t ArmB rb) ArmA ra
          in ab = ba \<and> cp_armA ab = next_arm ra \<and> cp_armB ab = next_arm rb \<and> \<not> cp_running ab)"
proof -
  have "cp_running s \<longleftrightarrow> running_arms s \<noteq> {}"
    by (rule comparison.busy_iff_open[OF assms]) (simp_all add: initial_comparison_def running_arms_def)
  moreover have "settle_arm (settle_arm t ArmA ra) ArmB rb = settle_arm (settle_arm t ArmB rb) ArmA ra" for t
    by (auto simp: settle_arm_def Let_def running_arms_def split: if_splits)
  moreover have "\<not> cp_running s \<Longrightarrow> \<not> cp_running (settle_arm (settle_arm (launch_comparison s rq) ArmA ra) ArmB rb)"
    by (rule comparison.both_settle(2)) auto
  ultimately show ?thesis
    by (auto simp: Let_def running_arms_def comparison.launch_busy comparison_simps split: if_splits)
qed

theorem comparison_single_flight_witness:
  "let s = launch_comparison initial_comparison (RunComparison []) in
     launch_comparison s (CompareHistorical ''a'' ''b'') = s \<and> cp_running s"
proof -
  let ?s = "launch_comparison initial_comparison (RunComparison [])"
  have r: "comparison.reached initial_comparison ?s"
    by (rule comparison.launched[OF comparison.start])
  have "cp_running ?s" by (simp add: launch_comparison_def initial_comparison_def)
  with comparison_single_flight[OF r, where rq = "CompareHistorical ''a'' ''b''"] show ?thesis by (simp add: Let_def)
qed

section \<open>\<open>useFixTrial\<close>\<close>

datatype trial_arm = TrialIdle | TrialRunning | TrialDone metrics_response string | TrialError string

record fix_trial =
  ft_diffKey :: "string option"
  ft_before :: trial_arm
  ft_after :: trial_arm
  ft_runningRef :: bool
  ft_running :: bool

definition initial_trial :: fix_trial where
  "initial_trial = \<lparr>ft_diffKey = None, ft_before = TrialIdle, ft_after = TrialIdle, ft_runningRef = False, ft_running = False\<rparr>"

text \<open>\<open>JSON.stringify\<close> is an argument.\<close>

definition validate :: "(json_object \<Rightarrow> string) \<Rightarrow> fix_trial \<Rightarrow> experiment_config \<times> json_object \<Rightarrow> fix_trial" where
  "validate stringify s rq = (if ft_runningRef s then s
     else s\<lparr>ft_runningRef := True, ft_running := True, ft_diffKey := Some (stringify (snd rq)),
            ft_before := TrialRunning, ft_after := TrialRunning\<rparr>)"

text \<open>The configurations of the two arms of a trial.\<close>

definition remediated :: "experiment_config \<Rightarrow> json_object \<Rightarrow> experiment_config" where
  "remediated baseConfig configDiff = obj_spread baseConfig configDiff"

fun trial_config :: "experiment_config \<times> json_object \<Rightarrow> arm \<Rightarrow> experiment_config" where
  "trial_config (base, diff) ArmA = base"
| "trial_config (base, diff) ArmB = remediated base diff"

fun trial_result :: "run_error + run_result \<Rightarrow> trial_arm" where
  "trial_result (Inr r) = TrialDone (rr_metrics r) (rr_experimentId r)"
| "trial_result (Inl e) = TrialError (run_error_message e)"

fun set_trial :: "fix_trial \<Rightarrow> arm \<Rightarrow> trial_arm \<Rightarrow> fix_trial" where
  "set_trial s ArmA v = s\<lparr>ft_before := v\<rparr>"
| "set_trial s ArmB v = s\<lparr>ft_after := v\<rparr>"

definition trial_arms :: "fix_trial \<Rightarrow> arm set" where
  "trial_arms s = (if ft_before s = TrialRunning then {ArmA} else {}) \<union> (if ft_after s = TrialRunning then {ArmB} else {})"

definition settle_trial :: "fix_trial \<Rightarrow> arm \<Rightarrow> run_error + run_result \<Rightarrow> fix_trial" where
  "settle_trial s a outcome =
     (let t = set_trial s a (trial_result outcome)
      in if trial_arms t = {} then t\<lparr>ft_runningRef := False, ft_running := False\<rparr> else t)"

lemma trial_result_settled [simp]: "trial_result r \<noteq> TrialRunning"
  by (cases r) auto

lemma trial_arms_set: "a \<in> trial_arms s \<Longrightarrow> trial_arms (set_trial s a (trial_result r)) = trial_arms s - {a}"
  by (cases a) (auto simp: trial_arms_def split: if_splits)

lemma set_trial_flags [simp]:
  "ft_runningRef (set_trial s a v) = ft_runningRef s" "ft_running (set_trial s a v) = ft_running s"
  "ft_diffKey (set_trial s a v) = ft_diffKey s"
  by (cases a; simp)+

lemma trial_arms_flags [simp]: "trial_arms (s\<lparr>ft_runningRef := x, ft_running := y\<rparr>) = trial_arms s"
  by (simp add: trial_arms_def)

interpretation trial: two_arms ft_runningRef trial_arms "validate stringify" settle_trial for stringify
  by unfold_locales
     (auto simp: validate_def settle_trial_def Let_def trial_arms_set, auto simp: trial_arms_def)

text \<open>The remediated configuration is the base with exactly the fields of the recommendation replaced or
  added.\<close>

theorem remediated_is_patch:
  assumes "distinct (map_keys configDiff)"
  shows "map_get (remediated baseConfig configDiff) k =
    (case map_get configDiff k of Some v \<Rightarrow> Some v | None \<Rightarrow> map_get baseConfig k)"
  unfolding remediated_def obj_spread_get[OF assms] by (cases "map_get configDiff k") auto

theorem remediated_is_patch_witness:
  "map_get (remediated [(''defense_enabled'', JBool False), (''seed'', JNum (Fin 7))] [(''defense_enabled'', JBool True)]) ''seed''
     = Some (JNum (Fin 7))"
  by (subst remediated_is_patch) simp_all

text \<open>A fix trial in progress cannot be disturbed either, and a failed arm does not hide the other's
  result.\<close>

theorem fix_trial_single_flight:
  assumes "trial.reached stringify initial_trial s"
  shows "(ft_runningRef s \<longleftrightarrow> ft_before s = TrialRunning \<or> ft_after s = TrialRunning) \<and>
    (if ft_runningRef s then validate stringify s rq = s
     else let t = validate stringify s rq; u = settle_trial (settle_trial t ArmA ra) ArmB rb
          in settle_trial (settle_trial t ArmB rb) ArmA ra = u \<and> ft_before u = trial_result ra \<and>
             ft_after u = trial_result rb \<and> ft_diffKey u = Some (stringify (snd rq)) \<and> \<not> ft_runningRef u)"
proof -
  have "ft_runningRef s \<longleftrightarrow> trial_arms s \<noteq> {}"
    by (rule trial.busy_iff_open[OF assms]) (simp_all add: initial_trial_def trial_arms_def)
  moreover have "\<not> ft_runningRef s \<Longrightarrow>
      \<not> ft_runningRef (settle_trial (settle_trial (validate stringify s rq) ArmA ra) ArmB rb)"
    by (rule trial.both_settle(2)) auto
  moreover have "settle_trial (settle_trial t ArmB rb) ArmA ra = settle_trial (settle_trial t ArmA ra) ArmB rb" for t
    by (auto simp: settle_trial_def Let_def trial_arms_def split: if_splits)
  ultimately show ?thesis
    by (auto simp: trial_arms_def trial.launch_busy settle_trial_def validate_def Let_def split: if_splits)
qed

theorem fix_trial_single_flight_witness:
  "ft_before (settle_trial (settle_trial (validate (\<lambda>_. ''d'') initial_trial ([], [])) ArmA (Inl (CallFailed ''x''))) ArmB (Inl Aborted))
     = TrialError ''x''"
  using fix_trial_single_flight[OF trial.start, where rq = "([], [])" and ra = "Inl (CallFailed ''x'')" and rb = "Inl Aborted"
      and stringify = "\<lambda>_. ''d''"]
  by (simp add: initial_trial_def Let_def)

end
