(* ===== verification/Outbreak.thy ===== *)
theory Outbreak
  imports Stream_Reducer
begin

text \<open>
  The outbreak curve: \<open>frontend/src/lib/stream/useOutbreakSeries.ts\<close>, which samples the rendered states
  of the stream, and \<open>frontend/src/components/insights/OutbreakChart.tsx\<close>, which draws the samples. The
  hook's effect is a step per committed state. Coordinates are rationals; a path of the chart is the
  list of its commands, whose printing as text is left out.
\<close>

section \<open>Sampling\<close>

record outbreak_sample =
  ob_tick :: int
  ob_healthy :: nat
  ob_compromised :: nat
  ob_quarantined :: nat
  ob_total :: nat

definition MAX_SAMPLES :: nat where
  "MAX_SAMPLES = 2000"

record outbreak_hook =
  oh_series :: "outbreak_sample list"
  oh_lastTick :: int
  oh_experimentId :: "string option"

definition initial_outbreak :: outbreak_hook where
  "initial_outbreak = \<lparr>oh_series = [], oh_lastTick = -1, oh_experimentId = None\<rparr>"

definition sample_of :: "graph_state \<Rightarrow> outbreak_sample" where
  "sample_of g = (let metrics = selectMetrics g in
     \<lparr>ob_tick = gs_tick g, ob_healthy = sm_healthy metrics, ob_compromised = sm_compromised metrics,
      ob_quarantined = sm_quarantined metrics, ob_total = sm_total metrics\<rparr>)"

definition outbreak_step :: "outbreak_hook \<Rightarrow> graph_state \<Rightarrow> outbreak_hook" where
  "outbreak_step h g =
     (if gs_experimentId g \<noteq> oh_experimentId h then
        \<lparr>oh_series = [], oh_lastTick = -1, oh_experimentId = gs_experimentId g\<rparr>
      else if gs_nodes g = [] then h
      else if gs_tick g = oh_lastTick h then h
      else let base = (if gs_tick g < oh_lastTick h then filter (\<lambda>s. ob_tick s < gs_tick g) (oh_series h)
                       else oh_series h)
           in h\<lparr>oh_series := last_n MAX_SAMPLES (base @ [sample_of g]), oh_lastTick := gs_tick g\<rparr>)"

definition useOutbreakSeries :: "graph_state list \<Rightarrow> outbreak_sample list" where
  "useOutbreakSeries states = oh_series (foldl outbreak_step initial_outbreak states)"

section \<open>The series is ordered and bounded\<close>

definition sample_wf :: "outbreak_sample \<Rightarrow> bool" where
  "sample_wf s \<longleftrightarrow> ob_healthy s + ob_compromised s + ob_quarantined s \<le> ob_total s \<and> 0 < ob_total s"

definition outbreak_inv :: "outbreak_hook \<Rightarrow> bool" where
  "outbreak_inv h \<longleftrightarrow> sorted_wrt (\<lambda>a b. ob_tick a < ob_tick b) (oh_series h) \<and>
     (\<forall>s \<in> set (oh_series h). ob_tick s \<le> oh_lastTick h \<and> sample_wf s) \<and> length (oh_series h) \<le> MAX_SAMPLES"

lemma sample_of_wf: "gs_nodes g \<noteq> [] \<Longrightarrow> sample_wf (sample_of g)"
  using selectMetrics_counts[of g] length_filter_states[of "map_values (gs_nodes g)"]
  by (auto simp: sample_wf_def sample_of_def Let_def)

lemma sorted_wrt_drop: "sorted_wrt R xs \<Longrightarrow> sorted_wrt R (drop n xs)"
  by (metis append_take_drop_id sorted_wrt_append)

lemma sorted_wrt_last_n: "sorted_wrt R xs \<Longrightarrow> sorted_wrt R (last_n n xs)"
  by (simp add: last_n_def sorted_wrt_drop)

lemma outbreak_inv_snoc:
  assumes "sorted_wrt (\<lambda>a b. ob_tick a < ob_tick b) base" and "\<forall>s \<in> set base. sample_wf s \<and> ob_tick s < gs_tick g"
    and "gs_nodes g \<noteq> []"
  shows "outbreak_inv (h\<lparr>oh_series := last_n MAX_SAMPLES (base @ [sample_of g]), oh_lastTick := gs_tick g\<rparr>)"
proof -
  let ?xs = "base @ [sample_of g]"
  have tick: "ob_tick (sample_of g) = gs_tick g" by (simp add: sample_of_def Let_def)
  have "sorted_wrt (\<lambda>a b. ob_tick a < ob_tick b) ?xs" using assms(1,2) by (simp add: sorted_wrt_append tick)
  moreover have "\<forall>s \<in> set ?xs. ob_tick s \<le> gs_tick g \<and> sample_wf s"
    using assms(2) sample_of_wf[OF assms(3)] by (auto simp: tick)
  ultimately show ?thesis
    using sorted_wrt_last_n[of _ ?xs MAX_SAMPLES] set_last_n[of MAX_SAMPLES ?xs]
    by (auto simp: outbreak_inv_def)
qed

lemma outbreak_inv_step:
  assumes inv: "outbreak_inv h"
  shows "outbreak_inv (outbreak_step h g)"
proof (cases "gs_experimentId g \<noteq> oh_experimentId h \<or> gs_nodes g = [] \<or> gs_tick g = oh_lastTick h")
  case True
  then show ?thesis using inv by (auto simp: outbreak_step_def outbreak_inv_def)
next
  case False
  then have nodes: "gs_nodes g \<noteq> []" and tick: "gs_tick g \<noteq> oh_lastTick h" by simp_all
  obtain base where base: "base = (if gs_tick g < oh_lastTick h then filter (\<lambda>s. ob_tick s < gs_tick g) (oh_series h) else oh_series h)"
    by simp
  have step: "outbreak_step h g = h\<lparr>oh_series := last_n MAX_SAMPLES (base @ [sample_of g]), oh_lastTick := gs_tick g\<rparr>"
    using False by (simp add: outbreak_step_def Let_def base)
  have sorted: "sorted_wrt (\<lambda>a b. ob_tick a < ob_tick b) base"
    using inv by (simp add: outbreak_inv_def sorted_wrt_filter base)
  have "\<forall>s \<in> set base. sample_wf s \<and> ob_tick s < gs_tick g"
    using inv tick unfolding base outbreak_inv_def by (cases "gs_tick g < oh_lastTick h") fastforce+
  from outbreak_inv_snoc[OF sorted this nodes] show ?thesis unfolding step .
qed

text \<open>C39. Whatever states are rendered, live, replayed or scrubbed back and forth, the series has at most 2000
  samples in strictly increasing tick order, and the counts of a sample fit in its total.\<close>

theorem outbreak_series_ordered:
  "let series = useOutbreakSeries states in
    sorted_wrt (\<lambda>a b. ob_tick a < ob_tick b) series \<and> length series \<le> 2000 \<and>
    list_all (\<lambda>s. ob_healthy s + ob_compromised s + ob_quarantined s \<le> ob_total s \<and> 0 < ob_total s) series"
proof -
  have "outbreak_inv (foldl outbreak_step initial_outbreak states)"
  proof (induction states rule: rev_induct)
    case Nil
    show ?case by (simp add: outbreak_inv_def initial_outbreak_def)
  qed (simp add: outbreak_inv_step)
  then show ?thesis
    by (simp add: useOutbreakSeries_def outbreak_inv_def sample_wf_def MAX_SAMPLES_def list_all_iff Let_def)
qed

section \<open>What the series of a live run holds\<close>

text \<open>Two states of one run whose ticks do not go back: the first of each tick is kept.\<close>

definition has_nodes :: "graph_state \<Rightarrow> bool" where
  "has_nodes g \<longleftrightarrow> gs_nodes g \<noteq> []"

definition first_states :: "graph_state list \<Rightarrow> graph_state list" where
  "first_states gs = snd (keep_first has_nodes gs_tick gs)"

lemma first_states_snoc:
  "first_states (gs @ [g]) =
     (if has_nodes g \<and> gs_tick g \<notin> gs_tick ` {x \<in> set gs. has_nodes x} then first_states gs @ [g] else first_states gs)"
  by (simp add: first_states_def keep_first_snoc push_unseen_def keep_first_keys)

lemma Max_tick_snoc:
  assumes "sorted (map gs_tick (gs @ [g]))"
  shows "x \<in> set gs \<Longrightarrow> gs_tick x \<le> gs_tick g"
  using assms by (auto simp: sorted_append)

lemma outbreak_fold_live:
  assumes "\<forall>g \<in> set gs. gs_experimentId g = Some i \<and> 0 \<le> gs_tick g" and "sorted (map gs_tick gs)"
  shows "foldl outbreak_step \<lparr>oh_series = [], oh_lastTick = -1, oh_experimentId = Some i\<rparr> gs =
    \<lparr>oh_series = last_n MAX_SAMPLES (map sample_of (first_states gs)),
     oh_lastTick = (if \<exists>g \<in> set gs. has_nodes g then Max (gs_tick ` {x \<in> set gs. has_nodes x}) else -1),
     oh_experimentId = Some i\<rparr>"
  using assms
proof (induction gs rule: rev_induct)
  case Nil
  show ?case by (simp add: first_states_def keep_first_def)
next
  case (snoc g gs)
  let ?seen = "{x \<in> set gs. has_nodes x}"
  let ?h = "foldl outbreak_step \<lparr>oh_series = [], oh_lastTick = -1, oh_experimentId = Some i\<rparr> gs"
  have IH: "?h = \<lparr>oh_series = last_n MAX_SAMPLES (map sample_of (first_states gs)),
     oh_lastTick = (if \<exists>g \<in> set gs. has_nodes g then Max (gs_tick ` ?seen) else -1), oh_experimentId = Some i\<rparr>"
    using snoc by (simp add: sorted_append)
  have fin: "finite (gs_tick ` ?seen)" by simp
  have le: "\<And>x. x \<in> set gs \<Longrightarrow> gs_tick x \<le> gs_tick g" using Max_tick_snoc[OF snoc.prems(2)] by blast
  have g: "gs_experimentId g = Some i" "0 \<le> gs_tick g" using snoc.prems by simp_all
  show ?case
  proof (cases "has_nodes g")
    case False
    then have "outbreak_step ?h g = ?h" using g by (simp add: IH outbreak_step_def has_nodes_def)
    moreover have "{x \<in> set (gs @ [g]). has_nodes x} = ?seen" using False by auto
    ultimately show ?thesis using False by (simp add: IH first_states_snoc)
  next
    case True
    have Max: "Max (gs_tick ` {x \<in> set (gs @ [g]). has_nodes x}) = gs_tick g"
      using True le by (intro Max_eqI) auto
    have last: "gs_tick g \<in> gs_tick ` ?seen \<longleftrightarrow> gs_tick g = oh_lastTick ?h"
    proof (cases "?seen = {}")
      case True
      then show ?thesis using g by (auto simp: IH)
    next
      case False
      then have ex: "\<exists>x \<in> set gs. has_nodes x" by auto
      have mem: "Max (gs_tick ` ?seen) \<in> gs_tick ` ?seen" using False by (intro Max_in) auto
      have ge: "gs_tick g \<in> gs_tick ` ?seen \<Longrightarrow> gs_tick g \<le> Max (gs_tick ` ?seen)" using fin by (intro Max_ge)
      have "Max (gs_tick ` ?seen) \<le> gs_tick g" using False le by (subst Max_le_iff) auto
      with mem ge have "gs_tick g \<in> gs_tick ` ?seen \<longleftrightarrow> gs_tick g = Max (gs_tick ` ?seen)" by (metis antisym)
      then show ?thesis using ex by (simp add: IH)
    qed
    have notback: "\<not> gs_tick g < oh_lastTick ?h"
      using g le by (auto simp: IH not_less intro: Max.boundedI)
    show ?thesis
    proof (cases "gs_tick g = oh_lastTick ?h")
      case True
      then have "outbreak_step ?h g = ?h" using g by (simp add: outbreak_step_def IH)
      moreover have "first_states (gs @ [g]) = first_states gs" using True last by (simp add: first_states_snoc)
      moreover have "oh_lastTick ?h = gs_tick g" using True by simp
      ultimately show ?thesis using \<open>has_nodes g\<close> Max IH by simp
    next
      case False
      then have "outbreak_step ?h g = ?h\<lparr>oh_series := last_n MAX_SAMPLES (oh_series ?h @ [sample_of g]), oh_lastTick := gs_tick g\<rparr>"
        using g notback \<open>has_nodes g\<close> by (simp add: outbreak_step_def IH has_nodes_def)
      moreover have "first_states (gs @ [g]) = first_states gs @ [g]" using False last \<open>has_nodes g\<close> by (simp add: first_states_snoc)
      ultimately show ?thesis using \<open>has_nodes g\<close> Max by (simp add: IH last_n_append_last_n)
    qed
  qed
qed

text \<open>The curve of a run observed live is, up to its cap, the list of the first rendered state of each
  tick: what the later events of a tick do to the fleet appears only in the sample of the next tick.
  The first state of the run, which carries the new id, is not sampled at all.\<close>

theorem outbreak_series_first_states:
  assumes "gs_experimentId g = Some i" and "\<forall>x \<in> set gs. gs_experimentId x = Some i \<and> 0 \<le> gs_tick x"
    and "sorted (map gs_tick gs)"
  shows "useOutbreakSeries (g # gs) = last_n 2000 (map sample_of (first_states gs))"
proof -
  have "outbreak_step initial_outbreak g = \<lparr>oh_series = [], oh_lastTick = -1, oh_experimentId = Some i\<rparr>"
    using assms(1) by (simp add: outbreak_step_def initial_outbreak_def)
  then show ?thesis
    using outbreak_fold_live[OF assms(2,3)] by (simp add: useOutbreakSeries_def MAX_SAMPLES_def)
qed

definition small_fleet :: "int \<Rightarrow> security_state \<Rightarrow> graph_state" where
  "small_fleet tick st = initialGraphState\<lparr>gs_experimentId := Some ''r'', gs_tick := tick,
     gs_nodes := [(''n'', \<lparr>nv_id = ''n'', nv_software_type = ''x'', nv_security_state = st, nv_compromised_by = None,
        nv_tick_compromised = None, nv_agent_kind = Simulated\<rparr>)]\<rparr>"

theorem outbreak_series_first_states_witness:
  "useOutbreakSeries [small_fleet 0 Healthy, small_fleet 1 Healthy, small_fleet 1 Compromised] =
     [\<lparr>ob_tick = 1, ob_healthy = 1, ob_compromised = 0, ob_quarantined = 0, ob_total = 1\<rparr>]"
proof -
  have "useOutbreakSeries (small_fleet 0 Healthy # [small_fleet 1 Healthy, small_fleet 1 Compromised]) =
      last_n 2000 (map sample_of (first_states [small_fleet 1 Healthy, small_fleet 1 Compromised]))"
    by (rule outbreak_series_first_states[where i = "''r''"]) (simp_all add: small_fleet_def)
  then show ?thesis
    by (simp add: first_states_def keep_first_def push_unseen_def has_nodes_def small_fleet_def sample_of_def
        selectMetrics_def Let_def)
qed

end
