(* ===== verification/Outbreak_Chart.thy ===== *)
theory Outbreak_Chart
  imports Outbreak Vocabulary
begin

text \<open>
  The geometry of \<open>frontend/src/components/insights/OutbreakChart.tsx\<close>: scales, the two filled bands,
  the snapping of the pointer, the tooltip, and all that is drawn or read out. Sizes and coordinates are
  rationals; a path is the list of its commands. Styles are not modelled.
\<close>

section \<open>Scales and points\<close>

definition PAD_top :: rat where "PAD_top = 10"
definition PAD_right :: rat where "PAD_right = 46"
definition PAD_bottom :: rat where "PAD_bottom = 18"
definition PAD_left :: rat where "PAD_left = 30"
definition BAND_GAP :: rat where "BAND_GAP = 2"

definition SERIES :: "(string \<times> string) list" where
  "SERIES = [(''Compromised'', SEVERITY_HEX SevCritical), (''Quarantined'', SEVERITY_HEX SevContained)]"

definition inner_width :: "rat \<Rightarrow> rat" where
  "inner_width width = max 0 (width - PAD_left - PAD_right)"

definition inner_height :: "rat \<Rightarrow> rat" where
  "inner_height height = max 0 (height - PAD_top - PAD_bottom)"

definition chart_total :: "outbreak_sample list \<Rightarrow> nat" where
  "chart_total series = (if series \<noteq> [] then ob_total (last series) else 0)"

definition chart_lastTick :: "outbreak_sample list \<Rightarrow> int" where
  "chart_lastTick series = (if series \<noteq> [] then ob_tick (last series) else 0)"

definition chart_tickSpan :: "outbreak_sample list \<Rightarrow> int" where
  "chart_tickSpan series = max (chart_lastTick series) 8"

record chart_point =
  cq_sample :: outbreak_sample
  cq_x :: rat
  cq_yCompromised :: rat
  cq_yStacked :: rat

datatype path_cmd = MoveTo rat rat | LineTo rat rat | ClosePath

record chart_geometry =
  cg_points :: "chart_point list"
  cg_compromisedPath :: "path_cmd list"
  cg_quarantinedPath :: "path_cmd list"
  cg_baseline :: rat

text \<open>\<open>Math.round(value * 10) / 10\<close>; \<open>Math.round\<close> rounds halves up.\<close>

definition round1 :: "rat \<Rightarrow> rat" where
  "round1 v = of_int \<lfloor>v * 10 + 1 / 2\<rfloor> / 10"

fun polyline :: "bool \<Rightarrow> (rat \<times> rat) list \<Rightarrow> path_cmd list" where
  "polyline first [] = []"
| "polyline first ((x, y) # ps) =
     (if first then MoveTo (round1 x) (round1 y) else LineTo (round1 x) (round1 y)) # polyline False ps"

definition area_path :: "(rat \<times> rat) list \<Rightarrow> rat \<Rightarrow> path_cmd list" where
  "area_path points baseline = (if points = [] then [] else
     polyline True points @ [LineTo (round1 (fst (last points))) (round1 baseline),
       LineTo (round1 (fst (hd points))) (round1 baseline), ClosePath])"

definition band_path :: "(rat \<times> rat \<times> rat) list \<Rightarrow> path_cmd list" where
  "band_path points = (if points = [] then [] else
     polyline True (map (\<lambda>(x, t, b). (x, t)) points) @
     polyline False (map (\<lambda>(x, t, b). (x, b)) (rev points)) @ [ClosePath])"

definition x_of :: "rat \<Rightarrow> int \<Rightarrow> int \<Rightarrow> rat" where
  "x_of innerWidth tickSpan tick = PAD_left + (of_int tick / of_int tickSpan) * innerWidth"

definition y_of :: "rat \<Rightarrow> nat \<Rightarrow> rat \<Rightarrow> rat" where
  "y_of innerHeight fleet value = PAD_top + innerHeight - (value / of_nat fleet) * innerHeight"

definition chart_point_of :: "rat \<Rightarrow> rat \<Rightarrow> int \<Rightarrow> nat \<Rightarrow> outbreak_sample \<Rightarrow> chart_point" where
  "chart_point_of innerWidth innerHeight tickSpan fleet s = \<lparr>cq_sample = s, cq_x = x_of innerWidth tickSpan (ob_tick s),
     cq_yCompromised = y_of innerHeight fleet (of_nat (ob_compromised s)),
     cq_yStacked = y_of innerHeight fleet (of_nat (ob_compromised s + ob_quarantined s))\<rparr>"

definition area_edge :: "rat \<Rightarrow> chart_point \<Rightarrow> rat \<times> rat" where
  "area_edge baseline p = (cq_x p, min baseline (cq_yCompromised p + BAND_GAP / 2))"

definition band_edges :: "chart_point \<Rightarrow> rat \<times> rat \<times> rat" where
  "band_edges p = (cq_x p, cq_yStacked p + BAND_GAP / 2, max (cq_yStacked p) (cq_yCompromised p - BAND_GAP / 2))"

definition chart_geometry_of :: "outbreak_sample list \<Rightarrow> rat \<Rightarrow> rat \<Rightarrow> chart_geometry option" where
  "chart_geometry_of series width height =
     (let innerWidth = inner_width width; innerHeight = inner_height height; fleet = chart_total series in
      if series = [] \<or> innerWidth \<le> 0 \<or> innerHeight \<le> 0 \<or> fleet = 0 then None
      else let points = map (chart_point_of innerWidth innerHeight (chart_tickSpan series) fleet) series;
               baseline = PAD_top + innerHeight
           in Some \<lparr>cg_points = points, cg_compromisedPath = area_path (map (area_edge baseline) points) baseline,
                    cg_quarantinedPath = band_path (map band_edges points), cg_baseline = baseline\<rparr>)"

section \<open>Pointer and tooltip\<close>

text \<open>The first of the nearest points: the loop with \<open>best\<close> and \<open>nearest\<close>, \<open>best\<close> starting at infinity.\<close>

fun nearest_from :: "rat \<Rightarrow> nat \<Rightarrow> rat option \<Rightarrow> nat \<Rightarrow> chart_point list \<Rightarrow> nat" where
  "nearest_from x index best nearest [] = nearest"
| "nearest_from x index best nearest (p # ps) =
     (let distance = \<bar>cq_x p - x\<bar>
      in if (case best of None \<Rightarrow> True | Some b \<Rightarrow> distance < b)
         then nearest_from x (Suc index) (Some distance) index ps
         else nearest_from x (Suc index) best nearest ps)"

definition nearest_point :: "chart_geometry \<Rightarrow> rat \<Rightarrow> nat" where
  "nearest_point g x = nearest_from x 0 None 0 (cg_points g)"

definition hovered_point :: "chart_geometry option \<Rightarrow> nat option \<Rightarrow> chart_point option" where
  "hovered_point g hoverIndex = (case (g, hoverIndex) of
      (Some g, Some i) \<Rightarrow> if i < length (cg_points g) then Some (cg_points g ! i) else None
    | _ \<Rightarrow> None)"

definition tooltip_left :: "chart_point \<Rightarrow> rat \<Rightarrow> rat" where
  "tooltip_left p width = min (max (cq_x p - 60) 4) (max 4 (width - 130))"

definition grid_line :: "rat \<Rightarrow> rat \<Rightarrow> rat" where
  "grid_line innerHeight fraction = PAD_top + innerHeight * (1 - fraction)"

section \<open>What is drawn\<close>

record chart_hover =
  hv_line :: "rat \<times> rat \<times> rat"
  hv_dots :: "(rat \<times> string) list"

record chart_svg =
  sv_grid :: "rat list"
  sv_paths :: "(path_cmd list \<times> string) list"
  sv_hover :: "chart_hover option"
  sv_axis :: "(rat \<times> rat \<times> string) list"
  sv_labels :: "(rat \<times> rat \<times> nat) list"

record chart_tooltip =
  tt_left :: rat
  tt_tick :: int
  tt_rows :: "(nat \<times> string) list"

datatype chart_view =
    NoProgression string
  | ChartDrawn "chart_svg option" "chart_tooltip option" "(int \<times> nat \<times> nat \<times> nat) list"

definition hover_of :: "chart_geometry \<Rightarrow> chart_point \<Rightarrow> chart_hover" where
  "hover_of g p = \<lparr>hv_line = (cq_x p, PAD_top, cg_baseline g),
     hv_dots = [(cq_yCompromised p, SEVERITY_HEX SevCritical), (cq_yStacked p, SEVERITY_HEX SevContained)]\<rparr>"

text \<open>The current value of each band, on the band, at its right end.\<close>

definition end_labels :: "outbreak_sample list \<Rightarrow> rat \<Rightarrow> chart_geometry \<Rightarrow> (rat \<times> rat \<times> nat) list" where
  "end_labels series height g =
     (let s = last series; x = cq_x (last (cg_points g)) + 6; c = of_nat (ob_compromised s); q = of_nat (ob_quarantined s);
          yOf = y_of (inner_height height) (chart_total series)
      in (if 0 < ob_compromised s then [(x, yOf (c / 2), ob_compromised s)] else []) @
         (if 0 < ob_quarantined s then [(x, yOf (c + q / 2), ob_quarantined s)] else []))"

definition svg_of :: "outbreak_sample list \<Rightarrow> int \<Rightarrow> rat \<Rightarrow> rat \<Rightarrow> chart_point option \<Rightarrow> chart_geometry \<Rightarrow> chart_svg" where
  "svg_of series maxTicks width height hovered g =
     \<lparr>sv_grid = map (grid_line (inner_height height)) [1/4, 1/2, 3/4, 1],
      sv_paths = [(cg_compromisedPath g, SEVERITY_HEX SevCritical), (cg_quarantinedPath g, SEVERITY_HEX SevContained)],
      sv_hover = map_option (hover_of g) hovered,
      sv_axis = [(PAD_left - 6, PAD_top + 4, show_nat (chart_total series)), (PAD_left - 6, cg_baseline g, ''0''),
        (PAD_left + inner_width width, height - 4,
         ''tick '' @ show_int (chart_lastTick series) @ '' of '' @ show_int maxTicks)],
      sv_labels = end_labels series height g\<rparr>"

definition tooltip_of :: "rat \<Rightarrow> chart_point \<Rightarrow> chart_tooltip" where
  "tooltip_of width p = (let s = cq_sample p in \<lparr>tt_left = tooltip_left p width, tt_tick = ob_tick s,
     tt_rows = zip [ob_compromised s, ob_quarantined s] (map fst SERIES) @ [(ob_healthy s, ''Healthy'')]\<rparr>)"

definition OutbreakChart :: "outbreak_sample list \<Rightarrow> int \<Rightarrow> string \<Rightarrow> rat \<Rightarrow> rat \<Rightarrow> nat option \<Rightarrow> chart_view" where
  "OutbreakChart series maxTicks emptyDescription width height hoverIndex =
     (if series = [] \<or> chart_total series = 0 then NoProgression emptyDescription
      else let geometry = chart_geometry_of series width height; hovered = hovered_point geometry hoverIndex
           in ChartDrawn (if 0 < width then map_option (svg_of series maxTicks width height hovered) geometry else None)
                (map_option (tooltip_of width) hovered)
                (map (\<lambda>s. (ob_tick s, ob_compromised s, ob_quarantined s, ob_healthy s)) series))"

definition OutbreakLegend :: "(string \<times> string) list" where
  "OutbreakLegend = SERIES"

section \<open>The points stay inside the plot\<close>

text \<open>Samples as the hook makes them, of a fleet whose size does not change.\<close>

definition plottable :: "outbreak_sample list \<Rightarrow> bool" where
  "plottable series \<longleftrightarrow> sorted_wrt (\<lambda>a b. ob_tick a < ob_tick b) series \<and>
     (\<forall>s \<in> set series. 0 \<le> ob_tick s \<and> sample_wf s \<and> ob_total s = chart_total series)"

lemmas chart_defs = chart_geometry_of_def chart_point_of_def x_of_def y_of_def

lemma sorted_last_greatest:
  "sorted_wrt (\<lambda>a b. ob_tick a < ob_tick b) series \<Longrightarrow> s \<in> set series \<Longrightarrow> ob_tick s \<le> ob_tick (last series)"
  by (induction series rule: rev_induct) (auto simp: sorted_wrt_append intro: less_imp_le)

lemma plottable_tick: "plottable series \<Longrightarrow> s \<in> set series \<Longrightarrow> ob_tick s \<le> chart_tickSpan series"
  using sorted_last_greatest[of series s]
  by (auto simp: plottable_def chart_tickSpan_def chart_lastTick_def)

lemma fraction_le: "0 \<le> a \<Longrightarrow> a \<le> b \<Longrightarrow> 0 \<le> (w::rat) \<Longrightarrow> 0 \<le> a / b * w \<and> a / b * w \<le> w"
  using mult_right_mono[of "a / b" 1 w] by (cases "b = 0") (auto simp: divide_le_eq_1 order_le_less)

lemma chart_point_inside:
  assumes "plottable series" and "s \<in> set series" and "0 \<le> w" and "0 \<le> h"
  shows "let p = chart_point_of w h (chart_tickSpan series) (chart_total series) s in
    PAD_left \<le> cq_x p \<and> cq_x p \<le> PAD_left + w \<and> PAD_top \<le> cq_yStacked p \<and>
    cq_yStacked p \<le> cq_yCompromised p \<and> cq_yCompromised p \<le> PAD_top + h"
proof -
  let ?t = "of_nat (chart_total series) :: rat" and ?c = "of_nat (ob_compromised s) :: rat"
  let ?q = "of_nat (ob_compromised s + ob_quarantined s) :: rat"
  have s: "0 \<le> ob_tick s" "sample_wf s" "ob_total s = chart_total series" using assms(1,2) by (auto simp: plottable_def)
  have x: "0 \<le> of_int (ob_tick s) / of_int (chart_tickSpan series) * w \<and>
      of_int (ob_tick s) / of_int (chart_tickSpan series) * w \<le> w"
    using s plottable_tick[OF assms(1,2)] assms(3) by (intro fraction_le) simp_all
  have "ob_compromised s + ob_quarantined s \<le> chart_total series" using s by (simp add: sample_wf_def)
  then have q: "?q \<le> ?t" unfolding of_nat_le_iff .
  have y: "0 \<le> ?q / ?t * h \<and> ?q / ?t * h \<le> h" using q assms(4) by (intro fraction_le) simp_all
  have "0 \<le> ?c / ?t * h" using assms(4) by simp
  moreover have "?c / ?t * h \<le> ?q / ?t * h" using assms(4) by (intro mult_right_mono divide_right_mono) simp_all
  ultimately show ?thesis using x y by (simp add: chart_point_of_def x_of_def y_of_def Let_def del: of_nat_add)
qed

text \<open>C21. The curve never leaves the plot: for the samples of a fleet of constant size every point lies between
  the axes, the stacked edge is never below the compromised one, and later samples are further right.\<close>

theorem chart_stays_in_plot:
  assumes "plottable series" and "chart_geometry_of series width height = Some g"
  shows "(\<forall>p \<in> set (cg_points g). PAD_left \<le> cq_x p \<and> cq_x p \<le> width - PAD_right \<and>
      PAD_top \<le> cq_yStacked p \<and> cq_yStacked p \<le> cq_yCompromised p \<and> cq_yCompromised p \<le> height - PAD_bottom) \<and>
    map cq_sample (cg_points g) = series \<and> sorted_wrt (\<lambda>p q. cq_x p < cq_x q) (cg_points g)"
proof -
  let ?w = "inner_width width" and ?h = "inner_height height"
  let ?pt = "chart_point_of ?w ?h (chart_tickSpan series) (chart_total series)"
  from assms(2) have pos: "0 < ?w" "0 < ?h" and pts: "cg_points g = map ?pt series"
    by (auto simp: chart_geometry_of_def Let_def split: if_splits)
  have w: "PAD_left + ?w = width - PAD_right" and h: "PAD_top + ?h = height - PAD_bottom"
    using pos by (auto simp: inner_width_def inner_height_def max_def split: if_splits)
  have "\<forall>s \<in> set series. PAD_left \<le> cq_x (?pt s) \<and> cq_x (?pt s) \<le> width - PAD_right \<and>
      PAD_top \<le> cq_yStacked (?pt s) \<and> cq_yStacked (?pt s) \<le> cq_yCompromised (?pt s) \<and>
      cq_yCompromised (?pt s) \<le> height - PAD_bottom"
    using chart_point_inside[OF assms(1)] pos by (simp add: Let_def w[symmetric] h[symmetric])
  moreover have "sorted_wrt (\<lambda>a b. cq_x (?pt a) < cq_x (?pt b)) series"
  proof (rule sorted_wrt_mono_rel)
    show "sorted_wrt (\<lambda>a b. ob_tick a < ob_tick b) series" using assms(1) by (simp add: plottable_def)
    have "0 < chart_tickSpan series" by (simp add: chart_tickSpan_def)
    then show "\<And>a b. ob_tick a < ob_tick b \<Longrightarrow> cq_x (?pt a) < cq_x (?pt b)"
      using pos by (simp add: chart_point_of_def x_of_def divide_strict_right_mono mult_strict_right_mono)
  qed
  moreover have "map cq_sample (map ?pt series) = series" by (simp add: chart_point_of_def comp_def)
  ultimately show ?thesis by (simp add: pts sorted_wrt_map)
qed

definition one_sample :: "outbreak_sample" where
  "one_sample = \<lparr>ob_tick = 4, ob_healthy = 3, ob_compromised = 1, ob_quarantined = 0, ob_total = 4\<rparr>"

theorem chart_stays_in_plot_witness:
  "\<exists>g. chart_geometry_of [one_sample] 176 128 = Some g \<and> (\<forall>p \<in> set (cg_points g). cq_x p \<le> 130)"
proof -
  have pl: "plottable [one_sample]" by (simp add: plottable_def one_sample_def chart_total_def sample_wf_def)
  obtain g where g: "chart_geometry_of [one_sample] 176 128 = Some g"
    by (simp add: chart_geometry_of_def one_sample_def chart_total_def inner_width_def inner_height_def
        PAD_left_def PAD_right_def PAD_top_def PAD_bottom_def Let_def)
  from chart_stays_in_plot[OF pl this] g show ?thesis by (auto simp: PAD_right_def)
qed

text \<open>The thickness of the quarantined band at a sample, in pixels: the height its agents take less the
  gap of two, but never less than minus one. Where nobody is quarantined the two edges are in the
  wrong order, a pixel apart, so the band is painted although it stands for no agent.\<close>

theorem quarantined_band_thickness:
  assumes "p = chart_point_of w h tickSpan fleet s" and "0 < fleet"
  shows "let (x, top, bottom) = band_edges p in
    bottom - top = max (- 1) (of_nat (ob_quarantined s) / of_nat fleet * h - 2) \<and>
    (ob_quarantined s = 0 \<longrightarrow> bottom = top - 1)"
proof -
  have "cq_yCompromised p - cq_yStacked p = of_nat (ob_quarantined s) / of_nat fleet * h"
    using assms by (simp add: chart_point_of_def y_of_def add_divide_distrib distrib_right)
  then show ?thesis
    by (auto simp: band_edges_def BAND_GAP_def max_def)
qed

theorem quarantined_band_thickness_witness:
  "snd (snd (band_edges (chart_point_of 100 100 8 4 one_sample))) =
     fst (snd (band_edges (chart_point_of 100 100 8 4 one_sample))) - 1"
  using quarantined_band_thickness[OF refl, of 4 100 100 8 one_sample]
  by (simp add: one_sample_def split: prod.splits)

section \<open>The nearest sample\<close>

lemma nearest_from_spec:
  assumes "\<And>b. best = Some b \<Longrightarrow> nearest < length pre \<and> b = \<bar>cq_x (pre ! nearest) - x\<bar> \<and>
      (\<forall>j < length pre. b \<le> \<bar>cq_x (pre ! j) - x\<bar>) \<and> (\<forall>j < nearest. b < \<bar>cq_x (pre ! j) - x\<bar>)"
    and "best = None \<Longrightarrow> pre = []" and "pre @ ps \<noteq> []"
  shows "let n = nearest_from x (length pre) best nearest ps in n < length (pre @ ps) \<and>
    (\<forall>j < length (pre @ ps). \<bar>cq_x ((pre @ ps) ! n) - x\<bar> \<le> \<bar>cq_x ((pre @ ps) ! j) - x\<bar>) \<and>
    (\<forall>j < n. \<bar>cq_x ((pre @ ps) ! n) - x\<bar> < \<bar>cq_x ((pre @ ps) ! j) - x\<bar>)"
  using assms
proof (induction ps arbitrary: pre best nearest)
  case Nil
  then show ?case by (cases best) (auto simp: Let_def)
next
  case (Cons p ps)
  let ?d = "\<bar>cq_x p - x\<bar>"
  show ?case
  proof (cases "case best of None \<Rightarrow> True | Some b \<Rightarrow> ?d < b")
    case True
    have "let n = nearest_from x (length (pre @ [p])) (Some ?d) (length pre) ps in n < length ((pre @ [p]) @ ps) \<and>
      (\<forall>j < length ((pre @ [p]) @ ps). \<bar>cq_x (((pre @ [p]) @ ps) ! n) - x\<bar> \<le> \<bar>cq_x (((pre @ [p]) @ ps) ! j) - x\<bar>) \<and>
      (\<forall>j < n. \<bar>cq_x (((pre @ [p]) @ ps) ! n) - x\<bar> < \<bar>cq_x (((pre @ [p]) @ ps) ! j) - x\<bar>)"
    proof (rule Cons.IH)
      fix b assume "Some ?d = Some b"
      then have b: "b = ?d" by simp
      have less: "\<And>j. j < length pre \<Longrightarrow> ?d < \<bar>cq_x (pre ! j) - x\<bar>"
        using True Cons.prems(1,2) by (cases best) (auto intro: less_le_trans)
      show "length pre < length (pre @ [p]) \<and> b = \<bar>cq_x ((pre @ [p]) ! length pre) - x\<bar> \<and>
        (\<forall>j < length (pre @ [p]). b \<le> \<bar>cq_x ((pre @ [p]) ! j) - x\<bar>) \<and>
        (\<forall>j < length pre. b < \<bar>cq_x ((pre @ [p]) ! j) - x\<bar>)"
        using less by (auto simp: b nth_append less_Suc_eq intro: less_imp_le)
    qed simp_all
    then show ?thesis using True by (simp add: Let_def)
  next
    case False
    then obtain b where b: "best = Some b" "b \<le> ?d" by (cases best) auto
    have "let n = nearest_from x (length (pre @ [p])) best nearest ps in n < length ((pre @ [p]) @ ps) \<and>
      (\<forall>j < length ((pre @ [p]) @ ps). \<bar>cq_x (((pre @ [p]) @ ps) ! n) - x\<bar> \<le> \<bar>cq_x (((pre @ [p]) @ ps) ! j) - x\<bar>) \<and>
      (\<forall>j < n. \<bar>cq_x (((pre @ [p]) @ ps) ! n) - x\<bar> < \<bar>cq_x (((pre @ [p]) @ ps) ! j) - x\<bar>)"
    proof (rule Cons.IH)
      fix b' assume "best = Some b'"
      then show "nearest < length (pre @ [p]) \<and> b' = \<bar>cq_x ((pre @ [p]) ! nearest) - x\<bar> \<and>
        (\<forall>j < length (pre @ [p]). b' \<le> \<bar>cq_x ((pre @ [p]) ! j) - x\<bar>) \<and>
        (\<forall>j < nearest. b' < \<bar>cq_x ((pre @ [p]) ! j) - x\<bar>)"
        using Cons.prems(1)[of b'] b by (auto simp: nth_append less_Suc_eq)
    qed (use b in simp_all)
    then show ?thesis using False by (simp add: Let_def)
  qed
qed

text \<open>The pointer snaps to the nearest sample, the earlier one of two equally near.\<close>

theorem hover_snaps_to_nearest:
  assumes "cg_points g \<noteq> []"
  shows "let n = nearest_point g x; d = (\<lambda>i. \<bar>cq_x (cg_points g ! i) - x\<bar>) in
    hovered_point (Some g) (Some n) = Some (cg_points g ! n) \<and> n < length (cg_points g) \<and>
    (\<forall>j < length (cg_points g). d n \<le> d j) \<and> (\<forall>j < n. d n < d j)"
  using nearest_from_spec[of None 0 "[]" x "cg_points g"] assms
  by (simp add: nearest_point_def hovered_point_def Let_def)

theorem hover_snaps_to_nearest_witness:
  "nearest_point \<lparr>cg_points = [chart_point_of 80 100 8 4 one_sample], cg_compromisedPath = [], cg_quarantinedPath = [],
     cg_baseline = 110\<rparr> 500 = 0"
  using hover_snaps_to_nearest[of "\<lparr>cg_points = [chart_point_of 80 100 8 4 one_sample], cg_compromisedPath = [],
     cg_quarantinedPath = [], cg_baseline = 110\<rparr>" 500]
  by (simp add: Let_def)

section \<open>Labels at the end\<close>

text \<open>Every label stands on its own band: beside the last point, the number of compromised agents between the
  baseline and the upper edge of their area, the number of quarantined ones between the two edges of theirs.\<close>

theorem end_labels_on_their_bands:
  assumes "plottable series" and "chart_geometry_of series width height = Some g" and "p = last (cg_points g)"
    and "(x, y, n) \<in> set (end_labels series height g)"
  shows "x = cq_x p + 6 \<and> 0 < n \<and>
    (n = ob_compromised (last series) \<and> cq_yCompromised p \<le> y \<and> y \<le> cg_baseline g \<or>
     n = ob_quarantined (last series) \<and> cq_yStacked p \<le> y \<and> y \<le> cq_yCompromised p)"
proof -
  let ?h = "inner_height height" and ?t = "of_nat (chart_total series) :: rat" and ?s = "last series"
  have ne: "series \<noteq> []" "0 < ?t" "0 < ?h" and base: "cg_baseline g = PAD_top + ?h"
    and pts: "cg_points g = map (chart_point_of (inner_width width) ?h (chart_tickSpan series) (chart_total series)) series"
    using assms(2) by (auto simp: chart_geometry_of_def Let_def split: if_splits)
  have p: "cq_yCompromised p = y_of ?h (chart_total series) (of_nat (ob_compromised ?s))"
    "cq_yStacked p = y_of ?h (chart_total series) (of_nat (ob_compromised ?s) + of_nat (ob_quarantined ?s))"
    using ne(1) by (simp_all add: assms(3) pts last_map chart_point_of_def)
  have mono: "y_of ?h (chart_total series) b \<le> y_of ?h (chart_total series) a" if "a \<le> b" for a b
    using that ne(2,3) by (simp add: y_of_def divide_right_mono mult_right_mono)
  have zero: "y_of ?h (chart_total series) 0 = cg_baseline g" by (simp add: y_of_def base)
  let ?c = "of_nat (ob_compromised ?s) :: rat" and ?q = "of_nat (ob_quarantined ?s) :: rat"
  have "y_of ?h (chart_total series) (?c / 2) \<le> cg_baseline g" using mono[of 0 "?c / 2"] by (simp add: zero)
  then show ?thesis
    using assms(4) mono[of "?c / 2" ?c] mono[of "?c + ?q / 2" "?c + ?q"] mono[of ?c "?c + ?q / 2"]
    by (auto simp: end_labels_def Let_def p assms(3)[symmetric] split: if_splits)
qed

end
