(* ===== verification/Presets.thy ===== *)
theory Presets
  imports Vocabulary Comparison
begin

text \<open>
  \<open>frontend/src/lib/experiment/presets.ts\<close>: the default configuration, the bounds the form mirrors from
  the backend, \<open>clamp\<close>, and the presets; and the field constraints of the backend's own model,
  \<open>ExperimentConfig\<close> in \<open>backend/app/schemas/experiment.py\<close>, which decide whether a configuration is
  accepted. Of the validation only what \<open>Field(ge, le)\<close>, \<open>Literal\<close> and the plain types document is
  modelled: an integer field takes a whole number.
\<close>

section \<open>The default configuration and its bounds\<close>

definition DEFAULT_CONFIG :: experiment_config where
  "DEFAULT_CONFIG = [
     (''seed'', JNum (Fin 42)),
     (''node_count'', JNum (Fin 60)),
     (''edge_density'', JNum (Fin 2)),
     (''software_type_count'', JNum (Fin 3)),
     (''p_same'', JNum (Fin (3 / 20))),
     (''p_cross'', JNum (Fin (3 / 100))),
     (''max_ticks'', JNum (Fin 200)),
     (''detector_sensitivity'', JNum (Fin (1 / 5))),
     (''defense_enabled'', JBool True),
     (''initial_compromised'', JStr ''highest_degree''),
     (''real_agent_count'', JNum (Fin 0)),
     (''model_provider'', JStr ''mock''),
     (''model_name'', JStr ''qwen-mock''),
     (''model_max_tokens'', JNum (Fin 64)),
     (''model_timeout_s'', JNum (Fin 20)),
     (''model_max_retries'', JNum (Fin 1)),
     (''model_max_concurrency'', JNum (Fin 4)),
     (''model_max_requests_per_experiment'', JNum (Fin 500)),
     (''tool_count'', JNum (Fin 0)),
     (''credential_count'', JNum (Fin 0)),
     (''resource_count'', JNum (Fin 0)),
     (''sentinel_count'', JNum (Fin 0)),
     (''active_scenarios'', JArr [JStr ''propagation'', JStr ''prompt_injection'']),
     (''adaptive_detection_threshold'', JNum (Fin (3 / 10))),
     (''false_quarantine_rate'', JNum (Fin 0)),
     (''sentinel_compromise_rate'', JNum (Fin 0)),
     (''attestation_replay_rate'', JNum (Fin 0)),
     (''byzantine_collusion_rate'', JNum (Fin 0))]"

definition BOUNDS :: "(string \<times> rat \<times> rat) list" where
  "BOUNDS = [
     (''node_count'', 25, 100),
     (''edge_density'', 1, 5),
     (''software_type_count'', 1, 5),
     (''p_same'', 0, 1),
     (''p_cross'', 0, 1),
     (''max_ticks'', 1, 2000),
     (''detector_sensitivity'', 0, 1),
     (''real_agent_count'', 0, 20),
     (''tool_count'', 0, 20),
     (''credential_count'', 0, 20),
     (''resource_count'', 0, 20),
     (''sentinel_count'', 0, 5),
     (''adaptive_detection_threshold'', 0, 1),
     (''false_quarantine_rate'', 0, 1),
     (''sentinel_compromise_rate'', 0, 1),
     (''attestation_replay_rate'', 0, 1),
     (''byzantine_collusion_rate'', 0, 1)]"

definition clamp :: "jsnum \<Rightarrow> rat \<Rightarrow> rat \<Rightarrow> jsnum" where
  "clamp value lo hi = (if value = NaN then Fin lo else math_min (Fin hi) (math_max (Fin lo) value))"

section \<open>Presets\<close>

record preset =
  ps_id :: string
  ps_label :: string
  ps_description :: string
  ps_config :: experiment_config

definition PRESETS :: "preset list" where
  "PRESETS = [
     \<lparr>ps_id = ''baseline'', ps_label = ''Baseline propagation'',
       ps_description = ''Homogeneous agent mesh, lateral compromise spread, anomaly-detection defense enabled.'',
       ps_config = DEFAULT_CONFIG\<rparr>,
     \<lparr>ps_id = ''undefended'', ps_label = ''Undefended control'',
       ps_description = (''The same system with the defense switched off '' @ em_dash @ '' the control arm for any defense claim.''),
       ps_config = obj_spread DEFAULT_CONFIG [
         (''defense_enabled'', JBool False),
         (''tool_count'', JNum (Fin 6)),
         (''credential_count'', JNum (Fin 4)),
         (''resource_count'', JNum (Fin 3)),
         (''sentinel_count'', JNum (Fin 2)),
         (''active_scenarios'', JArr [JStr ''propagation''])]\<rparr>,
     \<lparr>ps_id = ''security-plane'', ps_label = ''Security-plane assault'',
       ps_description = ''Tools, credentials and sentinels in play; the attacker subverts a sentinel, replays an attestation, and colludes to exceed credential scope.'',
       ps_config = obj_spread DEFAULT_CONFIG [
         (''max_ticks'', JNum (Fin 120)),
         (''tool_count'', JNum (Fin 6)),
         (''credential_count'', JNum (Fin 4)),
         (''resource_count'', JNum (Fin 3)),
         (''sentinel_count'', JNum (Fin 2)),
         (''sentinel_compromise_rate'', JNum (Fin (2 / 25))),
         (''attestation_replay_rate'', JNum (Fin (1 / 20))),
         (''byzantine_collusion_rate'', JNum (Fin (1 / 20))),
         (''false_quarantine_rate'', JNum (Fin (1 / 20))),
         (''active_scenarios'', JArr [JStr ''propagation'', JStr ''sentinel_compromise'', JStr ''attestation'', JStr ''byzantine_collusion''])]\<rparr>,
     \<lparr>ps_id = ''adaptive'', ps_label = ''Adaptive attacker'',
       ps_description = ''An attacker that watches the quarantine rate each tick and switches between aggressive and stealthy targeting.'',
       ps_config = obj_spread DEFAULT_CONFIG [
         (''seed'', JNum (Fin 7)),
         (''node_count'', JNum (Fin 80)),
         (''max_ticks'', JNum (Fin 150)),
         (''detector_sensitivity'', JNum (Fin (1 / 2))),
         (''tool_count'', JNum (Fin 8)),
         (''credential_count'', JNum (Fin 5)),
         (''resource_count'', JNum (Fin 4)),
         (''sentinel_count'', JNum (Fin 3)),
         (''active_scenarios'', JArr [JStr ''adaptive_attacker''])]\<rparr>]"

section \<open>What the backend accepts\<close>

datatype field_rule = Whole | WholeIn rat rat | NumberIn rat rat | Flag | Text | Texts | OneOf "string list"

text \<open>Each field with its rule, and whether it has a default.\<close>

definition EXPERIMENT_FIELDS :: "(string \<times> field_rule \<times> bool) list" where
  "EXPERIMENT_FIELDS = [
     (''seed'', Whole, False),
     (''node_count'', WholeIn 25 100, True),
     (''edge_density'', WholeIn 1 5, True),
     (''software_type_count'', WholeIn 1 5, True),
     (''p_same'', NumberIn 0 1, True),
     (''p_cross'', NumberIn 0 1, True),
     (''max_ticks'', WholeIn 1 2000, True),
     (''detector_sensitivity'', NumberIn 0 1, True),
     (''defense_enabled'', Flag, True),
     (''initial_compromised'', OneOf [''highest_degree'', ''random_node''], True),
     (''real_agent_count'', WholeIn 0 20, True),
     (''model_provider'', OneOf [''mock'', ''vllm''], True),
     (''model_name'', Text, True),
     (''model_max_tokens'', WholeIn 1 512, True),
     (''model_timeout_s'', NumberIn 1 120, True),
     (''model_max_retries'', WholeIn 0 3, True),
     (''model_max_concurrency'', WholeIn 1 16, True),
     (''model_max_requests_per_experiment'', WholeIn 1 5000, True),
     (''tool_count'', WholeIn 0 20, True),
     (''credential_count'', WholeIn 0 20, True),
     (''resource_count'', WholeIn 0 20, True),
     (''sentinel_count'', WholeIn 0 5, True),
     (''active_scenarios'', Texts, True),
     (''adaptive_detection_threshold'', NumberIn 0 1, True),
     (''false_quarantine_rate'', NumberIn 0 1, True),
     (''sentinel_compromise_rate'', NumberIn 0 1, True),
     (''attestation_replay_rate'', NumberIn 0 1, True),
     (''byzantine_collusion_rate'', NumberIn 0 1, True)]"

fun is_whole :: "jsnum \<Rightarrow> bool" where
  "is_whole (Fin q) = (of_int \<lfloor>q\<rfloor> = q)"
| "is_whole _ = False"

definition number_in :: "jsnum \<Rightarrow> rat \<Rightarrow> rat \<Rightarrow> bool" where
  "number_in v lo hi \<longleftrightarrow> js_le (Fin lo) v \<and> js_le v (Fin hi)"

fun field_accepts :: "field_rule \<Rightarrow> json \<Rightarrow> bool" where
  "field_accepts Whole (JNum v) = is_whole v"
| "field_accepts (WholeIn lo hi) (JNum v) = (is_whole v \<and> number_in v lo hi)"
| "field_accepts (NumberIn lo hi) (JNum v) = number_in v lo hi"
| "field_accepts Flag (JBool b) = True"
| "field_accepts Text (JStr s) = True"
| "field_accepts Texts (JArr xs) = list_all (\<lambda>x. case x of JStr s \<Rightarrow> True | _ \<Rightarrow> False) xs"
| "field_accepts (OneOf vs) (JStr s) = (s \<in> set vs)"
| "field_accepts _ _ = False"

text \<open>A field that is absent takes its default.\<close>

definition field_ok :: "experiment_config \<Rightarrow> string \<times> field_rule \<times> bool \<Rightarrow> bool" where
  "field_ok cfg f = (case f of (key, rule, optional) \<Rightarrow>
     (case map_get cfg key of None \<Rightarrow> optional | Some v \<Rightarrow> field_accepts rule v))"

definition backend_accepts :: "experiment_config \<Rightarrow> bool" where
  "backend_accepts cfg = list_all (field_ok cfg) EXPERIMENT_FIELDS"

section \<open>Properties\<close>

lemma clamp_in:
  assumes "lo \<le> hi"
  shows "number_in (clamp v lo hi) lo hi"
  using math_clamp_range[OF assms, of v] assms by (simp add: number_in_def clamp_def)

lemma clamp_finite: "\<exists>q. clamp v lo hi = Fin q"
  using math_clamp_finite[of v hi lo] by (auto simp: clamp_def)

lemma clamp_id: "number_in v lo hi \<Longrightarrow> clamp v lo hi = v"
  using math_clamp_id[of lo v hi] by (auto simp: number_in_def clamp_def)

text \<open>The bounds the form mirrors are those of the backend: every bounded field is one of the backend's
  and has the same limits there.\<close>

theorem bounds_mirror_backend:
  "list_all (\<lambda>(key, lo, hi). case map_of EXPERIMENT_FIELDS key of
      Some (WholeIn l h, _) \<Rightarrow> l = lo \<and> h = hi
    | Some (NumberIn l h, _) \<Rightarrow> l = lo \<and> h = hi
    | _ \<Rightarrow> False) BOUNDS"
  by code_simp

text \<open>The backend accepts every preset as it is.\<close>

theorem presets_accepted: "list_all (\<lambda>p. backend_accepts (ps_config p)) PRESETS"
  by code_simp

end
