(* ===== verification/Configurator.thy ===== *)
theory Configurator
  imports Presets
begin

text \<open>
  \<open>frontend/src/components/run/RunConfigurator.tsx\<close>: the form that edits a configuration and launches it.
  The draft is the configuration object itself. Each control is data: the key it edits, its texts, and
  when it is shown and disabled; an edit is what its change handler does with the value of the input.
  The layout and styles are not modelled. The form's purpose is stated against the backend: whatever
  is edited, the draft stays one the backend accepts.
\<close>

section \<open>Edits\<close>

text \<open>\<open>Math.trunc\<close>.\<close>

fun math_trunc :: "jsnum \<Rightarrow> jsnum" where
  "math_trunc (Fin q) = Fin (of_int (if 0 \<le> q then \<lfloor>q\<rfloor> else \<lceil>q\<rceil>))"
| "math_trunc v = v"

record configurator =
  cf_draft :: experiment_config
  cf_presetId :: "string option"
  cf_showAdvanced :: bool

definition initial_configurator :: "experiment_config \<Rightarrow> configurator" where
  "initial_configurator initialConfig = \<lparr>cf_draft = initialConfig, cf_presetId = Some ''baseline'', cf_showAdvanced = False\<rparr>"

definition set_field :: "configurator \<Rightarrow> string \<Rightarrow> json \<Rightarrow> configurator" where
  "set_field s key value = s\<lparr>cf_draft := obj_set (cf_draft s) key value, cf_presetId := None\<rparr>"

definition setNumber :: "configurator \<Rightarrow> string \<Rightarrow> jsnum \<Rightarrow> bool \<Rightarrow> configurator" where
  "setNumber s key value whole = (case map_of BOUNDS key of
      Some (lo, hi) \<Rightarrow> set_field s key (JNum (clamp (if whole then math_trunc value else value) lo hi))
    | None \<Rightarrow> s)"

definition draft_scenarios :: "experiment_config \<Rightarrow> string list" where
  "draft_scenarios draft = json_strings (map_get draft ''active_scenarios'')"

definition toggled :: "string list \<Rightarrow> string \<Rightarrow> string list" where
  "toggled current scenario =
     (if scenario \<in> set current then filter (\<lambda>s. s \<noteq> scenario) current
      else filter (\<lambda>s. s \<notin> set (or_default (sc_exclusiveWith (scenarioMeta scenario)) [])) current @ [scenario])"

definition toggleScenario :: "configurator \<Rightarrow> string \<Rightarrow> configurator" where
  "toggleScenario s scenario = s\<lparr>cf_presetId := None,
     cf_draft := obj_set (cf_draft s) ''active_scenarios''
       (JArr (map JStr (toggled (draft_scenarios (cf_draft s)) scenario)))\<rparr>"

definition choose_preset :: "configurator \<Rightarrow> preset \<Rightarrow> configurator" where
  "choose_preset s p = s\<lparr>cf_draft := ps_config p, cf_presetId := Some (ps_id p)\<rparr>"

section \<open>What the form shows\<close>

datatype control_kind = NumberControl bool | SeedControl | SelectControl "(string \<times> string) list" | ToggleControl

record form_control =
  fc_key :: string
  fc_label :: string
  fc_hint :: string
  fc_step :: rat
  fc_kind :: control_kind
  fc_disabled :: bool

definition num_is_zero :: "json option \<Rightarrow> bool" where
  "num_is_zero v = (v = Some (JNum (Fin 0)))"

definition usesAdaptive :: "experiment_config \<Rightarrow> bool" where
  "usesAdaptive draft = (''adaptive_attacker'' \<in> set (draft_scenarios draft))"

definition usesPromptInjection :: "experiment_config \<Rightarrow> bool" where
  "usesPromptInjection draft = (''prompt_injection'' \<in> set (draft_scenarios draft))"

definition usesSentinelCompromise :: "experiment_config \<Rightarrow> bool" where
  "usesSentinelCompromise draft = (''sentinel_compromise'' \<in> set (draft_scenarios draft))"

definition usesAttestation :: "experiment_config \<Rightarrow> bool" where
  "usesAttestation draft = (''attestation'' \<in> set (draft_scenarios draft))"

definition usesCollusion :: "experiment_config \<Rightarrow> bool" where
  "usesCollusion draft = (''byzantine_collusion'' \<in> set (draft_scenarios draft))"

definition needsSentinels :: "experiment_config \<Rightarrow> bool" where
  "needsSentinels draft = ((usesSentinelCompromise draft \<or> usesAttestation draft) \<and> num_is_zero (map_get draft ''sentinel_count''))"

definition needsCredentials :: "experiment_config \<Rightarrow> bool" where
  "needsCredentials draft = (usesCollusion draft \<and> num_is_zero (map_get draft ''credential_count''))"

definition needsRealAgents :: "experiment_config \<Rightarrow> bool" where
  "needsRealAgents draft = (usesPromptInjection draft \<and> num_is_zero (map_get draft ''real_agent_count''))"

definition warns_vllm :: "experiment_config \<Rightarrow> bool" where
  "warns_vllm draft = (usesPromptInjection draft \<and>
     (case map_get draft ''real_agent_count'' of Some (JNum v) \<Rightarrow> js_less (Fin 0) v | _ \<Rightarrow> False) \<and>
     map_get draft ''model_provider'' = Some (JStr ''vllm''))"

definition system_controls :: "experiment_config \<Rightarrow> bool \<Rightarrow> form_control list" where
  "system_controls draft disabled = [
     \<lparr>fc_key = ''node_count'', fc_label = ''Agents'', fc_hint = (''node_count '' @ [CHR 0xC2, CHR 0xB7] @ '' 25'' @ [CHR 0xE2, CHR 0x80, CHR 0x93] @ ''100''), fc_step = 1, fc_kind = NumberControl True, fc_disabled = disabled\<rparr>,
     \<lparr>fc_key = ''edge_density'', fc_label = ''Edge density'', fc_hint = (''edge_density '' @ [CHR 0xC2, CHR 0xB7] @ '' 1'' @ [CHR 0xE2, CHR 0x80, CHR 0x93] @ ''5''), fc_step = 1, fc_kind = NumberControl True, fc_disabled = disabled\<rparr>,
     \<lparr>fc_key = ''software_type_count'', fc_label = ''Software diversity'', fc_hint = (''software_type_count '' @ [CHR 0xC2, CHR 0xB7] @ '' 1'' @ [CHR 0xE2, CHR 0x80, CHR 0x93] @ ''5''), fc_step = 1, fc_kind = NumberControl True, fc_disabled = disabled\<rparr>,
     \<lparr>fc_key = ''initial_compromised'', fc_label = ''Initial foothold'', fc_hint = ''initial_compromised'', fc_step = 1, fc_kind = SelectControl [(''highest_degree'', ''Highest-degree agent''), (''random_node'', ''Random agent'')], fc_disabled = disabled\<rparr>,
     \<lparr>fc_key = ''seed'', fc_label = ''Seed'', fc_hint = (''seed '' @ [CHR 0xC2, CHR 0xB7] @ '' determinism key''), fc_step = 1, fc_kind = SeedControl, fc_disabled = disabled\<rparr>]"

definition surface_controls :: "experiment_config \<Rightarrow> bool \<Rightarrow> form_control list" where
  "surface_controls draft disabled = [
     \<lparr>fc_key = ''tool_count'', fc_label = ''Tools'', fc_hint = (''tool_count '' @ [CHR 0xC2, CHR 0xB7] @ '' 0'' @ [CHR 0xE2, CHR 0x80, CHR 0x93] @ ''20''), fc_step = 1, fc_kind = NumberControl True, fc_disabled = disabled\<rparr>,
     \<lparr>fc_key = ''credential_count'', fc_label = ''Credentials'', fc_hint = (''credential_count '' @ [CHR 0xC2, CHR 0xB7] @ '' 0'' @ [CHR 0xE2, CHR 0x80, CHR 0x93] @ ''20''), fc_step = 1, fc_kind = NumberControl True, fc_disabled = disabled\<rparr>,
     \<lparr>fc_key = ''resource_count'', fc_label = ''Resources'', fc_hint = (''resource_count '' @ [CHR 0xC2, CHR 0xB7] @ '' 0'' @ [CHR 0xE2, CHR 0x80, CHR 0x93] @ ''20''), fc_step = 1, fc_kind = NumberControl True, fc_disabled = disabled\<rparr>,
     \<lparr>fc_key = ''sentinel_count'', fc_label = ''Sentinels'', fc_hint = (''sentinel_count '' @ [CHR 0xC2, CHR 0xB7] @ '' 0'' @ [CHR 0xE2, CHR 0x80, CHR 0x93] @ ''5''), fc_step = 1, fc_kind = NumberControl True, fc_disabled = disabled\<rparr>]"

definition scenario_controls :: "experiment_config \<Rightarrow> bool \<Rightarrow> form_control list" where
  "scenario_controls draft disabled = (if \<not> (usesAdaptive draft \<or> usesPromptInjection draft \<or> usesSentinelCompromise draft \<or>
       usesAttestation draft \<or> usesCollusion draft) then [] else
     (if usesAdaptive draft then [
     \<lparr>fc_key = ''adaptive_detection_threshold'', fc_label = ''Adaptive threshold'', fc_hint = ''adaptive_detection_threshold'', fc_step = 1 / 20, fc_kind = NumberControl False, fc_disabled = disabled\<rparr>] else [
     \<lparr>fc_key = ''p_same'', fc_label = ''Same-stack rate'', fc_hint = (''p_same '' @ [CHR 0xC2, CHR 0xB7] @ '' 0'' @ [CHR 0xE2, CHR 0x80, CHR 0x93] @ ''1''), fc_step = 1 / 100, fc_kind = NumberControl False, fc_disabled = disabled\<rparr>,
     \<lparr>fc_key = ''p_cross'', fc_label = ''Cross-stack rate'', fc_hint = (''p_cross '' @ [CHR 0xC2, CHR 0xB7] @ '' 0'' @ [CHR 0xE2, CHR 0x80, CHR 0x93] @ ''1''), fc_step = 1 / 100, fc_kind = NumberControl False, fc_disabled = disabled\<rparr>]) @
     (if usesPromptInjection draft then [
     \<lparr>fc_key = ''real_agent_count'', fc_label = ''LLM-backed agents'', fc_hint = (''real_agent_count '' @ [CHR 0xC2, CHR 0xB7] @ '' 0'' @ [CHR 0xE2, CHR 0x80, CHR 0x93] @ ''20''), fc_step = 1, fc_kind = NumberControl True, fc_disabled = disabled\<rparr>,
     \<lparr>fc_key = ''model_provider'', fc_label = ''Model provider'', fc_hint = ''model_provider'', fc_step = 1, fc_kind = SelectControl [(''mock'', ''Mock (deterministic)''), (''vllm'', ''vLLM endpoint'')], fc_disabled = (disabled \<or> num_is_zero (map_get draft ''real_agent_count''))\<rparr>] else []) @
     (if usesSentinelCompromise draft then [
     \<lparr>fc_key = ''sentinel_compromise_rate'', fc_label = ''Sentinel-subversion rate'', fc_hint = ''sentinel_compromise_rate'', fc_step = 1 / 100, fc_kind = NumberControl False, fc_disabled = disabled\<rparr>] else []) @
     (if usesAttestation draft then [
     \<lparr>fc_key = ''attestation_replay_rate'', fc_label = ''Attestation-replay rate'', fc_hint = ''attestation_replay_rate'', fc_step = 1 / 100, fc_kind = NumberControl False, fc_disabled = disabled\<rparr>] else []) @
     (if usesCollusion draft then [
     \<lparr>fc_key = ''byzantine_collusion_rate'', fc_label = ''Collusion rate'', fc_hint = ''byzantine_collusion_rate'', fc_step = 1 / 100, fc_kind = NumberControl False, fc_disabled = disabled\<rparr>] else []))"

definition defense_controls :: "experiment_config \<Rightarrow> bool \<Rightarrow> form_control list" where
  "defense_controls draft disabled = [
     \<lparr>fc_key = ''defense_enabled'', fc_label = ''Anomaly detection & quarantine'', fc_hint = ''defense_enabled'', fc_step = 1, fc_kind = ToggleControl, fc_disabled = disabled\<rparr>,
     \<lparr>fc_key = ''detector_sensitivity'', fc_label = ''Detector sensitivity'', fc_hint = (''detector_sensitivity '' @ [CHR 0xC2, CHR 0xB7] @ '' 0'' @ [CHR 0xE2, CHR 0x80, CHR 0x93] @ ''1''), fc_step = 1 / 20, fc_kind = NumberControl False, fc_disabled = (disabled \<or> map_get draft ''defense_enabled'' \<noteq> Some (JBool True))\<rparr>,
     \<lparr>fc_key = ''false_quarantine_rate'', fc_label = ''False-quarantine rate'', fc_hint = (''false_quarantine_rate '' @ [CHR 0xC2, CHR 0xB7] @ '' subverted authority''), fc_step = 1 / 100, fc_kind = NumberControl False, fc_disabled = disabled\<rparr>]"

definition limit_controls :: "experiment_config \<Rightarrow> bool \<Rightarrow> form_control list" where
  "limit_controls draft disabled = [
     \<lparr>fc_key = ''max_ticks'', fc_label = ''Max ticks'', fc_hint = (''max_ticks '' @ [CHR 0xC2, CHR 0xB7] @ '' 1'' @ [CHR 0xE2, CHR 0x80, CHR 0x93] @ ''2000''), fc_step = 1, fc_kind = NumberControl True, fc_disabled = disabled\<rparr>]"

definition form_controls :: "configurator \<Rightarrow> bool \<Rightarrow> form_control list" where
  "form_controls s disabled = system_controls (cf_draft s) disabled @ surface_controls (cf_draft s) disabled @
     scenario_controls (cf_draft s) disabled @ defense_controls (cf_draft s) disabled @
     (if cf_showAdvanced s then limit_controls (cf_draft s) disabled else [])"

definition needs_warning :: "experiment_config \<Rightarrow> bool" where
  "needs_warning draft = (needsSentinels draft \<or> needsCredentials draft \<or> needsRealAgents draft)"

section \<open>Using the form\<close>

datatype form_action =
    EnterNumber string jsnum
  | PickOption string string
  | FlipToggle string bool
  | ClickScenario string
  | ClickPreset string
  | ToggleAdvanced

text \<open>A change event of a control of the form, while it is enabled; the handlers by kind of control.\<close>

definition control_for :: "configurator \<Rightarrow> string \<Rightarrow> form_control option" where
  "control_for s key = List.find (\<lambda>c. fc_key c = key \<and> \<not> fc_disabled c) (form_controls s False)"

fun form_step :: "configurator \<Rightarrow> form_action \<Rightarrow> configurator" where
  "form_step s (EnterNumber key v) = (case control_for s key of
      None \<Rightarrow> s
    | Some c \<Rightarrow> (case fc_kind c of
          NumberControl whole \<Rightarrow> setNumber s key v whole
        | SeedControl \<Rightarrow> set_field s key (JNum (math_trunc v))
        | _ \<Rightarrow> s))"
| "form_step s (PickOption key v) = (case control_for s key of
      None \<Rightarrow> s
    | Some c \<Rightarrow> (case fc_kind c of SelectControl options \<Rightarrow> if v \<in> set (map fst options) then set_field s key (JStr v) else s
        | _ \<Rightarrow> s))"
| "form_step s (FlipToggle key b) = (case control_for s key of
      None \<Rightarrow> s
    | Some c \<Rightarrow> if fc_kind c = ToggleControl then set_field s key (JBool b) else s)"
| "form_step s (ClickScenario v) = (if v \<in> set (map sc_value SCENARIOS) then toggleScenario s v else s)"
| "form_step s (ClickPreset i) = (case List.find (\<lambda>p. ps_id p = i) PRESETS of Some p \<Rightarrow> choose_preset s p | None \<Rightarrow> s)"
| "form_step s ToggleAdvanced = s\<lparr>cf_showAdvanced := \<not> cf_showAdvanced s\<rparr>"

section \<open>The draft stays valid\<close>

text \<open>What a control of the form is allowed to write: its options, or what its bounds let through, is what
  the backend accepts for that field.\<close>

fun rule_fits :: "string \<Rightarrow> control_kind \<Rightarrow> field_rule \<Rightarrow> bool" where
  "rule_fits key (NumberControl whole) rule = (case map_of BOUNDS key of
      None \<Rightarrow> True
    | Some (lo, hi) \<Rightarrow> lo \<le> hi \<and> is_whole (Fin lo) \<and> is_whole (Fin hi) \<and>
        (rule = WholeIn lo hi \<and> whole \<or> rule = NumberIn lo hi))"
| "rule_fits key SeedControl rule = (rule = Whole)"
| "rule_fits key (SelectControl options) rule = list_all (\<lambda>opt. field_accepts rule (JStr (fst opt))) options"
| "rule_fits key ToggleControl rule = (rule = Flag)"

definition control_ok :: "string \<times> control_kind \<Rightarrow> bool" where
  "control_ok c = list_all (\<lambda>(k, rule, opt). k = fst c \<longrightarrow> rule_fits (fst c) (snd c) rule) EXPERIMENT_FIELDS"

definition control_table :: "(string \<times> control_kind) list" where
  "control_table = [
     (''node_count'', NumberControl True),
     (''edge_density'', NumberControl True),
     (''software_type_count'', NumberControl True),
     (''initial_compromised'', SelectControl [(''highest_degree'', ''Highest-degree agent''), (''random_node'', ''Random agent'')]),
     (''seed'', SeedControl),
     (''tool_count'', NumberControl True),
     (''credential_count'', NumberControl True),
     (''resource_count'', NumberControl True),
     (''sentinel_count'', NumberControl True),
     (''p_same'', NumberControl False),
     (''p_cross'', NumberControl False),
     (''adaptive_detection_threshold'', NumberControl False),
     (''real_agent_count'', NumberControl True),
     (''model_provider'', SelectControl [(''mock'', ''Mock (deterministic)''), (''vllm'', ''vLLM endpoint'')]),
     (''sentinel_compromise_rate'', NumberControl False),
     (''attestation_replay_rate'', NumberControl False),
     (''byzantine_collusion_rate'', NumberControl False),
     (''defense_enabled'', ToggleControl),
     (''detector_sensitivity'', NumberControl False),
     (''false_quarantine_rate'', NumberControl False),
     (''max_ticks'', NumberControl True)]"

lemma control_table_ok: "list_all control_ok control_table"
  by code_simp

definition in_table :: "form_control \<Rightarrow> bool" where
  "in_table c \<longleftrightarrow> (fc_key c, fc_kind c) \<in> set control_table"

lemma controls_in_table:
  "list_all in_table (system_controls d x)" "list_all in_table (surface_controls d x)"
  "list_all in_table (scenario_controls d x)" "list_all in_table (defense_controls d x)"
  "list_all in_table (limit_controls d x)"
  by (simp_all add: in_table_def control_table_def system_controls_def surface_controls_def scenario_controls_def
      defense_controls_def limit_controls_def if_distrib[of "list_all in_table"])

lemma control_for_in:
  assumes "control_for s key = Some c"
  shows "(key, fc_kind c) \<in> set control_table"
proof -
  have "c \<in> set (form_controls s False)" "fc_key c = key"
    using assms by (auto simp: control_for_def find_Some_iff)
  moreover have "list_all in_table (form_controls s False)"
    by (simp add: form_controls_def controls_in_table)
  ultimately show ?thesis by (auto simp: list_all_iff in_table_def)
qed

lemma control_for_ok:
  assumes "control_for s key = Some c" and "(key, rule, opt) \<in> set EXPERIMENT_FIELDS"
  shows "rule_fits key (fc_kind c) rule"
proof -
  have "control_ok (key, fc_kind c)" using control_for_in[OF assms(1)] control_table_ok by (simp add: list_all_iff)
  with assms(2) show ?thesis by (auto simp: control_ok_def list_all_iff)
qed

lemma accepts_set:
  assumes "backend_accepts cfg" and "\<And>rule opt. (key, rule, opt) \<in> set EXPERIMENT_FIELDS \<Longrightarrow> field_accepts rule v"
  shows "backend_accepts (obj_set cfg key v)"
  using assms by (auto simp: backend_accepts_def list_all_iff field_ok_def)

lemma is_whole_trunc: "is_whole (Fin lo) \<Longrightarrow> is_whole (Fin hi) \<Longrightarrow> is_whole (clamp (math_trunc v) lo hi)"
  by (cases v) (auto simp: clamp_def math_min_def math_max_def)

lemma setNumber_accepts:
  assumes "backend_accepts (cf_draft s)" and "control_for s key = Some c" and "fc_kind c = NumberControl whole"
  shows "backend_accepts (cf_draft (setNumber s key v whole))"
proof (cases "map_of BOUNDS key")
  case (Some lohi)
  obtain lo hi where lh: "lohi = (lo, hi)" by (cases lohi)
  have "field_accepts rule (JNum (clamp (if whole then math_trunc v else v) lo hi))"
    if f: "(key, rule, opt) \<in> set EXPERIMENT_FIELDS" for rule opt
    using control_for_ok[OF assms(2) f] assms(3) Some lh clamp_in[of lo hi] is_whole_trunc[of lo hi v] by auto
  with assms(1) Some lh show ?thesis by (simp add: setNumber_def set_field_def accepts_set)
qed (use assms in \<open>simp add: setNumber_def\<close>)

text \<open>Scenarios that own the tick are never active together, and none is active twice.\<close>

definition exclusive_ok :: "string list \<Rightarrow> bool" where
  "exclusive_ok xs \<longleftrightarrow> distinct xs \<and>
     list_all (\<lambda>a. list_all (\<lambda>b. b \<notin> set (or_default (sc_exclusiveWith (scenarioMeta a)) [])) xs) xs"

lemma exclusive_with: "or_default (sc_exclusiveWith (scenarioMeta a)) [] =
    (if a = ''propagation'' then [''adaptive_attacker''] else if a = ''adaptive_attacker'' then [''propagation''] else [])"
  by (simp add: scenarioMeta_def SCENARIOS_def)

lemma exclusive_pair:
  assumes "p \<noteq> q" and "\<And>a. excl a = (if a = p then [q] else if a = q then [p] else [])"
  shows "list_all (\<lambda>a. list_all (\<lambda>b. b \<notin> set (excl a)) xs) xs \<longleftrightarrow> \<not> (p \<in> set xs \<and> q \<in> set xs)"
    and "distinct xs \<Longrightarrow> \<not> (p \<in> set xs \<and> q \<in> set xs) \<Longrightarrow>
      ys = (if v \<in> set xs then filter (\<lambda>s. s \<noteq> v) xs else filter (\<lambda>s. s \<notin> set (excl v)) xs @ [v]) \<Longrightarrow>
      distinct ys \<and> \<not> (p \<in> set ys \<and> q \<in> set ys)"
  using assms(1) by (auto simp: list_all_iff assms(2))

lemma names_differ: "''propagation'' \<noteq> ''adaptive_attacker''"
  by simp

lemmas tick_owners = exclusive_pair[OF names_differ exclusive_with]

lemma exclusive_ok_iff: "exclusive_ok xs \<longleftrightarrow> distinct xs \<and> \<not> (''propagation'' \<in> set xs \<and> ''adaptive_attacker'' \<in> set xs)"
  unfolding exclusive_ok_def tick_owners(1) ..

lemma toggled_exclusive: "exclusive_ok xs \<Longrightarrow> exclusive_ok (toggled xs v)"
  unfolding exclusive_ok_iff using tick_owners(2)[OF _ _ toggled_def] by blast

lemma json_strings_map [simp]: "json_strings (Some (JArr (map JStr xs))) = xs"
  by (induction xs) (simp_all add: json_strings_def map_filter_simps)

lemma draft_scenarios_set: "draft_scenarios (obj_set d k v) = (if k = ''active_scenarios'' then json_strings (Some v) else draft_scenarios d)"
  by (simp add: draft_scenarios_def)

definition draft_ok :: "experiment_config \<Rightarrow> bool" where
  "draft_ok d \<longleftrightarrow> backend_accepts d \<and> exclusive_ok (draft_scenarios d)"

lemma presets_ok: "list_all (\<lambda>p. draft_ok (ps_config p)) PRESETS"
  by code_simp

lemma scenarios_rule: "(''active_scenarios'', rule, opt) \<in> set EXPERIMENT_FIELDS \<Longrightarrow> rule = Texts"
  by (simp add: EXPERIMENT_FIELDS_def)

lemma no_control_for_scenarios: "control_for s ''active_scenarios'' = None"
proof (rule ccontr)
  assume "control_for s ''active_scenarios'' \<noteq> None"
  then obtain c where "control_for s ''active_scenarios'' = Some c" by auto
  from control_for_in[OF this] show False by (simp add: control_table_def)
qed

lemma set_field_accepts:
  assumes "backend_accepts (cf_draft s)" and "\<And>rule opt. (key, rule, opt) \<in> set EXPERIMENT_FIELDS \<Longrightarrow> field_accepts rule v"
  shows "backend_accepts (cf_draft (set_field s key v))"
  using assms by (simp add: set_field_def accepts_set)

lemma preset_ok:
  assumes "List.find (\<lambda>p. ps_id p = i) PRESETS = Some p"
  shows "draft_ok (ps_config p)"
proof -
  have "p \<in> set PRESETS" using assms by (auto simp: find_Some_iff)
  then show ?thesis using presets_ok by (simp add: list_all_iff)
qed

text \<open>A number typed into a field is finite.\<close>

fun typed :: "form_action \<Rightarrow> bool" where
  "typed (EnterNumber key v) = (\<exists>q. v = Fin q)"
| "typed _ = True"

lemma form_step_accepts:
  assumes ok: "backend_accepts (cf_draft s)" and "typed a"
  shows "backend_accepts (cf_draft (form_step s a))"
proof (cases a)
  case (EnterNumber key v)
  show ?thesis
  proof (cases "control_for s key")
    case (Some c)
    show ?thesis
    proof (cases "fc_kind c")
      case (NumberControl whole)
      with setNumber_accepts[OF ok Some] Some EnterNumber show ?thesis by simp
    next
      case SeedControl
      have "field_accepts rule (JNum (math_trunc v))" if "(key, rule, opt) \<in> set EXPERIMENT_FIELDS" for rule opt
        using control_for_ok[OF Some that] SeedControl assms(2) EnterNumber by auto
      with ok Some EnterNumber SeedControl show ?thesis by (simp add: set_field_accepts)
    qed (use ok Some EnterNumber in simp_all)
  qed (use ok EnterNumber in simp)
next
  case (PickOption key v)
  show ?thesis
  proof (cases "control_for s key")
    case (Some c)
    show ?thesis
    proof (cases "fc_kind c")
      case (SelectControl options)
      have "field_accepts rule (JStr v)" if "(key, rule, opt) \<in> set EXPERIMENT_FIELDS" "v \<in> set (map fst options)" for rule opt
        using control_for_ok[OF Some that(1)] that(2) SelectControl by (auto simp: list_all_iff)
      with ok Some PickOption SelectControl show ?thesis by (simp add: set_field_accepts)
    qed (use ok Some PickOption in simp_all)
  qed (use ok PickOption in simp)
next
  case (FlipToggle key b)
  show ?thesis
  proof (cases "control_for s key")
    case (Some c)
    have "field_accepts rule (JBool b)" if "(key, rule, opt) \<in> set EXPERIMENT_FIELDS" "fc_kind c = ToggleControl" for rule opt
      using control_for_ok[OF Some that(1)] that(2) by simp
    with ok Some FlipToggle show ?thesis by (simp add: set_field_accepts)
  qed (use ok FlipToggle in simp)
next
  case (ClickScenario v)
  have "field_accepts rule (JArr (map JStr xs))" if "(''active_scenarios'', rule, opt) \<in> set EXPERIMENT_FIELDS" for rule opt xs
    using scenarios_rule[OF that] by (simp add: list_all_iff)
  with ok ClickScenario show ?thesis by (simp add: toggleScenario_def accepts_set)
next
  case (ClickPreset i)
  with ok preset_ok[of i] show ?thesis by (simp add: choose_preset_def draft_ok_def split: option.split)
qed (use ok in simp_all)

lemma set_field_scenarios:
  "key \<noteq> ''active_scenarios'' \<Longrightarrow> draft_scenarios (cf_draft (set_field s key v)) = draft_scenarios (cf_draft s)"
  by (simp add: set_field_def draft_scenarios_set)

lemma form_step_exclusive:
  assumes ok: "exclusive_ok (draft_scenarios (cf_draft s))"
  shows "exclusive_ok (draft_scenarios (cf_draft (form_step s a)))"
proof -
  have key: "key \<noteq> ''active_scenarios''" if "control_for s key = Some c" for key c
    using that no_control_for_scenarios by auto
  have number: "draft_scenarios (cf_draft (setNumber s key v whole)) = draft_scenarios (cf_draft s)"
    if "control_for s key = Some c" for key c v whole
    using key[OF that] by (auto simp: setNumber_def set_field_scenarios split: option.split)
  show ?thesis
  proof (cases a)
    case (ClickScenario v)
    with ok toggled_exclusive show ?thesis by (simp add: toggleScenario_def draft_scenarios_set)
  next
    case (ClickPreset i)
    with ok preset_ok[of i] show ?thesis by (simp add: choose_preset_def draft_ok_def split: option.split)
  qed (use ok number set_field_scenarios[OF key] in \<open>auto split: option.split control_kind.split\<close>)
qed

lemma form_step_ok: "draft_ok (cf_draft s) \<Longrightarrow> typed a \<Longrightarrow> draft_ok (cf_draft (form_step s a))"
  by (simp add: draft_ok_def form_step_accepts form_step_exclusive)

text \<open>C18. Whatever is typed, picked, toggled and loaded, the draft the form would launch passes the backend's
  field validation, and never activates two scenarios that both own the tick.\<close>

theorem configurator_always_valid:
  assumes "list_all typed actions"
  shows "let d = cf_draft (foldl form_step (initial_configurator DEFAULT_CONFIG) actions) in
    backend_accepts d \<and> distinct (draft_scenarios d) \<and>
    \<not> (''propagation'' \<in> set (draft_scenarios d) \<and> ''adaptive_attacker'' \<in> set (draft_scenarios d))"
proof -
  have "draft_ok DEFAULT_CONFIG" using presets_ok by (simp add: PRESETS_def)
  then have "draft_ok (cf_draft (initial_configurator DEFAULT_CONFIG))" by (simp add: initial_configurator_def)
  then have "draft_ok (cf_draft (foldl form_step (initial_configurator DEFAULT_CONFIG) actions))"
    using assms by (induction actions rule: rev_induct) (simp_all add: form_step_ok)
  then show ?thesis by (simp add: draft_ok_def exclusive_ok_iff Let_def)
qed

theorem configurator_always_valid_witness:
  "backend_accepts (cf_draft (foldl form_step (initial_configurator DEFAULT_CONFIG)
     [EnterNumber ''node_count'' (Fin (7 / 2)), ClickScenario ''adaptive_attacker'', ClickPreset ''undefended'']))"
proof -
  let ?as = "[EnterNumber ''node_count'' (Fin (7 / 2)), ClickScenario ''adaptive_attacker'', ClickPreset ''undefended'']"
  have "list_all typed ?as" by (auto intro: exI[of _ "7 / 2"])
  from configurator_always_valid[OF this] show ?thesis unfolding Let_def by (rule conjunct1)
qed

text \<open>A second click on a scenario takes back the first, except that the counterpart the first click
  displaced stays off.\<close>

theorem toggle_scenario_twice:
  assumes "scenario \<notin> set current"
  shows "toggled (toggled current scenario) scenario =
    filter (\<lambda>s. s \<notin> set (or_default (sc_exclusiveWith (scenarioMeta scenario)) [])) current"
  using assms by (auto simp: toggled_def filter_empty_conv intro: filter_cong)

theorem toggle_scenario_twice_witness:
  "toggled (toggled [''propagation''] ''attestation'') ''attestation'' = [''propagation'']"
  by (subst toggle_scenario_twice) (simp_all add: scenarioMeta_def SCENARIOS_def)

section \<open>Warnings\<close>

text \<open>The fields an active scenario needs to be non-zero and that are zero.\<close>

definition missing_fields :: "experiment_config \<Rightarrow> string list" where
  "missing_fields draft = filter (\<lambda>f. num_is_zero (map_get draft f))
     (concat (map (\<lambda>v. or_default (sc_requires (scenarioMeta v)) []) (draft_scenarios draft)))"

lemma requires_eq: "or_default (sc_requires (scenarioMeta v)) [] =
    (if v = ''prompt_injection'' then [''real_agent_count'']
     else if v = ''sentinel_compromise'' then [''sentinel_count'', ''sentinel_compromise_rate'']
     else if v = ''attestation'' then [''sentinel_count'', ''attestation_replay_rate'']
     else if v = ''byzantine_collusion'' then [''credential_count'', ''byzantine_collusion_rate''] else [])"
  by (simp add: scenarioMeta_def SCENARIOS_def)

text \<open>The form warns exactly when a count that an active scenario needs is zero.\<close>

theorem warns_about_counts:
  "needs_warning draft \<longleftrightarrow>
     (\<exists>f \<in> {''real_agent_count'', ''sentinel_count'', ''credential_count''}. f \<in> set (missing_fields draft))"
  unfolding needs_warning_def needsSentinels_def needsCredentials_def needsRealAgents_def usesSentinelCompromise_def
    usesAttestation_def usesCollusion_def usesPromptInjection_def missing_fields_def
  by (auto simp: requires_eq)

text \<open>A rate a scenario needs is not checked: from the default configuration, two sentinels and the
  subversion scenario give a run whose scenario does nothing, without a warning.\<close>

theorem missing_rate_is_silent:
  "let d = cf_draft (foldl form_step (initial_configurator DEFAULT_CONFIG)
      [EnterNumber ''sentinel_count'' (Fin 2), ClickScenario ''sentinel_compromise'', ClickScenario ''prompt_injection''])
   in missing_fields d = [''sentinel_compromise_rate''] \<and> \<not> needs_warning d"
  by code_simp

end
