(* ===== verification/History_Page.thy ===== *)
theory History_Page
  imports Client Vocabulary "HOL-Library.Product_Lexorder"
begin

text \<open>
  \<open>frontend/src/app/history/page.tsx\<close>: the archive of runs, loaded page by page, with the selection of
  two runs to compare; against the endpoint it reads, \<open>list_experiments\<close> in
  \<open>backend/app/api/routes_history.py\<close>, which is modelled for the purpose: a query over the table of
  runs by filter and cursor, newest first. Creation times are natural numbers; the base64 layer of
  the cursor is left out. Selecting, paging and what is rendered in each state are modelled; the
  markup is not.
\<close>

section \<open>The table and its endpoint\<close>

record list_item =
  li_experiment_id :: string
  li_seed :: int
  li_node_count :: int
  li_active_scenarios :: "string list option"
  li_defense_enabled :: bool
  li_created_at :: nat
  li_final_status :: "string option"
  li_final_sim_tick :: "int option"
  li_is_complete :: "bool option"

record list_response =
  lr_items :: "list_item list"
  lr_next_cursor :: "string option"

definition DEFAULT_LIST_LIMIT :: nat where
  "DEFAULT_LIST_LIMIT = 20"

definition run_key :: "list_item \<Rightarrow> nat \<times> string" where
  "run_key r = (li_created_at r, li_experiment_id r)"

definition encode_cursor :: "nat \<times> string \<Rightarrow> string" where
  "encode_cursor k = show_nat (fst k) @ CHR ''|'' # snd k"

definition decode_cursor :: "string \<Rightarrow> nat \<times> string" where
  "decode_cursor s = (digits_value (takeWhile (\<lambda>c. c \<noteq> CHR ''|'') s), tl (dropWhile (\<lambda>c. c \<noteq> CHR ''|'') s))"

definition row_matches :: "string option \<Rightarrow> bool option \<Rightarrow> list_item \<Rightarrow> bool" where
  "row_matches status defense r \<longleftrightarrow>
     (case status of None \<Rightarrow> True
       | Some st \<Rightarrow> if st = ''incomplete'' then li_final_status r = None else li_final_status r = Some st) \<and>
     (case defense of None \<Rightarrow> True | Some d \<Rightarrow> li_defense_enabled r = d)"

text \<open>The table of runs, keyed by \<open>experiment_id\<close>, as rows.\<close>

definition run_rows :: "(string, list_item) jsmap \<Rightarrow> list_item list" where
  "run_rows table = map (\<lambda>i. (the (map_get table i))\<lparr>li_experiment_id := i\<rparr>) (remdups (map_keys table))"

text \<open>\<open>ORDER BY created_at DESC, experiment_id DESC\<close>.\<close>

definition newest_first :: "list_item list \<Rightarrow> list_item list" where
  "newest_first rows = rev (sort_key run_key rows)"

definition list_experiments :: "(string, list_item) jsmap \<Rightarrow> list_params \<Rightarrow> list_response" where
  "list_experiments table p =
     (let limit = (case lp_limit p of None \<Rightarrow> DEFAULT_LIST_LIMIT | Some n \<Rightarrow> nat n);
          rows = newest_first (filter (row_matches (lp_status p) (lp_defenseEnabled p)) (run_rows table));
          rows = (case lp_cursor p of None \<Rightarrow> rows | Some c \<Rightarrow> filter (\<lambda>r. run_key r < decode_cursor c) rows);
          fetched = take (limit + 1) rows;
          items = take limit fetched
      in \<lparr>lr_items = items,
          lr_next_cursor = (if length fetched > limit then Some (encode_cursor (run_key (last items))) else None)\<rparr>)"

section \<open>The page\<close>

datatype status_filter = StAll | StFinished | StStopped | StIncomplete
datatype defense_filter = DfAll | DfTrue | DfFalse

definition STATUS_OPTIONS :: "(status_filter \<times> string) list" where
  "STATUS_OPTIONS = [(StAll, ''All''), (StFinished, ''Completed''), (StStopped, ''Stopped''), (StIncomplete, ''Incomplete'')]"

definition DEFENSE_OPTIONS :: "(defense_filter \<times> string) list" where
  "DEFENSE_OPTIONS = [(DfAll, ''Any defense''), (DfTrue, ''Defended''), (DfFalse, ''Undefended'')]"

fun status_param :: "status_filter \<Rightarrow> string option" where
  "status_param StAll = None"
| "status_param StFinished = Some ''finished''"
| "status_param StStopped = Some ''stopped''"
| "status_param StIncomplete = Some ''incomplete''"

fun defense_param :: "defense_filter \<Rightarrow> bool option" where
  "defense_param DfAll = None"
| "defense_param DfTrue = Some True"
| "defense_param DfFalse = Some False"

definition toListParams :: "status_filter \<Rightarrow> defense_filter \<Rightarrow> list_params" where
  "toListParams status defense = \<lparr>lp_status = status_param status, lp_defenseEnabled = defense_param defense,
     lp_limit = None, lp_cursor = None\<rparr>"

record history_list =
  hl_items :: "list_item list"
  hl_nextCursor :: "string option"
  hl_loading :: bool
  hl_error :: "string option"

definition history_mounted :: history_list where
  "history_mounted = \<lparr>hl_items = [], hl_nextCursor = None, hl_loading = True, hl_error = None\<rparr>"

definition first_page :: "history_list \<Rightarrow> string + list_response \<Rightarrow> history_list" where
  "first_page s answer = (case answer of
      Inr resp \<Rightarrow> s\<lparr>hl_items := lr_items resp, hl_nextCursor := lr_next_cursor resp, hl_loading := False\<rparr>
    | Inl msg \<Rightarrow> s\<lparr>hl_error := Some msg, hl_loading := False\<rparr>)"

text \<open>\<open>loadMore\<close> up to its \<open>await\<close>, with the parameters of the request if it makes one; and the rest.\<close>

definition loadMore :: "status_filter \<Rightarrow> defense_filter \<Rightarrow> history_list \<Rightarrow> history_list \<times> list_params option" where
  "loadMore status defense s = (if \<not> truthy (hl_nextCursor s) then (s, None)
     else (s\<lparr>hl_loading := True\<rparr>, Some ((toListParams status defense)\<lparr>lp_cursor := hl_nextCursor s\<rparr>)))"

definition more_loaded :: "history_list \<Rightarrow> string + list_response \<Rightarrow> history_list" where
  "more_loaded s answer = (case answer of
      Inr resp \<Rightarrow> s\<lparr>hl_items := hl_items s @ lr_items resp, hl_nextCursor := lr_next_cursor resp\<rparr>
    | Inl msg \<Rightarrow> s\<lparr>hl_error := Some msg\<rparr>)\<lparr>hl_loading := False\<rparr>"

section \<open>What is rendered\<close>

datatype run_outcome = InFlight | Outcome string

record history_row =
  hr_id :: string
  hr_selected :: bool
  hr_shortId :: string
  hr_created_at :: nat
  hr_seed :: int
  hr_agents :: int
  hr_shown_scenarios :: "string list"
  hr_more_scenarios :: nat
  hr_defense :: "severity \<times> string"
  hr_outcome :: run_outcome
  hr_tick :: "int option"
  hr_integrity :: "severity \<times> string"
  hr_link :: string

definition history_row_of :: "string list \<Rightarrow> list_item \<Rightarrow> history_row" where
  "history_row_of selected item =
     (let scenarios = or_default (li_active_scenarios item) []
      in \<lparr>hr_id = li_experiment_id item, hr_selected = (li_experiment_id item \<in> set selected),
          hr_shortId = take 8 (li_experiment_id item), hr_created_at = li_created_at item,
          hr_seed = li_seed item, hr_agents = li_node_count item,
          hr_shown_scenarios = map (\<lambda>sc. sc_label (scenarioMeta sc)) (take 2 scenarios),
          hr_more_scenarios = length scenarios - 2,
          hr_defense = (if li_defense_enabled item then (SevOk, ''On'') else (SevWarn, ''Off'')),
          hr_outcome = (case li_final_status item of None \<Rightarrow> InFlight | Some st \<Rightarrow> Outcome st),
          hr_tick = li_final_sim_tick item,
          hr_integrity = (if li_is_complete item = Some True then (SevOk, ''Complete'') else (SevWarn, ''Incomplete'')),
          hr_link = ''/history/'' @ li_experiment_id item\<rparr>)"

datatype history_view =
    HistoryError string
  | HistorySkeleton
  | HistoryEmpty
  | HistoryTable "history_row list" "bool option"

text \<open>The second argument of a table is its "Load more" button, if there is one, and whether it is
  disabled.\<close>

definition history_view_of :: "string list \<Rightarrow> history_list \<Rightarrow> history_view" where
  "history_view_of selected s =
     (if truthy (hl_error s) then HistoryError (the (hl_error s))
      else if hl_loading s \<and> hl_items s = [] then HistorySkeleton
      else if hl_items s = [] then HistoryEmpty
      else HistoryTable (map (history_row_of selected) (hl_items s))
             (if truthy (hl_nextCursor s) then Some (hl_loading s) else None))"

text \<open>Selecting two runs to compare, and the link that appears with exactly two.\<close>

definition toggleSelect :: "string list \<Rightarrow> string \<Rightarrow> string list" where
  "toggleSelect prev i =
     (if i \<in> set prev then filter (\<lambda>x. x \<noteq> i) prev
      else if length prev \<ge> 2 then [prev ! 1, i] else prev @ [i])"

definition compare_link :: "string list \<Rightarrow> string option" where
  "compare_link selected = (if length selected = 2
     then Some (''/history/compare?a='' @ selected ! 0 @ ''&b='' @ selected ! 1) else None)"

section \<open>Selecting\<close>

lemma short_list_cases:
  assumes "length xs \<le> 2"
  obtains "xs = []" | a where "xs = [a]" | a b where "xs = [a, b]"
  using assms by (cases xs; cases "tl xs") (auto simp: le_Suc_eq)

lemma toggleSelect_inv:
  assumes "distinct prev" and "length prev \<le> 2"
  shows "distinct (toggleSelect prev i) \<and> length (toggleSelect prev i) \<le> 2"
  using short_list_cases[OF assms(2)] by cases (use assms(1) in \<open>auto simp: toggleSelect_def\<close>)

lemma selection_inv:
  "distinct (foldl toggleSelect [] clicks) \<and> length (foldl toggleSelect [] clicks) \<le> 2"
  by (induction clicks rule: rev_induct) (simp_all add: toggleSelect_inv)

text \<open>However the boxes are clicked, at most two different runs are selected, in the order they were
  picked; a third pick drops the older of the two, and clicking a run again takes it off.\<close>

theorem selection_fifo:
  "let selected = foldl toggleSelect [] clicks in
    distinct selected \<and> length selected \<le> 2 \<and>
    (i \<notin> set selected \<longrightarrow> toggleSelect selected i = drop (length selected - 1) selected @ [i] \<and>
       i \<notin> set (toggleSelect (toggleSelect selected i) i)) \<and>
    (compare_link selected \<noteq> None \<longleftrightarrow> length selected = 2)"
proof -
  obtain xs where xs: "xs = foldl toggleSelect [] clicks" by simp
  have len: "length xs \<le> 2" and d: "distinct xs" using selection_inv[of clicks] by (simp_all add: xs)
  show ?thesis unfolding xs[symmetric] Let_def
    by (rule short_list_cases[OF len]; use d in \<open>simp add: toggleSelect_def compare_link_def\<close>)
qed

theorem selection_fifo_witness:
  "toggleSelect (foldl toggleSelect [] [''a'', ''b'']) ''c'' = [''b'', ''c'']"
  using selection_fifo[of "[''a'', ''b'']" "''c''"] by (simp add: Let_def toggleSelect_def)

section \<open>Paging\<close>

text \<open>The list after the first page and \<open>n\<close> clicks on "Load more", each answered before the next.\<close>

fun browse :: "(string option \<Rightarrow> list_response) \<Rightarrow> status_filter \<Rightarrow> defense_filter \<Rightarrow> nat \<Rightarrow> history_list" where
  "browse fetch status defense 0 = first_page history_mounted (Inr (fetch None))"
| "browse fetch status defense (Suc n) = (case loadMore status defense (browse fetch status defense n) of
      (s, None) \<Rightarrow> s
    | (s, Some p) \<Rightarrow> more_loaded s (Inr (fetch (lp_cursor p))))"

text \<open>What paging relies on: a cursor stands for a position in one fixed listing, a page is the next
  \<open>size\<close> rows from there, and its cursor, if more rows follow, stands for the position behind it.\<close>

locale cursor_pages =
  fixes fetch :: "string option \<Rightarrow> list_response"
    and listing :: "list_item list"
    and position :: "string option \<Rightarrow> nat"
    and page_size :: nat
  assumes position_start: "position None = 0"
    and page_items: "lr_items (fetch c) = take page_size (drop (position c) listing)"
    and page_last: "lr_next_cursor (fetch c) = None \<longleftrightarrow> length listing \<le> position c + page_size"
    and page_more: "lr_next_cursor (fetch c) = Some c' \<Longrightarrow> c' \<noteq> [] \<and> position (Some c') = position c + page_size"
begin

lemma browse_inv:
  "hl_items (browse fetch status defense n) = take (Suc n * page_size) listing \<and>
   (hl_nextCursor (browse fetch status defense n) = None \<longleftrightarrow> length listing \<le> Suc n * page_size) \<and>
   (\<forall>c. hl_nextCursor (browse fetch status defense n) = Some c \<longrightarrow> c \<noteq> [] \<and> position (Some c) = Suc n * page_size) \<and>
   \<not> hl_loading (browse fetch status defense n) \<and> hl_error (browse fetch status defense n) = None"
proof (induction n)
  case 0
  show ?case using page_last[of None] page_more[of None]
    by (auto simp: first_page_def history_mounted_def page_items position_start)
next
  case (Suc n)
  show ?case
  proof (cases "hl_nextCursor (browse fetch status defense n)")
    case None
    then have "length listing \<le> Suc n * page_size" using Suc by simp
    moreover have "browse fetch status defense (Suc n) = browse fetch status defense n" using None by (simp add: loadMore_def)
    ultimately show ?thesis using Suc None by auto
  next
    case (Some c)
    with Suc have c: "c \<noteq> []" "position (Some c) = Suc n * page_size" by simp_all
    have "browse fetch status defense (Suc n) = more_loaded ((browse fetch status defense n)\<lparr>hl_loading := True\<rparr>) (Inr (fetch (Some c)))"
      using Some c by (simp add: loadMore_def toListParams_def)
    moreover have "hl_items (browse fetch status defense n) @ take page_size (drop (Suc n * page_size) listing) = take (Suc (Suc n) * page_size) listing"
      using Suc take_add[of "Suc n * page_size" page_size listing] by (simp add: add.commute)
    ultimately show ?thesis using Suc page_last[of "Some c"] page_more[of "Some c"] c
      by (auto simp: more_loaded_def page_items add.commute)
  qed
qed

end

lemma takeWhile_digits: "takeWhile (\<lambda>c. c \<noteq> CHR ''|'') (show_nat n @ CHR ''|'' # s) = show_nat n"
  and dropWhile_digits: "dropWhile (\<lambda>c. c \<noteq> CHR ''|'') (show_nat n @ CHR ''|'' # s) = CHR ''|'' # s"
proof -
  have "\<not> is_digit CHR ''|''" by (simp add: is_digit_def)
  then have nd: "\<And>c. c \<in> set (show_nat n) \<Longrightarrow> c \<noteq> CHR ''|''" using show_nat_digits by blast
  then show "takeWhile (\<lambda>c. c \<noteq> CHR ''|'') (show_nat n @ CHR ''|'' # s) = show_nat n" by (simp add: takeWhile_append2)
  show "dropWhile (\<lambda>c. c \<noteq> CHR ''|'') (show_nat n @ CHR ''|'' # s) = CHR ''|'' # s"
    using nd by (simp add: dropWhile_append2)
qed

lemma decode_encode [simp]: "decode_cursor (encode_cursor k) = k"
  by (simp add: decode_cursor_def encode_cursor_def takeWhile_digits dropWhile_digits)

lemma encode_nonempty [simp]: "encode_cursor k \<noteq> []"
  by (simp add: encode_cursor_def)

text \<open>A listing in strictly descending key order, cut behind one of its rows.\<close>

definition descending :: "list_item list \<Rightarrow> bool" where
  "descending rows \<longleftrightarrow> sorted_wrt (\<lambda>a b. run_key b < run_key a) rows"

lemma descending_cut:
  assumes "descending rows" and "n < length rows"
  shows "filter (\<lambda>r. run_key r < run_key (rows ! n)) rows = drop (Suc n) rows"
proof -
  have rows: "rows = take n rows @ rows ! n # drop (Suc n) rows" using assms(2) by (rule id_take_nth_drop)
  have "sorted_wrt (\<lambda>a b. run_key b < run_key a) (take n rows @ rows ! n # drop (Suc n) rows)"
    using assms(1) rows by (simp add: descending_def)
  then have "\<forall>r \<in> set (take n rows). \<not> run_key r < run_key (rows ! n)"
    and "\<forall>r \<in> set (drop (Suc n) rows). run_key r < run_key (rows ! n)"
    by (auto simp: sorted_wrt_append)
  then have "filter (\<lambda>r. run_key r < run_key (rows ! n)) (take n rows @ rows ! n # drop (Suc n) rows) = drop (Suc n) rows"
    by (simp add: filter_empty_conv)
  then show ?thesis using rows by simp
qed

lemma newest_first_descending:
  assumes "distinct (map li_experiment_id rows)"
  shows "descending (newest_first rows)"
proof -
  have "inj_on run_key (set rows)" using assms by (auto simp: distinct_map inj_on_def run_key_def)
  then have "distinct (map run_key (sort_key run_key rows))"
    using assms by (simp add: distinct_map)
  moreover have "sorted (map run_key (sort_key run_key rows))" by simp
  ultimately have "sorted_wrt (<) (map run_key (sort_key run_key rows))" by (simp add: strict_sorted_iff)
  then show ?thesis by (simp add: descending_def newest_first_def sorted_wrt_rev sorted_wrt_map)
qed

lemma descending_suffix:
  "descending rows \<Longrightarrow> filter (\<lambda>r. run_key r < k) rows =
     drop (length rows - length (filter (\<lambda>r. run_key r < k) rows)) rows"
proof (induction rows)
  case (Cons r rows)
  show ?case
  proof (cases "run_key r < k")
    case True
    then have "\<forall>x \<in> set rows. run_key x < k" using Cons.prems by (auto simp: descending_def)
    then have "filter (\<lambda>r. run_key r < k) rows = rows" by (simp add: filter_id_conv)
    with True show ?thesis by simp
  next
    case False
    with Cons show ?thesis using length_filter_le[of "\<lambda>r. run_key r < k" rows]
      by (simp add: descending_def Suc_diff_le)
  qed
qed simp

definition matching_runs :: "(string, list_item) jsmap \<Rightarrow> status_filter \<Rightarrow> defense_filter \<Rightarrow> list_item list" where
  "matching_runs table status defense =
     newest_first (filter (row_matches (status_param status) (defense_param defense)) (run_rows table))"

definition archive_page :: "(string, list_item) jsmap \<Rightarrow> status_filter \<Rightarrow> defense_filter \<Rightarrow> string option \<Rightarrow> list_response" where
  "archive_page table status defense c = list_experiments table ((toListParams status defense)\<lparr>lp_cursor := c\<rparr>)"

definition archive_position :: "list_item list \<Rightarrow> string option \<Rightarrow> nat" where
  "archive_position rows c = (case c of None \<Rightarrow> 0
     | Some s \<Rightarrow> length rows - length (filter (\<lambda>r. run_key r < decode_cursor s) rows))"

lemma run_rows_distinct: "distinct (map li_experiment_id (run_rows table))"
  by (simp add: run_rows_def comp_def)

lemma matching_runs_descending: "descending (matching_runs table status defense)"
  unfolding matching_runs_def
  by (intro newest_first_descending distinct_map_filter run_rows_distinct)

lemma archive_page_eq:
  "archive_page table status defense c =
     (let rest = drop (archive_position (matching_runs table status defense) c) (matching_runs table status defense)
      in \<lparr>lr_items = take DEFAULT_LIST_LIMIT rest,
          lr_next_cursor = (if DEFAULT_LIST_LIMIT < length rest
             then Some (encode_cursor (run_key (last (take DEFAULT_LIST_LIMIT rest)))) else None)\<rparr>)"
proof -
  let ?rows = "matching_runs table status defense"
  have "(case c of None \<Rightarrow> ?rows | Some s \<Rightarrow> filter (\<lambda>r. run_key r < decode_cursor s) ?rows) = drop (archive_position ?rows c) ?rows"
    using descending_suffix[OF matching_runs_descending] by (simp add: archive_position_def split: option.split)
  then show ?thesis
    by (auto simp: archive_page_def list_experiments_def toListParams_def matching_runs_def[symmetric] Let_def min_def)
qed

interpretation archive: cursor_pages "archive_page table status defense" "matching_runs table status defense"
  "archive_position (matching_runs table status defense)" DEFAULT_LIST_LIMIT for table status defense
proof unfold_locales
  let ?rows = "matching_runs table status defense" and ?pos = "archive_position (matching_runs table status defense)"
  show "?pos None = 0" by (simp add: archive_position_def)
  fix c
  show "lr_items (archive_page table status defense c) = take DEFAULT_LIST_LIMIT (drop (?pos c) ?rows)"
    by (simp add: archive_page_eq Let_def)
  show "lr_next_cursor (archive_page table status defense c) = None \<longleftrightarrow> length ?rows \<le> ?pos c + DEFAULT_LIST_LIMIT"
    by (auto simp: archive_page_eq Let_def)
  fix c' assume nxt: "lr_next_cursor (archive_page table status defense c) = Some c'"
  let ?n = "?pos c + 19"
  from nxt have more: "?pos c + 20 < length ?rows" and c': "c' = encode_cursor (run_key (last (take 20 (drop (?pos c) ?rows))))"
    by (auto simp: archive_page_eq Let_def DEFAULT_LIST_LIMIT_def split: if_splits)
  have "last (take 20 (drop (?pos c) ?rows)) = ?rows ! ?n" using more by (simp add: last_conv_nth)
  then have "filter (\<lambda>r. run_key r < decode_cursor c') ?rows = drop (Suc ?n) ?rows"
    using descending_cut[OF matching_runs_descending, of ?n] more by (simp add: c')
  then show "c' \<noteq> [] \<and> ?pos (Some c') = ?pos c + DEFAULT_LIST_LIMIT"
    using more by (simp add: c' archive_position_def DEFAULT_LIST_LIMIT_def)
qed

text \<open>Paging through the archive is complete and without repetition: after \<open>n\<close> clicks on "Load more" the
  list holds the \<open>20 (n + 1)\<close> newest runs that match the filters, each once, newest first, and the
  button is gone exactly when these are all of them.\<close>

theorem archive_paging:
  "let s = browse (archive_page table status defense) status defense n;
       runs = matching_runs table status defense
   in hl_items s = take (20 * (n + 1)) runs \<and> hl_error s = None \<and> \<not> hl_loading s \<and>
      (truthy (hl_nextCursor s) \<longleftrightarrow> 20 * (n + 1) < length runs) \<and>
      distinct (map li_experiment_id runs) \<and> descending runs \<and>
      set runs = {r \<in> set (run_rows table). row_matches (status_param status) (defense_param defense) r}"
proof -
  let ?s = "browse (archive_page table status defense) status defense n" and ?runs = "matching_runs table status defense"
  note inv = archive.browse_inv[of table status defense status defense n]
  have "truthy (hl_nextCursor ?s) \<longleftrightarrow> hl_nextCursor ?s \<noteq> None" using inv by (cases "hl_nextCursor ?s") auto
  moreover have ms: "mset ?runs = mset (filter (row_matches (status_param status) (defense_param defense)) (run_rows table))"
    by (simp add: matching_runs_def newest_first_def)
  moreover have "mset (map li_experiment_id ?runs) =
      mset (map li_experiment_id (filter (row_matches (status_param status) (defense_param defense)) (run_rows table)))"
    using ms by (simp only: mset_map)
  then have "distinct (map li_experiment_id ?runs)"
    using mset_eq_imp_distinct_iff distinct_map_filter[OF run_rows_distinct] by blast
  moreover have "set ?runs = {r \<in> set (run_rows table). row_matches (status_param status) (defense_param defense) r}"
    using mset_eq_setD[OF ms] by simp
  ultimately show ?thesis using inv matching_runs_descending
    by (simp add: Let_def DEFAULT_LIST_LIMIT_def mult.commute[of 20] not_le)
qed

text \<open>A page that fails to load takes the whole list off the screen, with the runs already loaded and the
  way to ask again: the state keeps the error for as long as the list is mounted.\<close>

theorem failed_page_hides_list:
  assumes "msg \<noteq> []"
  shows "history_view_of selected (more_loaded s (Inl msg)) = HistoryError msg \<and>
    hl_items (more_loaded s (Inl msg)) = hl_items s"
  using assms by (simp add: history_view_of_def more_loaded_def)

theorem failed_page_hides_list_witness:
  "history_view_of [] (more_loaded history_mounted (Inl ''failed to list experiments: 500'')) =
     HistoryError ''failed to list experiments: 500''"
  using failed_page_hides_list[of "''failed to list experiments: 500''" "[]" history_mounted] by simp

text \<open>The filter named "Incomplete" asks for runs without a final status, while the badge "Incomplete" marks
  every run whose log is not known to be complete: a run that finished with a gap in its log carries
  the badge and is never listed under the filter.\<close>

theorem incomplete_badge_and_filter:
  assumes "li_final_status r = Some st" and "li_is_complete r \<noteq> Some True"
  shows "hr_integrity (history_row_of selected r) = (SevWarn, ''Incomplete'') \<and>
    \<not> row_matches (status_param StIncomplete) defense r"
  using assms by (simp add: history_row_of_def row_matches_def Let_def)

end
