(* ===== verification/Demo_Page.thy ===== *)
theory Demo_Page
  imports Runtime_Stream Client Verdict Incident Test_Runs Provenance
begin

text \<open>
  \<open>frontend/src/app/demo/page.tsx\<close>: the screen of the live demo. It polls for the current session,
  scopes what it derives from the stream to that session, fetches the explanation once an attack is
  on record, and resets. Its inputs are the answers to its requests, the renders of the stream hook
  and the reset button; after each input the effect of the explanation runs if its dependencies
  changed. The sections of the page are summed up in which of them are shown.
\<close>

section \<open>State\<close>

text \<open>The explanation is opaque; \<open>dm_request\<close> is the session of the explanation request that is under way
  and not aborted, \<open>dm_deps\<close> what the effect last ran with.\<close>

record demo_page =
  dm_summary :: "runtime_session_summary option"
  dm_loadError :: "string option"
  dm_explanation :: "json option"
  dm_explainedFor :: "string option"
  dm_resetting :: bool
  dm_stream :: graph_state
  dm_request :: "string option"
  dm_deps :: "(string option \<times> bool) option"

definition demo_mounted :: demo_page where
  "demo_mounted = \<lparr>dm_summary = None, dm_loadError = None, dm_explanation = None, dm_explainedFor = None,
     dm_resetting = False, dm_stream = initialGraphState, dm_request = None, dm_deps = None\<rparr>"

definition demo_session :: "demo_page \<Rightarrow> string option" where
  "demo_session d = map_option rs_session_id (dm_summary d)"

definition liveEvents :: "demo_page \<Rightarrow> event list" where
  "liveEvents d = (if truthy (demo_session d) \<and> gs_experimentId (dm_stream d) = demo_session d
     then gs_recentEvents (dm_stream d) else [])"

definition demo_verdict_of :: "demo_page \<Rightarrow> demo_verdict" where
  "demo_verdict_of d = deriveVerdict (liveEvents d)"

definition demo_lights :: "demo_page \<Rightarrow> verdict_light list" where
  "demo_lights d = verdictLights (demo_verdict_of d)"

section \<open>Inputs\<close>

definition poll_answer :: "demo_page \<Rightarrow> client_error + runtime_session_summary \<Rightarrow> demo_page" where
  "poll_answer d answer = (case answer of
      Inr next_summary \<Rightarrow> d\<lparr>dm_summary := Some next_summary, dm_loadError := None\<rparr>
    | Inl NoLiveSessionError \<Rightarrow> d\<lparr>dm_summary := None, dm_loadError := None\<rparr>
    | Inl (ClientError msg) \<Rightarrow> d\<lparr>dm_loadError := Some msg\<rparr>)"

text \<open>The effect of the explanation: aborts the request of its previous run, then maybe starts one.\<close>

definition explanation_effect :: "demo_page \<Rightarrow> demo_page" where
  "explanation_effect d =
     (let deps = (demo_session d, attackDetected (demo_verdict_of d))
      in if dm_deps d = Some deps then d
         else d\<lparr>dm_deps := Some deps,
                dm_request := (if \<not> truthy (demo_session d) \<or> \<not> attackDetected (demo_verdict_of d) then None
                               else if dm_explainedFor d = demo_session d then None else demo_session d)\<rparr>)"

definition explanation_answer :: "demo_page \<Rightarrow> string + json \<Rightarrow> demo_page" where
  "explanation_answer d answer = (case dm_request d of
      None \<Rightarrow> d
    | Some s \<Rightarrow> (case answer of
          Inr explained \<Rightarrow> d\<lparr>dm_request := None, dm_explainedFor := Some s, dm_explanation := Some explained\<rparr>
        | Inl _ \<Rightarrow> d\<lparr>dm_request := None\<rparr>))"

definition reset_clicked :: "demo_page \<Rightarrow> demo_page" where
  "reset_clicked d = d\<lparr>dm_resetting := True\<rparr>"

definition reset_answer :: "demo_page \<Rightarrow> string + unit \<Rightarrow> demo_page" where
  "reset_answer d answer = (case answer of
      Inr _ \<Rightarrow> d\<lparr>dm_summary := None, dm_explanation := None, dm_explainedFor := None, dm_loadError := None\<rparr>
    | Inl msg \<Rightarrow> d\<lparr>dm_loadError := Some msg\<rparr>)\<lparr>dm_resetting := False\<rparr>"

datatype demo_input =
    PollAnswer "client_error + runtime_session_summary"
  | StreamRendered graph_state
  | ExplanationAnswer "string + json"
  | ResetClicked
  | ResetAnswer "string + unit"

fun demo_handle :: "demo_page \<Rightarrow> demo_input \<Rightarrow> demo_page" where
  "demo_handle d (PollAnswer answer) = poll_answer d answer"
| "demo_handle d (StreamRendered g) = d\<lparr>dm_stream := g\<rparr>"
| "demo_handle d (ExplanationAnswer answer) = explanation_answer d answer"
| "demo_handle d ResetClicked = reset_clicked d"
| "demo_handle d (ResetAnswer answer) = reset_answer d answer"

definition demo_step :: "demo_page \<Rightarrow> demo_input \<Rightarrow> demo_page" where
  "demo_step d i = explanation_effect (demo_handle d i)"

definition demo_after :: "demo_input list \<Rightarrow> demo_page" where
  "demo_after inputs = foldl demo_step demo_mounted inputs"

section \<open>What is on the screen\<close>

datatype demo_view =
    DemoConnecting
  | DemoWaiting
  | DemoUnreachable string
  | DemoRun "verdict_light list" "json option" "string option"

text \<open>\<open>DemoRun\<close> carries the lights, the explanation and the banner of a load error.\<close>

definition demo_view_of :: "demo_page \<Rightarrow> demo_view" where
  "demo_view_of d = (case dm_summary d of
      Some s \<Rightarrow> if liveEvents d = [] \<and> \<not> truthy (dm_loadError d) then DemoConnecting
                else DemoRun (demo_lights d) (dm_explanation d) (if truthy (dm_loadError d) then dm_loadError d else None)
    | None \<Rightarrow> if truthy (dm_loadError d) then DemoUnreachable (the (dm_loadError d)) else DemoWaiting)"

section \<open>The lights are scoped to the session on screen\<close>

lemma verdict_of_nothing [simp]: "deriveVerdict [] = EMPTY_VERDICT"
  by (simp add: deriveVerdict_def)

text \<open>Nothing of another run is shown: with a stream of another session, or without a session, all four
  lights are pending.\<close>

theorem lights_scoped_to_session:
  assumes "gs_experimentId (dm_stream d) \<noteq> demo_session d \<or> \<not> truthy (demo_session d)"
  shows "map vl_status (demo_lights d) = [LsPending, LsPending, LsPending, LsPending]"
  using assms
  by (auto simp: demo_lights_def demo_verdict_of_def liveEvents_def verdictLights_def EMPTY_VERDICT_def)

theorem lights_scoped_to_session_witness:
  "map vl_status (demo_lights (demo_mounted\<lparr>dm_stream := apply_event initialGraphState (demo_event 1 POLICY_VIOLATION None None)\<rparr>))
     = [LsPending, LsPending, LsPending, LsPending]"
  by (rule lights_scoped_to_session) (simp add: demo_session_def demo_mounted_def)

lemma reduce_all_folds: "reduce_all s (map EventFrame es) = Inr t \<Longrightarrow> t = foldl apply_event s es"
  by (induction es arbitrary: s) (auto split: if_splits)

lemma fold_keeps_run: "gs_experimentId (foldl apply_event s es) = gs_experimentId s"
  by (induction es arbitrary: s) (simp_all add: apply_event_def)

text \<open>Of the session on screen the lights show the last two hundred events: over a snapshot and the
  events since, each of the first three lights is lit exactly when its event is among them.\<close>

theorem lights_of_recent_events:
  assumes "reduce_all (reduce_snapshot initialGraphState f) (map EventFrame es) = Inr (dm_stream d)"
    and "demo_session d = Some (sf_experiment_id f)" and "sf_experiment_id f \<noteq> []"
  shows "liveEvents d = last_n 200 es \<and>
    map vl_status (take 3 (demo_lights d)) = map (\<lambda>ty. if \<exists>e \<in> set (last_n 200 es). e_event_type e = ty then LsLit else LsPending)
      [POLICY_VIOLATION, AGENT_QUARANTINED, WORKFLOW_RECOVERED]"
proof -
  let ?s = "reduce_snapshot initialGraphState f"
  have s: "gs_recentEvents ?s = []" "gs_experimentId ?s = Some (sf_experiment_id f)"
    by (simp_all add: reduce_snapshot_def initialGraphState_def Let_def)
  have st: "dm_stream d = foldl apply_event ?s es" using reduce_all_folds[OF assms(1)] .
  then have "gs_experimentId (dm_stream d) = demo_session d" using assms(2) s by (simp add: fold_keeps_run)
  moreover have "gs_recentEvents (dm_stream d) = last_n 200 es"
    using recent.log_fold[of ?s es] by (simp add: st s EVENT_LOG_CAP_def)
  ultimately have live: "liveEvents d = last_n 200 es" using assms(2,3) by (simp add: liveEvents_def)
  then show ?thesis by (simp add: demo_lights_def demo_verdict_of_def verdictLights_def derived_flags)
qed

text \<open>So the light of an attack goes out again once two hundred more events have arrived.\<close>

theorem attack_light_goes_out:
  assumes "reduce_all (reduce_snapshot initialGraphState f) (map EventFrame (before @ after)) = Inr (dm_stream d)"
    and "demo_session d = Some (sf_experiment_id f)" and "sf_experiment_id f \<noteq> []"
    and "length after \<ge> 200" and "\<forall>e \<in> set after. e_event_type e \<noteq> POLICY_VIOLATION"
  shows "vl_status (hd (demo_lights d)) = LsPending"
proof -
  let ?s = "reduce_snapshot initialGraphState f"
  have s: "gs_recentEvents ?s = []" by (simp add: reduce_snapshot_def initialGraphState_def Let_def)
  have "gs_recentEvents (dm_stream d) = last_n 200 (before @ after)"
    using recent.log_fold[of ?s "before @ after"] reduce_all_folds[OF assms(1)] by (simp add: s EVENT_LOG_CAP_def)
  also have "\<dots> = last_n 200 after" using assms(4) by (simp add: last_n_def)
  finally have "set (liveEvents d) \<subseteq> set after" using set_last_n[of 200 after] by (auto simp: liveEvents_def)
  with assms(5) have "\<not> attackDetected (demo_verdict_of d)" by (auto simp: demo_verdict_of_def derived_flags)
  then show ?thesis by (simp add: demo_lights_def verdictLights_def)
qed

section \<open>The explanation\<close>

definition demo_attack :: "demo_page \<Rightarrow> bool" where
  "demo_attack d = attackDetected (demo_verdict_of d)"

lemma demo_frame [simp]:
  "demo_session (d\<lparr>dm_deps := x\<rparr>) = demo_session d" "demo_session (d\<lparr>dm_request := y\<rparr>) = demo_session d"
  "demo_attack (d\<lparr>dm_deps := x\<rparr>) = demo_attack d" "demo_attack (d\<lparr>dm_request := y\<rparr>) = demo_attack d"
  by (simp_all add: demo_session_def demo_attack_def demo_verdict_of_def liveEvents_def)

lemma explanation_effect_eq:
  "explanation_effect d =
     (let deps = (demo_session d, demo_attack d)
      in if dm_deps d = Some deps then d
         else d\<lparr>dm_deps := Some deps,
                dm_request := (if truthy (demo_session d) \<and> demo_attack d \<and> dm_explainedFor d \<noteq> demo_session d
                               then demo_session d else None)\<rparr>)"
  by (simp add: explanation_effect_def demo_attack_def Let_def)

text \<open>What holds after every input.\<close>

definition demo_inv :: "demo_page \<Rightarrow> bool" where
  "demo_inv d \<longleftrightarrow> dm_deps d = Some (demo_session d, demo_attack d) \<and>
     (\<forall>s. dm_request d = Some s \<longrightarrow> demo_session d = Some s \<and> demo_attack d \<and> dm_explainedFor d \<noteq> Some s) \<and>
     (dm_explanation d \<noteq> None \<longleftrightarrow> dm_explainedFor d \<noteq> None)"

lemma demo_inv_effect:
  assumes "dm_explanation d \<noteq> None \<longleftrightarrow> dm_explainedFor d \<noteq> None"
    and "dm_deps d = Some (demo_session d, demo_attack d) \<Longrightarrow> demo_inv d"
  shows "demo_inv (explanation_effect d)"
  using assms by (auto simp: explanation_effect_eq Let_def demo_inv_def)

lemma demo_session_frame [simp]:
  "demo_session (d\<lparr>dm_loadError := a\<rparr>) = demo_session d" "demo_session (d\<lparr>dm_resetting := b\<rparr>) = demo_session d"
  "demo_session (d\<lparr>dm_explanation := c\<rparr>) = demo_session d" "demo_session (d\<lparr>dm_explainedFor := e\<rparr>) = demo_session d"
  "demo_session (d\<lparr>dm_stream := g\<rparr>) = demo_session d"
  "demo_attack (d\<lparr>dm_loadError := a\<rparr>) = demo_attack d" "demo_attack (d\<lparr>dm_resetting := b\<rparr>) = demo_attack d"
  "demo_attack (d\<lparr>dm_explanation := c\<rparr>) = demo_attack d" "demo_attack (d\<lparr>dm_explainedFor := e\<rparr>) = demo_attack d"
  by (simp_all add: demo_session_def demo_attack_def demo_verdict_of_def liveEvents_def)

lemma demo_session_summary [simp]: "demo_session (d\<lparr>dm_summary := s\<rparr>) = map_option rs_session_id s"
  by (simp add: demo_session_def)

text \<open>An input that leaves the explanation, its session and the request alone keeps the invariant, because
  the effect looks at nothing else.\<close>

lemma demo_inv_effect_of:
  assumes "demo_inv d" and "dm_deps k = dm_deps d" "dm_request k = dm_request d" "dm_explainedFor k = dm_explainedFor d"
    "dm_explanation k = dm_explanation d"
  shows "demo_inv (explanation_effect k)"
  using assms by (intro demo_inv_effect) (auto simp: demo_inv_def)

lemma poll_answer_frame:
  "dm_deps (poll_answer d answer) = dm_deps d" "dm_request (poll_answer d answer) = dm_request d"
  "dm_explainedFor (poll_answer d answer) = dm_explainedFor d" "dm_explanation (poll_answer d answer) = dm_explanation d"
  by (simp_all add: poll_answer_def split: sum.split client_error.split)

lemma demo_inv_step:
  assumes inv: "demo_inv d"
  shows "demo_inv (demo_step d i)"
proof (cases i)
  case (PollAnswer answer)
  then show ?thesis unfolding demo_step_def by (simp add: demo_inv_effect_of[OF inv] poll_answer_frame)
next
  case (StreamRendered g)
  then show ?thesis unfolding demo_step_def by (simp add: demo_inv_effect_of[OF inv])
next
  case (ExplanationAnswer answer)
  have "demo_inv (explanation_answer d answer)"
    using inv by (cases "dm_request d"; cases answer) (auto simp: explanation_answer_def demo_inv_def)
  then show ?thesis using ExplanationAnswer unfolding demo_step_def by (simp add: demo_inv_effect_of)
next
  case ResetClicked
  then show ?thesis unfolding demo_step_def by (simp add: demo_inv_effect_of[OF inv] reset_clicked_def)
next
  case (ResetAnswer answer)
  show ?thesis
  proof (cases answer)
    case (Inl msg)
    then show ?thesis using ResetAnswer unfolding demo_step_def
      by (simp add: demo_inv_effect_of[OF inv] reset_answer_def)
  next
    case (Inr u)
    let ?k = "d\<lparr>dm_summary := None, dm_explanation := None, dm_explainedFor := None, dm_loadError := None, dm_resetting := False\<rparr>"
    have "demo_inv ?k" if "dm_deps ?k = Some (demo_session ?k, demo_attack ?k)"
      using inv that by (auto simp: demo_inv_def)
    then have "demo_inv (explanation_effect ?k)" by (intro demo_inv_effect) simp_all
    then show ?thesis using ResetAnswer Inr by (simp add: demo_step_def reset_answer_def)
  qed
qed

lemma demo_inv_after:
  assumes "inputs \<noteq> []"
  shows "demo_inv (demo_after inputs)"
proof -
  have none: "dm_deps (demo_handle demo_mounted i) = None" "dm_explanation (demo_handle demo_mounted i) = None"
    "dm_explainedFor (demo_handle demo_mounted i) = None" for i
    by (cases i; simp add: demo_mounted_def poll_answer_def explanation_answer_def reset_clicked_def reset_answer_def
        split: sum.split client_error.split)+
  have first: "demo_inv (demo_step demo_mounted i)" for i
    unfolding demo_step_def by (rule demo_inv_effect) (simp_all add: none)
  obtain i rest where inputs: "inputs = i # rest" using assms by (cases inputs) auto
  have "demo_inv (foldl demo_step d rest)" if "demo_inv d" for d
    using that by (induction rest arbitrary: d) (simp_all add: demo_inv_step)
  then show ?thesis using first by (simp add: demo_after_def inputs)
qed

text \<open>C40. The explanation is never asked for ahead of the decision it explains: whatever the order of the
  answers, a request under way is for the session on screen, with a policy violation among its
  events, and for a session not yet explained.\<close>

theorem explanation_requested_after_attack:
  assumes "inputs \<noteq> []" and "dm_request (demo_after inputs) = Some s"
  shows "demo_session (demo_after inputs) = Some s \<and> dm_explainedFor (demo_after inputs) \<noteq> Some s \<and>
    (\<exists>e \<in> set (liveEvents (demo_after inputs)). e_event_type e = POLICY_VIOLATION)"
  using demo_inv_after[OF assms(1)] assms(2)
  by (auto simp: demo_inv_def demo_attack_def demo_verdict_of_def derived_flags)

definition demo_summary :: "string \<Rightarrow> runtime_session_summary" where
  "demo_summary i = \<lparr>rs_session_id = i, rs_objective = [], rs_workflow_state = WfRunning, rs_step = 0, rs_last_seq = 0,
     rs_attack_detected = False, rs_recovery_required = False, rs_workers = []\<rparr>"

definition attacked :: "string \<Rightarrow> graph_state" where
  "attacked i = initialGraphState\<lparr>gs_experimentId := Some i, gs_recentEvents := [demo_event 1 POLICY_VIOLATION None None]\<rparr>"

definition attacked_run :: "demo_input list" where
  "attacked_run = [PollAnswer (Inr (demo_summary ''s1'')), StreamRendered (attacked ''s1'')]"

lemmas demo_run_simps = attacked_run_def demo_after_def demo_step_def explanation_effect_eq poll_answer_def
  demo_session_def demo_attack_def demo_verdict_of_def liveEvents_def derived_flags demo_mounted_def demo_summary_def
  attacked_def demo_event_def explanation_answer_def Let_def initialGraphState_def

theorem explanation_requested_after_attack_witness:
  "dm_request (demo_after attacked_run) = Some ''s1'' \<and> demo_session (demo_after attacked_run) = Some ''s1''"
proof -
  have ne: "attacked_run \<noteq> []" and rq: "dm_request (demo_after attacked_run) = Some ''s1''"
    by (simp_all add: demo_run_simps EMPTY_VERDICT_def)
  from explanation_requested_after_attack[OF this] rq show ?thesis by simp
qed

text \<open>The explanation of a run outlives it. When a poll brings another session without a reset in between,
  the page keeps showing the previous explanation, under the new session's own lights.\<close>

theorem explanation_of_previous_session:
  assumes "dm_explanation d = Some explained"
  shows "let k = demo_step (demo_step d (PollAnswer (Inr sm))) (StreamRendered g) in
    demo_session k = Some (rs_session_id sm) \<and> dm_explanation k = Some explained \<and>
    (liveEvents k \<noteq> [] \<longrightarrow> demo_view_of k = DemoRun (demo_lights k) (Some explained) None)"
proof -
  let ?j = "demo_step d (PollAnswer (Inr sm))"
  have eff: "dm_summary (explanation_effect x) = dm_summary x" "dm_explanation (explanation_effect x) = dm_explanation x"
    "dm_loadError (explanation_effect x) = dm_loadError x" for x
    by (simp_all add: explanation_effect_def Let_def)
  have j: "dm_summary ?j = Some sm" "dm_explanation ?j = Some explained" "dm_loadError ?j = None"
    using assms by (simp_all add: demo_step_def eff poll_answer_def)
  let ?k = "demo_step ?j (StreamRendered g)"
  have "dm_summary ?k = Some sm" "dm_explanation ?k = Some explained" "dm_loadError ?k = None"
    using j by (simp_all add: demo_step_def[of ?j] eff)
  then show ?thesis by (simp add: demo_session_def demo_view_of_def Let_def)
qed

theorem explanation_of_previous_session_witness:
  "demo_view_of (foldl demo_step (demo_after (attacked_run @ [ExplanationAnswer (Inr (JStr ''why s1''))]))
      [PollAnswer (Inr (demo_summary ''s2'')), StreamRendered (attacked ''s2'')]) =
   DemoRun (verdictLights (deriveVerdict [demo_event 1 POLICY_VIOLATION None None])) (Some (JStr ''why s1'')) None"
proof -
  let ?d = "demo_after (attacked_run @ [ExplanationAnswer (Inr (JStr ''why s1''))])"
  let ?k = "foldl demo_step ?d [PollAnswer (Inr (demo_summary ''s2'')), StreamRendered (attacked ''s2'')]"
  have ex: "dm_explanation ?d = Some (JStr ''why s1'')" by (simp add: demo_run_simps EMPTY_VERDICT_def)
  have st: "dm_stream ?k = attacked ''s2''" by (simp add: demo_step_def explanation_effect_def Let_def)
  from explanation_of_previous_session[OF ex, of "demo_summary ''s2''" "attacked ''s2''"]
  have k: "demo_session ?k = Some ''s2''" "liveEvents ?k \<noteq> [] \<longrightarrow> demo_view_of ?k = DemoRun (demo_lights ?k) (Some (JStr ''why s1'')) None"
    by (simp_all add: Let_def demo_summary_def)
  have "liveEvents ?k = [demo_event 1 POLICY_VIOLATION None None]"
    unfolding liveEvents_def k(1) st by (simp add: attacked_def)
  with k(2) show ?thesis by (simp add: demo_lights_def demo_verdict_of_def)
qed

text \<open>A failed explanation is not asked for again while the same session stays on screen with its attack on
  record, however often the session is polled.\<close>

theorem failed_explanation_not_retried:
  assumes "inputs \<noteq> []" and "dm_request (demo_after inputs) = Some s"
    and "\<And>k. k \<le> length later \<Longrightarrow> demo_session (demo_after (inputs @ ExplanationAnswer (Inl msg) # take k later)) = Some s \<and>
      demo_attack (demo_after (inputs @ ExplanationAnswer (Inl msg) # take k later))"
  shows "dm_request (demo_after (inputs @ ExplanationAnswer (Inl msg) # later)) = None"
proof -
  let ?d = "\<lambda>k. demo_after (inputs @ ExplanationAnswer (Inl msg) # take k later)"
  have "k \<le> length later \<Longrightarrow> dm_request (?d k) = None" for k
  proof (induction k)
    case 0
    have "demo_inv (demo_after inputs)" by (rule demo_inv_after[OF assms(1)])
    then show ?case using assms(2)
      by (simp add: demo_after_def demo_step_def explanation_answer_def explanation_effect_eq demo_inv_def Let_def)
  next
    case (Suc k)
    then have step: "?d (Suc k) = demo_step (?d k) (later ! k)" by (simp add: take_Suc_conv_app_nth demo_after_def)
    have inv: "demo_inv (?d k)" by (rule demo_inv_after) simp
    from assms(3)[of k] assms(3)[of "Suc k"] Suc.prems
    have now: "demo_session (?d k) = Some s" "demo_attack (?d k)" and
      then': "demo_session (demo_step (?d k) (later ! k)) = Some s" "demo_attack (demo_step (?d k) (later ! k))"
      by (simp_all flip: step)
    let ?h = "demo_handle (?d k) (later ! k)"
    have rq: "dm_request ?h = None" and deps: "dm_deps ?h = dm_deps (?d k)"
      using Suc by (cases "later ! k"; auto simp: poll_answer_def explanation_answer_def reset_clicked_def reset_answer_def
          split: sum.splits client_error.splits)+
    have "demo_session ?h = Some s" "demo_attack ?h"
      using then' by (auto simp: demo_step_def explanation_effect_eq Let_def split: if_splits)
    then have "dm_deps ?h = Some (demo_session ?h, demo_attack ?h)" using inv now deps by (simp add: demo_inv_def)
    then show ?case using rq by (simp add: step demo_step_def explanation_effect_eq)
  qed
  from this[of "length later"] show ?thesis by simp
qed

end
