(* ===== verification/Formatting.thy ===== *)
theory Formatting
  imports Controls
begin

text \<open>
  \<open>frontend/src/lib/format.ts\<close> and \<open>frontend/src/lib/stream/sessionScope.ts\<close>: how numbers, ids, config
  changes, event metadata and the origin of a compromise are put into words. \<open>JSON.stringify\<close> and
  \<open>toLocaleString\<close> are arguments: what the first makes of a fraction and the second of a date is up
  to the engine and the locale.
\<close>

section \<open>Numbers\<close>

text \<open>\<open>Math.round\<close> of a finite number, and \<open>toFixed(1)\<close> of one (below \<open>10 ^ 21\<close>): the nearest tenth, the larger one
  of two, printed on the absolute value with its sign in front.\<close>

definition math_round :: "rat \<Rightarrow> int" where
  "math_round q = \<lfloor>q + 1/2\<rfloor>"

definition tenths :: "nat \<Rightarrow> string" where
  "tenths n = show_nat (n div 10) @ ''.'' @ show_nat (n mod 10)"

definition to_fixed1 :: "rat \<Rightarrow> string" where
  "to_fixed1 q = (if q < 0 then ''-'' @ tenths (nat (math_round (10 * - q))) else tenths (nat (math_round (10 * q))))"

fun special_text :: "jsnum \<Rightarrow> (rat \<Rightarrow> string) \<Rightarrow> string" where
  "special_text (Fin q) f = f q"
| "special_text PosInf f = ''Infinity''"
| "special_text NegInf f = ''-Infinity''"
| "special_text NaN f = ''NaN''"

definition formatPercent :: "jsnum \<Rightarrow> string" where
  "formatPercent value = special_text value (\<lambda>q. show_int (math_round (q * 100))) @ ''%''"

definition formatLatency :: "jsnum option \<Rightarrow> string" where
  "formatLatency value = (case value of None \<Rightarrow> em_dash | Some v \<Rightarrow> special_text v to_fixed1 @ '' ticks'')"

section \<open>Configurations, chains, ids, times\<close>

definition arrow_sep :: string where
  "arrow_sep = '' '' @ right_arrow @ '' ''"

definition formatConfigDiff :: "(json \<Rightarrow> string) \<Rightarrow> json_object \<Rightarrow> string" where
  "formatConfigDiff stringify diff =
     (if diff = [] then ''(no change)'' else join '', '' (map (\<lambda>(key, value). key @ arrow_sep @ stringify value) diff))"

definition formatProvenanceChain :: "string list \<Rightarrow> string" where
  "formatProvenanceChain chain = (if chain = [] then ''(no provenance chain)'' else join arrow_sep chain)"

definition shortId :: "string \<Rightarrow> string" where
  "shortId i = take 8 i"

definition formatTimestamp :: "(string \<Rightarrow> string option) \<Rightarrow> string \<Rightarrow> string" where
  "formatTimestamp locale_string stamp = or_default (locale_string stamp) stamp"

definition metadata_entry :: "(json \<Rightarrow> string) \<Rightarrow> string \<times> json \<Rightarrow> string" where
  "metadata_entry stringify kv = fst kv @ ''='' @ (case snd kv of JStr s \<Rightarrow> s | value \<Rightarrow> stringify value)"

definition formatEventMetadata :: "(json \<Rightarrow> string) \<Rightarrow> json_object option \<Rightarrow> string" where
  "formatEventMetadata stringify metadata = (case metadata of
      None \<Rightarrow> []
    | Some m \<Rightarrow> if m = [] then [] else join ''  '' (map (metadata_entry stringify) m))"

section \<open>Nodes\<close>

definition deriveNeighbors :: "string \<Rightarrow> edge_view list \<Rightarrow> string list" where
  "deriveNeighbors nodeId edges = map (\<lambda>e. if ev_source e = nodeId then ev_target e else ev_source e)
     (filter (\<lambda>e. ev_source e = nodeId \<or> ev_target e = nodeId) edges)"

definition unknown_origin :: string where
  "unknown_origin = ''unknown (before this session's connection)''"

definition is_taken :: "node_view \<Rightarrow> bool" where
  "is_taken n \<longleftrightarrow> nv_security_state n = Compromised \<or> nv_security_state n = Quarantined"

definition describeCompromisedBy :: "node_view \<Rightarrow> string" where
  "describeCompromisedBy n =
     (if \<not> is_taken n then em_dash
      else case nv_compromised_by n of
        Some s \<Rightarrow> s
      | None \<Rightarrow> if nv_tick_compromised n = Some 0 then em_dash @ '' (initial compromise)'' else unknown_origin)"

definition describeTickCompromised :: "node_view \<Rightarrow> string" where
  "describeTickCompromised n =
     (if is_taken n \<and> nv_compromised_by n = None \<and> nv_tick_compromised n \<noteq> Some 0 then unknown_origin
      else case nv_tick_compromised n of None \<Rightarrow> em_dash | Some t \<Rightarrow> show_int t)"

section \<open>Why the live log is empty\<close>

definition ended_hint :: string where
  "ended_hint = ''This run has already ended, and the live stream only carries events received while connected. Open it under Runs to replay its complete recorded log.''"

definition liveLogGapHint :: "control_status \<Rightarrow> bool \<Rightarrow> string option" where
  "liveLogGapHint status hasEvents =
     (if hasEvents then None else if status = CsFinished \<or> status = CsStopped then Some ended_hint else None)"

section \<open>Properties\<close>

lemma math_round_near: "\<bar>of_int (math_round q) - q\<bar> \<le> 1/2"
  unfolding math_round_def by linarith

lemma math_round_mono: "p \<le> q \<Longrightarrow> math_round p \<le> math_round q"
  unfolding math_round_def by (intro floor_mono) simp

lemma math_round_of_int: "math_round (of_int i) = i"
proof -
  have "\<lfloor>of_int i + (1/2 :: rat)\<rfloor> = i" by linarith
  then show ?thesis by (simp add: math_round_def)
qed

text \<open>A fraction is printed as a whole percentage between 0 and 100 that is off by at most half a
  point, and a larger fraction never as a smaller percentage.\<close>

theorem percent_of_fraction:
  assumes "0 \<le> q" and "q \<le> 1"
  shows "\<exists>n \<le> 100. formatPercent (Fin q) = show_nat n @ ''%'' \<and> \<bar>of_nat n - 100 * q\<bar> \<le> 1/2 \<and>
    (\<forall>p \<in> {0..q}. \<exists>m \<le> n. formatPercent (Fin p) = show_nat m @ ''%'')"
proof -
  let ?r = "\<lambda>p. math_round (p * 100)"
  have low: "0 \<le> ?r p" if "0 \<le> p" for p
    using math_round_mono[of 0 "p * 100"] math_round_of_int[of 0] that by simp
  have shown: "formatPercent (Fin p) = show_nat (nat (?r p)) @ ''%''" if "0 \<le> p" for p
    using low[OF that] by (simp add: formatPercent_def show_int_def)
  have "?r q \<le> 100" using math_round_mono[of "q * 100" "of_int 100"] math_round_of_int[of 100] assms(2) by simp
  then have n: "nat (?r q) \<le> 100" by simp
  have "(of_nat (nat (?r q)) :: rat) = of_int (?r q)" using low[OF assms(1)] by simp
  then have near: "\<bar>of_nat (nat (?r q)) - 100 * q\<bar> \<le> 1/2" using math_round_near[of "q * 100"] by (simp add: mult.commute)
  have "nat (?r p) \<le> nat (?r q)" if "p \<le> q" for p using math_round_mono[of "p * 100" "q * 100"] that by simp
  then have "\<forall>p \<in> {0..q}. \<exists>m \<le> nat (?r q). formatPercent (Fin p) = show_nat m @ ''%''"
    using shown by (metis atLeastAtMost_iff)
  with n near shown[OF assms(1)] show ?thesis by blast
qed

theorem percent_of_fraction_witness: "\<exists>n \<le> 100. formatPercent (Fin (2/3)) = show_nat n @ ''%''"
  using percent_of_fraction[of "2/3"] by auto

text \<open>The inspector's two rows agree on what is not known: the origin and the tick of a compromise are
  both reported as lost or neither is, a node that is not taken has no origin, and the initial
  foothold is told apart from a loss.\<close>

theorem origin_and_tick_agree:
  assumes "nv_compromised_by n \<noteq> Some unknown_origin"
  shows "(describeCompromisedBy n = unknown_origin \<longleftrightarrow> describeTickCompromised n = unknown_origin) \<and>
    (\<not> is_taken n \<longrightarrow> describeCompromisedBy n = em_dash) \<and>
    (is_taken n \<and> nv_compromised_by n = None \<and> nv_tick_compromised n = Some 0 \<longrightarrow>
      describeCompromisedBy n = em_dash @ '' (initial compromise)'' \<and> describeTickCompromised n = ''0'')"
proof -
  have "CHR ''u'' \<notin> set (show_int t)" for t
    using show_nat_digits[of "CHR ''u''"] by (auto simp: show_int_def is_digit_def)
  then have "show_int t \<noteq> unknown_origin" for t by (metis list.set_intros(1) unknown_origin_def)
  moreover have "em_dash \<noteq> unknown_origin" "em_dash @ '' (initial compromise)'' \<noteq> unknown_origin"
    by (simp_all add: em_dash_def unknown_origin_def)
  moreover have "show_int 0 = ''0''" by code_simp
  ultimately show ?thesis using assms
    by (auto simp: describeCompromisedBy_def describeTickCompromised_def split: option.splits)
qed

theorem origin_and_tick_agree_witness:
  "describeTickCompromised \<lparr>nv_id = ''a'', nv_software_type = ''sw'', nv_security_state = Compromised,
     nv_compromised_by = None, nv_tick_compromised = Some 0, nv_agent_kind = Simulated\<rparr> = ''0''"
  using origin_and_tick_agree[of "\<lparr>nv_id = ''a'', nv_software_type = ''sw'', nv_security_state = Compromised,
     nv_compromised_by = None, nv_tick_compromised = Some 0, nv_agent_kind = Simulated\<rparr>"]
  by (simp add: is_taken_def)

end
