(* ===== verification/Metrics_View.thy ===== *)
theory Metrics_View
  imports Formatting Vocabulary
begin

text \<open>
  The numbers of a run as the screens show them: \<open>frontend/src/components/insights/SecurityMetrics.tsx\<close>
  (the metrics with their definitions), \<open>components/insights/MetricsComparison.tsx\<close> (two arms with the
  direction of travel) and the meters of \<open>components/ui/Metric.tsx\<close>. A table or tile is the list of its
  cells; the markup around them is not modelled.
\<close>

section \<open>Descriptors\<close>

datatype metric_key =
    CompromiseFraction | RetainedUtility | BlastRadiusFraction | PrivilegedExposure | SecurityPlaneIntegrity
  | AttackSuccessRate | FalseQuarantineRate | DetectionLatency | ContainmentLatency

datatype metric_kind = RiskMetric | HealthMetric | CountMetric | LatencyMetric

record metric_descriptor =
  md_key :: metric_key
  md_label :: string
  md_definition :: string
  md_kind :: metric_kind

text \<open>\<open>typeof metrics[key] === "number" ? metrics[key] : null\<close>.\<close>

fun metric_value :: "metrics_response \<Rightarrow> metric_key \<Rightarrow> jsnum option" where
  "metric_value m CompromiseFraction = Some (m_compromise_fraction m)"
| "metric_value m RetainedUtility = Some (m_retained_utility m)"
| "metric_value m BlastRadiusFraction = Some (m_blast_radius_fraction m)"
| "metric_value m PrivilegedExposure = Some (m_privileged_exposure m)"
| "metric_value m SecurityPlaneIntegrity = Some (m_security_plane_integrity m)"
| "metric_value m AttackSuccessRate = Some (m_attack_success_rate m)"
| "metric_value m FalseQuarantineRate = Some (m_false_quarantine_rate m)"
| "metric_value m DetectionLatency = m_detection_latency m"
| "metric_value m ContainmentLatency = m_containment_latency m"

definition divided_by :: string where
  "divided_by = [CHR 0xC3, CHR 0xB7]"

definition METRIC_DESCRIPTORS :: "metric_descriptor list" where
  "METRIC_DESCRIPTORS = [
     \<lparr>md_key = CompromiseFraction, md_label = ''Compromise fraction'',
        md_definition = ''Compromised agents '' @ divided_by @ '' all agents.'', md_kind = RiskMetric\<rparr>,
     \<lparr>md_key = BlastRadiusFraction, md_label = ''Blast radius'',
        md_definition = ''Agents reachable from any currently-compromised node across propagation-capable edges ''
          @ divided_by @ '' all agents.'', md_kind = RiskMetric\<rparr>,
     \<lparr>md_key = AttackSuccessRate, md_label = ''Attack success rate'',
        md_definition = ''Successful compromises '' @ divided_by @ '' (successful + failed), over observed events.'',
        md_kind = RiskMetric\<rparr>,
     \<lparr>md_key = FalseQuarantineRate, md_label = ''False-quarantine rate'',
        md_definition = ''Quarantines exercised without a preceding detection '' @ divided_by
          @ '' all quarantines '' @ em_dash @ '' the cost of a subverted quarantine authority.'', md_kind = RiskMetric\<rparr>,
     \<lparr>md_key = RetainedUtility, md_label = ''Retained utility'',
        md_definition = ''Agents neither compromised nor quarantined '' @ divided_by @ '' all agents.'',
        md_kind = HealthMetric\<rparr>,
     \<lparr>md_key = SecurityPlaneIntegrity, md_label = ''Security-plane integrity'',
        md_definition = ''Healthy sentinels and security controls '' @ divided_by @ '' all of them.'',
        md_kind = HealthMetric\<rparr>,
     \<lparr>md_key = PrivilegedExposure, md_label = ''Privileged exposure'',
        md_definition = ''Credential and resource nodes inside the blast radius.'', md_kind = CountMetric\<rparr>,
     \<lparr>md_key = DetectionLatency, md_label = ''Detection latency'',
        md_definition = ''Mean ticks from a node's compromise to the first anomaly detected on it.'',
        md_kind = LatencyMetric\<rparr>,
     \<lparr>md_key = ContainmentLatency, md_label = ''Containment latency'',
        md_definition = ''Mean ticks from detection to the first legitimate quarantine.'', md_kind = LatencyMetric\<rparr>]"

definition metricSeverity :: "metric_descriptor \<Rightarrow> jsnum option \<Rightarrow> severity" where
  "metricSeverity d value = (case value of
      None \<Rightarrow> SevNeutral
    | Some v \<Rightarrow> (case md_kind d of
        RiskMetric \<Rightarrow> severityForRisk v
      | HealthMetric \<Rightarrow> severityForHealth v
      | CountMetric \<Rightarrow> if js_less (Fin 0) v then SevHigh else SevOk
      | LatencyMetric \<Rightarrow> SevNeutral))"

text \<open>\<open>String\<close> of a number; how a fraction is printed in full is the argument \<open>fraction\<close>.\<close>

definition js_string :: "(rat \<Rightarrow> string) \<Rightarrow> jsnum \<Rightarrow> string" where
  "js_string fraction v = special_text v (\<lambda>q. if of_int \<lfloor>q\<rfloor> = q then show_int \<lfloor>q\<rfloor> else fraction q)"

definition formatMetric :: "(rat \<Rightarrow> string) \<Rightarrow> metric_descriptor \<Rightarrow> jsnum option \<Rightarrow> string" where
  "formatMetric fraction d value = (case value of
      None \<Rightarrow> em_dash
    | Some v \<Rightarrow> (case md_kind d of
        LatencyMetric \<Rightarrow> formatLatency (Some v)
      | CountMetric \<Rightarrow> js_string fraction v
      | _ \<Rightarrow> formatPercent v))"

section \<open>Tiles, lists and meters\<close>

definition meter_percent :: "jsnum \<Rightarrow> jsnum" where
  "meter_percent fraction = (case math_max (Fin 0) (math_min (Fin 1) fraction) of Fin q \<Rightarrow> Fin (q * 100) | v \<Rightarrow> v)"

record metric_tile =
  mt_label :: string
  mt_hint :: string
  mt_value :: string
  mt_severity :: severity
  mt_meter :: jsnum

definition tile_of :: "(rat \<Rightarrow> string) \<Rightarrow> metrics_response \<Rightarrow> metric_descriptor \<Rightarrow> metric_tile" where
  "tile_of fraction metrics d =
     (let value = metric_value metrics (md_key d)
      in \<lparr>mt_label = md_label d, mt_hint = md_definition d, mt_value = formatMetric fraction d value,
          mt_severity = metricSeverity d value, mt_meter = meter_percent (or_default value (Fin 0))\<rparr>)"

definition PostureTiles :: "(rat \<Rightarrow> string) \<Rightarrow> metrics_response \<Rightarrow> metric_tile list" where
  "PostureTiles fraction metrics = map (\<lambda>i. tile_of fraction metrics (METRIC_DESCRIPTORS ! i)) [0, 1, 4, 5]"

record metric_row =
  mr_label :: string
  mr_definition :: "string option"
  mr_hint :: "string option"
  mr_value :: string
  mr_severity :: severity

definition MetricsList :: "(rat \<Rightarrow> string) \<Rightarrow> metrics_response \<Rightarrow> metric_key list option \<Rightarrow> bool \<Rightarrow> metric_row list" where
  "MetricsList fraction metrics keys withDefinitions =
     (let descriptors = (case keys of None \<Rightarrow> METRIC_DESCRIPTORS
        | Some ks \<Rightarrow> filter (\<lambda>d. md_key d \<in> set ks) METRIC_DESCRIPTORS)
      in map (\<lambda>d. let value = metric_value metrics (md_key d)
           in \<lparr>mr_label = md_label d,
               mr_definition = (if withDefinitions then Some (md_definition d) else None),
               mr_hint = (if withDefinitions then None else Some (md_definition d)),
               mr_value = formatMetric fraction d value, mr_severity = metricSeverity d value\<rparr>) descriptors)"

text \<open>\<open>StackedBar\<close>: the segments that are drawn, with their widths in percent.\<close>

record bar_segment =
  bs_key :: string
  bs_value :: nat
  bs_severity :: severity
  bs_label :: string

definition StackedBar :: "bar_segment list \<Rightarrow> (bar_segment \<times> rat) list" where
  "StackedBar segments =
     (let total = foldl (\<lambda>s x. s + bs_value x) 0 segments
      in if total = 0 then []
         else map (\<lambda>x. (x, of_nat (bs_value x) / of_nat total * 100)) (filter (\<lambda>x. 0 < bs_value x) segments))"

section \<open>Two arms\<close>

definition lowerIsBetter :: "metric_descriptor \<Rightarrow> bool" where
  "lowerIsBetter d \<longleftrightarrow> md_kind d \<noteq> HealthMetric"

datatype delta_direction = DeltaBetter | DeltaWorse | DeltaSame | DeltaUnknown

text \<open>\<open>===\<close> of numbers.\<close>

definition js_num_eq :: "jsnum \<Rightarrow> jsnum \<Rightarrow> bool" where
  "js_num_eq a b \<longleftrightarrow> a = b \<and> a \<noteq> NaN"

definition deltaDirection :: "metric_descriptor \<Rightarrow> jsnum option \<Rightarrow> jsnum option \<Rightarrow> delta_direction" where
  "deltaDirection d before after = (case (before, after) of
      (Some b, Some a) \<Rightarrow>
        if js_num_eq b a then DeltaSame
        else if js_less a b = lowerIsBetter d then DeltaBetter else DeltaWorse
    | _ \<Rightarrow> DeltaUnknown)"

definition minus_sign :: string where
  "minus_sign = [CHR 0xE2, CHR 0x88, CHR 0x92]"

text \<open>Subtraction and \<open>Math.abs\<close>.\<close>

fun js_minus :: "jsnum \<Rightarrow> jsnum \<Rightarrow> jsnum" where
  "js_minus (Fin a) (Fin b) = Fin (a - b)"
| "js_minus PosInf (Fin b) = PosInf"
| "js_minus PosInf NegInf = PosInf"
| "js_minus NegInf (Fin b) = NegInf"
| "js_minus NegInf PosInf = NegInf"
| "js_minus (Fin a) PosInf = NegInf"
| "js_minus (Fin a) NegInf = PosInf"
| "js_minus _ _ = NaN"

fun js_abs :: "jsnum \<Rightarrow> jsnum" where
  "js_abs (Fin a) = Fin \<bar>a\<bar>"
| "js_abs NegInf = PosInf"
| "js_abs v = v"

definition formatDelta :: "(rat \<Rightarrow> string) \<Rightarrow> metric_descriptor \<Rightarrow> jsnum option \<Rightarrow> jsnum option \<Rightarrow> string" where
  "formatDelta fraction d before after = (case (before, after) of
      (Some b, Some a) \<Rightarrow>
        let diff = js_minus a b
        in if diff = Fin 0 then ''no change''
           else let sign = (if js_less (Fin 0) diff then ''+'' else minus_sign); magnitude = js_abs diff
             in (case md_kind d of
                  CountMetric \<Rightarrow> sign @ js_string fraction magnitude
                | LatencyMetric \<Rightarrow> sign @ special_text magnitude to_fixed1 @ '' ticks''
                | _ \<Rightarrow> sign @ special_text magnitude (\<lambda>q. show_int (math_round (q * 100))) @ '' pts'')
    | _ \<Rightarrow> em_dash)"

record delta_row =
  dr_key :: metric_key
  dr_label :: string
  dr_definition :: string
  dr_before :: string
  dr_after :: string
  dr_severity :: "severity option"
  dr_direction :: delta_direction
  dr_change :: string

definition delta_row_of ::
  "(rat \<Rightarrow> string) \<Rightarrow> metrics_response option \<Rightarrow> metrics_response option \<Rightarrow> metric_descriptor \<Rightarrow> delta_row" where
  "delta_row_of fraction before after d =
     (let b = Option.bind before (\<lambda>m. metric_value m (md_key d)); a = Option.bind after (\<lambda>m. metric_value m (md_key d))
      in \<lparr>dr_key = md_key d, dr_label = md_label d, dr_definition = md_definition d,
          dr_before = (if before = None then em_dash else formatMetric fraction d b),
          dr_after = (if after = None then em_dash else formatMetric fraction d a),
          dr_severity = map_option (\<lambda>v. metricSeverity d (Some v)) a,
          dr_direction = deltaDirection d b a,
          dr_change = formatDelta fraction d b a\<rparr>)"

definition MetricsDeltaTable :: "(rat \<Rightarrow> string) \<Rightarrow> metrics_response option \<Rightarrow> metrics_response option \<Rightarrow> delta_row list" where
  "MetricsDeltaTable fraction before after = map (delta_row_of fraction before after) METRIC_DESCRIPTORS"

section \<open>Properties\<close>

text \<open>Every metric of the backend's response is listed, once.\<close>

theorem descriptors_cover_metrics: "count_list (map md_key METRIC_DESCRIPTORS) k = 1"
  by (cases k) (simp_all add: METRIC_DESCRIPTORS_def)

lemma js_less_trichotomy:
  assumes "a \<noteq> NaN" and "b \<noteq> NaN"
  shows "js_less a b \<and> \<not> js_less b a \<and> a \<noteq> b \<or> js_less b a \<and> \<not> js_less a b \<and> a \<noteq> b \<or>
    a = b \<and> \<not> js_less a b \<and> \<not> js_less b a"
  using assms by (cases a; cases b) auto

lemma metricSeverity_mono:
  assumes "js_le a b"
  shows "if lowerIsBetter d then metricSeverity d (Some a) \<le> metricSeverity d (Some b)
    else metricSeverity d (Some b) \<le> metricSeverity d (Some a)"
  using js_le_trans[OF _ assms] js_less_le_trans[OF _ assms]
  by (cases "md_kind d")
    (simp_all add: lowerIsBetter_def metricSeverity_def severityForRisk_def severityForHealth_def less_eq_severity_def)

text \<open>The direction of travel and the colour of a cell never contradict each other. For two numbers, no
  change means equal values, swapping the arms swaps better and worse, a metric shown as better is
  never coloured more severely than before, and one that is coloured less severely is shown as better.\<close>

theorem delta_direction_sound:
  fixes d :: metric_descriptor
  assumes "a \<noteq> NaN" and "b \<noteq> NaN"
  defines "sev \<equiv> \<lambda>v. metricSeverity d (Some v)"
  shows "(deltaDirection d (Some b) (Some a) = DeltaSame \<longleftrightarrow> a = b) \<and>
    (deltaDirection d (Some b) (Some a) = DeltaBetter \<longleftrightarrow> deltaDirection d (Some a) (Some b) = DeltaWorse) \<and>
    (deltaDirection d (Some b) (Some a) = DeltaBetter \<longrightarrow> sev a \<le> sev b) \<and>
    (sev a < sev b \<longrightarrow> deltaDirection d (Some b) (Some a) = DeltaBetter)"
proof -
  have le: "js_less x y \<Longrightarrow> if lowerIsBetter d then sev x \<le> sev y else sev y \<le> sev x" for x y
    using metricSeverity_mono[of x y d] by (simp add: js_le_def sev_def)
  from js_less_trichotomy[OF assms(1,2)] show ?thesis
  proof (elim disjE conjE)
    assume "js_less a b" "\<not> js_less b a" "a \<noteq> b"
    with le[of a b] show ?thesis
      by (cases "lowerIsBetter d") (auto simp: deltaDirection_def js_num_eq_def)
  next
    assume "js_less b a" "\<not> js_less a b" "a \<noteq> b"
    with le[of b a] show ?thesis
      by (cases "lowerIsBetter d") (auto simp: deltaDirection_def js_num_eq_def)
  next
    assume "a = b" "\<not> js_less a b" "\<not> js_less b a"
    with assms(1) show ?thesis by (auto simp: deltaDirection_def js_num_eq_def)
  qed
qed

theorem delta_direction_sound_witness:
  "deltaDirection (METRIC_DESCRIPTORS ! 4) (Some (Fin (1/2))) (Some (Fin (9/10))) = DeltaBetter"
  using delta_direction_sound[of "Fin (9/10)" "Fin (1/2)" "METRIC_DESCRIPTORS ! 4"]
  by (simp add: METRIC_DESCRIPTORS_def metricSeverity_def severityForHealth_def js_le_def less_severity_def less_eq_severity_def)

text \<open>A change smaller than half a point is still given a direction, next to two equal percentages and a
  change of zero points.\<close>

theorem small_change_reads_as_zero:
  "let d = METRIC_DESCRIPTORS ! 0; b = Some (Fin (1/1000)); a = Some (Fin (2/1000)) in
    formatMetric f d b = ''0%'' \<and> formatMetric f d a = ''0%'' \<and> formatDelta f d b a = ''+0 pts'' \<and>
    deltaDirection d b a = DeltaWorse"
proof -
  have "math_round (1/10) = 0" "math_round (1/5) = 0" by (simp_all add: math_round_def floor_eq_iff)
  moreover have "show_int 0 = ''0''" by code_simp
  ultimately show ?thesis
    by (simp add: METRIC_DESCRIPTORS_def formatMetric_def formatPercent_def formatDelta_def deltaDirection_def
        js_num_eq_def lowerIsBetter_def)
qed

lemma sum_foldl: "foldl (\<lambda>s x. s + f x) (k :: nat) xs = k + sum_list (map f xs)"
  by (induction xs arbitrary: k) simp_all

lemma sum_list_filter_pos: "sum_list (map f (filter (\<lambda>x. 0 < f x) xs)) = sum_list (map f (xs :: 'a list))" for f :: "'a \<Rightarrow> nat"
  by (induction xs) simp_all

text \<open>A meter never overflows its track, and the segments of a bar fill it exactly, each in proportion
  to its share; an empty population draws no segment.\<close>

theorem bars_fill_their_track:
  assumes "fraction \<noteq> NaN"
  shows "(\<exists>p. meter_percent fraction = Fin p \<and> 0 \<le> p \<and> p \<le> 100) \<and>
    (if sum_list (map bs_value segments) = 0 then StackedBar segments = []
     else sum_list (map snd (StackedBar segments)) = 100 \<and> list_all (\<lambda>(x, w). 0 < bs_value x \<and> 0 < w) (StackedBar segments))"
proof (intro conjI)
  show "\<exists>p. meter_percent fraction = Fin p \<and> 0 \<le> p \<and> p \<le> 100"
    using assms by (cases fraction) (auto simp: meter_percent_def math_max_def math_min_def)
next
  let ?t = "sum_list (map bs_value segments)" and ?xs = "filter (\<lambda>x. 0 < bs_value x) segments"
  have bar: "StackedBar segments = (if ?t = 0 then [] else map (\<lambda>x. (x, of_nat (bs_value x) / of_nat ?t * 100)) ?xs)"
    unfolding StackedBar_def sum_foldl Let_def by simp
  have "sum_list (map snd (StackedBar segments)) = 100" if t: "?t \<noteq> 0"
  proof -
    have "sum_list (map (\<lambda>x. of_nat (bs_value x) / of_nat ?t * 100) xs) =
        (of_nat (sum_list (map bs_value xs)) / of_nat ?t * 100 :: rat)" for xs
      by (induction xs) (simp_all add: add_divide_distrib distrib_right)
    from this[of ?xs] show ?thesis
      using t by (simp add: bar comp_def sum_list_filter_pos)
  qed
  moreover have "list_all (\<lambda>(x, w). 0 < bs_value x \<and> 0 < w) (StackedBar segments)" if "?t \<noteq> 0"
  proof -
    have "0 < (of_nat ?t :: rat)" using that by (metis neq0_conv of_nat_0_less_iff)
    then have "0 < of_nat (bs_value x) / of_nat ?t * (100 :: rat)" if "0 < bs_value x" for x :: bar_segment
      using that by (intro mult_pos_pos divide_pos_pos) simp_all
    then show ?thesis by (auto simp: bar list_all_iff simp del: sum_list_eq_0_iff)
  qed
  ultimately show "if ?t = 0 then StackedBar segments = []
     else sum_list (map snd (StackedBar segments)) = 100 \<and> list_all (\<lambda>(x, w). 0 < bs_value x \<and> 0 < w) (StackedBar segments)"
    by (simp add: bar)
qed

theorem bars_fill_their_track_witness:
  "sum_list (map snd (StackedBar [\<lparr>bs_key = ''a'', bs_value = 1, bs_severity = SevOk, bs_label = ''A''\<rparr>,
     \<lparr>bs_key = ''b'', bs_value = 2, bs_severity = SevWarn, bs_label = ''B''\<rparr>])) = 100"
  using bars_fill_their_track[of "Fin 0" "[\<lparr>bs_key = ''a'', bs_value = 1, bs_severity = SevOk, bs_label = ''A''\<rparr>,
     \<lparr>bs_key = ''b'', bs_value = 2, bs_severity = SevWarn, bs_label = ''B''\<rparr>]"] by simp

end
