(* ===== verification/Activity.thy ===== *)
theory Activity
  imports Formatting Vocabulary
begin

text \<open>
  The event log: \<open>frontend/src/components/activity/EventFeed.tsx\<close> with its filter and search,
  \<open>activity/EventRow.tsx\<close>, one line of it, and \<open>app/activity/page.tsx\<close>, the screen around it. What is
  shown is data: the rows in order, the texts of the empty states, the counters.
\<close>

section \<open>A row\<close>

record event_row =
  er_tick :: int
  er_severity :: severity
  er_label :: string
  er_source :: "string option"
  er_target :: "string option"
  er_metadata :: "string option"

definition shown_id :: "string option \<Rightarrow> string option" where
  "shown_id i = (if truthy i then i else None)"

definition EventRow :: "(json \<Rightarrow> string) \<Rightarrow> bool \<Rightarrow> event \<Rightarrow> event_row" where
  "EventRow stringify is_compact e =
     (let metadata = formatEventMetadata stringify (e_metadata e)
      in \<lparr>er_tick = e_sim_tick e, er_severity = eventSeverity (e_event_type e) (e_metadata e),
          er_label = em_label (eventMeta (e_event_type e)),
          er_source = shown_id (nullish (e_source_agent_id e) (e_agent_id e)),
          er_target = shown_id (e_target_agent_id e),
          er_metadata = (if metadata \<noteq> [] \<and> \<not> is_compact then Some metadata else None)\<rparr>)"

section \<open>The feed\<close>

datatype feed_filter = FilterAll | FilterCategory event_category

definition FILTERS :: "(feed_filter \<times> string) list" where
  "FILTERS = [(FilterAll, ''All''), (FilterCategory CatAttack, EVENT_CATEGORY_LABEL CatAttack),
     (FilterCategory CatDefense, EVENT_CATEGORY_LABEL CatDefense), (FilterCategory CatSecurityPlane, ''Plane''),
     (FilterCategory CatModel, EVENT_CATEGORY_LABEL CatModel)]"

record event_feed =
  fd_filter :: feed_filter
  fd_query :: string

definition initial_feed :: event_feed where
  "initial_feed = \<lparr>fd_filter = FilterAll, fd_query = []\<rparr>"

definition id_matches :: "string \<Rightarrow> string option \<Rightarrow> bool" where
  "id_matches needle i = str_includes (lower_case (or_default i [])) needle"

definition feed_keeps :: "feed_filter \<Rightarrow> string \<Rightarrow> event \<Rightarrow> bool" where
  "feed_keeps f needle e =
     (if f \<noteq> FilterAll \<and> FilterCategory (em_category (eventMeta (e_event_type e))) \<noteq> f then False
      else if needle = [] then True
      else str_includes (lower_case (event_type_name (e_event_type e))) needle \<or> id_matches needle (e_agent_id e) \<or>
        id_matches needle (e_source_agent_id e) \<or> id_matches needle (e_target_agent_id e))"

definition feed_filtered :: "event_feed \<Rightarrow> event list \<Rightarrow> event list" where
  "feed_filtered s events = filter (feed_keeps (fd_filter s) (lower_case (trim (fd_query s)))) events"

definition feed_counter :: "event_feed \<Rightarrow> event list \<Rightarrow> string" where
  "feed_counter s events =
     (let n = length (feed_filtered s events)
      in show_nat n @ (if n \<noteq> length events then '' / '' @ show_nat (length events) else []) @ '' events'')"

text \<open>An empty state is its title, its text and whether the caller's action is shown.\<close>

datatype feed_body = FeedRows "event list" | FeedEmpty string string bool

definition no_match_hint :: string where
  "no_match_hint = ''Try a different category, or clear the text filter.''"

definition feed_body_of :: "event_feed \<Rightarrow> event list \<Rightarrow> string option \<Rightarrow> string option \<Rightarrow> feed_body" where
  "feed_body_of s events emptyTitle emptyHint =
     (let shown = feed_filtered s events
      in if shown = [] then
           (if events = [] then FeedEmpty (or_default emptyTitle ''No events yet'')
              (or_default emptyHint ''Events stream in as the simulation ticks.'') True
            else FeedEmpty ''No events match this filter'' no_match_hint False)
         else FeedRows (rev shown))"

section \<open>The activity screen\<close>

definition CATEGORIES :: "event_category list" where
  "CATEGORIES = [CatAttack, CatDefense, CatSecurityPlane, CatModel, CatLifecycle, CatWorkflow]"

definition count_category :: "(event_category, int) jsmap \<Rightarrow> event \<Rightarrow> (event_category, int) jsmap" where
  "count_category counts e =
     (let category = em_category (eventMeta (e_event_type e))
      in map_set counts category (or_default (map_get counts category) 0 + 1))"

definition byCategory :: "event list \<Rightarrow> (event_category, int) jsmap" where
  "byCategory events = foldl count_category [] events"

definition criticalEvents :: "event list \<Rightarrow> event list" where
  "criticalEvents events = filter (\<lambda>e. eventSeverity (e_event_type e) (e_metadata e) = SevCritical) events"

record activity_screen =
  ac_feed :: feed_body
  ac_replay_link :: "string option"
  ac_mix :: "(string \<times> int) list"
  ac_critical_badge :: "severity \<times> nat"
  ac_critical_rows :: "event list"

definition activity_screen_of :: "event_feed \<Rightarrow> string \<Rightarrow> control_status \<Rightarrow> event list \<Rightarrow> activity_screen" where
  "activity_screen_of s experimentId status events =
     (let gapHint = liveLogGapHint status (events \<noteq> []); critical = criticalEvents events
      in \<lparr>ac_feed = feed_body_of s events
            (Some (if truthy gapHint then ''No events in this session'' else ''No events yet''))
            (Some (or_default gapHint ''Events appear as soon as the first tick is published.'')),
          ac_replay_link = (if truthy gapHint then Some (''/history/'' @ experimentId) else None),
          ac_mix = map (\<lambda>c. (EVENT_CATEGORY_LABEL c, or_default (map_get (byCategory events) c) 0)) CATEGORIES,
          ac_critical_badge = (if critical \<noteq> [] then SevCritical else SevOk, length critical),
          ac_critical_rows = rev critical\<rparr>)"

section \<open>Properties\<close>

lemma str_includes_Nil [simp]: "str_includes xs []"
  by (cases xs) simp_all

text \<open>The search is insensitive to case and to surrounding space of the query, rows come newest first,
  each once, and with the filter on all and a blank query nothing is left out.\<close>

lemma trim_blank: "list_all is_space s \<Longrightarrow> trim s = []"
  by (auto simp: trim_def list_all_iff dropWhile_eq_Nil_conv dest: set_dropWhileD)

lemma dropWhile_pad: "list_all P xs \<Longrightarrow> dropWhile P (xs @ ys) = dropWhile P ys"
  by (induction xs) simp_all

lemma trim_pad:
  assumes "list_all is_space l" and "list_all is_space r"
  shows "trim (l @ q @ r) = trim q"
proof (cases "list_all is_space q")
  case True
  then show ?thesis using assms by (simp add: trim_blank)
next
  case False
  have "dropWhile is_space (q @ r) = dropWhile is_space q @ r"
    using False by (induction q) auto
  then have "trim (l @ q @ r) = rev (dropWhile is_space (rev r @ rev (dropWhile is_space q)))"
    using assms(1) by (simp add: trim_def dropWhile_pad)
  also have "\<dots> = trim q" using assms(2) by (simp add: trim_def dropWhile_pad)
  finally show ?thesis .
qed

theorem feed_search_insensitive:
  assumes "list_all is_space l" and "list_all is_space r"
  shows "feed_filtered (s\<lparr>fd_query := l @ lower_case q @ r\<rparr>) events = feed_filtered (s\<lparr>fd_query := q\<rparr>) events \<and>
    feed_filtered (initial_feed\<lparr>fd_query := l @ r\<rparr>) events = events"
proof -
  have blank: "trim (l @ r) = []" using trim_pad[OF assms, of "[]"] trim_blank[of "[]"] by simp
  have query: "trim (l @ lower_case q @ r) = lower_case (trim q)" by (simp only: trim_pad[OF assms] trim_lower)
  show ?thesis
  proof
    show "feed_filtered (s\<lparr>fd_query := l @ lower_case q @ r\<rparr>) events = feed_filtered (s\<lparr>fd_query := q\<rparr>) events"
      by (simp add: feed_filtered_def query)
    show "feed_filtered (initial_feed\<lparr>fd_query := l @ r\<rparr>) events = events"
      by (simp add: feed_filtered_def initial_feed_def blank feed_keeps_def lower_case_def)
  qed
qed

theorem feed_search_insensitive_witness:
  "feed_filtered (initial_feed\<lparr>fd_query := '' '' @ lower_case ''Agent-01'' @ []\<rparr>) [] = []"
  using feed_search_insensitive[of "'' ''" "[]" "''Agent-01''" initial_feed "[]"]
  by (simp add: is_space_def feed_filtered_def)

text \<open>No event of a run is missing from the mix: the rows cover every category once, each counts exactly
  its events, and together they count all of them. The critical list is exactly the events drawn as
  critical, and its badge agrees.\<close>

lemma CATEGORIES_all: "c \<in> set CATEGORIES" and CATEGORIES_distinct: "distinct CATEGORIES"
  by (cases c; simp add: CATEGORIES_def) (simp add: CATEGORIES_def)

definition in_category :: "event_category \<Rightarrow> event \<Rightarrow> bool" where
  "in_category c e \<longleftrightarrow> em_category (eventMeta (e_event_type e)) = c"

lemma byCategory_get: "or_default (map_get (byCategory events) c) 0 = int (length (filter (in_category c) events))"
proof (induction events rule: rev_induct)
  case (snoc e es)
  then show ?case by (auto simp: byCategory_def count_category_def Let_def in_category_def)
qed (simp add: byCategory_def)

lemma category_totals:
  assumes "distinct cs"
  shows "sum_list (map (\<lambda>c. length (filter (in_category c) es)) cs) =
    length (filter (\<lambda>e. em_category (eventMeta (e_event_type e)) \<in> set cs) es)"
  using assms
proof (induction cs)
  case (Cons c cs)
  have "length (filter (in_category c) es) + length (filter (\<lambda>e. em_category (eventMeta (e_event_type e)) \<in> set cs) es) =
    length (filter (\<lambda>e. em_category (eventMeta (e_event_type e)) \<in> set (c # cs)) es)"
    using Cons.prems by (induction es) (auto simp: in_category_def)
  with Cons show ?case by simp
qed simp

theorem event_mix_accounts:
  "let sc = activity_screen_of s i status events in
    map snd (ac_mix sc) = map (\<lambda>c. int (length (filter (in_category c) events))) CATEGORIES \<and>
    sum_list (map snd (ac_mix sc)) = int (length events) \<and>
    (\<forall>e. e \<in> set (ac_critical_rows sc) \<longleftrightarrow> e \<in> set events \<and> er_severity (EventRow stringify b e) = SevCritical) \<and>
    (fst (ac_critical_badge sc) = SevOk \<longleftrightarrow> snd (ac_critical_badge sc) = 0)"
proof -
  have "sum_list (map (\<lambda>c. int (length (filter (in_category c) events))) CATEGORIES) =
      int (sum_list (map (\<lambda>c. length (filter (in_category c) events)) CATEGORIES))"
    by (simp add: CATEGORIES_def)
  also have "\<dots> = int (length events)"
    by (simp add: category_totals[OF CATEGORIES_distinct] CATEGORIES_all)
  finally have total: "sum_list (map (\<lambda>c. int (length (filter (in_category c) events))) CATEGORIES) = int (length events)" .
  then show ?thesis
    by (auto simp: activity_screen_of_def Let_def byCategory_get comp_def criticalEvents_def EventRow_def)
qed

text \<open>Two of the six categories have no filter of their own: what they hold is found under All only.\<close>

theorem categories_without_filter:
  "filter (\<lambda>c. FilterCategory c \<notin> set (map fst FILTERS)) CATEGORIES = [CatLifecycle, CatWorkflow]"
  by (simp add: FILTERS_def CATEGORIES_def)

end
