(* ===== verification/Layout.thy ===== *)
theory Layout
  imports Graph_Model
begin

text \<open>
  \<open>frontend/src/lib/graph/layout.ts\<close>: where the nodes of a topology are drawn. The agents are spread by
  ForceAtlas2 and scaled into the unit disc; every other node stands on the ring of its plane. The
  package \<open>graphology-layout-forceatlas2\<close> is an argument: what position it gives each node, from the seeded
  positions and the edges. Coordinates are real numbers. \<open>addNode\<close> throws on an id that is already there,
  which is \<open>None\<close>. \<open>localeCompare\<close> is an argument.
\<close>

type_synonym point = "real \<times> real"
type_synonym force_layout = "(string \<times> point) list \<Rightarrow> (string \<times> string) list \<Rightarrow> string \<Rightarrow> point"

definition hypot :: "point \<Rightarrow> real" where
  "hypot p = sqrt (fst p * fst p + snd p * snd p)"

definition polar :: "real \<Rightarrow> real \<Rightarrow> point" where
  "polar r a = (r * cos a, r * sin a)"

definition GOLDEN_ANGLE :: real where
  "GOLDEN_ANGLE = pi * (3 - sqrt 5)"

fun PLANE_RADIUS :: "plane \<Rightarrow> real" where
  "PLANE_RADIUS PlWorkload = 13/10"
| "PLANE_RADIUS PlData = 156/100"
| "PLANE_RADIUS PlSecurity = 184/100"

definition is_agent :: "topology_node \<Rightarrow> bool" where
  "is_agent n \<longleftrightarrow> tn_nodeType n = ''agent''"

text \<open>\<open>placeOnCircle\<close> and the rings: position \<open>index\<close> of \<open>slots\<close> on a circle.\<close>

definition on_circle :: "real \<Rightarrow> nat \<Rightarrow> nat \<Rightarrow> point" where
  "on_circle radius slots index = polar radius (of_nat index / of_nat slots * pi * 2)"

definition placeOnCircle :: "string list \<Rightarrow> real \<Rightarrow> (string, point) jsmap \<Rightarrow> (string, point) jsmap" where
  "placeOnCircle ids radius into =
     foldl (\<lambda>m (k, i). map_set m i (on_circle radius (max 1 (length ids)) k)) into (enumerate 0 ids)"

section \<open>The agents\<close>

definition seed_position :: "nat \<Rightarrow> nat \<Rightarrow> point" where
  "seed_position slots index = polar (sqrt ((of_nat index + 1/2) / of_nat slots)) (of_nat index * GOLDEN_ANGLE)"

definition mesh_edge :: "string list \<Rightarrow> topology_edge \<Rightarrow> bool" where
  "mesh_edge ids e \<longleftrightarrow> map_of EDGE_LAYER_OF (te_edgeType e) = Some LayerMesh \<and>
     te_source e \<in> set ids \<and> te_target e \<in> set ids \<and> te_source e \<noteq> te_target e"

definition add_mesh_edge :: "string list \<Rightarrow> (string \<times> string) list \<Rightarrow> topology_edge \<Rightarrow> (string \<times> string) list" where
  "add_mesh_edge ids es e =
     (if mesh_edge ids e \<and> (te_source e, te_target e) \<notin> set es \<and> (te_target e, te_source e) \<notin> set es
      then es @ [(te_source e, te_target e)] else es)"

definition mesh_positions :: "force_layout \<Rightarrow> string list \<Rightarrow> topology_edge list \<Rightarrow> (string \<times> point) list" where
  "mesh_positions force ids edges =
     (let seeds = map (\<lambda>(k, i). (i, seed_position (length ids) k)) (enumerate 0 ids);
          mesh = foldl (add_mesh_edge ids) [] edges
      in if mesh = [] then seeds else map (\<lambda>i. (i, force seeds mesh i)) ids)"

definition normalised :: "(string \<times> point) list \<Rightarrow> (string, point) jsmap" where
  "normalised ps =
     (let n = of_nat (length ps);
          centre = (sum_list (map (fst \<circ> snd) ps) / n, sum_list (map (snd \<circ> snd) ps) / n);
          shift = (\<lambda>p. (fst p - fst centre, snd p - snd centre));
          maxRadius = foldl (\<lambda>m (i, p). max m (hypot (shift p))) 0 ps;
          scale = (if 0 < maxRadius then 1 / maxRadius else 1)
      in foldl (\<lambda>m (i, p). map_set m i (fst (shift p) * scale, snd (shift p) * scale)) [] ps)"

section \<open>The rings\<close>

text \<open>\<open>push\<close>.\<close>

definition push_to :: "('k, 'v list) jsmap \<Rightarrow> 'k \<Rightarrow> 'v \<Rightarrow> ('k, 'v list) jsmap" where
  "push_to m key value = map_set m key (or_default (map_get m key) [] @ [value])"

definition attach_edge :: "string list \<Rightarrow> (string, string list) jsmap \<Rightarrow> topology_edge \<Rightarrow> (string, string list) jsmap" where
  "attach_edge ids m e =
     (if te_source e \<in> set ids \<and> te_target e \<notin> set ids then push_to m (te_target e) (te_source e)
      else if te_target e \<in> set ids \<and> te_source e \<notin> set ids then push_to m (te_source e) (te_target e)
      else m)"

definition attachments :: "string list \<Rightarrow> topology_edge list \<Rightarrow> (string, string list) jsmap" where
  "attachments ids edges = foldl (attach_edge ids) [] edges"

definition plane_of :: "topology_node \<Rightarrow> plane" where
  "plane_of n = nt_plane (nodeTypeMeta (tn_nodeType n))"

definition byPlane :: "string list \<Rightarrow> topology_node list \<Rightarrow> (plane, topology_node list) jsmap" where
  "byPlane ids nodes = foldl (\<lambda>m n. if tn_id n \<in> set ids then m else push_to m (plane_of n) n) [] nodes"

definition unit_sum :: "(string, point) jsmap \<Rightarrow> point \<Rightarrow> string \<Rightarrow> point" where
  "unit_sum positions s i = (case map_get positions i of
      None \<Rightarrow> s
    | Some p \<Rightarrow> let len = (if hypot p = 0 then 1 else hypot p) in (fst s + fst p / len, snd s + snd p / len))"

definition meanAngle :: "string list \<Rightarrow> (string, point) jsmap \<Rightarrow> real" where
  "meanAngle neighbours positions =
     (let s = foldl (unit_sum positions) (0, 0) neighbours
      in if s = (0, 0) then 0
         else let angle = Arg (Complex (fst s) (snd s)) in if angle < 0 then angle + pi * 2 else angle)"

definition by_angle :: "(string \<Rightarrow> string \<Rightarrow> int) \<Rightarrow> topology_node \<times> real \<Rightarrow> topology_node \<times> real \<Rightarrow> int" where
  "by_angle localeCompare a b =
     (if snd a < snd b then -1 else if snd b < snd a then 1
      else localeCompare (tn_id (fst a)) (tn_id (fst b)))"

definition ring_order ::
  "(string \<Rightarrow> string \<Rightarrow> int) \<Rightarrow> (string, string list) jsmap \<Rightarrow> (string, point) jsmap \<Rightarrow> topology_node list \<Rightarrow> topology_node list" where
  "ring_order localeCompare attached positions planeNodes = map fst (sort_by (by_angle localeCompare)
     (map (\<lambda>n. (n, meanAngle (or_default (map_get attached (tn_id n)) []) positions)) planeNodes))"

definition place_ring ::
  "(string \<Rightarrow> string \<Rightarrow> int) \<Rightarrow> (string, string list) jsmap \<Rightarrow> (string, point) jsmap \<Rightarrow> plane \<times> topology_node list \<Rightarrow>
   (string, point) jsmap" where
  "place_ring localeCompare attached positions ring =
     (case ring of (plane, planeNodes) \<Rightarrow>
        foldl (\<lambda>m (k, n). map_set m (tn_id n) (on_circle (PLANE_RADIUS plane) (length planeNodes) k))
          positions (enumerate 0 (ring_order localeCompare attached positions planeNodes)))"

definition place_unplaced :: "topology_node list \<Rightarrow> (string, point) jsmap \<Rightarrow> (string, point) jsmap" where
  "place_unplaced nodes positions =
     (let unplaced = map tn_id (filter (\<lambda>n. \<not> map_has positions (tn_id n)) nodes)
      in if unplaced = [] then positions else placeOnCircle unplaced (21/10) positions)"

definition computeLayout ::
  "(string \<Rightarrow> string \<Rightarrow> int) \<Rightarrow> force_layout \<Rightarrow> topology_node list \<Rightarrow> topology_edge list \<Rightarrow> (string, point) jsmap option" where
  "computeLayout localeCompare force nodes edges =
     (let ids = map tn_id (filter is_agent nodes)
      in if ids = [] then Some (placeOnCircle (sort (map tn_id nodes)) 1 [])
         else if \<not> distinct ids then None
         else let cloud = normalised (mesh_positions force ids edges);
                  rings = foldl (place_ring localeCompare (attachments ids edges)) cloud (byPlane ids nodes)
              in Some (place_unplaced nodes rings))"

section \<open>Lemmas\<close>

lemma hypot_nonneg [simp]: "0 \<le> hypot p"
  by (simp add: hypot_def)

lemma hypot_polar [simp]: "0 \<le> r \<Longrightarrow> hypot (polar r a) = r"
proof -
  assume "0 \<le> r"
  have "r * cos a * (r * cos a) + r * sin a * (r * sin a) = r\<^sup>2 * ((cos a)\<^sup>2 + (sin a)\<^sup>2)"
    by algebra
  also have "\<dots> = r\<^sup>2" by (simp only: sin_cos_squared_add2 mult_1_right)
  finally show ?thesis using \<open>0 \<le> r\<close> by (simp only: hypot_def polar_def fst_conv snd_conv real_sqrt_abs abs_of_nonneg)
qed

lemma hypot_scale: "0 \<le> c \<Longrightarrow> hypot (fst p * c, snd p * c) = hypot p * c"
proof -
  assume "0 \<le> c"
  have "fst p * c * (fst p * c) + snd p * c * (snd p * c) = (fst p * fst p + snd p * snd p) * c\<^sup>2"
    by algebra
  with \<open>0 \<le> c\<close> show ?thesis by (simp add: hypot_def real_sqrt_mult)
qed

lemma on_circle_radius [simp]: "0 \<le> r \<Longrightarrow> hypot (on_circle r n k) = r"
  by (simp add: on_circle_def)

text \<open>Two places of one circle are different points.\<close>

lemma on_circle_inj:
  assumes "0 < r" and "i < n" "j < n" and "on_circle r n i = on_circle r n j"
  shows "i = j"
proof -
  let ?a = "\<lambda>k. of_nat k / of_nat n * pi * 2 :: real"
  have "cos (?a i) = cos (?a j)" "sin (?a i) = sin (?a j)"
    using assms(1,4) by (simp_all add: on_circle_def polar_def)
  then obtain z :: int where z: "?a i = ?a j + 2 * pi * of_int z" using sin_cos_eq_iff[of "?a i" "?a j"] by auto
  then have "of_nat i / of_nat n = of_nat j / of_nat n + (of_int z :: real)"
  proof -
    have "2 * pi * (of_nat i / of_nat n) = 2 * pi * (of_nat j / of_nat n + of_int z)"
      using z by (simp add: algebra_simps)
    then show ?thesis using pi_gt_zero by (simp only: mult_cancel_left) simp
  qed
  then have "(of_nat i :: real) = of_nat j + of_int z * of_nat n" using assms(2) by (simp add: field_simps)
  then have "real_of_int (int i) = real_of_int (int j + z * int n)" by simp
  then have eq: "int i = int j + z * int n" by (simp only: of_int_eq_iff)
  have "z = 0"
  proof (rule ccontr)
    assume "z \<noteq> 0"
    then have "\<bar>z * int n\<bar> \<ge> int n" using assms(2) by (simp add: abs_mult mult_le_cancel_right1)
    with eq assms(2,3) show False by linarith
  qed
  with eq show ?thesis by simp
qed

text \<open>Writing the entries of a list with distinct keys into a map.\<close>

lemma fold_set_get:
  assumes "distinct (map fst ps)"
  shows "map_get (foldl (\<lambda>m (k, v). map_set m k (f k v)) m ps) i =
    (case map_of ps i of Some v \<Rightarrow> Some (f i v) | None \<Rightarrow> map_get m i)"
  using assms
proof (induction ps arbitrary: m)
  case (Cons p ps)
  obtain k v where p: "p = (k, v)" by (cases p)
  then have "map_of ps k = None" using Cons.prems by (simp add: map_of_eq_None_iff)
  then show ?case using Cons p by (auto split: option.split)
qed simp

lemma fold_set_keys:
  "set (map_keys (foldl (\<lambda>m (k, v). map_set m k (f k v)) m ps)) = set (map_keys m) \<union> fst ` set ps"
proof (induction ps arbitrary: m)
  case (Cons p ps)
  obtain k v where p: "p = (k, v)" by (cases p)
  show ?case using Cons[of "map_set m k (f k v)"] dom_update[of k "f k v" m] by (simp add: p)
qed simp

lemma map_set_distinct [simp]: "distinct (map fst (map_set m k v)) = distinct (map fst m)"
  by (simp add: map_keys_set)

lemma fold_max_bound: "x \<in> set ps \<Longrightarrow> f x \<le> foldl (\<lambda>m x. max m (f x)) (b :: real) ps" "b \<le> foldl (\<lambda>m x. max m (f x)) b ps"
proof (induction ps arbitrary: b)
  case (Cons p ps)
  { case 1
    then show ?case using Cons(1)[of "max b (f p)"] Cons(2)[of "max b (f p)"] by auto }
  { case 2
    then show ?case using Cons(2)[of "max b (f p)"] by auto }
qed simp_all

lemma normalised_get:
  assumes "distinct (map fst ps)"
  shows "map_has (normalised ps) i \<longleftrightarrow> i \<in> fst ` set ps"
    and "map_get (normalised ps) i = Some q \<Longrightarrow> hypot q \<le> 1"
proof -
  define n where "n = real (length ps)"
  define centre where "centre = (sum_list (map (fst \<circ> snd) ps) / n, sum_list (map (snd \<circ> snd) ps) / n)"
  define shift where "shift = (\<lambda>p :: point. (fst p - fst centre, snd p - snd centre))"
  define R where "R = foldl (\<lambda>m (i, p). max m (hypot (shift p))) 0 ps"
  define scale where "scale = (if 0 < R then 1 / R else 1)"
  have norm: "normalised ps = foldl (\<lambda>m (i, p). map_set m i (fst (shift p) * scale, snd (shift p) * scale)) [] ps"
    by (simp add: normalised_def Let_def n_def centre_def shift_def R_def scale_def)
  have get: "map_get (normalised ps) i =
      map_option (\<lambda>p. (fst (shift p) * scale, snd (shift p) * scale)) (map_of ps i)" for i
    unfolding norm fold_set_get[OF assms, of "\<lambda>i p. (fst (shift p) * scale, snd (shift p) * scale)"]
    by (simp split: option.split)
  then show "map_has (normalised ps) i \<longleftrightarrow> i \<in> fst ` set ps"
    by (simp add: map_has_def map_of_eq_None_iff)
  assume "map_get (normalised ps) i = Some q"
  then obtain p where "map_of ps i = Some p" and q: "q = (fst (shift p) * scale, snd (shift p) * scale)"
    by (auto simp: get)
  then have p: "(i, p) \<in> set ps" by (simp add: map_of_SomeD)
  have "hypot (shift p) \<le> R"
    using fold_max_bound(1)[OF p, of "\<lambda>(i, p). hypot (shift p)" 0] by (simp add: R_def case_prod_unfold)
  moreover have "0 \<le> R" using fold_max_bound(2)[of 0 "\<lambda>(i, p). hypot (shift p)" ps] by (simp add: R_def case_prod_unfold)
  ultimately have "hypot (shift p) * scale \<le> 1" "0 \<le> scale"
    by (auto simp: scale_def divide_le_eq_1 intro: order_antisym)
  then show "hypot q \<le> 1" unfolding q by (simp add: hypot_scale)
qed

lemma mesh_positions_ids: "map fst (mesh_positions force ids edges) = ids"
  by (simp add: mesh_positions_def Let_def comp_def case_prod_unfold)

text \<open>The rings partition the nodes that are not agents by plane.\<close>

definition ring_of :: "string list \<Rightarrow> topology_node list \<Rightarrow> plane \<Rightarrow> topology_node list" where
  "ring_of ids nodes pl = filter (\<lambda>n. tn_id n \<notin> set ids \<and> plane_of n = pl) nodes"

lemma byPlane_get: "or_default (map_get (byPlane ids nodes) pl) [] = ring_of ids nodes pl"
proof (induction nodes rule: rev_induct)
  case (snoc n ns)
  then show ?case by (auto simp: byPlane_def push_to_def ring_of_def)
qed (simp add: byPlane_def ring_of_def)

lemma byPlane_distinct: "distinct (map fst (byPlane ids nodes))"
  by (induction nodes rule: rev_induct) (simp_all add: byPlane_def push_to_def)

lemma byPlane_entries: "(pl, ns) \<in> set (byPlane ids nodes) \<Longrightarrow> ns = ring_of ids nodes pl"
  using byPlane_get[of ids nodes pl] byPlane_distinct[of ids nodes] by (simp add: map_of_is_SomeI)

lemma ring_order_mset: "mset (ring_order lc att m ns) = mset ns"
proof -
  have "mset (ring_order lc att m ns) = image_mset fst (mset (map (\<lambda>n. (n, meanAngle (or_default (map_get att (tn_id n)) []) m)) ns))"
    by (simp only: ring_order_def mset_map mset_sort_by)
  then show ?thesis by (simp add: comp_def multiset.map_comp flip: mset_map)
qed

text \<open>A ring is in place: its nodes stand on distinct places of its circle, in some order.\<close>

definition ring_placed :: "(string, point) jsmap \<Rightarrow> plane \<Rightarrow> topology_node list \<Rightarrow> bool" where
  "ring_placed P pl ns \<longleftrightarrow> (\<exists>\<sigma>. mset \<sigma> = mset ns \<and>
     (\<forall>k < length \<sigma>. map_get P (tn_id (\<sigma> ! k)) = Some (on_circle (PLANE_RADIUS pl) (length ns) k)))"

lemma fold_place_other:
  "i \<notin> tn_id ` set ns \<Longrightarrow> map_get (foldl (\<lambda>m (k, n). map_set m (tn_id n) (f k)) m (enumerate a ns)) i = map_get m i"
  by (induction ns arbitrary: m a) auto

lemma fold_place_get:
  assumes "distinct (map tn_id ns)" and "k < length ns"
  shows "map_get (foldl (\<lambda>m (k, n). map_set m (tn_id n) (f k)) m (enumerate a ns)) (tn_id (ns ! k)) = Some (f (a + k))"
  using assms
proof (induction ns arbitrary: m a k)
  case (Cons n ns)
  then show ?case by (cases k) (simp_all add: fold_place_other)
qed simp

lemma place_ring_places:
  assumes "distinct (map tn_id ns)"
  shows "ring_placed (place_ring lc att m (pl, ns)) pl ns"
    and "i \<notin> tn_id ` set ns \<Longrightarrow> map_get (place_ring lc att m (pl, ns)) i = map_get m i"
    and "map_has (place_ring lc att m (pl, ns)) i \<longleftrightarrow> map_has m i \<or> i \<in> tn_id ` set ns"
proof -
  let ?s = "ring_order lc att m ns"
  have ms: "mset ?s = mset ns" by (rule ring_order_mset)
  then have len: "length ?s = length ns" and set: "set ?s = set ns" by (metis size_mset, metis set_mset_mset)
  have d: "distinct (map tn_id ?s)" using assms ms by (metis mset_map mset_eq_imp_distinct_iff)
  have eq: "place_ring lc att m (pl, ns) =
      foldl (\<lambda>m (k, n). map_set m (tn_id n) (on_circle (PLANE_RADIUS pl) (length ns) k)) m (enumerate 0 ?s)"
    by (simp add: place_ring_def)
  have at_k: "k < length ?s \<Longrightarrow> map_get (place_ring lc att m (pl, ns)) (tn_id (?s ! k)) =
      Some (on_circle (PLANE_RADIUS pl) (length ns) k)" for k
    unfolding eq using fold_place_get[OF d, of k "on_circle (PLANE_RADIUS pl) (length ns)" m 0] by simp
  then show "ring_placed (place_ring lc att m (pl, ns)) pl ns" using ms by (auto simp: ring_placed_def)
  show other: "i \<notin> tn_id ` set ns \<Longrightarrow> map_get (place_ring lc att m (pl, ns)) i = map_get m i" for i
    unfolding eq by (rule fold_place_other) (simp add: set)
  show "map_has (place_ring lc att m (pl, ns)) i \<longleftrightarrow> map_has m i \<or> i \<in> tn_id ` set ns"
  proof (cases "i \<in> tn_id ` set ns")
    case True
    then obtain k where "k < length ?s" "i = tn_id (?s ! k)" using set by (metis image_iff in_set_conv_nth)
    with at_k True show ?thesis by (simp add: map_has_def)
  next
    case False
    with other[OF False] show ?thesis by (simp add: map_has_def)
  qed
qed

lemma ring_placed_keeps:
  assumes "ring_placed P pl ns" and "\<forall>i \<in> tn_id ` set ns. map_get Q i = map_get P i"
  shows "ring_placed Q pl ns"
proof -
  obtain \<sigma> where s: "mset \<sigma> = mset ns" "\<forall>k < length \<sigma>. map_get P (tn_id (\<sigma> ! k)) = Some (on_circle (PLANE_RADIUS pl) (length ns) k)"
    using assms(1) by (auto simp: ring_placed_def)
  then have "set \<sigma> = set ns" by (metis set_mset_mset)
  then have "\<forall>k < length \<sigma>. map_get Q (tn_id (\<sigma> ! k)) = map_get P (tn_id (\<sigma> ! k))" using assms(2) by auto
  with s show ?thesis by (auto simp: ring_placed_def)
qed

text \<open>Placing all rings leaves the agents alone and every ring in place.\<close>

lemma place_rings:
  fixes lc :: "string \<Rightarrow> string \<Rightarrow> int" and att :: "(string, string list) jsmap" and m :: "(string, point) jsmap"
  assumes "distinct (map tn_id (concat (map snd rings)))"
  defines "P \<equiv> foldl (place_ring lc att) m rings"
  shows "\<forall>(pl, ns) \<in> set rings. ring_placed P pl ns"
    and "i \<notin> tn_id ` set (concat (map snd rings)) \<Longrightarrow> map_get P i = map_get m i"
    and "map_has P i \<longleftrightarrow> map_has m i \<or> i \<in> tn_id ` set (concat (map snd rings))"
proof -
  have "(\<forall>(pl, ns) \<in> set rings. ring_placed (foldl (place_ring lc att) m rings) pl ns) \<and>
      (\<forall>i. i \<notin> tn_id ` set (concat (map snd rings)) \<longrightarrow> map_get (foldl (place_ring lc att) m rings) i = map_get m i) \<and>
      (\<forall>i. map_has (foldl (place_ring lc att) m rings) i \<longleftrightarrow> map_has m i \<or> i \<in> tn_id ` set (concat (map snd rings)))"
    using assms(1)
  proof (induction rings rule: rev_induct)
    case (snoc r rings)
    obtain pl ns where r: "r = (pl, ns)" by (cases r)
    let ?P = "foldl (place_ring lc att) m rings"
    have d: "distinct (map tn_id ns)" and dis: "tn_id ` set (concat (map snd rings)) \<inter> tn_id ` set ns = {}"
      using snoc.prems by (auto simp: r)
    note IH = snoc.IH and ring = place_ring_places[OF d, where lc = lc and att = att and m = ?P and pl = pl]
    have "ring_placed (place_ring lc att ?P (pl, ns)) pl' ns'" if "(pl', ns') \<in> set rings" for pl' ns'
    proof (rule ring_placed_keeps)
      show "ring_placed ?P pl' ns'" using IH snoc.prems that by auto
      show "\<forall>i \<in> tn_id ` set ns'. map_get (place_ring lc att ?P (pl, ns)) i = map_get ?P i"
        using that dis by (intro ballI ring(2)) fastforce
    qed
    moreover have "map_get (place_ring lc att ?P (pl, ns)) i = map_get m i"
      if "i \<notin> tn_id ` set (concat (map snd (rings @ [r])))" for i
    proof -
      from that have "i \<notin> tn_id ` set ns" "i \<notin> tn_id ` set (concat (map snd rings))" by (auto simp: r)
      with ring(2) IH snoc.prems show ?thesis by simp
    qed
    moreover have "map_has (place_ring lc att ?P (pl, ns)) i \<longleftrightarrow>
        map_has m i \<or> i \<in> tn_id ` set (concat (map snd (rings @ [r])))" for i
      using ring(3)[of i] IH snoc.prems by (auto simp: r)
    ultimately show ?case using ring(1) by (simp add: r case_prod_unfold)
  qed simp
  then show "\<forall>(pl, ns) \<in> set rings. ring_placed P pl ns"
    "i \<notin> tn_id ` set (concat (map snd rings)) \<Longrightarrow> map_get P i = map_get m i"
    "map_has P i \<longleftrightarrow> map_has m i \<or> i \<in> tn_id ` set (concat (map snd rings))"
    by (simp_all add: P_def)
qed

section \<open>Where everything stands\<close>

lemma rings_distinct:
  assumes "distinct (map tn_id nodes)" and "distinct (map fst rings)"
    and "\<forall>(pl, ns) \<in> set rings. ns = ring_of ids nodes pl"
  shows "distinct (map tn_id (concat (map snd rings)))"
  using assms(2,3)
proof (induction rings)
  case (Cons r rings)
  obtain pl where r: "r = (pl, ring_of ids nodes pl)" using Cons.prems by (cases r) auto
  have inj: "inj_on tn_id (set nodes)" using assms(1) by (simp add: distinct_map)
  have "distinct (map tn_id (ring_of ids nodes pl))" using assms(1) by (simp add: ring_of_def distinct_map_filter)
  moreover have "tn_id n \<notin> tn_id ` set (ring_of ids nodes pl)" if "n \<in> set (concat (map snd rings))" for n
  proof -
    have "\<exists>r' \<in> set rings. n \<in> set (snd r')" using that by simp
    then obtain r' where r': "r' \<in> set rings" "n \<in> set (snd r')" ..
    then have "snd r' = ring_of ids nodes (fst r')" using Cons.prems by (cases r') auto
    with r' obtain pl' where "pl' \<in> fst ` set rings" "n \<in> set (ring_of ids nodes pl')" by (metis imageI)
    moreover have "pl \<notin> fst ` set rings" using Cons.prems by (simp add: r)
    ultimately show ?thesis using inj by (auto simp: ring_of_def inj_on_def)
  qed
  then have "tn_id ` set (ring_of ids nodes pl) \<inter> tn_id ` set (concat (map snd rings)) = {}"
    by (subst disjoint_iff) (metis image_iff)
  moreover have "distinct (map tn_id (concat (map snd rings)))" using Cons by simp
  ultimately show ?case by (simp add: r)
qed simp

lemma PLANE_RADIUS_outside [simp]: "1 < PLANE_RADIUS pl"
  by (cases pl) simp_all

lemma PLANE_RADIUS_nonneg [simp]: "0 \<le> PLANE_RADIUS pl"
  by (cases pl) simp_all

lemma PLANE_RADIUS_inj: "PLANE_RADIUS p = PLANE_RADIUS q \<longleftrightarrow> p = q"
  by (cases p; cases q) simp_all

lemma ring_place:
  assumes "ring_placed P pl ns" and "n \<in> set ns"
  shows "\<exists>k < length ns. map_get P (tn_id n) = Some (on_circle (PLANE_RADIUS pl) (length ns) k)"
proof -
  obtain \<sigma> where s: "mset \<sigma> = mset ns" "\<forall>k < length \<sigma>. map_get P (tn_id (\<sigma> ! k)) = Some (on_circle (PLANE_RADIUS pl) (length ns) k)"
    using assms(1) by (auto simp: ring_placed_def)
  then have "n \<in> set \<sigma>" "length \<sigma> = length ns" using assms(2) by (metis set_mset_mset, metis size_mset)
  with s(2) show ?thesis by (metis in_set_conv_nth)
qed

lemma ring_places_differ:
  assumes "ring_placed P pl ns" and "distinct (map tn_id ns)" and "n \<in> set ns" "n' \<in> set ns" "n \<noteq> n'"
  shows "map_get P (tn_id n) \<noteq> map_get P (tn_id n')"
proof -
  obtain \<sigma> where s: "mset \<sigma> = mset ns" "\<forall>k < length \<sigma>. map_get P (tn_id (\<sigma> ! k)) = Some (on_circle (PLANE_RADIUS pl) (length ns) k)"
    using assms(1) by (auto simp: ring_placed_def)
  have len: "length \<sigma> = length ns" and set: "set \<sigma> = set ns" using s(1) by (metis size_mset, metis set_mset_mset)
  obtain i j where "i < length \<sigma>" "j < length \<sigma>" "n = \<sigma> ! i" "n' = \<sigma> ! j" using assms(3,4) set by (metis in_set_conv_nth)
  moreover from this have "i \<noteq> j" using assms(5) by auto
  ultimately show ?thesis
    using s(2) len on_circle_inj[of "PLANE_RADIUS pl" i "length ns" j] PLANE_RADIUS_outside[of pl]
    by (auto simp del: PLANE_RADIUS_outside)
qed

text \<open>Every node of a topology with an agent gets exactly one position: the agents lie in the unit disc,
  every other node on the circle of its plane, outside the disc, and no node that is not an agent
  shares its position with another node, whatever ForceAtlas2 makes of the agents.\<close>

theorem layout_rings:
  assumes d: "distinct (map tn_id nodes)" and agents: "list_ex is_agent nodes"
  shows "\<exists>P. computeLayout localeCompare force nodes edges = Some P \<and> set (map_keys P) = tn_id ` set nodes \<and>
    (\<forall>n \<in> set nodes. let r = hypot (the (map_get P (tn_id n))) in
       if is_agent n then r \<le> 1 else r = PLANE_RADIUS (plane_of n)) \<and>
    (\<forall>n \<in> set nodes. \<forall>k \<in> set nodes. \<not> is_agent n \<longrightarrow> n \<noteq> k \<longrightarrow> map_get P (tn_id n) \<noteq> map_get P (tn_id k))"
proof -
  let ?ids = "map tn_id (filter is_agent nodes)"
  let ?cloud = "normalised (mesh_positions force ?ids edges)" and ?rings = "byPlane ?ids nodes"
  define P where "P = foldl (place_ring localeCompare (attachments ?ids edges)) ?cloud ?rings"
  have dids: "distinct ?ids" using d by (simp add: distinct_map_filter)
  have ne: "?ids \<noteq> []" using agents by (auto simp: list_ex_iff filter_empty_conv)
  have inj: "inj_on tn_id (set nodes)" using d by (simp add: distinct_map)
  have agent_id: "tn_id n \<in> set ?ids \<longleftrightarrow> is_agent n" if "n \<in> set nodes" for n
    using that inj by (auto simp: inj_on_def)
  have entries: "\<forall>(pl, ns) \<in> set ?rings. ns = ring_of ?ids nodes pl" using byPlane_entries by blast
  have dr: "distinct (map tn_id (concat (map snd ?rings)))" by (rule rings_distinct[OF d byPlane_distinct entries])
  have in_ring: "(plane_of n, ring_of ?ids nodes (plane_of n)) \<in> set ?rings" if "n \<in> set nodes" "\<not> is_agent n" for n
  proof -
    have "ring_of ?ids nodes (plane_of n) \<noteq> []" using that agent_id[OF that(1)] by (auto simp: ring_of_def filter_empty_conv)
    then have "map_get ?rings (plane_of n) = Some (ring_of ?ids nodes (plane_of n))"
      using byPlane_get[of ?ids nodes "plane_of n"] by (cases "map_get ?rings (plane_of n)") auto
    then show ?thesis by (rule map_of_SomeD)
  qed
  have ring_ids: "tn_id ` set (concat (map snd ?rings)) = tn_id ` {n \<in> set nodes. \<not> is_agent n}"
  proof -
    have "set (concat (map snd ?rings)) \<subseteq> {n \<in> set nodes. \<not> is_agent n}"
      using entries agent_id by (fastforce simp: ring_of_def)
    moreover have "n \<in> set (concat (map snd ?rings))" if "n \<in> set nodes" "\<not> is_agent n" for n
    proof -
      have "n \<in> set (ring_of ?ids nodes (plane_of n))" using agent_id[OF that(1)] that by (simp add: ring_of_def)
      then show ?thesis using in_ring[OF that]
        by (auto intro!: bexI[of _ "(plane_of n, ring_of ?ids nodes (plane_of n))"])
    qed
    ultimately show ?thesis by blast
  qed
  have cloud_has: "map_has ?cloud i \<longleftrightarrow> i \<in> set ?ids" for i
    using normalised_get(1)[of "mesh_positions force ?ids edges" i] dids mesh_positions_ids[of force ?ids edges]
    by (metis list.set_map)
  note placed = place_rings[OF dr, where lc = localeCompare and att = "attachments ?ids edges" and m = ?cloud, folded P_def]
  have has: "map_has P i \<longleftrightarrow> i \<in> tn_id ` set nodes" for i
    using placed(3)[of i] cloud_has[of i] ring_ids by auto
  then have "place_unplaced nodes P = P" by (simp add: place_unplaced_def)
  then have layout: "computeLayout localeCompare force nodes edges = Some P"
    using ne dids by (simp add: computeLayout_def Let_def P_def del: map_is_Nil_conv)
  have agent: "hypot (the (map_get P (tn_id n))) \<le> 1" if "n \<in> set nodes" "is_agent n" for n
  proof -
    have "tn_id n \<notin> tn_id ` set (concat (map snd ?rings))" unfolding ring_ids using that inj by (auto simp: inj_on_def)
    then have eq: "map_get P (tn_id n) = map_get ?cloud (tn_id n)" by (rule placed(2))
    have "map_has P (tn_id n)" using has[of "tn_id n"] that by simp
    then obtain q where "map_get ?cloud (tn_id n) = Some q" unfolding map_has_def eq by blast
    then show ?thesis using normalised_get(2)[of "mesh_positions force ?ids edges" "tn_id n" q] dids mesh_positions_ids[of force ?ids edges] eq
      by simp
  qed
  have ringed: "ring_placed P (plane_of n) (ring_of ?ids nodes (plane_of n))" and
    member: "n \<in> set (ring_of ?ids nodes (plane_of n))" if "n \<in> set nodes" "\<not> is_agent n" for n
    using in_ring[OF that] placed(1) agent_id[OF that(1)] that by (fastforce, simp add: ring_of_def)
  have other: "hypot (the (map_get P (tn_id n))) = PLANE_RADIUS (plane_of n)" if "n \<in> set nodes" "\<not> is_agent n" for n
    using ring_place[OF ringed[OF that] member[OF that]] PLANE_RADIUS_outside[of "plane_of n"] by auto
  have "map_get P (tn_id n) \<noteq> map_get P (tn_id k)"
    if n: "n \<in> set nodes" "\<not> is_agent n" and k: "k \<in> set nodes" and ne: "n \<noteq> k" for n k
  proof (cases "is_agent k \<or> plane_of n \<noteq> plane_of k")
    case True
    then have "hypot (the (map_get P (tn_id n))) \<noteq> hypot (the (map_get P (tn_id k)))"
      using other[OF n] other[OF k] agent[OF k] PLANE_RADIUS_outside[of "plane_of n"] PLANE_RADIUS_inj[of "plane_of n" "plane_of k"]
      by (cases "is_agent k") (auto simp del: PLANE_RADIUS_outside)
    then show ?thesis by auto
  next
    case False
    have "distinct (map tn_id (ring_of ?ids nodes (plane_of n)))" using d by (simp add: ring_of_def distinct_map_filter)
    then show ?thesis using ring_places_differ[OF ringed[OF n] _ member[OF n] _ ne] member[OF k] False by auto
  qed
  with layout has agent other show ?thesis by (auto simp: Let_def map_has_iff)
qed

definition node_of :: "string \<Rightarrow> string \<Rightarrow> topology_node" where
  "node_of i ty = \<lparr>tn_id = i, tn_nodeType = ty, tn_securityState = Healthy, tn_attrs = []\<rparr>"

theorem layout_rings_witness:
  "\<exists>P. computeLayout (\<lambda>_ _. 0) (\<lambda>_ _ _. (0, 0)) [node_of ''a'' ''agent'', node_of ''s'' ''sentinel''] [] = Some P \<and>
     hypot (the (map_get P ''s'')) = 184/100"
proof -
  let ?nodes = "[node_of ''a'' ''agent'', node_of ''s'' ''sentinel'']"
  have d: "distinct (map tn_id ?nodes)" and a: "list_ex is_agent ?nodes" by (simp_all add: node_of_def is_agent_def)
  have "plane_of (node_of ''s'' ''sentinel'') = PlSecurity" "\<not> is_agent (node_of ''s'' ''sentinel'')"
    "tn_id (node_of ''s'' ''sentinel'') = ''s''"
    by (simp_all add: node_of_def plane_of_def nodeTypeMeta_def NODE_TYPE_META_def is_agent_def)
  with layout_rings[OF d a, of "\<lambda>_ _. 0" "\<lambda>_ _ _. (0, 0)" "[]"] show ?thesis
    by (auto simp: Let_def)
qed

end
