(* ===== verification/Graph_Canvas.thy ===== *)
theory Graph_Canvas
  imports Layout Formatting "HOL-Library.Sublist"
begin

text \<open>
  \<open>frontend/src/components/graph/TopologyGraph.tsx\<close>: the canvas of the topology. The graph is built once
  per structure and recoloured on every render; two reducers style nodes and edges; an overlay draws
  type rings, halos, labels and the numbers of an attack path. The packages graphology and sigma and the
  canvas are arguments: where a node is displayed, its radius and colour, and how wide a label is. An
  effect that throws is \<open>None\<close>.
\<close>

section \<open>The graph\<close>

definition ACCENT :: string where "ACCENT = ''#4d8dfd''"

definition ALL_LAYERS :: "edge_layer list" where
  "ALL_LAYERS = [LayerMesh, LayerAccess, LayerOversight]"

record canvas_node =
  cn_id :: string
  cn_point :: point
  cn_size :: rat
  cn_color :: string
  cn_nodeType :: string
  cn_zIndex :: nat

record canvas_edge =
  ce_source :: string
  ce_target :: string
  ce_layer :: edge_layer
  ce_edgeType :: string

record canvas_graph =
  cv_nodes :: "canvas_node list"
  cv_edges :: "canvas_edge list"

definition canvas_node_of :: "(string, point) jsmap \<Rightarrow> topology_node \<Rightarrow> canvas_node" where
  "canvas_node_of positions n = \<lparr>cn_id = tn_id n, cn_point = or_default (map_get positions (tn_id n)) (0, 0),
     cn_size = nodeSize n, cn_color = nodeColor n, cn_nodeType = tn_nodeType n,
     cn_zIndex = (if is_agent n then 0 else 1)\<rparr>"

definition joined :: "canvas_edge list \<Rightarrow> string \<Rightarrow> string \<Rightarrow> bool" where
  "joined es a b \<longleftrightarrow> list_ex (\<lambda>e. {ce_source e, ce_target e} = {a, b}) es"

definition add_canvas_edge :: "string list \<Rightarrow> canvas_edge list \<Rightarrow> topology_edge \<Rightarrow> canvas_edge list" where
  "add_canvas_edge ids es e =
     (if te_source e \<notin> set ids \<or> te_target e \<notin> set ids then es
      else if joined es (te_source e) (te_target e) then es
      else es @ [\<lparr>ce_source = te_source e, ce_target = te_target e, ce_layer = edgeLayer (te_edgeType e),
        ce_edgeType = te_edgeType e\<rparr>])"

definition build_canvas :: "(string \<Rightarrow> string \<Rightarrow> int) \<Rightarrow> force_layout \<Rightarrow> topology_model \<Rightarrow> canvas_graph option" where
  "build_canvas localeCompare force model =
     (case computeLayout localeCompare force (tm_nodes model) (tm_edges model) of
        None \<Rightarrow> None
      | Some positions \<Rightarrow>
          if \<not> distinct (map tn_id (tm_nodes model)) then None
          else Some \<lparr>cv_nodes = map (canvas_node_of positions) (tm_nodes model),
                     cv_edges = foldl (add_canvas_edge (map tn_id (tm_nodes model))) []
                       (renderableEdges (tm_edges model) ALL_LAYERS)\<rparr>)"

section \<open>Renders\<close>

text \<open>What the refs of the component hold: the key the build effect last ran for, and the graph. An effect
  with no nodes builds nothing; the recolouring runs after every change of the model.\<close>

record canvas =
  cs_key :: "string option"
  cs_graph :: "canvas_graph option"

definition blank_canvas :: canvas where
  "blank_canvas = \<lparr>cs_key = None, cs_graph = None\<rparr>"

definition build_effect :: "(string \<Rightarrow> string \<Rightarrow> int) \<Rightarrow> force_layout \<Rightarrow> canvas \<Rightarrow> topology_model \<Rightarrow> canvas option" where
  "build_effect localeCompare force c model =
     (if cs_key c = Some (tm_structureKey model) then Some c
      else if tm_nodes model = [] then Some \<lparr>cs_key = Some (tm_structureKey model), cs_graph = None\<rparr>
      else map_option (\<lambda>g. \<lparr>cs_key = Some (tm_structureKey model), cs_graph = Some g\<rparr>)
        (build_canvas localeCompare force model))"

definition recolour_node :: "canvas_node list \<Rightarrow> topology_node \<Rightarrow> canvas_node list" where
  "recolour_node cs n = map (\<lambda>c. if cn_id c = tn_id n then c\<lparr>cn_color := nodeColor n\<rparr> else c) cs"

definition recolour :: "canvas_graph \<Rightarrow> topology_model \<Rightarrow> canvas_graph" where
  "recolour g model = g\<lparr>cv_nodes := foldl recolour_node (cv_nodes g) (tm_nodes model)\<rparr>"

definition canvas_render :: "(string \<Rightarrow> string \<Rightarrow> int) \<Rightarrow> force_layout \<Rightarrow> canvas \<Rightarrow> topology_model \<Rightarrow> canvas option" where
  "canvas_render localeCompare force c model =
     map_option (\<lambda>c. c\<lparr>cs_graph := map_option (\<lambda>g. recolour g model) (cs_graph c)\<rparr>)
       (build_effect localeCompare force c model)"

fun canvas_renders :: "(string \<Rightarrow> string \<Rightarrow> int) \<Rightarrow> force_layout \<Rightarrow> canvas \<Rightarrow> topology_model list \<Rightarrow> canvas option" where
  "canvas_renders localeCompare force c [] = Some c"
| "canvas_renders localeCompare force c (m # ms) = (case canvas_render localeCompare force c m of
     None \<Rightarrow> None | Some c' \<Rightarrow> canvas_renders localeCompare force c' ms)"

section \<open>Styles\<close>

text \<open>What the render callbacks read from the ref \<open>liveRef\<close>.\<close>

record canvas_live =
  lv_nodes :: "topology_node list"
  lv_layers :: "edge_layer list"
  lv_selectedId :: "string option"
  lv_hoveredId :: "string option"
  lv_pathIds :: "string list"
  lv_focusIds :: "string list option"

definition pathEdgeKey :: "string \<Rightarrow> string \<Rightarrow> string" where
  "pathEdgeKey a b = (if a < b then a @ ''|'' @ b else b @ ''|'' @ a)"

definition pathEdgeKeys :: "string list \<Rightarrow> string list" where
  "pathEdgeKeys path = map (\<lambda>(a, b). pathEdgeKey a b) (zip path (tl path))"

definition isDimmed :: "canvas_live \<Rightarrow> string \<Rightarrow> bool" where
  "isDimmed live i =
     (if lv_pathIds live \<noteq> [] then i \<notin> set (lv_pathIds live)
      else case lv_focusIds live of Some ids \<Rightarrow> i \<notin> set ids | None \<Rightarrow> False)"

definition hex_digit :: "char \<Rightarrow> nat option" where
  "hex_digit c = (let k = (of_char c :: nat) in
     if 48 \<le> k \<and> k \<le> 57 then Some (k - 48)
     else if 97 \<le> k \<and> k \<le> 102 then Some (k - 87)
     else if 65 \<le> k \<and> k \<le> 70 then Some (k - 55) else None)"

definition hex_pair :: "string \<Rightarrow> nat \<Rightarrow> nat" where
  "hex_pair ds i = 16 * the (hex_digit (ds ! i)) + the (hex_digit (ds ! Suc i))"

definition dim_channel :: "nat \<Rightarrow> nat \<Rightarrow> int" where
  "dim_channel value background = math_round ((of_nat value + of_nat background * 3) / 4)"

definition dim :: "string \<Rightarrow> string" where
  "dim hex =
     (if length hex = 7 \<and> hd hex = CHR ''#'' \<and> list_all (\<lambda>c. hex_digit c \<noteq> None) (tl hex)
      then ''rgb('' @ show_int (dim_channel (hex_pair (tl hex) 0) 10) @ '', '' @
             show_int (dim_channel (hex_pair (tl hex) 2) 12) @ '', '' @
             show_int (dim_channel (hex_pair (tl hex) 4) 16) @ '')''
      else ''rgba(60, 68, 82, 0.55)'')"

definition nodeReducer :: "canvas_live \<Rightarrow> canvas_node \<Rightarrow> string \<times> nat" where
  "nodeReducer live c =
     (if isDimmed live (cn_id c) then dim (cn_color c) else cn_color c,
      if lv_selectedId live = Some (cn_id c) \<or> cn_id c \<in> set (lv_pathIds live) then 2 else cn_zIndex c)"

text \<open>Colour, size and, where it is set, the depth of a line.\<close>

datatype edge_style = EdgeHidden | EdgeStyle string rat "nat option"

definition edgeReducer :: "canvas_live \<Rightarrow> canvas_edge \<Rightarrow> edge_style" where
  "edgeReducer live e =
     (let source = ce_source e; target = ce_target e; color = el_color (EDGE_LAYER_META (ce_layer e))
      in if ce_layer e \<notin> set (lv_layers live) then EdgeHidden
         else if pathEdgeKey source target \<in> set (pathEdgeKeys (lv_pathIds live)) then EdgeStyle ACCENT (24/10) (Some 3)
         else if lv_selectedId live = Some source \<or> lv_selectedId live = Some target
           then EdgeStyle ''#5f7fae'' (16/10) (Some 2)
         else EdgeStyle (if isDimmed live source \<and> isDimmed live target then dim color else color) 1 None)"

section \<open>The overlay\<close>

text \<open>What sigma displays of a node; nothing for one that is hidden or unknown to it.\<close>

record displayed =
  dp_x :: rat
  dp_y :: rat
  dp_radius :: rat
  dp_color :: string

type_synonym box = "rat \<times> rat \<times> rat \<times> rat"

datatype mark =
    TypeRing node_shape rat rat rat string bool
  | Halo rat rat rat bool
  | PathRing rat rat rat

record label_item =
  lb_id :: string
  lb_x :: rat
  lb_y :: rat
  lb_radius :: rat
  lb_priority :: nat

definition on_screen :: "rat \<Rightarrow> rat \<Rightarrow> displayed \<Rightarrow> bool" where
  "on_screen width height d \<longleftrightarrow> \<not> (dp_x d < -40 \<or> dp_y d < -40 \<or> width + 40 < dp_x d \<or> height + 40 < dp_y d)"

definition shown_nodes ::
  "(string \<Rightarrow> displayed option) \<Rightarrow> rat \<Rightarrow> rat \<Rightarrow> canvas_live \<Rightarrow> (topology_node \<times> displayed) list" where
  "shown_nodes display width height live = List.map_filter (\<lambda>n. case display (tn_id n) of
      None \<Rightarrow> None
    | Some d \<Rightarrow> if on_screen width height d then Some (n, d) else None) (lv_nodes live)"

definition obstacle :: "topology_node \<times> displayed \<Rightarrow> box" where
  "obstacle nd = (case nd of (n, d) \<Rightarrow>
     (dp_x d - dp_radius d - 4, dp_y d - dp_radius d - 4, (dp_radius d + 4) * 2, (dp_radius d + 4) * 2))"

definition is_picked :: "canvas_live \<Rightarrow> string \<Rightarrow> bool" where
  "is_picked live i \<longleftrightarrow> lv_selectedId live = Some i \<or> lv_hoveredId live = Some i"

definition marks_of :: "canvas_live \<Rightarrow> topology_node \<times> displayed \<Rightarrow> mark list" where
  "marks_of live nd = (case nd of (n, d) \<Rightarrow>
     (if nodeShape (tn_nodeType n) \<noteq> ShCircle
      then [TypeRing (nodeShape (tn_nodeType n)) (dp_x d) (dp_y d) (dp_radius d + 35/10) (dp_color d) (isDimmed live (tn_id n))]
      else []) @
     (if is_picked live (tn_id n)
      then [Halo (dp_x d) (dp_y d) (dp_radius d + 65/10) (lv_selectedId live = Some (tn_id n))] else []) @
     (if tn_id n \<in> set (lv_pathIds live) then [PathRing (dp_x d) (dp_y d) (dp_radius d + 5)] else []))"

definition label_priority :: "canvas_live \<Rightarrow> topology_node \<Rightarrow> nat" where
  "label_priority live n =
     (if is_picked live (tn_id n) then 3 else if tn_id n \<in> set (lv_pathIds live) then 2
      else if \<not> is_agent n then 1 else 0)"

definition label_item_of :: "canvas_live \<Rightarrow> topology_node \<times> displayed \<Rightarrow> label_item option" where
  "label_item_of live nd = (case nd of (n, d) \<Rightarrow>
     (let priority = label_priority live n
      in if (0 < priority \<or> map_of (tn_attrs n) ''agent_kind'' = Some (JStr ''real'')) \<and> \<not> isDimmed live (tn_id n)
         then Some \<lparr>lb_id = tn_id n, lb_x = dp_x d, lb_y = dp_y d, lb_radius = dp_radius d, lb_priority = priority\<rparr>
         else None))"

fun overlaps :: "box \<Rightarrow> box \<Rightarrow> bool" where
  "overlaps (ax, ay, aw, ah) (bx, by', bw, bh) \<longleftrightarrow> ax < bx + bw \<and> bx < ax + aw \<and> ay < by' + bh \<and> by' < ay + ah"

definition label_boxes :: "(string \<Rightarrow> rat) \<Rightarrow> rat \<Rightarrow> label_item \<Rightarrow> box list" where
  "label_boxes textWidth centreX it =
     (let boxWidth = textWidth (lb_id it) + 8; gap = lb_radius it + 6;
          left = lb_x it - gap - boxWidth; right = lb_x it + gap;
          sides = (if lb_x it < centreX then [left, right] else [right, left])
      in concat (map (\<lambda>x. map (\<lambda>dy. (x, lb_y it - 7 + dy, boxWidth, 14)) [0, -15, 15]) sides))"

definition place_label ::
  "(string \<Rightarrow> rat) \<Rightarrow> rat \<Rightarrow> box list \<times> (label_item \<times> box) list \<Rightarrow> label_item \<Rightarrow> box list \<times> (label_item \<times> box) list" where
  "place_label textWidth centreX s it = (case s of (placed, labels) \<Rightarrow>
     (case List.find (\<lambda>b. lb_priority it = 3 \<or> \<not> list_ex (overlaps b) placed) (label_boxes textWidth centreX it) of
        None \<Rightarrow> (placed, labels)
      | Some b \<Rightarrow> (placed @ [b], labels @ [(it, b)])))"

definition by_priority :: "label_item \<Rightarrow> label_item \<Rightarrow> int" where
  "by_priority a b = int (lb_priority b) - int (lb_priority a)"

definition place_labels :: "(string \<Rightarrow> rat) \<Rightarrow> rat \<Rightarrow> box list \<Rightarrow> label_item list \<Rightarrow> (label_item \<times> box) list" where
  "place_labels textWidth width obstacles labelled =
     snd (foldl (place_label textWidth (width / 2)) (obstacles, []) (sort_by by_priority labelled))"

record overlay =
  ov_marks :: "mark list"
  ov_labels :: "(label_item \<times> box) list"
  ov_steps :: "(nat \<times> rat \<times> rat) list"

definition step_numbers :: "(string \<Rightarrow> displayed option) \<Rightarrow> string list \<Rightarrow> (nat \<times> rat \<times> rat) list" where
  "step_numbers display path =
     (if length path \<le> 1 then []
      else List.map_filter (\<lambda>(k, i). map_option (\<lambda>d. (k + 1, dp_x d, dp_y d - dp_radius d - 11)) (display i)) (enumerate 0 path))"

definition drawOverlay ::
  "(string \<Rightarrow> displayed option) \<Rightarrow> (string \<Rightarrow> rat) \<Rightarrow> rat \<Rightarrow> rat \<Rightarrow> canvas_live \<Rightarrow> overlay" where
  "drawOverlay display textWidth width height live =
     (let shown = shown_nodes display width height live
      in \<lparr>ov_marks = concat (map (marks_of live) shown),
          ov_labels = place_labels textWidth width (map obstacle shown) (List.map_filter (label_item_of live) shown),
          ov_steps = step_numbers display (lv_pathIds live)\<rparr>)"

section \<open>The canvas follows the model\<close>

text \<open>What the layout and the lines read of a model: everything but the security states and, of the
  attributes, only what sets the size of a node.\<close>

definition bare :: "topology_node \<Rightarrow> topology_node" where
  "bare n = \<lparr>tn_id = tn_id n, tn_nodeType = tn_nodeType n, tn_securityState = Healthy, tn_attrs = []\<rparr>"

definition skeleton :: "topology_model \<Rightarrow> (topology_node \<times> rat) list \<times> topology_edge list" where
  "skeleton m = (map (\<lambda>n. (bare n, nodeSize n)) (tm_nodes m), tm_edges m)"

lemma bare_simps [simp]: "tn_id (bare n) = tn_id n" "is_agent (bare n) = is_agent n" "plane_of (bare n) = plane_of n"
  by (simp_all add: bare_def is_agent_def plane_of_def)

lemma insert_by_map:
  assumes "\<And>x y. cmp (f x) (f y) = cmp' x y"
  shows "insert_by cmp (f x) (map f ys) = map f (insert_by cmp' x ys)"
  by (induction ys) (simp_all add: assms)

lemma sort_by_map:
  assumes "\<And>x y. cmp (f x) (f y) = cmp' x y"
  shows "sort_by cmp (map f xs) = map f (sort_by cmp' xs)"
  using insert_by_map[of cmp f cmp', OF assms] by (induction xs) (simp_all add: sort_by_def)

lemma push_to_map: "push_to (map (\<lambda>(k, vs). (k, map g vs)) m) k (g v) = map (\<lambda>(k, vs). (k, map g vs)) (push_to m k v)"
proof -
  have "map_get (map (\<lambda>(k, vs). (k, map g vs)) m) k = map_option (map g) (map_get m k)" by (induction m) auto
  moreover have "map_set (map (\<lambda>(k, vs). (k, map g vs)) m) k (map g ws) = map (\<lambda>(k, vs). (k, map g vs)) (map_set m k ws)" for ws
    by (induction m) auto
  moreover have "or_default (map_option (map g) x) [] @ [g v] = map g (or_default x [] @ [v])" for x
    by (cases x) simp_all
  ultimately show ?thesis by (simp only: push_to_def)
qed

lemma byPlane_bare: "byPlane ids (map bare nodes) = map (\<lambda>(pl, ns). (pl, map bare ns)) (byPlane ids nodes)"
  by (induction nodes rule: rev_induct) (simp_all add: byPlane_def push_to_map)

lemma ring_order_bare: "ring_order lc att m (map bare ns) = map bare (ring_order lc att m ns)"
proof -
  let ?angle = "\<lambda>n. (n, meanAngle (or_default (map_get att (tn_id n)) []) m)"
  have "sort_by (by_angle lc) (map (map_prod bare id) (map ?angle ns)) =
      map (map_prod bare id) (sort_by (by_angle lc) (map ?angle ns))"
    by (rule sort_by_map) (simp add: by_angle_def)
  then show ?thesis by (simp add: ring_order_def comp_def)
qed

lemma place_ring_bare: "place_ring lc att m (pl, map bare ns) = place_ring lc att m (pl, ns)"
proof -
  have "foldl (\<lambda>m (k, n). map_set m (tn_id n) (f k)) m0 (enumerate a (map bare xs)) =
      foldl (\<lambda>m (k, n). map_set m (tn_id n) (f k)) m0 (enumerate a xs)" for f :: "nat \<Rightarrow> point" and m0 a xs
    by (induction xs arbitrary: m0 a) simp_all
  then show ?thesis by (simp add: place_ring_def ring_order_bare)
qed

lemma computeLayout_bare: "computeLayout lc force (map bare nodes) edges = computeLayout lc force nodes edges"
proof -
  have "foldl (place_ring lc att) m (map (\<lambda>(pl, ns). (pl, map bare ns)) rings) = foldl (place_ring lc att) m rings"
    for att m rings
    by (induction rings arbitrary: m) (auto simp: place_ring_bare)
  then show ?thesis
    by (simp add: computeLayout_def Let_def byPlane_bare filter_map comp_def place_unplaced_def)
qed

lemma skeleton_nodes:
  assumes "skeleton m = skeleton m'"
  shows "map bare (tm_nodes m) = map bare (tm_nodes m')" and "map nodeSize (tm_nodes m) = map nodeSize (tm_nodes m')"
    and "map tn_id (tm_nodes m) = map tn_id (tm_nodes m')" and "tm_edges m = tm_edges m'"
proof -
  have eq: "map (\<lambda>n. (bare n, nodeSize n)) (tm_nodes m) = map (\<lambda>n. (bare n, nodeSize n)) (tm_nodes m')"
    using assms by (simp_all add: skeleton_def)
  show b: "map bare (tm_nodes m) = map bare (tm_nodes m')" using arg_cong[OF eq, of "map fst"] by (simp add: comp_def)
  show "map nodeSize (tm_nodes m) = map nodeSize (tm_nodes m')" using arg_cong[OF eq, of "map snd"] by (simp add: comp_def)
  show "map tn_id (tm_nodes m) = map tn_id (tm_nodes m')" using arg_cong[OF b, of "map tn_id"] by (simp add: comp_def)
  show "tm_edges m = tm_edges m'" using assms by (simp add: skeleton_def)
qed

definition painted :: "topology_node \<Rightarrow> canvas_node \<Rightarrow> canvas_node" where
  "painted n c = (if cn_id c = tn_id n then c\<lparr>cn_color := nodeColor n\<rparr> else c)"

lemma painted_other [simp]: "cn_id (painted n c) = cn_id c" "cn_id c \<noteq> tn_id n \<Longrightarrow> painted n c = c"
  by (simp_all add: painted_def)

lemma recolour_node_painted: "recolour_node cs n = map (painted n) cs"
  by (simp add: recolour_node_def painted_def)

lemma recolour_each:
  assumes "distinct (map tn_id ns)" and "map cn_id cs = map tn_id ns"
  shows "foldl recolour_node (ds @ cs) ns = (foldl recolour_node ds ns) @ map2 painted ns cs"
  using assms
proof (induction ns arbitrary: ds cs)
  case (Cons n ns)
  then obtain c cs' where cs: "cs = c # cs'" and c: "cn_id c = tn_id n" "map cn_id cs' = map tn_id ns" by (cases cs) auto
  have "\<forall>d \<in> set cs'. cn_id d \<noteq> tn_id n" using Cons.prems(1) c(2) by (metis distinct.simps(2) list.set_map image_eqI list.simps(9))
  then have keep: "map (painted n) cs' = cs'" by (simp add: map_idI)
  have own: "foldl recolour_node [painted n c] ns = [painted n c]"
  proof -
    have "\<forall>k \<in> set ns. tn_id k \<noteq> tn_id n" using Cons.prems(1) by (auto simp: image_iff)
    then show ?thesis using c(1) by (induction ns) (auto simp: recolour_node_painted)
  qed
  have "foldl recolour_node (ds @ cs) (n # ns) = foldl recolour_node ((map (painted n) ds @ [painted n c]) @ cs') ns"
    by (simp add: cs recolour_node_painted keep)
  also have "\<dots> = foldl recolour_node (map (painted n) ds @ [painted n c]) ns @ map2 painted ns cs'"
    using Cons.prems c by (intro Cons.IH) auto
  also have "foldl recolour_node (xs @ ys) ns = foldl recolour_node xs ns @ foldl recolour_node ys ns" for xs ys
    by (induction ns arbitrary: xs ys) (simp_all add: recolour_node_painted)
  finally show ?case by (simp add: cs own recolour_node_painted[of ds n])
qed simp

lemma recolour_all:
  assumes "distinct (map tn_id ns)" and "map cn_id cs = map tn_id ns"
  shows "foldl recolour_node cs ns = map2 painted ns cs"
proof -
  have "foldl recolour_node [] ns = []" by (induction ns) (simp_all add: recolour_node_def)
  with recolour_each[OF assms, of "[]"] show ?thesis by simp
qed

text \<open>What a fresh build of a model gives; a model without nodes has no graph.\<close>

definition fresh_canvas :: "(string \<Rightarrow> string \<Rightarrow> int) \<Rightarrow> force_layout \<Rightarrow> topology_model \<Rightarrow> canvas_graph option" where
  "fresh_canvas localeCompare force m = (if tm_nodes m = [] then None else build_canvas localeCompare force m)"

lemma repaint_build:
  assumes "skeleton m = skeleton m'" and "distinct (map tn_id (tm_nodes m))"
    and "build_canvas lc force m = Some g"
  shows "build_canvas lc force m' = Some (recolour g m')"
proof -
  note sk = skeleton_nodes[OF assms(1)]
  have len: "length (tm_nodes m) = length (tm_nodes m')" using sk(1) by (metis length_map)
  obtain P where P: "computeLayout lc force (tm_nodes m) (tm_edges m) = Some P"
    using assms(3) by (auto simp: build_canvas_def split: option.splits)
  then have P': "computeLayout lc force (tm_nodes m') (tm_edges m') = Some P"
    using sk by (metis computeLayout_bare)
  have "map2 painted (tm_nodes m') (map (canvas_node_of P) (tm_nodes m)) = map (canvas_node_of P) (tm_nodes m')"
  proof (rule nth_equalityI)
    fix i assume "i < length (map2 painted (tm_nodes m') (map (canvas_node_of P) (tm_nodes m)))"
    then have i: "i < length (tm_nodes m)" "i < length (tm_nodes m')" by simp_all
    let ?a = "tm_nodes m ! i" and ?b = "tm_nodes m' ! i"
    have "bare ?a = bare ?b" "nodeSize ?a = nodeSize ?b"
      using arg_cong[OF sk(1), of "\<lambda>l. l ! i"] arg_cong[OF sk(2), of "\<lambda>l. l ! i"] i by simp_all
    then show "map2 painted (tm_nodes m') (map (canvas_node_of P) (tm_nodes m)) ! i = map (canvas_node_of P) (tm_nodes m') ! i"
      using i by (simp add: painted_def canvas_node_of_def bare_def is_agent_def)
  qed (simp add: len)
  moreover have "map cn_id (map (canvas_node_of P) (tm_nodes m)) = map tn_id (tm_nodes m')"
    using sk(3) by (simp add: canvas_node_of_def comp_def)
  ultimately have "foldl recolour_node (map (canvas_node_of P) (tm_nodes m)) (tm_nodes m') = map (canvas_node_of P) (tm_nodes m')"
    using recolour_all[of "tm_nodes m'"] assms(2) sk(3) by simp
  then show ?thesis using assms(2,3) P P' sk by (auto simp: build_canvas_def recolour_def)
qed

lemma build_total:
  assumes "distinct (map tn_id (tm_nodes m))"
  shows "\<exists>g. build_canvas lc force m = Some g"
proof -
  have "distinct (map tn_id (filter is_agent (tm_nodes m)))" using assms by (simp add: distinct_map_filter)
  then have "\<exists>P. computeLayout lc force (tm_nodes m) (tm_edges m) = Some P" by (auto simp: computeLayout_def Let_def)
  with assms show ?thesis by (auto simp: build_canvas_def)
qed

definition in_sync :: "(string \<Rightarrow> string \<Rightarrow> int) \<Rightarrow> force_layout \<Rightarrow> canvas \<Rightarrow> topology_model \<Rightarrow> bool" where
  "in_sync lc force c m \<longleftrightarrow> cs_key c = Some (tm_structureKey m) \<and> cs_graph c = fresh_canvas lc force m"

lemma repaint_same:
  assumes "distinct (map tn_id (tm_nodes m))" "build_canvas lc force m = Some g"
  shows "recolour g m = g"
  using repaint_build[OF refl assms] assms(2) by simp

lemma render_in_sync:
  assumes "distinct (map tn_id (tm_nodes m))"
    and "cs_key c = Some (tm_structureKey m) \<Longrightarrow> \<exists>m0. in_sync lc force c m0 \<and> skeleton m0 = skeleton m"
  shows "\<exists>c'. canvas_render lc force c m = Some c' \<and> in_sync lc force c' m"
proof (cases "cs_key c = Some (tm_structureKey m)")
  case True
  then obtain m0 where m0: "in_sync lc force c m0" "skeleton m0 = skeleton m" using assms(2) by blast
  note sk = skeleton_nodes[OF m0(2)]
  have "map_option (\<lambda>g. recolour g m) (cs_graph c) = fresh_canvas lc force m"
  proof (cases "tm_nodes m0 = []")
    case empty: True
    then have "tm_nodes m = []" using sk(3) by simp
    with empty m0(1) show ?thesis by (simp add: in_sync_def fresh_canvas_def)
  next
    case False
    moreover from False have "tm_nodes m \<noteq> []" using sk(3) by auto
    moreover have d: "distinct (map tn_id (tm_nodes m0))" using assms(1) sk(3) by simp
    moreover obtain g where "build_canvas lc force m0 = Some g" using build_total[OF d] by blast
    ultimately show ?thesis using m0 repaint_build[OF m0(2) d] by (simp add: in_sync_def fresh_canvas_def)
  qed
  with True show ?thesis by (simp add: canvas_render_def build_effect_def in_sync_def)
next
  case False
  obtain g where g: "build_canvas lc force m = Some g" using build_total[OF assms(1)] by blast
  with repaint_same[OF assms(1) g] False show ?thesis
    by (simp add: canvas_render_def build_effect_def in_sync_def fresh_canvas_def)
qed

text \<open>The canvas is not rebuilt on every render, and yet it always shows what a fresh build would: after
  any sequence of renders of models with distinct ids, in which equal structure keys stand for equal
  skeletons, no render has thrown and the graph is the fresh build of the last model.\<close>

theorem canvas_incremental:
  assumes "\<forall>m \<in> set ms. distinct (map tn_id (tm_nodes m))"
    and "\<forall>m \<in> set ms. \<forall>m' \<in> set ms. tm_structureKey m = tm_structureKey m' \<longrightarrow> skeleton m = skeleton m'"
    and "ms \<noteq> []"
  shows "\<exists>c. canvas_renders lc force blank_canvas ms = Some c \<and> cs_graph c = fresh_canvas lc force (last ms)"
proof -
  have "\<exists>c'. canvas_renders lc force c xs = Some c' \<and> in_sync lc force c' (last (m # xs))"
    if "in_sync lc force c m" "m \<in> set ms" "set xs \<subseteq> set ms" for c m xs
    using that
  proof (induction xs arbitrary: c m)
    case (Cons x xs)
    have x: "x \<in> set ms" "set xs \<subseteq> set ms" using Cons.prems(3) by simp_all
    have "skeleton m = skeleton x" if "cs_key c = Some (tm_structureKey x)"
      using that Cons.prems(1) assms(2)[rule_format, OF Cons.prems(2) x(1)] by (simp add: in_sync_def)
    then obtain c' where c': "canvas_render lc force c x = Some c'" "in_sync lc force c' x"
      using render_in_sync[OF assms(1)[rule_format, OF x(1)]] Cons.prems(1) by blast
    show ?case using Cons.IH[OF c'(2) x] by (simp add: c'(1))
  qed simp
  moreover obtain m xs where ms: "ms = m # xs" using assms(3) by (cases ms) auto
  moreover obtain c where "canvas_render lc force blank_canvas m = Some c" "in_sync lc force c m"
    using render_in_sync[of m blank_canvas lc force] assms(1) ms by (auto simp: blank_canvas_def)
  ultimately show ?thesis by (fastforce simp: in_sync_def)
qed

section \<open>Labels\<close>

lemma overlaps_sym: "overlaps a b \<longleftrightarrow> overlaps b a"
  by (cases a; cases b) auto

lemma by_priority_iff [simp]: "by_priority a b \<le> 0 \<longleftrightarrow> lb_priority b \<le> lb_priority a"
  by (simp add: by_priority_def)

interpretation priorities: comparator by_priority
  by unfold_locales auto

text \<open>One label of the loop: it keeps what is placed, and takes a box of the item that is free unless the
  item has the highest priority.\<close>

definition box_free :: "box list \<Rightarrow> label_item \<Rightarrow> box \<Rightarrow> bool" where
  "box_free placed it b \<longleftrightarrow> lb_priority it = 3 \<or> (\<forall>p \<in> set placed. \<not> overlaps b p)"

lemma place_label_cases:
  obtains (dropped) "place_label tw cx (placed, labels) it = (placed, labels)"
      "\<forall>b \<in> set (label_boxes tw cx it). \<not> box_free placed it b"
  | (drawn) b where "place_label tw cx (placed, labels) it = (placed @ [b], labels @ [(it, b)])"
      "b \<in> set (label_boxes tw cx it)" "box_free placed it b"
proof (cases "List.find (\<lambda>b. lb_priority it = 3 \<or> \<not> list_ex (overlaps b) placed) (label_boxes tw cx it)")
  case None
  show ?thesis
  proof (rule dropped)
    show "place_label tw cx (placed, labels) it = (placed, labels)" unfolding place_label_def prod.case None by simp
    show "\<forall>b \<in> set (label_boxes tw cx it). \<not> box_free placed it b"
      using None by (auto simp: find_None_iff list_ex_iff box_free_def)
  qed
next
  case (Some b)
  show ?thesis
  proof (rule drawn)
    show "place_label tw cx (placed, labels) it = (placed @ [b], labels @ [(it, b)])" unfolding place_label_def prod.case Some by simp
    show "b \<in> set (label_boxes tw cx it)" "box_free placed it b"
      using Some by (auto simp: find_Some_iff list_ex_iff box_free_def)
  qed
qed

text \<open>The state of the loop after a prefix of the items.\<close>

definition labels_ok :: "(string \<Rightarrow> rat) \<Rightarrow> rat \<Rightarrow> box list \<Rightarrow> label_item list \<Rightarrow> (label_item \<times> box) list \<Rightarrow> bool" where
  "labels_ok tw cx obstacles items labels \<longleftrightarrow>
     (\<forall>(it, b) \<in> set labels. it \<in> set items \<and> b \<in> set (label_boxes tw cx it) \<and> box_free obstacles it b) \<and>
     sorted_wrt (\<lambda>p q. box_free [snd p] (fst q) (snd q)) labels \<and>
     (\<forall>it \<in> set items. it \<in> fst ` set labels \<or>
        (\<forall>b \<in> set (label_boxes tw cx it). \<not> box_free (obstacles @ map snd labels) it b))"

lemma box_free_append [simp]: "box_free (ps @ qs) it b \<longleftrightarrow> box_free ps it b \<and> box_free qs it b"
  by (auto simp: box_free_def)

lemma box_free_single: "box_free ps it b \<Longrightarrow> p \<in> set ps \<Longrightarrow> box_free [p] it b"
  by (auto simp: box_free_def)

lemma place_labels_ok:
  assumes "foldl (place_label tw cx) (obstacles, []) items = (placed, labels)"
  shows "placed = obstacles @ map snd labels \<and> labels_ok tw cx obstacles items labels \<and>
    subseq (map fst labels) items"
  using assms
proof (induction items arbitrary: placed labels rule: rev_induct)
  case Nil
  then show ?case by (simp add: labels_ok_def)
next
  case (snoc it items)
  obtain pl ls where run: "foldl (place_label tw cx) (obstacles, []) items = (pl, ls)"
    by (cases "foldl (place_label tw cx) (obstacles, []) items")
  note IH = snoc.IH[OF run]
  have step: "place_label tw cx (pl, ls) it = (placed, labels)" using snoc.prems run by simp
  show ?case
  proof (cases rule: place_label_cases[of tw cx pl ls it])
    case dropped
    then have "placed = pl" "labels = ls" using step by simp_all
    with IH dropped(2) show ?thesis by (auto simp: labels_ok_def intro: list_emb_append_mono[of "(=)" _ _ "[]", simplified])
  next
    case (drawn b)
    then have eq: "placed = pl @ [b]" "labels = ls @ [(it, b)]" using step by simp_all
    have "box_free [snd p] it b" if "p \<in> set ls" for p
      using that drawn(3) IH by (intro box_free_single[of pl]) auto
    then have "labels_ok tw cx obstacles (items @ [it]) labels"
      using IH drawn by (auto simp: labels_ok_def eq sorted_wrt_append)
    with IH show ?thesis by (auto simp: eq intro: list_emb_append_mono)
  qed
qed

lemma sorted_wrt_subseq: "subseq xs ys \<Longrightarrow> sorted_wrt P ys \<Longrightarrow> sorted_wrt P xs"
  by (induction rule: list_emb.induct) (auto dest: list_emb_set)

text \<open>The loop over the items: every label stands in one of the six boxes of its item; two labels overlap only if both
  are of the highest priority; no other label overlaps an obstacle; an item of the highest priority has its label; and
  an item without one has no box left that is free.\<close>

lemma place_labels_separate:
  assumes "labels = place_labels tw width obstacles items"
  shows "(\<forall>(it, b) \<in> set labels. it \<in> set items \<and> b \<in> set (label_boxes tw (width / 2) it) \<and>
      (lb_priority it = 3 \<or> (\<forall>p \<in> set obstacles. \<not> overlaps b p))) \<and>
    (\<forall>i < length labels. \<forall>j < length labels. i \<noteq> j \<and> overlaps (snd (labels ! i)) (snd (labels ! j)) \<longrightarrow>
      3 \<le> lb_priority (fst (labels ! i)) \<and> 3 \<le> lb_priority (fst (labels ! j))) \<and>
    (\<forall>it \<in> set items. it \<notin> fst ` set labels \<longrightarrow> lb_priority it \<noteq> 3 \<and>
      (\<forall>b \<in> set (label_boxes tw (width / 2) it). \<exists>p \<in> set (obstacles @ map snd labels). overlaps b p))"
proof (intro conjI allI ballI impI)
  let ?items = "sort_by by_priority items" and ?cx = "width / 2"
  obtain placed where run: "foldl (place_label tw ?cx) (obstacles, []) ?items = (placed, labels)"
    using assms by (metis place_labels_def prod.collapse)
  note ok = place_labels_ok[OF run]
  show "case p of (it, b) \<Rightarrow> it \<in> set items \<and> b \<in> set (label_boxes tw ?cx it) \<and>
      (lb_priority it = 3 \<or> (\<forall>p \<in> set obstacles. \<not> overlaps b p))" if "p \<in> set labels" for p
    using ok that by (fastforce simp: labels_ok_def box_free_def)
  have none: "\<not> box_free (obstacles @ map snd labels) it b"
    if "it \<in> set items" "it \<notin> fst ` set labels" "b \<in> set (label_boxes tw ?cx it)" for it b
    using ok that by (auto simp: labels_ok_def)
  show "lb_priority it \<noteq> 3" if "it \<in> set items" "it \<notin> fst ` set labels" for it
    using none[OF that, of "hd (label_boxes tw ?cx it)"] by (simp add: label_boxes_def Let_def box_free_def)
  show "\<exists>p \<in> set (obstacles @ map snd labels). overlaps b p"
    if "it \<in> set items" "it \<notin> fst ` set labels" "b \<in> set (label_boxes tw ?cx it)" for it b
    using none[OF that] unfolding box_free_def by blast
  have sorted: "sorted_wrt (\<lambda>p q. lb_priority (fst q) \<le> lb_priority (fst p)) labels"
    using sorted_wrt_subseq[of "map fst labels" ?items "\<lambda>a b. by_priority a b \<le> 0"] priorities.sort_by_sorted[of items] ok
    by (simp add: sorted_wrt_map)
  have later: "3 \<le> lb_priority (fst (labels ! j)) \<and> 3 \<le> lb_priority (fst (labels ! i))"
    if "i < j" "j < length labels" "overlaps (snd (labels ! j)) (snd (labels ! i))" for i j
  proof -
    have "box_free [snd (labels ! i)] (fst (labels ! j)) (snd (labels ! j))"
      using ok that by (auto simp: labels_ok_def sorted_wrt_iff_nth_less)
    moreover have "lb_priority (fst (labels ! j)) \<le> lb_priority (fst (labels ! i))"
      using sorted that by (auto simp: sorted_wrt_iff_nth_less)
    ultimately show ?thesis using that by (simp add: box_free_def)
  qed
  fix i j
  assume "i < length labels" "j < length labels" "i \<noteq> j \<and> overlaps (snd (labels ! i)) (snd (labels ! j))"
  then show "3 \<le> lb_priority (fst (labels ! i))" "3 \<le> lb_priority (fst (labels ! j))"
    using later[of i j] later[of j i] overlaps_sym by (metis linorder_neqE_nat)+
qed




text \<open>The label a node asks for, and the room it takes itself.\<close>

definition label_of :: "canvas_live \<Rightarrow> topology_node \<times> displayed \<Rightarrow> label_item" where
  "label_of live nd = \<lparr>lb_id = tn_id (fst nd), lb_x = dp_x (snd nd), lb_y = dp_y (snd nd), lb_radius = dp_radius (snd nd),
     lb_priority = label_priority live (fst nd)\<rparr>"

definition node_box :: "topology_node \<times> displayed \<Rightarrow> box" where
  "node_box nd = (dp_x (snd nd) - (dp_radius (snd nd) + 4), dp_y (snd nd) - (dp_radius (snd nd) + 4),
     2 * (dp_radius (snd nd) + 4), 2 * (dp_radius (snd nd) + 4))"

definition wants_label :: "topology_node \<Rightarrow> bool" where
  "wants_label n \<longleftrightarrow> \<not> is_agent n \<or> map_of (tn_attrs n) ''agent_kind'' = Some (JStr ''real'')"

lemma obstacle_box: "obstacle nd = node_box nd"
  by (cases nd) (simp add: obstacle_def node_box_def algebra_simps)

lemma label_item_eq: "label_item_of live nd =
    (if \<not> isDimmed live (tn_id (fst nd)) \<and>
        (is_picked live (tn_id (fst nd)) \<or> tn_id (fst nd) \<in> set (lv_pathIds live) \<or> wants_label (fst nd))
     then Some (label_of live nd) else None)"
  by (cases nd) (auto simp: label_item_of_def label_of_def label_priority_def wants_label_def Let_def)



text \<open>A node that is dimmed has no label, be it selected or under the pointer.\<close>

lemma overlay_labels:
  "ov_labels (drawOverlay display tw width height live) = place_labels tw width (map node_box (shown_nodes display width height live))
     (List.map_filter (label_item_of live) (shown_nodes display width height live))"
  by (simp add: drawOverlay_def Let_def obstacle_box[abs_def])

lemma map_filter_in: "y \<in> set (List.map_filter f xs) \<longleftrightarrow> (\<exists>x \<in> set xs. f x = Some y)"
  by (induction xs) (auto simp: map_filter_simps split: option.splits)

lemma overlay_label_sources:
  assumes "(it, b) \<in> set (ov_labels (drawOverlay display tw width height live))"
  shows "\<exists>nd \<in> set (shown_nodes display width height live). it = label_of live nd \<and> \<not> isDimmed live (tn_id (fst nd))"
proof -
  have "it \<in> set (List.map_filter (label_item_of live) (shown_nodes display width height live))"
    using place_labels_separate[OF overlay_labels[of display tw width height live]] assms by blast
  then show ?thesis by (auto simp: map_filter_in label_item_eq split: if_splits)
qed












text \<open>So what the operator looks at loses its label when a path or a focus leaves it out.\<close>

theorem dimmed_selection_unlabelled:
  assumes "lv_selectedId live = Some i" and "lv_pathIds live \<noteq> []" and "i \<notin> set (lv_pathIds live)"
  shows "i \<notin> (\<lambda>(it, b). lb_id it) ` set (ov_labels (drawOverlay display tw width height live))"
proof
  assume "i \<in> (\<lambda>(it, b). lb_id it) ` set (ov_labels (drawOverlay display tw width height live))"
  then obtain it b where "(it, b) \<in> set (ov_labels (drawOverlay display tw width height live))" "lb_id it = i" by auto
  from overlay_label_sources[OF this(1)] this(2) assms(2,3) show False by (auto simp: label_of_def isDimmed_def)
qed

section \<open>The attack path\<close>

text \<open>When no id contains the separator, the keys of two pairs agree exactly when the pairs do.\<close>

definition plain_id :: "string \<Rightarrow> bool" where
  "plain_id i \<longleftrightarrow> CHR ''|'' \<notin> set i"

lemma pathEdgeKey_inj:
  assumes "plain_id a" "plain_id b" "plain_id c" "plain_id d"
  shows "pathEdgeKey a b = pathEdgeKey c d \<longleftrightarrow> {a, b} = {c, d}"
  using assms append_sep_inj[of "CHR ''|''" a c b d] append_sep_inj[of "CHR ''|''" a d b c]
    append_sep_inj[of "CHR ''|''" b c a d] append_sep_inj[of "CHR ''|''" b d a c]
  by (auto simp: pathEdgeKey_def plain_id_def doubleton_eq_iff)

lemma pathEdgeKeys_iff:
  assumes "plain_id a" "plain_id b" "\<forall>i \<in> set path. plain_id i"
  shows "pathEdgeKey a b \<in> set (pathEdgeKeys path) \<longleftrightarrow> (\<exists>k. Suc k < length path \<and> {path ! k, path ! Suc k} = {a, b})"
proof -
  have "pathEdgeKey a b \<in> set (pathEdgeKeys path) \<longleftrightarrow>
      (\<exists>k. Suc k < length path \<and> pathEdgeKey a b = pathEdgeKey (path ! k) (path ! Suc k))"
  proof -
    have "set (zip path (tl path)) = {(path ! k, path ! Suc k) | k. Suc k < length path}"
      by (auto simp: set_zip nth_tl)
    then show ?thesis by (force simp: pathEdgeKeys_def)
  qed
  also have "\<dots> \<longleftrightarrow> (\<exists>k. Suc k < length path \<and> {path ! k, path ! Suc k} = {a, b})"
    using assms by (intro ex_cong1) (auto simp: pathEdgeKey_inj)
  finally show ?thesis .
qed

text \<open>The attack path is traced over exactly its own hops. When no id contains the separator of the keys,
  a line is accented if and only if its layer is on and its ends are neighbours on the path, in either
  direction; and a node is dimmed under a path exactly when it is not on it.\<close>

theorem path_is_traced:
  assumes "plain_id (ce_source e)" "plain_id (ce_target e)" "\<forall>i \<in> set (lv_pathIds live). plain_id i"
  shows "(edgeReducer live e = EdgeStyle ACCENT (24/10) (Some 3) \<longleftrightarrow>
      ce_layer e \<in> set (lv_layers live) \<and>
      (\<exists>k. Suc k < length (lv_pathIds live) \<and> {lv_pathIds live ! k, lv_pathIds live ! Suc k} = {ce_source e, ce_target e}))"
proof -
  have "edgeReducer live e = EdgeStyle ACCENT (24/10) (Some 3) \<longleftrightarrow> ce_layer e \<in> set (lv_layers live) \<and>
      pathEdgeKey (ce_source e) (ce_target e) \<in> set (pathEdgeKeys (lv_pathIds live))"
    by (simp add: edgeReducer_def Let_def)
  then show ?thesis by (simp only: pathEdgeKeys_iff[OF assms])
qed

definition traced_live :: canvas_live where
  "traced_live = \<lparr>lv_nodes = [], lv_layers = [LayerMesh], lv_selectedId = None, lv_hoveredId = None,
     lv_pathIds = [''a'', ''b'', ''c''], lv_focusIds = None\<rparr>"

theorem path_is_traced_witness:
  "edgeReducer traced_live \<lparr>ce_source = ''c'', ce_target = ''b'', ce_layer = LayerMesh, ce_edgeType = ''trusts''\<rparr> =
     EdgeStyle ACCENT (24/10) (Some 3)"
proof -
  have "\<exists>k. Suc k < length (lv_pathIds traced_live) \<and> {lv_pathIds traced_live ! k, lv_pathIds traced_live ! Suc k} = {''c'', ''b''}"
    by (rule exI[of _ 1]) (auto simp: traced_live_def)
  then show ?thesis
    using path_is_traced[of "\<lparr>ce_source = ''c'', ce_target = ''b'', ce_layer = LayerMesh, ce_edgeType = ''trusts''\<rparr>" traced_live]
    by (simp add: traced_live_def plain_id_def)
qed

text \<open>Two renders of one run: the second recolours.\<close>

definition one_agent :: "security_state \<Rightarrow> topology_model" where
  "one_agent st = \<lparr>tm_structureKey = ''stream:x:1:0'',
     tm_nodes = [\<lparr>tn_id = ''a'', tn_nodeType = ''agent'', tn_securityState = st, tn_attrs = []\<rparr>],
     tm_edges = [], tm_meshOnly = True\<rparr>"

theorem canvas_incremental_witness:
  "\<exists>c. canvas_renders (\<lambda>_ _. 0) (\<lambda>_ _ _. (0, 0)) blank_canvas [one_agent Healthy, one_agent Compromised] = Some c \<and>
     cs_graph c = fresh_canvas (\<lambda>_ _. 0) (\<lambda>_ _ _. (0, 0)) (one_agent Compromised)"
  using canvas_incremental[of "[one_agent Healthy, one_agent Compromised]" "\<lambda>_ _. 0" "\<lambda>_ _ _. (0, 0)"]
  by (simp add: one_agent_def skeleton_def bare_def nodeSize_def)

end
