(* ===== verification/Workspace.thy ===== *)
theory Workspace
  imports Graph_Canvas Activity Insights
begin

text \<open>
  The investigation surface: \<open>frontend/src/components/graph/TopologyWorkspace.tsx\<close> with its state and what
  it derives, \<open>graph/AttackPathFinder.tsx\<close>, whose searches answer asynchronously, \<open>graph/NodeInspector.tsx\<close>
  and \<open>graph/GraphLegend.tsx\<close>. What is shown is data. The printing of a JSON value that is not a string and
  the browser's \<open>localeCompare\<close> are arguments.
\<close>

section \<open>The legend\<close>

definition STATES :: "security_state list" where
  "STATES = [Healthy, Suspicious, Compromised, Quarantined, Recovered]"

record legend =
  lg_states :: "(string \<times> string \<times> string) list"
  lg_types :: "(node_shape \<times> string \<times> string) list"

definition GraphLegend :: "string list \<Rightarrow> legend" where
  "GraphLegend nodeTypes =
     \<lparr>lg_states = map (\<lambda>s. (SEVERITY_HEX (SECURITY_STATE_SEVERITY s), SECURITY_STATE_LABEL s, SECURITY_STATE_HINT s)) STATES,
      lg_types = map (\<lambda>t. (nodeShape t, nt_label (nodeTypeMeta t), nt_hint (nodeTypeMeta t))) nodeTypes\<rparr>"

record layer_toggle =
  lt_layer :: edge_layer
  lt_active :: bool
  lt_label :: string
  lt_color :: string

definition LayerToggles :: "edge_layer list \<Rightarrow> edge_layer list \<Rightarrow> layer_toggle list" where
  "LayerToggles layers available = map (\<lambda>l. \<lparr>lt_layer = l, lt_active = (l \<in> set layers),
     lt_label = el_label (EDGE_LAYER_META l),
     lt_color = (if l \<in> set layers then el_color (EDGE_LAYER_META l) else ''#2a3040'')\<rparr>) available"

section \<open>What the workspace derives\<close>

definition types_order :: "(string \<Rightarrow> string \<Rightarrow> int) \<Rightarrow> string \<Rightarrow> string \<Rightarrow> int" where
  "types_order localeCompare a b = (if a = ''agent'' then -1 else if b = ''agent'' then 1 else localeCompare a b)"

definition nodeTypes :: "(string \<Rightarrow> string \<Rightarrow> int) \<Rightarrow> topology_model \<Rightarrow> string list" where
  "nodeTypes localeCompare model =
     sort_by (types_order localeCompare) (foldl (\<lambda>seen n. set_add seen (tn_nodeType n)) [] (tm_nodes model))"

definition type_badges :: "(string \<Rightarrow> string \<Rightarrow> int) \<Rightarrow> topology_model \<Rightarrow> (nat \<times> string) list" where
  "type_badges localeCompare model =
     map (\<lambda>t. (length (filter (\<lambda>n. tn_nodeType n = t) (tm_nodes model)), nt_plural (nodeTypeMeta t)))
       (nodeTypes localeCompare model)"

definition availableLayers :: "topology_model \<Rightarrow> edge_layer list" where
  "availableLayers model =
     (let present = foldl (\<lambda>s e. set_add s (edgeLayer (te_edgeType e))) [] (tm_edges model)
      in filter (\<lambda>l. l \<in> set present) ALL_LAYERS)"

definition focusIds :: "bool \<Rightarrow> blast_radius_response option \<Rightarrow> string list option" where
  "focusIds focus blastRadius = (if focus then map_option br_reachable blastRadius else None)"

definition reachableShare :: "blast_radius_response option \<Rightarrow> topology_model \<Rightarrow> rat" where
  "reachableShare blastRadius model = (case blastRadius of
      None \<Rightarrow> 0
    | Some b \<Rightarrow> if tm_nodes model = [] then 0
        else min 1 (of_nat (length (br_reachable b)) / of_nat (length (tm_nodes model))))"

record blast_panel =
  bp_percent :: string
  bp_counts :: "nat \<times> nat"
  bp_severity :: severity
  bp_compromised :: string

definition blast_panel_of :: "blast_radius_response \<Rightarrow> topology_model \<Rightarrow> blast_panel" where
  "blast_panel_of b model =
     (let share = reachableShare (Some b) model; k = length (br_compromised b)
      in \<lparr>bp_percent = formatPercent (Fin share), bp_counts = (length (br_reachable b), length (tm_nodes model)),
          bp_severity = (if share \<ge> 1/2 then SevCritical else SevWarn),
          bp_compromised = show_nat k @ '' node'' @ (if k = 1 then [] else ''s'') @ '' already compromised.''\<rparr>)"

section \<open>The inspector\<close>

text \<open>\<open>String(value)\<close> of an attribute, with \<open>textOf\<close> for a value that is not a string.\<close>

definition attr_text :: "(json \<Rightarrow> string) \<Rightarrow> json \<Rightarrow> string" where
  "attr_text textOf v = (case v of JStr s \<Rightarrow> s | _ \<Rightarrow> textOf v)"

text \<open>\<open>String(value ?? "\<dash>")\<close>: a missing key and \<open>null\<close> both print the dash.\<close>

definition attr_or_dash :: "(json \<Rightarrow> string) \<Rightarrow> json option \<Rightarrow> string" where
  "attr_or_dash textOf v = (case v of None \<Rightarrow> em_dash | Some JNull \<Rightarrow> em_dash | Some j \<Rightarrow> attr_text textOf j)"

datatype trace_note = NoteTracing | NoteNotCompromised | NoteNoSource

record trace_view =
  tv_note :: "trace_note option"
  tv_steps :: "(nat \<times> string \<times> bool) list"

definition trace_view_of :: "provenance_state \<Rightarrow> topology_node \<Rightarrow> trace_view" where
  "trace_view_of provenance node =
     (let chain = or_default (pv_chain provenance) []
      in \<lparr>tv_note = (if pv_loading provenance then Some NoteTracing
            else if length chain \<le> 1
              then Some (if tn_securityState node = Healthy then NoteNotCompromised else NoteNoSource)
            else None),
          tv_steps = (if length chain > 1 then map (\<lambda>(k, s). (k + 1, s, k = length chain - 1)) (enumerate 0 chain) else [])\<rparr>)"

record inspector =
  ip_id :: string
  ip_shape :: node_shape
  ip_kind :: "string \<times> string"
  ip_trace_button :: bool
  ip_state :: security_state
  ip_stats :: "(string \<times> string) list"
  ip_trace :: "trace_view option"
  ip_reaches :: "(string \<times> string) list"
  ip_more :: "nat option"
  ip_incidents :: "event_row list"

datatype inspector_view = NotInRun string | Inspecting inspector

definition connections :: "topology_model \<Rightarrow> string \<Rightarrow> topology_edge list" where
  "connections model nodeId = filter (\<lambda>e. te_edgeType e \<noteq> ''communicates_with'' \<and> te_edgeType e \<noteq> ''trusts'')
     (incidentEdges (tm_edges model) nodeId)"

definition reach_row :: "string \<Rightarrow> topology_edge \<Rightarrow> string \<times> string" where
  "reach_row nodeId e = (other_end nodeId e, map (\<lambda>c. if c = CHR ''_'' then CHR '' '' else c) (te_edgeType e))"

definition inspector_stats ::
  "(json \<Rightarrow> string) \<Rightarrow> topology_node \<Rightarrow> node_view option \<Rightarrow> nat \<Rightarrow> (string \<times> string) list" where
  "inspector_stats textOf node streamNode neighbours =
     (if is_agent node then
        [(''Software stack'', attr_or_dash textOf (map_of (tn_attrs node) ''software_type'')),
         (''Agent kind'', if map_of (tn_attrs node) ''agent_kind'' = Some (JStr ''real'') then ''LLM-backed'' else ''Simulated'')]
      else case map_of (tn_attrs node) ''kind'' of None \<Rightarrow> [] | Some j \<Rightarrow> [(''Control kind'', attr_text textOf j)]) @
     (case streamNode of
        Some n \<Rightarrow> if is_agent node then [(''Compromised by'', describeCompromisedBy n),
          (''Compromised at tick'', describeTickCompromised n)] else []
      | None \<Rightarrow> []) @
     [(''Mesh neighbours'', show_nat neighbours)]"

definition NodeInspector ::
  "(json \<Rightarrow> string) \<Rightarrow> (json \<Rightarrow> string) \<Rightarrow> string \<Rightarrow> topology_model \<Rightarrow> node_view option \<Rightarrow> event list \<Rightarrow> provenance_state \<Rightarrow>
   inspector_view" where
  "NodeInspector stringify textOf nodeId model streamNode incidents provenance =
     (case List.find (\<lambda>n. tn_id n = nodeId) (tm_nodes model) of
        None \<Rightarrow> NotInRun (nodeId @ '' is not part of the current topology.'')
      | Some node \<Rightarrow>
          (let meta = nodeTypeMeta (tn_nodeType node); links = connections model nodeId
           in Inspecting \<lparr>ip_id = tn_id node, ip_shape = nodeShape (tn_nodeType node),
                ip_kind = (nt_label meta, PLANE_LABEL (nt_plane meta)), ip_trace_button = is_agent node,
                ip_state = tn_securityState node,
                ip_stats = inspector_stats textOf node streamNode (length (meshNeighbors (tm_edges model) nodeId)),
                ip_trace = (if is_agent node then Some (trace_view_of provenance node) else None),
                ip_reaches = map (reach_row nodeId) (take 12 links),
                ip_more = (if length links > 12 then Some (length links - 12) else None),
                ip_incidents = map (EventRow stringify True) (rev incidents)\<rparr>))"

text \<open>The node whose provenance is asked for.\<close>

definition traced_node :: "topology_model \<Rightarrow> string \<Rightarrow> string option" where
  "traced_node model nodeId = (case List.find (\<lambda>n. tn_id n = nodeId) (tm_nodes model) of
      Some node \<Rightarrow> if is_agent node then Some nodeId else None
    | None \<Rightarrow> None)"

section \<open>The state of the workspace\<close>

text \<open>\<open>AttackPathFinder\<close> is mounted while no node is inspected; a new mount has a new number and a fresh
  state. A request carries its number, the mount it was made from, and what it asked. Answers reach
  the workspace even when the finder that asked is gone.\<close>

record path_finder =
  af_mount :: nat
  af_paths :: "string list list option"
  af_error :: "string option"
  af_loading :: bool

record path_request =
  pr_id :: nat
  pr_mount :: nat
  pr_source :: string
  pr_target :: string

record workspace =
  ws_selectedId :: "string option"
  ws_layers :: "edge_layer list"
  ws_path :: "string list option"
  ws_pathSource :: string
  ws_pathTarget :: string
  ws_focus :: bool
  ws_finder :: "path_finder option"
  ws_mounts :: nat
  ws_sent :: nat
  ws_pending :: "path_request list"

definition INITIAL_LAYERS :: "edge_layer list" where
  "INITIAL_LAYERS = [LayerMesh, LayerAccess]"

definition fresh_finder :: "nat \<Rightarrow> path_finder" where
  "fresh_finder k = \<lparr>af_mount = k, af_paths = None, af_error = None, af_loading = False\<rparr>"

definition initial_workspace :: workspace where
  "initial_workspace = \<lparr>ws_selectedId = None, ws_layers = INITIAL_LAYERS, ws_path = None, ws_pathSource = [],
     ws_pathTarget = [], ws_focus = False, ws_finder = Some (fresh_finder 0), ws_mounts = 1, ws_sent = 0, ws_pending = []\<rparr>"

definition toggleLayer :: "edge_layer list \<Rightarrow> edge_layer \<Rightarrow> edge_layer list" where
  "toggleLayer layers l = (if l \<in> set layers then removeAll l layers else layers @ [l])"

definition select_node :: "workspace \<Rightarrow> string option \<Rightarrow> workspace" where
  "select_node w i =
     (let w' = w\<lparr>ws_selectedId := i\<rparr>
      in if truthy i then w'\<lparr>ws_finder := None\<rparr>
         else case ws_finder w of
             Some _ \<Rightarrow> w'
           | None \<Rightarrow> w'\<lparr>ws_finder := Some (fresh_finder (ws_mounts w)), ws_mounts := ws_mounts w + 1\<rparr>)"

definition search_paths :: "workspace \<Rightarrow> workspace" where
  "search_paths w = (case ws_finder w of
      None \<Rightarrow> w
    | Some f \<Rightarrow>
        if trim (ws_pathSource w) = [] \<or> trim (ws_pathTarget w) = [] then w
        else w\<lparr>ws_finder := Some (f\<lparr>af_loading := True, af_error := None\<rparr>), ws_sent := ws_sent w + 1,
               ws_pending := ws_pending w @ [\<lparr>pr_id = ws_sent w, pr_mount = af_mount f,
                 pr_source = trim (ws_pathSource w), pr_target = trim (ws_pathTarget w)\<rparr>]\<rparr>)"

definition button_enabled :: "workspace \<Rightarrow> bool" where
  "button_enabled w \<longleftrightarrow> (case ws_finder w of None \<Rightarrow> False
     | Some f \<Rightarrow> \<not> (af_loading f \<or> ws_pathSource w = [] \<or> ws_pathTarget w = []))"

text \<open>The call the search makes.\<close>

definition attack_path_request :: "backend \<Rightarrow> insights_mode \<Rightarrow> string \<Rightarrow> path_request \<Rightarrow> reply" where
  "attack_path_request B mode experimentId r = (case mode of
      Live \<Rightarrow> getAttackPaths B experimentId (pr_source r) (pr_target r)
    | ReplayMode \<Rightarrow> getReplayAttackPaths B experimentId (pr_source r) (pr_target r))"

definition set_finder :: "workspace \<Rightarrow> nat \<Rightarrow> (path_finder \<Rightarrow> path_finder) \<Rightarrow> workspace" where
  "set_finder w k g = (case ws_finder w of
      Some f \<Rightarrow> if af_mount f = k then w\<lparr>ws_finder := Some (g f)\<rparr> else w
    | None \<Rightarrow> w)"

fun first_path :: "string list list \<Rightarrow> string list option" where
  "first_path [] = None"
| "first_path (p # ps) = Some p"

definition answer_paths :: "workspace \<Rightarrow> nat \<Rightarrow> string + string list list \<Rightarrow> workspace" where
  "answer_paths w k answer = (case List.find (\<lambda>r. pr_id r = k) (ws_pending w) of
      None \<Rightarrow> w
    | Some r \<Rightarrow>
        (let w' = w\<lparr>ws_pending := filter (\<lambda>r. pr_id r \<noteq> k) (ws_pending w)\<rparr>
         in case answer of
             Inr paths \<Rightarrow> (set_finder w' (pr_mount r) (\<lambda>f. f\<lparr>af_paths := Some paths, af_loading := False\<rparr>))
               \<lparr>ws_path := first_path paths\<rparr>
           | Inl msg \<Rightarrow> (set_finder w' (pr_mount r)
               (\<lambda>f. f\<lparr>af_paths := None, af_error := Some msg, af_loading := False\<rparr>))\<lparr>ws_path := None\<rparr>))"

text \<open>\<open>selectedPath?.join(">") === path.join(">")\<close>.\<close>

definition path_active :: "workspace \<Rightarrow> string list \<Rightarrow> bool" where
  "path_active w p \<longleftrightarrow> map_option (join ''>'') (ws_path w) = Some (join ''>'' p)"

definition pick_path :: "workspace \<Rightarrow> nat \<Rightarrow> workspace" where
  "pick_path w i = (case ws_finder w of
      Some f \<Rightarrow> (case (af_paths f, af_error f) of
          (Some ps, None) \<Rightarrow> if i < length ps
            then w\<lparr>ws_path := if path_active w (ps ! i) then None else Some (ps ! i)\<rparr> else w
        | _ \<Rightarrow> w)
    | None \<Rightarrow> w)"

datatype workspace_input =
    SelectNode "string option"
  | ToggleLayer edge_layer
  | ToggleFocus
  | EditSource string
  | EditTarget string
  | PressEnter
  | PressSearch
  | PathsArrived nat "string + string list list"
  | PickPath nat
  | ClearPath
  | TraceFrom string

fun workspace_step :: "workspace \<Rightarrow> workspace_input \<Rightarrow> workspace" where
  "workspace_step w (SelectNode i) = select_node w i"
| "workspace_step w (ToggleLayer l) = w\<lparr>ws_layers := toggleLayer (ws_layers w) l\<rparr>"
| "workspace_step w ToggleFocus = w\<lparr>ws_focus := \<not> ws_focus w\<rparr>"
| "workspace_step w (EditSource s) = (if ws_finder w = None then w else w\<lparr>ws_pathSource := s\<rparr>)"
| "workspace_step w (EditTarget s) = (if ws_finder w = None then w else w\<lparr>ws_pathTarget := s\<rparr>)"
| "workspace_step w PressEnter = search_paths w"
| "workspace_step w PressSearch = (if button_enabled w then search_paths w else w)"
| "workspace_step w (PathsArrived k answer) = answer_paths w k answer"
| "workspace_step w (PickPath i) = pick_path w i"
| "workspace_step w ClearPath = w\<lparr>ws_path := None\<rparr>"
| "workspace_step w (TraceFrom i) = (if truthy (ws_selectedId w) then w\<lparr>ws_pathSource := i\<rparr> else w)"

definition workspace_after :: "workspace_input list \<Rightarrow> workspace" where
  "workspace_after = foldl workspace_step initial_workspace"

section \<open>What the workspace shows\<close>

datatype graph_area = AreaBuilding | AreaEmpty | AreaCanvas

definition graph_area_of :: "bool \<Rightarrow> topology_model \<Rightarrow> graph_area" where
  "graph_area_of loading model =
     (if loading \<and> tm_nodes model = [] then AreaBuilding else if tm_nodes model = [] then AreaEmpty else AreaCanvas)"

text \<open>The banner over the graph: the hops and the two ends.\<close>

definition trace_banner :: "workspace \<Rightarrow> (int \<times> string option \<times> string option) option" where
  "trace_banner w = map_option (\<lambda>p. (int (length p) - 1,
     if p = [] then None else Some (hd p), if p = [] then None else Some (last p))) (ws_path w)"

definition canvas_live_of ::
  "workspace \<Rightarrow> blast_radius_response option \<Rightarrow> topology_model \<Rightarrow> string option \<Rightarrow> canvas_live" where
  "canvas_live_of w blastRadius model hovered =
     \<lparr>lv_nodes = tm_nodes model, lv_layers = ws_layers w, lv_selectedId = ws_selectedId w, lv_hoveredId = hovered,
      lv_pathIds = or_default (ws_path w) [], lv_focusIds = focusIds (ws_focus w) blastRadius\<rparr>"

datatype aside =
    AsideInspector inspector_view
  | AsideFinder path_finder "blast_panel option"

definition workspace_aside ::
  "(json \<Rightarrow> string) \<Rightarrow> (json \<Rightarrow> string) \<Rightarrow> workspace \<Rightarrow> graph_state \<Rightarrow> topology_model \<Rightarrow> blast_radius_response option \<Rightarrow>
   provenance_state \<Rightarrow> aside option" where
  "workspace_aside stringify textOf w stream model blastRadius provenance =
     (if truthy (ws_selectedId w) then
        (let i = the (ws_selectedId w)
         in Some (AsideInspector (NodeInspector stringify textOf i model (map_get (gs_nodes stream) i)
              (or_default (map_get (gs_incidentsByAgent stream) i) []) provenance)))
      else map_option (\<lambda>f. AsideFinder f (map_option (\<lambda>b. blast_panel_of b model) blastRadius)) (ws_finder w))"

section \<open>Searches\<close>

lemma workspace_after_snoc: "workspace_after (xs @ [x]) = workspace_step (workspace_after xs) x"
  by (simp add: workspace_after_def)

text \<open>What every input keeps: the finder is there exactly when no node is inspected, requests have
  different numbers, and a mount that is gone does not come back.\<close>

definition ws_inv :: "workspace \<Rightarrow> bool" where
  "ws_inv w \<longleftrightarrow> (ws_finder w = None \<longleftrightarrow> truthy (ws_selectedId w)) \<and> distinct (ws_layers w) \<and>
     distinct (map pr_id (ws_pending w)) \<and>
     (\<forall>r \<in> set (ws_pending w). pr_id r < ws_sent w \<and> pr_mount r < ws_mounts w) \<and>
     (\<forall>f. ws_finder w = Some f \<longrightarrow> af_mount f < ws_mounts w)"

lemma set_finder_simps [simp]:
  "ws_selectedId (set_finder w k g) = ws_selectedId w" "ws_layers (set_finder w k g) = ws_layers w"
  "ws_pending (set_finder w k g) = ws_pending w" "ws_sent (set_finder w k g) = ws_sent w"
  "ws_mounts (set_finder w k g) = ws_mounts w" "ws_path (set_finder w k g) = ws_path w"
  "ws_finder (set_finder w k g) = map_option (\<lambda>f. if af_mount f = k then g f else f) (ws_finder w)"
  by (simp_all add: set_finder_def split: option.split)

lemma pick_path_simps [simp]:
  "ws_selectedId (pick_path w i) = ws_selectedId w" "ws_layers (pick_path w i) = ws_layers w"
  "ws_pending (pick_path w i) = ws_pending w" "ws_sent (pick_path w i) = ws_sent w"
  "ws_mounts (pick_path w i) = ws_mounts w" "ws_finder (pick_path w i) = ws_finder w"
  by (simp_all add: pick_path_def split: option.split prod.split)

text \<open>An answer that is awaited: the request leaves the queue, and the finder that asked stops loading.\<close>

lemma answer_paths_fields:
  "ws_selectedId (answer_paths w k a) = ws_selectedId w" "ws_layers (answer_paths w k a) = ws_layers w"
  "ws_sent (answer_paths w k a) = ws_sent w" "ws_mounts (answer_paths w k a) = ws_mounts w"
  "ws_pending (answer_paths w k a) = filter (\<lambda>r. pr_id r \<noteq> k) (ws_pending w)"
  "(ws_finder (answer_paths w k a) = None) = (ws_finder w = None)"
  "map_option af_mount (ws_finder (answer_paths w k a)) = map_option af_mount (ws_finder w)"
proof -
  have none: "filter (\<lambda>r. pr_id r \<noteq> k) rs = rs" if "List.find (\<lambda>r. pr_id r = k) rs = None" for rs
    using that by (auto simp: find_None_iff intro: filter_True)
  show "ws_selectedId (answer_paths w k a) = ws_selectedId w" "ws_layers (answer_paths w k a) = ws_layers w"
    "ws_sent (answer_paths w k a) = ws_sent w" "ws_mounts (answer_paths w k a) = ws_mounts w"
    "ws_pending (answer_paths w k a) = filter (\<lambda>r. pr_id r \<noteq> k) (ws_pending w)"
    "(ws_finder (answer_paths w k a) = None) = (ws_finder w = None)"
    "map_option af_mount (ws_finder (answer_paths w k a)) = map_option af_mount (ws_finder w)"
    by (auto simp: answer_paths_def Let_def none option.map_comp comp_def split: option.split sum.split intro!: option.map_cong)
qed

lemma initial_inv: "ws_inv initial_workspace"
  by (simp add: ws_inv_def initial_workspace_def fresh_finder_def INITIAL_LAYERS_def)

lemma step_inv: "ws_inv w \<Longrightarrow> ws_inv (workspace_step w x)"
proof (cases x)
  case (SelectNode i)
  assume "ws_inv w"
  then show ?thesis by (auto simp: SelectNode select_node_def ws_inv_def Let_def fresh_finder_def less_Suc_eq split: option.split)
next
  case (PathsArrived k a)
  assume inv: "ws_inv w"
  have "af_mount f < ws_mounts w" if "ws_finder (answer_paths w k a) = Some f" for f
    using that inv answer_paths_fields(7)[of w k a] by (auto simp: ws_inv_def)
  then show ?thesis using inv
    by (simp add: PathsArrived ws_inv_def answer_paths_fields distinct_map_filter)
next
  case PressEnter
  assume "ws_inv w"
  then show ?thesis by (auto simp: PressEnter search_paths_def ws_inv_def less_Suc_eq split: option.split)
next
  case PressSearch
  assume "ws_inv w"
  then show ?thesis by (auto simp: PressSearch search_paths_def ws_inv_def less_Suc_eq split: option.split)
qed (auto simp: ws_inv_def toggleLayer_def distinct_removeAll)

lemma reachable_inv: "ws_inv (workspace_after xs)"
  by (induction xs rule: rev_induct) (simp_all add: workspace_after_snoc step_inv, simp add: workspace_after_def initial_inv)

text \<open>The requests a finder waits for.\<close>

definition own_requests :: "workspace \<Rightarrow> path_finder \<Rightarrow> path_request list" where
  "own_requests w f = filter (\<lambda>r. pr_mount r = af_mount f) (ws_pending w)"

definition one_search :: "workspace \<Rightarrow> bool" where
  "one_search w \<longleftrightarrow> (\<forall>f. ws_finder w = Some f \<longrightarrow> length (own_requests w f) = (if af_loading f then 1 else 0))"

definition enters_idle :: "workspace \<Rightarrow> workspace_input \<Rightarrow> bool" where
  "enters_idle w x \<longleftrightarrow> (x = PressEnter \<longrightarrow> (\<forall>f. ws_finder w = Some f \<longrightarrow> \<not> af_loading f))"

fun idle_searches :: "workspace \<Rightarrow> workspace_input list \<Rightarrow> bool" where
  "idle_searches w [] = True"
| "idle_searches w (x # xs) = (enters_idle w x \<and> idle_searches (workspace_step w x) xs)"

lemma search_one:
  assumes "one_search w" and "\<forall>f. ws_finder w = Some f \<longrightarrow> \<not> af_loading f"
  shows "one_search (search_paths w)"
proof (cases "ws_finder w")
  case None
  with assms(1) show ?thesis by (simp add: search_paths_def)
next
  case (Some f)
  then have "length (own_requests w f) = 0" using assms by (simp add: one_search_def)
  with Some assms(1) show ?thesis by (simp add: search_paths_def one_search_def own_requests_def)
qed

lemma answer_one:
  assumes "ws_inv w" and "one_search w"
  shows "one_search (answer_paths w k a)"
proof (cases "List.find (\<lambda>r. pr_id r = k) (ws_pending w)")
  case None
  with assms show ?thesis by (simp add: answer_paths_def)
next
  case (Some r)
  then have r: "r \<in> set (ws_pending w)" "pr_id r = k" by (auto simp: find_Some_iff)
  show ?thesis unfolding one_search_def
  proof (intro allI impI)
    fix f' assume f': "ws_finder (answer_paths w k a) = Some f'"
    then obtain f where f: "ws_finder w = Some f" "af_mount f = af_mount f'"
      using answer_paths_fields(7)[of w k a] by (cases "ws_finder w") auto
    have own: "own_requests (answer_paths w k a) f' = filter (\<lambda>r. pr_id r \<noteq> k) (own_requests w f)"
      by (simp add: own_requests_def answer_paths_fields f(2) conj_commute)
    have one: "length (own_requests w f) = (if af_loading f then 1 else 0)"
      using assms(2) f(1) by (simp add: one_search_def)
    show "length (own_requests (answer_paths w k a) f') = (if af_loading f' then 1 else 0)"
    proof (cases "pr_mount r = af_mount f")
      case True
      then have "r \<in> set (own_requests w f)" using r by (simp add: own_requests_def)
      with one have "own_requests w f = [r]" by (cases "own_requests w f") (auto split: if_splits)
      moreover have "\<not> af_loading f'"
        using f' f True Some by (auto simp: answer_paths_def Let_def split: sum.splits)
      ultimately show ?thesis by (simp add: own r)
    next
      case False
      have "pr_id q \<noteq> k" if "q \<in> set (own_requests w f)" for q
      proof
        assume "pr_id q = k"
        with that r assms(1) have "q = r" by (auto simp: own_requests_def ws_inv_def distinct_map inj_on_def)
        with that False show False by (simp add: own_requests_def)
      qed
      then have "filter (\<lambda>r. pr_id r \<noteq> k) (own_requests w f) = own_requests w f" by (simp add: filter_True)
      moreover have "af_loading f' = af_loading f"
        using f' f False Some by (auto simp: answer_paths_def Let_def split: sum.splits)
      ultimately show ?thesis by (simp add: own one)
    qed
  qed
qed

lemma step_one:
  assumes "ws_inv w" and "one_search w" and "enters_idle w x"
  shows "one_search (workspace_step w x)"
proof (cases x)
  case (SelectNode i)
  have "own_requests w (fresh_finder (ws_mounts w)) = []"
    using assms(1) by (auto simp: own_requests_def ws_inv_def fresh_finder_def filter_empty_conv)
  then show ?thesis using assms(2)
    by (auto simp: SelectNode select_node_def one_search_def Let_def own_requests_def fresh_finder_def split: option.split)
next
  case (PathsArrived k a)
  with assms show ?thesis by (simp add: answer_one)
next
  case PressEnter
  with assms show ?thesis by (simp add: search_one enters_idle_def)
next
  case PressSearch
  with assms show ?thesis by (auto simp: button_enabled_def intro!: search_one split: option.splits)
qed (use assms(2) in \<open>auto simp: one_search_def own_requests_def\<close>)

text \<open>C25. One search at a time. As long as Enter is not pressed while a search is loading (the button is
  disabled then; the key is not), the finder is waiting for exactly one answer when it says so and for
  none otherwise, whatever is selected, closed, edited or answered in between: the paths it lists
  answer the last search it made.\<close>

theorem one_search_at_a_time:
  assumes "idle_searches initial_workspace xs" and "ws_finder (workspace_after xs) = Some f"
  shows "length (own_requests (workspace_after xs) f) = (if af_loading f then 1 else 0)"
proof -
  have "one_search (foldl workspace_step w xs)" if "ws_inv w" "one_search w" "idle_searches w xs" for w
    using that by (induction xs arbitrary: w) (simp_all add: step_inv step_one)
  moreover have "one_search initial_workspace"
    by (simp add: one_search_def initial_workspace_def own_requests_def fresh_finder_def)
  ultimately have "one_search (workspace_after xs)"
    using initial_inv assms(1) by (simp add: workspace_after_def)
  with assms(2) show ?thesis by (simp add: one_search_def)
qed

definition one_query :: "workspace_input list" where
  "one_query = [EditSource ''a'', EditTarget ''b'', PressEnter]"

theorem one_search_at_a_time_witness:
  "length (own_requests (workspace_after one_query) (fresh_finder 0\<lparr>af_loading := True\<rparr>)) = 1"
proof -
  have blank: "trim ''a'' \<noteq> []" "trim ''b'' \<noteq> []" by (simp_all add: trim_def is_space_def)
  have run: "idle_searches initial_workspace one_query"
    "ws_finder (workspace_after one_query) = Some (fresh_finder 0\<lparr>af_loading := True\<rparr>)"
    by (simp_all add: one_query_def workspace_after_def initial_workspace_def enters_idle_def fresh_finder_def search_paths_def blank)
  show ?thesis using one_search_at_a_time[OF run] by (simp add: fresh_finder_def)
qed

text \<open>Without that care the list can answer another question than the one on the screen: two searches
  by Enter, whose answers arrive in the other order, leave the paths of the first beside the ends of
  the second.\<close>

definition crossed_searches :: "workspace_input list" where
  "crossed_searches = [EditSource ''a'', EditTarget ''b'', PressEnter, EditTarget ''c'', PressEnter,
     PathsArrived 1 (Inr []), PathsArrived 0 (Inr [[''a'', ''b'']])]"

theorem crossed_answers_mislead:
  "let w = workspace_after crossed_searches in
    ws_pathSource w = ''a'' \<and> ws_pathTarget w = ''c'' \<and> map_option af_paths (ws_finder w) = Some (Some [[''a'', ''b'']]) \<and>
    ws_path w = Some [''a'', ''b'']"
  by (simp add: crossed_searches_def workspace_after_def initial_workspace_def fresh_finder_def search_paths_def
      answer_paths_def set_finder_def trim_def is_space_def)

text \<open>Only answered paths are traced: whatever was pressed, the path drawn over the graph is one that
  some answer of the backend contained.\<close>

definition answered_paths :: "workspace_input list \<Rightarrow> string list set" where
  "answered_paths xs = {p. \<exists>k ps. PathsArrived k (Inr ps) \<in> set xs \<and> p \<in> set ps}"

lemma answered_paths_snoc:
  "answered_paths (xs @ [x]) = answered_paths xs \<union> (case x of PathsArrived k (Inr ps) \<Rightarrow> set ps | _ \<Rightarrow> {})"
  by (auto simp: answered_paths_def split: workspace_input.splits sum.splits)

definition lists_only :: "string list set \<Rightarrow> workspace \<Rightarrow> bool" where
  "lists_only P w \<longleftrightarrow> (\<forall>p. ws_path w = Some p \<longrightarrow> p \<in> P) \<and>
     (\<forall>f ps. ws_finder w = Some f \<longrightarrow> af_paths f = Some ps \<longrightarrow> set ps \<subseteq> P)"

lemma first_path_in: "first_path ps = Some p \<Longrightarrow> p \<in> set ps"
  by (cases ps) auto

lemma step_lists_only:
  assumes "lists_only P w"
  shows "lists_only (P \<union> (case x of PathsArrived k (Inr ps) \<Rightarrow> set ps | _ \<Rightarrow> {})) (workspace_step w x)"
proof (cases x)
  case (SelectNode i)
  with assms show ?thesis by (auto simp: select_node_def lists_only_def Let_def fresh_finder_def split: option.splits)
next
  case (PathsArrived k a)
  with assms show ?thesis
    by (auto simp: answer_paths_def lists_only_def Let_def dest!: first_path_in split: option.splits sum.splits if_splits)
next
  case (PickPath i)
  with assms show ?thesis
    by (auto simp: pick_path_def lists_only_def split: option.splits if_splits dest!: nth_mem)
qed (use assms in \<open>auto simp: lists_only_def search_paths_def split: option.splits\<close>)

theorem traced_path_was_answered:
  assumes "ws_path (workspace_after xs) = Some p"
  shows "p \<in> answered_paths xs"
proof -
  have "lists_only (answered_paths xs) (workspace_after xs)"
  proof (induction xs rule: rev_induct)
    case Nil
    show ?case by (simp add: lists_only_def workspace_after_def initial_workspace_def fresh_finder_def)
  next
    case (snoc x xs)
    then show ?case using step_lists_only[of "answered_paths xs" "workspace_after xs" x]
      by (simp add: workspace_after_snoc answered_paths_snoc)
  qed
  with assms show ?thesis by (simp add: lists_only_def)
qed

theorem traced_path_was_answered_witness: "[''a'', ''b''] \<in> answered_paths crossed_searches"
  by (rule traced_path_was_answered)
    (simp add: crossed_searches_def workspace_after_def initial_workspace_def fresh_finder_def search_paths_def
      answer_paths_def set_finder_def trim_def is_space_def)

section \<open>Counts and keys\<close>

lemma seen_types: "set (foldl (\<lambda>seen n. set_add seen (f n)) seen0 ns) = set seen0 \<union> f ` set ns"
  and seen_types_distinct: "distinct seen0 \<Longrightarrow> distinct (foldl (\<lambda>seen n. set_add seen (f n)) seen0 ns)"
  by (induction ns arbitrary: seen0) auto

lemma nodeTypes_set: "set (nodeTypes lc model) = tn_nodeType ` set (tm_nodes model)"
  and nodeTypes_distinct: "distinct (nodeTypes lc model)"
  by (simp_all add: nodeTypes_def seen_types seen_types_distinct)

lemma counts_by_key:
  "distinct ks \<Longrightarrow> f ` set xs \<subseteq> set ks \<Longrightarrow> sum_list (map (\<lambda>k. length (filter (\<lambda>x. f x = k) xs)) ks) = length xs"
proof (induction xs)
  case (Cons x xs)
  have "sum_list (map (\<lambda>k. length (filter (\<lambda>x. f x = k) (x # xs))) ks) =
      sum_list (map (\<lambda>k. (if k = f x then 1 else 0) + length (filter (\<lambda>x. f x = k) xs)) ks)"
    by (intro arg_cong[of _ _ sum_list] map_cong) auto
  also have "\<dots> = sum_list (map (\<lambda>k. if k = f x then 1 else 0) ks) + length xs"
    using Cons by (simp add: sum_list_addf)
  also have "sum_list (map (\<lambda>k. if k = f x then 1 else 0 :: nat) ks) = 1"
    using Cons.prems by (simp add: sum_list_distinct_conv_sum_set sum.delta)
  finally show ?case by simp
qed simp

lemma types_order_comparator: "comparator lc \<Longrightarrow> comparator_on UNIV (types_order lc)"
  unfolding comparator_def comparator_on_def types_order_def by auto

text \<open>The badges over the graph account for every node: one badge per node type that occurs, the agents
  first, and the counts add up to the number of nodes.\<close>

theorem badges_account_for_nodes:
  assumes "comparator localeCompare"
  shows "sum_list (map fst (type_badges localeCompare model)) = length (tm_nodes model) \<and>
    set (nodeTypes localeCompare model) = tn_nodeType ` set (tm_nodes model) \<and>
    distinct (nodeTypes localeCompare model) \<and>
    (\<exists>rest. nodeTypes localeCompare model =
      (if ''agent'' \<in> tn_nodeType ` set (tm_nodes model) then ''agent'' # rest else rest) \<and> ''agent'' \<notin> set rest)"
proof (intro conjI)
  let ?ts = "nodeTypes localeCompare model"
  show "sum_list (map fst (type_badges localeCompare model)) = length (tm_nodes model)"
    using counts_by_key[OF nodeTypes_distinct, of tn_nodeType "tm_nodes model"]
    by (simp add: type_badges_def comp_def nodeTypes_set)
  show "set ?ts = tn_nodeType ` set (tm_nodes model)" "distinct ?ts" by (rule nodeTypes_set nodeTypes_distinct)+
  have sorted: "sorted_wrt (\<lambda>a b. types_order localeCompare a b \<le> 0) ?ts"
    unfolding nodeTypes_def by (rule comparator_on.sort_by_sorted[OF types_order_comparator[OF assms]]) simp
  show "\<exists>rest. ?ts = (if ''agent'' \<in> tn_nodeType ` set (tm_nodes model) then ''agent'' # rest else rest) \<and> ''agent'' \<notin> set rest"
  proof (cases "''agent'' \<in> set ?ts")
    case True
    then obtain x rest where ts: "?ts = x # rest" by (cases ?ts) auto
    have "x = ''agent''"
    proof (rule ccontr)
      assume x: "x \<noteq> ''agent''"
      then have "types_order localeCompare x ''agent'' \<le> 0" using sorted True by (simp add: ts)
      then show False using x by (simp add: types_order_def)
    qed
    moreover from this have "''agent'' \<notin> set rest" using nodeTypes_distinct[of localeCompare model] by (simp add: ts)
    ultimately show ?thesis using True by (simp add: ts flip: nodeTypes_set[of localeCompare model])
  next
    case False
    then show ?thesis by (simp add: flip: nodeTypes_set[of localeCompare model])
  qed
qed

definition plain_order :: "string \<Rightarrow> string \<Rightarrow> int" where
  "plain_order a b = (if a < b then -1 else if a = b then 0 else 1)"

lemma plain_order: "comparator plain_order"
  by unfold_locales (auto simp: plain_order_def split: if_splits)

definition two_types :: topology_model where
  "two_types = (one_agent Healthy)\<lparr>tm_nodes := map (\<lambda>(i, t). \<lparr>tn_id = i, tn_nodeType = t, tn_securityState = Healthy,
     tn_attrs = []\<rparr>) [(''a'', ''tool''), (''b'', ''agent''), (''c'', ''tool'')]\<rparr>"

theorem badges_account_for_nodes_witness:
  "sum_list (map fst (type_badges plain_order two_types)) = 3"
  using badges_account_for_nodes[OF plain_order, of two_types] by (simp add: two_types_def)

text \<open>The inspector accounts for every connection: the rows and the number after them add up to the
  distinct links of the node that are not plain communication or trust, in either direction.\<close>

definition links_of :: "topology_edge list \<Rightarrow> string \<Rightarrow> (string \<times> string) set" where
  "links_of edges nodeId = {(te_edgeType e, other_end nodeId e) | e. e \<in> set edges \<and> touches nodeId e \<and>
     te_edgeType e \<notin> {''communicates_with'', ''trusts''}}"

theorem inspector_accounts_for_links:
  assumes "\<forall>e \<in> set (tm_edges model). CHR '':'' \<notin> set (te_edgeType e)"
    and "NodeInspector stringify textOf nodeId model streamNode incidents provenance = Inspecting v"
  shows "length (ip_reaches v) + or_default (ip_more v) 0 = card (links_of (tm_edges model) nodeId) \<and>
    length (ip_reaches v) \<le> 12"
proof -
  let ?key = "\<lambda>e. te_edgeType e @ '':'' @ other_end nodeId e" and ?pair = "\<lambda>e. (te_edgeType e, other_end nodeId e)"
  let ?links = "connections model nodeId" and ?inc = "incidentEdges (tm_edges model) nodeId"
  have sub: "set ?inc \<subseteq> {e \<in> set (tm_edges model). touches nodeId e}"
    unfolding incidentEdges_def by (rule keep_first_subset)
  have key: "?key e = ?key f \<longleftrightarrow> ?pair e = ?pair f" if "e \<in> set (tm_edges model)" "f \<in> set (tm_edges model)" for e f
    using append_sep_inj[of "CHR '':''" "te_edgeType e" "te_edgeType f"] that assms(1) by auto
  have "distinct (map ?key ?inc)"
    unfolding incidentEdges_def keep_first_seen[symmetric] by (rule keep_first_distinct)
  then have "distinct (map ?pair ?inc)" using sub key by (fastforce simp: distinct_map inj_on_def)
  then have "distinct (map ?pair ?links)" by (simp add: connections_def distinct_map_filter)
  moreover have "?pair ` set ?links = links_of (tm_edges model) nodeId"
  proof -
    have ex: "\<exists>y \<in> set ?inc. ?pair y = ?pair e" if "e \<in> set (tm_edges model)" "touches nodeId e" for e
    proof -
      have "\<exists>y \<in> set ?inc. ?key y = ?key e"
        unfolding incidentEdges_def by (rule keep_first_complete) (use that in simp_all)
      then show ?thesis using key sub that(1) by blast
    qed
    have all: "?pair e \<in> ?pair ` set ?links"
      if e: "e \<in> set (tm_edges model)" "touches nodeId e" "te_edgeType e \<notin> {''communicates_with'', ''trusts''}" for e
    proof -
      obtain y where y: "y \<in> set ?inc" "?pair y = ?pair e" using ex[OF e(1,2)] by blast
      then have "y \<in> set ?links" using e(3) by (simp add: connections_def)
      with y(2) show ?thesis by (intro image_eqI[where x = y]) simp_all
    qed
    show ?thesis
    proof
      show "?pair ` set ?links \<subseteq> links_of (tm_edges model) nodeId"
        using sub by (auto simp: links_of_def connections_def)
      show "links_of (tm_edges model) nodeId \<subseteq> ?pair ` set ?links"
        using all by (auto simp: links_of_def simp del: image_iff)
    qed
  qed
  ultimately have "length ?links = card (links_of (tm_edges model) nodeId)"
    by (metis distinct_card length_map list.set_map)
  moreover have "ip_reaches v = map (reach_row nodeId) (take 12 ?links)"
    "ip_more v = (if length ?links > 12 then Some (length ?links - 12) else None)"
    using assms(2) by (auto simp: NodeInspector_def Let_def split: option.splits)
  ultimately show ?thesis by simp
qed

definition tool_of_a :: topology_model where
  "tool_of_a = (one_agent Healthy)\<lparr>tm_edges := [demo_edge ''a'' ''t'' ''can_access'', demo_edge ''a'' ''b'' ''trusts'']\<rparr>"

definition no_trace :: provenance_state where
  "no_trace = \<lparr>pv_chain = None, pv_loading = False, pv_error = None\<rparr>"

theorem inspector_accounts_for_links_witness:
  "\<exists>v. NodeInspector (\<lambda>_. []) (\<lambda>_. []) ''a'' tool_of_a None [] no_trace = Inspecting v \<and>
     length (ip_reaches v) + or_default (ip_more v) 0 = card (links_of (tm_edges tool_of_a) ''a'')"
proof -
  obtain v where v: "NodeInspector (\<lambda>_. []) (\<lambda>_. []) ''a'' tool_of_a None [] no_trace = Inspecting v"
    by (simp add: NodeInspector_def tool_of_a_def one_agent_def Let_def)
  moreover have "\<forall>e \<in> set (tm_edges tool_of_a). CHR '':'' \<notin> set (te_edgeType e)"
    by (simp add: tool_of_a_def demo_edge_def)
  ultimately show ?thesis using inspector_accounts_for_links by blast
qed

text \<open>The legend is the key to the canvas: the colour a node is drawn in stands in the legend beside the
  label of its state, and the ring of its type beside the label of its type.\<close>

theorem legend_explains_canvas:
  "(\<exists>hint. (cn_color (canvas_node_of P n), SECURITY_STATE_LABEL (tn_securityState n), hint) \<in> set (lg_states (GraphLegend ts))) \<and>
   (n \<in> set (tm_nodes model) \<longrightarrow> (\<exists>hint. (nodeShape (tn_nodeType n), nt_label (nodeTypeMeta (tn_nodeType n)), hint)
      \<in> set (lg_types (GraphLegend (nodeTypes localeCompare model)))))"
proof
  show "\<exists>hint. (cn_color (canvas_node_of P n), SECURITY_STATE_LABEL (tn_securityState n), hint) \<in> set (lg_states (GraphLegend ts))"
    by (cases "tn_securityState n") (auto simp: GraphLegend_def canvas_node_of_def nodeColor_def STATES_def)
  show "n \<in> set (tm_nodes model) \<longrightarrow> (\<exists>hint. (nodeShape (tn_nodeType n), nt_label (nodeTypeMeta (tn_nodeType n)), hint)
      \<in> set (lg_types (GraphLegend (nodeTypes localeCompare model))))"
    by (auto simp: GraphLegend_def nodeTypes_set)
qed

end
