(* ===== verification/Replay_Page.thy ===== *)
theory Replay_Page
  imports Replay Workspace Metrics_View
begin

text \<open>
  \<open>frontend/src/app/history/[id]/page.tsx\<close> with \<open>components/run/ReplayTransport.tsx\<close>: the replay screen. It
  joins the control reducer, the replay hook and the effect that pauses a playback that has reached the
  end of the log. An input is a press, the answer of the load, or a firing of the interval, which is
  armed only while playing on a loaded log; the effect runs after each.
\<close>

section \<open>The page\<close>

record replay_page =
  rg_control :: replay_control_state
  rg_hook :: replay_hook
  rg_logOpen :: bool

definition replay_page_mounted :: replay_page where
  "replay_page_mounted = \<lparr>rg_control = initialReplayControlState, rg_hook = initial_replay, rg_logOpen = False\<rparr>"

definition replay_finished :: "replay_page \<Rightarrow> bool" where
  "replay_finished p \<longleftrightarrow> 0 < rh_totalEvents (rg_hook p) \<and> rh_totalEvents (rg_hook p) \<le> rh_playedCount (rg_hook p)"

definition replay_dispatch :: "replay_page \<Rightarrow> replay_control_action \<Rightarrow> replay_page" where
  "replay_dispatch p a = p\<lparr>rg_control := replayControlReducer (rg_control p) a\<rparr>"

definition pause_effect :: "replay_page \<Rightarrow> replay_page" where
  "pause_effect p = (if rp_playing (rg_control p) \<and> replay_finished p then replay_dispatch p PausePlayback else p)"

definition interval_armed :: "replay_page \<Rightarrow> bool" where
  "interval_armed p \<longleftrightarrow> rp_playing (rg_control p) \<and> \<not> rh_loading (rg_hook p) \<and> \<not> truthy (rh_error (rg_hook p))"

text \<open>The screens in their order: loading, the error, and the replay. A state the reducer threw on shows
  nothing more.\<close>

datatype replay_screen = ReplayLoading nat | ReplayFailed string | ReplayGone | ReplayShown

definition replay_screen_of :: "replay_page \<Rightarrow> replay_screen" where
  "replay_screen_of p =
     (let h = rg_hook p
      in if rh_loading h then ReplayLoading (rh_loadedEvents h)
         else if truthy (rh_error h) then ReplayFailed (the (rh_error h))
         else case rh_state h of Inl _ \<Rightarrow> ReplayGone | Inr _ \<Rightarrow> ReplayShown)"

section \<open>The transport\<close>

definition SPEED_OPTIONS :: "rat list" where
  "SPEED_OPTIONS = [1/4, 1/2, 1, 2, 4, 8]"

record transport =
  tp_play_label :: string
  tp_play_disabled :: bool
  tp_restart_disabled :: bool
  tp_progress :: rat
  tp_range :: "nat \<times> nat"
  tp_scrub_disabled :: bool

definition ReplayTransport :: "replay_page \<Rightarrow> transport" where
  "ReplayTransport p =
     (let total = rh_totalEvents (rg_hook p); played = rh_playedCount (rg_hook p)
      in \<lparr>tp_play_label = (if rp_playing (rg_control p) then ''Pause'' else ''Play''),
          tp_play_disabled = (total = 0 \<or> replay_finished p), tp_restart_disabled = (total = 0),
          tp_progress = (if 0 < total then of_nat played / of_nat total else 0),
          tp_range = (played, total), tp_scrub_disabled = (total = 0)\<rparr>)"

definition seek_to :: "replay_page \<Rightarrow> int \<Rightarrow> replay_page" where
  "seek_to p i = p\<lparr>rg_hook := seek (rg_hook p) i\<rparr>"

datatype replay_page_input =
    LoadSettled "string + replay_data"
  | IntervalFires
  | PressPlay
  | PressRestart
  | PickSpeed nat
  | Scrub int
  | ToggleLog

fun replay_page_handle :: "replay_page \<Rightarrow> replay_page_input \<Rightarrow> replay_page" where
  "replay_page_handle p (LoadSettled answer) =
     (if rh_loading (rg_hook p) then p\<lparr>rg_hook := replay_loaded (rg_hook p) answer\<rparr> else p)"
| "replay_page_handle p IntervalFires =
     (if interval_armed p then p\<lparr>rg_hook := replay_tick (rg_hook p)\<rparr> else p)"
| "replay_page_handle p PressPlay =
     (if replay_screen_of p = ReplayShown \<and> \<not> tp_play_disabled (ReplayTransport p) then replay_dispatch p TogglePlay else p)"
| "replay_page_handle p PressRestart =
     (if replay_screen_of p = ReplayShown \<and> \<not> tp_restart_disabled (ReplayTransport p)
      then seek_to (replay_dispatch p PausePlayback) 0 else p)"
| "replay_page_handle p (PickSpeed k) =
     (if replay_screen_of p = ReplayShown \<and> k < length SPEED_OPTIONS
      then replay_dispatch p (SetSpeed (Fin (SPEED_OPTIONS ! k))) else p)"
| "replay_page_handle p (Scrub i) =
     (if replay_screen_of p = ReplayShown \<and> \<not> tp_scrub_disabled (ReplayTransport p) \<and>
         0 \<le> i \<and> i \<le> int (rh_totalEvents (rg_hook p)) then seek_to p i else p)"
| "replay_page_handle p ToggleLog = (if replay_screen_of p = ReplayShown then p\<lparr>rg_logOpen := \<not> rg_logOpen p\<rparr> else p)"

definition replay_page_step :: "replay_page \<Rightarrow> replay_page_input \<Rightarrow> replay_page" where
  "replay_page_step p x = pause_effect (replay_page_handle p x)"

definition replay_page_after :: "replay_page_input list \<Rightarrow> replay_page" where
  "replay_page_after = foldl replay_page_step replay_page_mounted"

section \<open>The strip of headline metrics\<close>

definition STRIP_KEYS :: "metric_key list" where
  "STRIP_KEYS = [CompromiseFraction, BlastRadiusFraction, RetainedUtility, SecurityPlaneIntegrity]"

definition strip_entry :: "(rat \<Rightarrow> string) \<Rightarrow> metrics_response \<Rightarrow> metric_key \<Rightarrow> (string \<times> string \<times> severity option) option" where
  "strip_entry fraction metrics key = map_option (\<lambda>d. (md_label d, formatMetric fraction d (metric_value metrics key),
       map_option (\<lambda>v. metricSeverity d (Some v)) (metric_value metrics key)))
     (List.find (\<lambda>d. md_key d = key) METRIC_DESCRIPTORS)"

definition metric_strip :: "(rat \<Rightarrow> string) \<Rightarrow> metrics_response option \<Rightarrow> (string \<times> string \<times> severity option) option list" where
  "metric_strip fraction metrics = (case metrics of None \<Rightarrow> [] | Some m \<Rightarrow> map (strip_entry fraction m) STRIP_KEYS)"

section \<open>Properties\<close>

text \<open>What every input keeps: the hook shows the fold of the events played, its counter stays within the
  log, and no playback is running at the end of the log.\<close>

definition page_inv :: "replay_page \<Rightarrow> bool" where
  "page_inv p \<longleftrightarrow> replay_inv (rg_hook p) \<and> rh_totalEvents (rg_hook p) = length (rh_events (rg_hook p)) \<and>
     (rp_playing (rg_control p) \<longrightarrow> \<not> replay_finished p \<and> 0 < rh_totalEvents (rg_hook p)) \<and>
     (rh_loading (rg_hook p) \<longrightarrow> rg_hook p = initial_replay)"

lemma pause_effect_simps [simp]:
  "rg_hook (pause_effect p) = rg_hook p" "rg_logOpen (pause_effect p) = rg_logOpen p"
  "replay_finished (pause_effect p) = replay_finished p"
  "rp_playing (rg_control (pause_effect p)) = (rp_playing (rg_control p) \<and> \<not> replay_finished p)"
  by (auto simp: pause_effect_def replay_dispatch_def replay_finished_def)

lemma hook_kept [simp]:
  "rh_totalEvents (replay_tick h) = rh_totalEvents h" "rh_events (replay_tick h) = rh_events h" "rh_loading (replay_tick h) = rh_loading h"
  "rh_totalEvents (seek h i) = rh_totalEvents h" "rh_events (seek h i) = rh_events h" "rh_loading (seek h i) = rh_loading h"
  "rh_error (replay_tick h) = rh_error h" "rh_error (seek h i) = rh_error h"
  "rh_snapshotState (replay_tick h) = rh_snapshotState h" "rh_snapshotState (seek h i) = rh_snapshotState h"
  by (simp_all add: replay_tick_def seek_def Let_def split: sum.split)

lemma shown_loaded: "replay_screen_of p = ReplayShown \<Longrightarrow> \<not> rh_loading (rg_hook p)"
  by (auto simp: replay_screen_of_def Let_def)

lemma page_step_inv: "page_inv p \<Longrightarrow> page_inv (replay_page_step p x)"
proof (cases x)
  case (LoadSettled answer)
  assume inv: "page_inv p"
  show ?thesis
  proof (cases "rh_loading (rg_hook p)")
    case True
    then have h: "rg_hook p = initial_replay" and "\<not> rp_playing (rg_control p)"
      using inv by (auto simp: page_inv_def initial_replay_def)
    with True LoadSettled show ?thesis using replay_loaded_inv[of answer]
      by (auto simp: page_inv_def replay_page_step_def replay_loaded_def initial_replay_def split: sum.split)
  qed (use inv in \<open>auto simp: LoadSettled page_inv_def replay_page_step_def\<close>)
next
  case IntervalFires
  assume "page_inv p"
  then show ?thesis
    by (auto simp: IntervalFires page_inv_def replay_page_step_def interval_armed_def replay_tick_inv)
next
  case PressPlay
  assume "page_inv p"
  then show ?thesis using shown_loaded[of p]
    by (auto simp: PressPlay page_inv_def replay_page_step_def replay_dispatch_def ReplayTransport_def Let_def replay_finished_def)
next
  case PressRestart
  assume "page_inv p"
  then show ?thesis using shown_loaded[of p]
    by (auto simp: PressRestart page_inv_def replay_page_step_def replay_dispatch_def seek_to_def seek_inv)
next
  case (PickSpeed k)
  assume "page_inv p"
  then show ?thesis by (auto simp: PickSpeed page_inv_def replay_page_step_def replay_dispatch_def replay_finished_def)
next
  case (Scrub i)
  assume "page_inv p"
  then show ?thesis using shown_loaded[of p]
    by (auto simp: Scrub page_inv_def replay_page_step_def seek_to_def seek_inv)
next
  case ToggleLog
  assume "page_inv p"
  then show ?thesis by (auto simp: ToggleLog page_inv_def replay_page_step_def replay_finished_def)
qed

lemma page_mounted_inv: "page_inv replay_page_mounted"
  by (simp add: page_inv_def replay_page_mounted_def replay_inv_def initial_replay_def initialReplayControlState_def)

lemma page_steps_inv: "page_inv p \<Longrightarrow> page_inv (foldl replay_page_step p xs)"
  by (induction xs arbitrary: p) (simp_all add: page_step_inv)

text \<open>The recording cannot be replaced: after the load, every input keeps the log and the snapshot.\<close>

lemma page_step_log:
  "\<not> rh_loading (rg_hook p) \<Longrightarrow> rh_events (rg_hook (replay_page_step p x)) = rh_events (rg_hook p) \<and>
     rh_snapshotState (rg_hook (replay_page_step p x)) = rh_snapshotState (rg_hook p) \<and> \<not> rh_loading (rg_hook (replay_page_step p x))"
  by (cases x) (simp_all add: replay_page_step_def replay_dispatch_def seek_to_def)

lemma page_steps_log:
  "\<not> rh_loading (rg_hook p) \<Longrightarrow> rh_events (rg_hook (foldl replay_page_step p xs)) = rh_events (rg_hook p) \<and>
     rh_snapshotState (rg_hook (foldl replay_page_step p xs)) = rh_snapshotState (rg_hook p)"
  by (induction xs arbitrary: p) (simp_all add: page_step_log)

lemma replay_pages:
  fixes d xs
  defines "h \<equiv> rg_hook (replay_page_after (LoadSettled (Inr d) # xs))"
  shows "page_inv (replay_page_after (LoadSettled (Inr d) # xs))"
    and "rh_state h = reduce_all (rd_initialState d) (map EventFrame (take (rh_playedCount h) (rd_events d)))"
    and "rh_totalEvents h = length (rd_events d)" and "rh_playedCount h \<le> length (rd_events d)"
proof -
  let ?p0 = "replay_page_step replay_page_mounted (LoadSettled (Inr d))"
  have p: "replay_page_after (LoadSettled (Inr d) # xs) = foldl replay_page_step ?p0 xs" by (simp add: replay_page_after_def)
  show inv: "page_inv (replay_page_after (LoadSettled (Inr d) # xs))"
    unfolding p by (intro page_steps_inv page_step_inv page_mounted_inv)
  have hook0: "rg_hook ?p0 = replay_loaded initial_replay (Inr d)"
    by (simp add: replay_page_step_def replay_page_mounted_def initial_replay_def)
  then have "\<not> rh_loading (rg_hook ?p0)" by (simp add: replay_loaded_def)
  from page_steps_log[OF this, of xs] hook0
  have log: "rh_events h = rd_events d" "rh_snapshotState h = rd_initialState d"
    by (simp_all add: h_def p replay_loaded_def)
  then show count: "rh_playedCount h \<le> length (rd_events d)" "rh_totalEvents h = length (rd_events d)"
    using inv by (auto simp: page_inv_def replay_inv_def h_def)
  show "rh_state h = reduce_all (rd_initialState d) (map EventFrame (take (rh_playedCount h) (rd_events d)))"
    using inv log count by (simp add: page_inv_def replay_inv_def foldEvents_take h_def)
qed

text \<open>The replay screen over any presses and firings after the load: what is shown is the fold of the
  events up to the position of the slider, the position stays on the log, and the screen never says
  that it is playing at the end of the log, or with an empty one.\<close>

theorem replay_page_shows_fold:
  "let p = replay_page_after (LoadSettled (Inr d) # xs); h = rg_hook p in
    rh_state h = reduce_all (rd_initialState d) (map EventFrame (take (rh_playedCount h) (rd_events d))) \<and>
    0 \<le> tp_progress (ReplayTransport p) \<and> tp_progress (ReplayTransport p) \<le> 1 \<and>
    (tp_play_label (ReplayTransport p) = ''Play'' \<or> rh_playedCount h < length (rd_events d))"
  using replay_pages[of d xs]
  by (auto simp: Let_def ReplayTransport_def divide_le_eq_1 page_inv_def replay_finished_def)

lemma interval_fires:
  assumes "page_inv p" and "interval_armed p"
  shows "rh_playedCount (rg_hook (replay_page_step p IntervalFires)) = Suc (rh_playedCount (rg_hook p)) \<and>
    interval_armed (replay_page_step p IntervalFires) = (Suc (rh_playedCount (rg_hook p)) < rh_totalEvents (rg_hook p))"
proof -
  have "rh_playedIndex (rg_hook p) < length (rh_events (rg_hook p))" "rh_playedCount (rg_hook p) = rh_playedIndex (rg_hook p)"
    using assms by (auto simp: page_inv_def replay_inv_def interval_armed_def replay_finished_def)
  then have "rh_playedCount (replay_tick (rg_hook p)) = Suc (rh_playedCount (rg_hook p))"
    by (simp add: replay_tick_def Let_def)
  then show ?thesis using assms
    by (auto simp: replay_page_step_def interval_armed_def replay_finished_def page_inv_def)
qed

text \<open>C35. Playback ends by itself: with playing on, as many firings of the interval as there are events left
  show the whole recording and switch playing off, so the button reads \<open>Play\<close> and is disabled.\<close>

theorem playback_ends:
  assumes "p = replay_page_after (LoadSettled (Inr d) # xs)" and "interval_armed p"
    and "k = length (rd_events d) - rh_playedCount (rg_hook p)"
  shows "let q = foldl replay_page_step p (replicate k IntervalFires) in
    rh_playedCount (rg_hook q) = length (rd_events d) \<and>
    rh_state (rg_hook q) = reduce_all (rd_initialState d) (map EventFrame (rd_events d)) \<and>
    tp_play_label (ReplayTransport q) = ''Play'' \<and> tp_play_disabled (ReplayTransport q)"
proof -
  have run: "rh_playedCount (rg_hook (foldl replay_page_step p (replicate k IntervalFires))) = rh_totalEvents (rg_hook p)"
    if "page_inv p" "interval_armed p" "k = rh_totalEvents (rg_hook p) - rh_playedCount (rg_hook p)" for k p
    using that
  proof (induction k arbitrary: p)
    case 0
    then show ?case by (auto simp: page_inv_def replay_inv_def)
  next
    case (Suc k)
    note fire = interval_fires[OF Suc.prems(1,2)]
    let ?q = "replay_page_step p IntervalFires"
    have total: "rh_totalEvents (rg_hook ?q) = rh_totalEvents (rg_hook p)" by (simp add: replay_page_step_def)
    show ?case
    proof (cases k)
      case 0
      with Suc.prems(3)[symmetric] fire total show ?thesis by simp
    next
      case (Suc j)
      have "Suc (rh_playedCount (rg_hook p)) < rh_totalEvents (rg_hook p)" using Suc Suc.prems(3) by simp
      then have "interval_armed ?q" "k = rh_totalEvents (rg_hook ?q) - rh_playedCount (rg_hook ?q)"
        using fire total Suc.prems(3) by simp_all
      from Suc.IH[OF page_step_inv[OF Suc.prems(1)] this] total show ?thesis by simp
    qed
  qed
  let ?q = "foldl replay_page_step p (replicate k IntervalFires)"
  have q: "?q = replay_page_after (LoadSettled (Inr d) # (xs @ replicate k IntervalFires))"
    by (simp add: assms(1) replay_page_after_def)
  note before = replay_pages[of d xs, folded assms(1)]
  note after = replay_pages[of d "xs @ replicate k IntervalFires", folded q]
  have "rh_playedCount (rg_hook ?q) = length (rd_events d)"
    using run[OF before(1) assms(2)] before(3) assms(3) by simp
  moreover have "0 < length (rd_events d)"
    using before(1,3) assms(2) by (auto simp: page_inv_def interval_armed_def)
  ultimately show ?thesis using after
    by (auto simp: Let_def ReplayTransport_def page_inv_def replay_finished_def)
qed

definition short_log :: replay_data where
  "short_log = \<lparr>rd_incomplete = False, rd_initialState = initialGraphState, rd_events = [demo_event 1 ANOMALY_DETECTED None None, demo_event 2 ANOMALY_DETECTED None None]\<rparr>"

theorem playback_ends_witness:
  "let q = foldl replay_page_step (replay_page_after [LoadSettled (Inr short_log), PressPlay]) (replicate 2 IntervalFires) in
    tp_play_label (ReplayTransport q) = ''Play'' \<and> rh_playedCount (rg_hook q) = 2"
proof -
  let ?p = "replay_page_after [LoadSettled (Inr short_log), PressPlay]"
  have at_start: "interval_armed ?p" "rh_playedCount (rg_hook ?p) = 0" "length (rd_events short_log) = 2"
    by (simp_all add: replay_page_after_def replay_page_mounted_def initial_replay_def initialReplayControlState_def
        replay_page_step_def pause_effect_def replay_loaded_def replay_screen_of_def ReplayTransport_def
        replay_finished_def replay_dispatch_def interval_armed_def short_log_def)
  then show ?thesis using playback_ends[OF refl at_start(1) refl] by (simp add: Let_def)
qed

end
