(* ===== verification/Shell.thy ===== *)
theory Shell
  imports Provider Formatting Vocabulary
begin

text \<open>
  The frame around the screens: \<open>frontend/src/components/shell/nav.ts\<close> and the part of \<open>AppShell.tsx\<close> that
  decides, \<open>RequiresRun.tsx\<close>, the guard of the screens that need a run, and \<open>RunContextBar.tsx\<close>, the bar
  with the transport of the live run. A press of a button of the bar is a handler of the provider,
  guarded by what the bar enables.
\<close>

section \<open>Navigation\<close>

record nav_item =
  ni_href :: string
  ni_label :: string
  ni_stage :: string
  ni_needsRun :: bool

definition nav_item :: "string \<Rightarrow> string \<Rightarrow> string \<Rightarrow> bool \<Rightarrow> nav_item" where
  "nav_item href label stage needsRun = \<lparr>ni_href = href, ni_label = label, ni_stage = stage, ni_needsRun = needsRun\<rparr>"

definition NAV :: "(string \<times> nav_item list) list" where
  "NAV = [
     (''Live'', [nav_item ''/demo'' ''Live swarm'' ''Protect'' False]),
     (''Assess'', [nav_item ''/'' ''Overview'' ''Posture'' False, nav_item ''/topology'' ''Topology'' ''Map'' True,
        nav_item ''/activity'' ''Activity'' ''Observe'' True]),
     (''Evaluate'', [nav_item ''/metrics'' ''Metrics'' ''Measure'' True, nav_item ''/defenses'' ''Defenses'' ''Compare'' False,
        nav_item ''/remediation'' ''Remediation'' ''Fix & re-test'' True]),
     (''Archive'', [nav_item ''/history'' ''Runs'' ''Replay'' False])]"

definition starts_with :: "string \<Rightarrow> string \<Rightarrow> bool" where
  "starts_with s p \<longleftrightarrow> take (length p) s = p"

definition isActivePath :: "string \<Rightarrow> string \<Rightarrow> bool" where
  "isActivePath pathname href =
     (if href = ''/'' then pathname = ''/'' else pathname = href \<or> starts_with pathname (href @ ''/''))"

definition nav_items :: "nav_item list" where
  "nav_items = concat (map snd NAV)"

definition nav_entries :: "string \<Rightarrow> (string \<times> bool) list" where
  "nav_entries pathname = map (\<lambda>i. (ni_label i, isActivePath pathname (ni_href i))) nav_items"

definition shows_context_bar :: "string \<Rightarrow> bool" where
  "shows_context_bar pathname \<longleftrightarrow> \<not> starts_with pathname ''/history'' \<and> \<not> starts_with pathname ''/demo''"

section \<open>The guard\<close>

datatype guarded = Restoring | NeedsRun string string | RunContent string

definition RequiresRun :: "string \<Rightarrow> string \<Rightarrow> provider \<Rightarrow> guarded" where
  "RequiresRun title description p =
     (if p_hydrating p then Restoring
      else if \<not> truthy (c_experimentId (p_state p)) then NeedsRun title description
      else RunContent (the (c_experimentId (p_state p))))"

section \<open>The bar\<close>

definition SPEED_CHOICES :: "rat list" where
  "SPEED_CHOICES = [1/4, 1/2, 1, 2, 4, 8]"

text \<open>\<open>a / b\<close> of an integer and a number.\<close>

fun js_div :: "int \<Rightarrow> jsnum \<Rightarrow> jsnum" where
  "js_div a (Fin q) = (if q \<noteq> 0 then Fin (of_int a / q) else if a = 0 then NaN else if 0 < a then PosInf else NegInf)"
| "js_div a PosInf = Fin 0"
| "js_div a NegInf = Fin 0"
| "js_div a NaN = NaN"

definition config_number :: "experiment_config \<Rightarrow> string \<Rightarrow> jsnum" where
  "config_number config key = (case map_get config key of Some (JNum v) \<Rightarrow> v | _ \<Rightarrow> NaN)"

definition run_progress :: "experiment_config option \<Rightarrow> int \<Rightarrow> jsnum" where
  "run_progress config tick = (case config of
      None \<Rightarrow> Fin 0
    | Some c \<Rightarrow> math_min (Fin 1) (js_div tick (config_number c ''max_ticks'')))"

datatype transport_button = ResumeButton | PauseButton

record run_bar =
  rb_status :: "string \<times> severity \<times> bool"
  rb_id :: string
  rb_progress :: jsnum
  rb_tick :: "int \<times> jsnum"
  rb_seed :: jsnum
  rb_agents :: jsnum
  rb_defense :: bool
  rb_transport :: "transport_button \<times> bool"
  rb_rerun :: bool
  rb_speed :: "jsnum \<times> bool"

datatype bar_view = BarRestoring | BarRun run_bar | BarNoRun

definition run_bar_of :: "provider \<Rightarrow> string \<Rightarrow> experiment_config \<Rightarrow> int \<Rightarrow> run_bar" where
  "run_bar_of p i config tick =
     (let c = p_state p
      in \<lparr>rb_status = (RUN_STATUS_LABEL (c_status c), RUN_STATUS_SEVERITY (c_status c), c_status c = CsRunning),
          rb_id = shortId i, rb_progress = run_progress (Some config) tick,
          rb_tick = (tick, config_number config ''max_ticks''), rb_seed = config_number config ''seed'',
          rb_agents = config_number config ''node_count'',
          rb_defense = (map_get config ''defense_enabled'' = Some (JBool True)),
          rb_transport = (if c_status c = CsPaused then (ResumeButton, canResume c) else (PauseButton, canPause c)),
          rb_rerun = canReset c, rb_speed = (c_speed c, canSetSpeed c)\<rparr>)"

definition RunContextBar :: "provider \<Rightarrow> int \<Rightarrow> bar_view" where
  "RunContextBar p tick =
     (if p_hydrating p then BarRestoring
      else if truthy (c_experimentId (p_state p))
        then (case c_activeConfig (p_state p) of
            Some config \<Rightarrow> BarRun (run_bar_of p (the (c_experimentId (p_state p))) config tick)
          | None \<Rightarrow> BarNoRun)
      else BarNoRun)"

text \<open>The line of errors under the bar: a schema error of the stream goes first. An empty string hides the
  line.\<close>

definition bar_error :: "provider \<Rightarrow> string option \<Rightarrow> string option" where
  "bar_error p schemaError =
     (if truthy (c_error (p_state p)) \<or> truthy schemaError then nullish schemaError (c_error (p_state p)) else None)"

datatype bar_press = PressPause | PressResume | PressRerun | PressSpeed nat

text \<open>What a press does when its button is there and enabled. The speeds are plain buttons that are only
  styled as disabled, so a press from the keyboard reaches the provider at any time.\<close>

definition bar_press :: "provider \<Rightarrow> bar_press \<Rightarrow> provider" where
  "bar_press p press = (case RunContextBar p 0 of
      BarRun b \<Rightarrow> (case press of
          PressPause \<Rightarrow> if rb_transport b = (PauseButton, True) then pause p else p
        | PressResume \<Rightarrow> if rb_transport b = (ResumeButton, True) then resume p else p
        | PressRerun \<Rightarrow> if rb_rerun b then reset p else p
        | PressSpeed k \<Rightarrow> if k < length SPEED_CHOICES then changeSpeed p (Fin (SPEED_CHOICES ! k)) else p)
    | _ \<Rightarrow> p)"

section \<open>Properties\<close>

text \<open>The path of an entry other than the overview is one segment.\<close>

definition one_segment :: "string \<Rightarrow> bool" where
  "one_segment href \<longleftrightarrow> (\<exists>s. href = CHR ''/'' # s \<and> CHR ''/'' \<notin> set s \<and> s \<noteq> [])"

lemma active_segment:
  assumes "isActivePath pathname (CHR ''/'' # s)" "CHR ''/'' \<notin> set s" "s \<noteq> []"
  shows "takeWhile (\<lambda>c. c \<noteq> CHR ''/'') (tl pathname) = s" and "pathname \<noteq> ''/''"
proof -
  have cases: "pathname = CHR ''/'' # s \<or> (\<exists>rest. pathname = CHR ''/'' # s @ CHR ''/'' # rest)"
  proof (cases "pathname = CHR ''/'' # s")
    case False
    then have "take (Suc (Suc (length s))) pathname = CHR ''/'' # s @ ''/''"
      using assms(1,3) by (auto simp: isActivePath_def starts_with_def)
    then have "pathname = (CHR ''/'' # s @ ''/'') @ drop (Suc (Suc (length s))) pathname"
      by (metis append_take_drop_id)
    also have "\<dots> = CHR ''/'' # s @ CHR ''/'' # drop (Suc (Suc (length s))) pathname" by simp
    finally show ?thesis by blast
  qed simp
  have all: "takeWhile (\<lambda>c. c \<noteq> CHR ''/'') s = s" using assms(2) by (auto simp: takeWhile_eq_all_conv)
  from cases show "takeWhile (\<lambda>c. c \<noteq> CHR ''/'') (tl pathname) = s"
  proof
    assume "\<exists>rest. pathname = CHR ''/'' # s @ CHR ''/'' # rest"
    then obtain rest where "pathname = CHR ''/'' # s @ CHR ''/'' # rest" by blast
    then show ?thesis using assms(2) all by (simp add: takeWhile_append2)
  qed (simp add: all)
  from cases show "pathname \<noteq> ''/''" using assms(3) by auto
qed

lemma nav_hrefs: "\<forall>i \<in> set nav_items. ni_href i = ''/'' \<or> one_segment (ni_href i)"
  by (simp add: nav_items_def NAV_def nav_item_def one_segment_def)

lemma nav_hrefs_distinct: "distinct (map ni_href nav_items)"
  by (simp add: nav_items_def NAV_def nav_item_def)

text \<open>At most one entry of the navigation is highlighted, on any path; and a path below an entry
  highlights it.\<close>

theorem one_active_entry:
  assumes "i \<in> set nav_items" "isActivePath pathname (ni_href i)"
  shows "(\<forall>j \<in> set nav_items. isActivePath pathname (ni_href j) \<longrightarrow> j = i) \<and>
    (ni_href i \<noteq> ''/'' \<longrightarrow> isActivePath (ni_href i @ ''/'' @ rest) (ni_href i))"
proof (intro conjI ballI impI)
  fix j assume j: "j \<in> set nav_items" "isActivePath pathname (ni_href j)"
  have "ni_href j = ni_href i"
  proof (cases "ni_href i = ''/'' \<or> ni_href j = ''/''")
    case True
    then have root: "pathname = ''/''" using assms(2) j(2) by (auto simp: isActivePath_def)
    have "ni_href k = ''/''" if "k \<in> set nav_items" "isActivePath pathname (ni_href k)" for k
      using nav_hrefs that active_segment(2)[of pathname] root by (fastforce simp: one_segment_def)
    from this[OF assms] this[OF j] show ?thesis by simp
  next
    case False
    then have "one_segment (ni_href i)" "one_segment (ni_href j)" using nav_hrefs assms(1) j(1) by blast+
    then obtain s t where s: "ni_href i = CHR ''/'' # s" "CHR ''/'' \<notin> set s" "s \<noteq> []"
      and t: "ni_href j = CHR ''/'' # t" "CHR ''/'' \<notin> set t" "t \<noteq> []"
      unfolding one_segment_def by blast
    have "s = t"
      using active_segment(1)[OF assms(2)[unfolded s(1)] s(2,3)] active_segment(1)[OF j(2)[unfolded t(1)] t(2,3)] by simp
    then show ?thesis by (simp add: s(1) t(1))
  qed
  with nav_hrefs_distinct assms(1) j(1) show "j = i" by (simp add: distinct_map inj_on_def)
next
  show "isActivePath (ni_href i @ ''/'' @ rest) (ni_href i)" if "ni_href i \<noteq> ''/''"
    using that by (simp add: isActivePath_def starts_with_def)
qed

theorem one_active_entry_witness:
  "\<forall>j \<in> set nav_items. isActivePath ''/history/5f'' (ni_href j) \<longrightarrow> ni_label j = ''Runs''"
proof -
  have "nav_item ''/history'' ''Runs'' ''Replay'' False \<in> set nav_items" by (simp add: nav_items_def NAV_def)
  moreover have "isActivePath ''/history/5f'' (ni_href (nav_item ''/history'' ''Runs'' ''Replay'' False))"
    by (simp add: isActivePath_def starts_with_def nav_item_def)
  ultimately show ?thesis using one_active_entry by (fastforce simp: nav_item_def)
qed

text \<open>The bar of a run: its progress never leaves the track while ticks count up from zero under the
  bounds of the backend, and exactly the presses that its state allows reach the backend: an enabled
  pause, resume or re-run issues one call, any other press of them none. A press of a speed issues a
  call only when the controls allow a change of speed.\<close>

lemma issue_calls:
  "control_step (p_ref p) (act (p_nextOp p)) \<noteq> None \<Longrightarrow> length (p_calls (issue p act call)) = Suc (length (p_calls p))"
  by (auto simp: issue_def apply_action_def Let_def split: option.split)

theorem bar_presses_guarded:
  assumes "p_ref p = p_state p" and "RunContextBar p 0 = BarRun b"
  shows "length (p_calls (bar_press p PressPause)) = length (p_calls p) + (if canPause (p_state p) then 1 else 0) \<and>
    length (p_calls (bar_press p PressResume)) = length (p_calls p) + (if canResume (p_state p) then 1 else 0) \<and>
    length (p_calls (bar_press p PressRerun)) = length (p_calls p) + (if canReset (p_state p) then 1 else 0) \<and>
    (k < length SPEED_CHOICES \<longrightarrow>
      length (p_calls (bar_press p (PressSpeed k))) = length (p_calls p) + (if canSetSpeed (p_state p) then 1 else 0))"
proof -
  obtain i config where run: "c_experimentId (p_state p) = Some i" "i \<noteq> []" "c_activeConfig (p_state p) = Some config"
    and b: "b = run_bar_of p i config 0"
    using assms(2) by (auto simp: RunContextBar_def truthy_iff split: if_splits option.splits)
  have steps: "canPause (p_ref p) \<Longrightarrow> control_step (p_ref p) (PauseRequested n) \<noteq> None"
    "canResume (p_ref p) \<Longrightarrow> control_step (p_ref p) (ResumeRequested n) \<noteq> None"
    "canReset (p_ref p) \<Longrightarrow> control_step (p_ref p) (ResetRequested n) \<noteq> None"
    "canSetSpeed (p_ref p) \<Longrightarrow> control_step (p_ref p) (SpeedRequested n) \<noteq> None" for n
    by (auto simp: open_request_def)
  have bar: "rb_transport b = (if c_status (p_state p) = CsPaused then (ResumeButton, canResume (p_state p)) else (PauseButton, canPause (p_state p)))"
    "rb_rerun b = canReset (p_state p)"
    by (simp_all add: b run_bar_of_def Let_def)
  have "canPause (p_state p) \<Longrightarrow> c_status (p_state p) \<noteq> CsPaused" "canResume (p_state p) \<Longrightarrow> c_status (p_state p) = CsPaused"
    by (simp_all add: canPause_def canResume_def)
  then show ?thesis using run bar assms steps
    by (auto simp: bar_press_def pause_def resume_def reset_def changeSpeed_def issue_calls)
qed

theorem run_progress_on_track:
  assumes "config_number config ''max_ticks'' = Fin m" and "0 < m" and "0 \<le> tick"
  shows "\<exists>q. run_progress (Some config) tick = Fin q \<and> 0 \<le> q \<and> q \<le> 1 \<and> (q = 1 \<longleftrightarrow> m \<le> of_int tick)"
proof -
  have "run_progress (Some config) tick = Fin (min 1 (of_int tick / m))"
    using assms by (auto simp: run_progress_def math_min_def)
  moreover have "0 \<le> of_int tick / m" using assms by simp
  moreover have "min 1 (of_int tick / m) = 1 \<longleftrightarrow> m \<le> of_int tick" using assms(2) by (auto simp: min_def field_simps)
  ultimately show ?thesis by auto
qed

end
