(* ===== verification/Overview.thy ===== *)
theory Overview
  imports Shell Metrics_View Activity Security_Summary Insights Outbreak Configurator Graph_Model
begin

text \<open>
  The overview: \<open>frontend/src/app/page.tsx\<close> with its workflow strip (\<open>components/insights/WorkflowTracker.tsx\<close>) and the
  panels of \<open>components/insights/Panels.tsx\<close>; the metrics screen, \<open>app/metrics/page.tsx\<close>, is made of the same
  panels. What is shown is data; the findings panel is in \<open>Analysis_Pages\<close>. How a JSON value that is not a
  string is printed, and \<open>localeCompare\<close>, are arguments.
\<close>

section \<open>The workflow\<close>

datatype stage_state = StagePending | StageActive | StageDone

record workflow_stage =
  wg_id :: string
  wg_label :: string
  wg_href :: string
  wg_state :: stage_state

record workflow_facts =
  wf_hasRun :: bool
  wf_observedEvents :: nat
  wf_compromised :: nat
  wf_hasMetrics :: bool
  wf_findings :: nat

definition step_state :: "bool \<Rightarrow> bool \<Rightarrow> stage_state" where
  "step_state done active = (if done then StageDone else if active then StageActive else StagePending)"

definition workflow_stage :: "string \<Rightarrow> string \<Rightarrow> string \<Rightarrow> stage_state \<Rightarrow> workflow_stage" where
  "workflow_stage i label href st = \<lparr>wg_id = i, wg_label = label, wg_href = href, wg_state = st\<rparr>"

definition buildStages :: "workflow_facts \<Rightarrow> workflow_stage list" where
  "buildStages f = [
     workflow_stage ''map'' ''Map'' ''/topology'' (step_state (wf_hasRun f) (\<not> wf_hasRun f)),
     workflow_stage ''attack'' ''Attack'' ''/''
       (step_state (wf_hasRun f \<and> 0 < wf_observedEvents f) (wf_hasRun f \<and> wf_observedEvents f = 0)),
     workflow_stage ''observe'' ''Observe'' ''/activity''
       (step_state (0 < wf_compromised f \<or> 20 < wf_observedEvents f) (0 < wf_observedEvents f)),
     workflow_stage ''measure'' ''Measure'' ''/metrics'' (step_state (wf_hasMetrics f) (wf_hasRun f)),
     workflow_stage ''remediate'' ''Remediate'' ''/remediation'' (step_state (0 < wf_findings f) (wf_hasMetrics f)),
     workflow_stage ''retest'' ''Re-test'' ''/remediation'' (step_state False (0 < wf_findings f))]"

text \<open>The strip: a mark for a stage that is done, the number of the others.\<close>

definition WorkflowTracker :: "workflow_stage list \<Rightarrow> (string \<times> string \<times> nat option \<times> stage_state) list" where
  "WorkflowTracker stages = map (\<lambda>(k, s). (wg_href s, wg_label s, if wg_state s = StageDone then None else Some (k + 1), wg_state s))
     (enumerate 0 stages)"

section \<open>Panels\<close>

record fleet_view =
  fl_total :: nat
  fl_bar :: "(bar_segment \<times> rat) list"
  fl_rows :: "(severity \<times> nat \<times> string) list"

definition fleet_segments :: "stream_metrics \<Rightarrow> bar_segment list" where
  "fleet_segments m = [
     \<lparr>bs_key = ''compromised'', bs_value = sm_compromised m, bs_severity = SevCritical, bs_label = ''Compromised''\<rparr>,
     \<lparr>bs_key = ''quarantined'', bs_value = sm_quarantined m, bs_severity = SevContained, bs_label = ''Quarantined''\<rparr>,
     \<lparr>bs_key = ''healthy'', bs_value = sm_healthy m, bs_severity = SevNeutral, bs_label = ''Healthy''\<rparr>]"

definition FleetBreakdown :: "stream_metrics \<Rightarrow> fleet_view" where
  "FleetBreakdown m = \<lparr>fl_total = sm_total m, fl_bar = StackedBar (fleet_segments m),
     fl_rows = map (\<lambda>s. (bs_severity s, bs_value s, bs_label s)) (fleet_segments m)\<rparr>"

record surface_row =
  su_shape :: node_shape
  su_plural :: string
  su_compromised :: int
  su_total :: int
  su_meter :: jsnum
  su_severity :: severity
  su_fallen :: "string list"

definition surface_row_of :: "security_graph_view \<Rightarrow> non_agent_summary \<Rightarrow> surface_row" where
  "surface_row_of graph s =
     \<lparr>su_shape = nodeShape (na_nodeType s), su_plural = nt_plural (nodeTypeMeta (na_nodeType s)),
      su_compromised = na_compromised s, su_total = na_total s,
      su_meter = meter_percent (Fin (if 0 < na_total s then of_int (na_compromised s) / of_int (na_total s) else 0)),
      su_severity = (if 0 < na_compromised s then SevCritical else SevOk),
      su_fallen = (if 0 < na_compromised s
        then map gn_id (filter (\<lambda>n. gn_security_state n = Compromised)
          (filter (\<lambda>n. gn_node_type n = na_nodeType s) (sg_nodes graph)))
        else [])\<rparr>"

text \<open>No rows: the empty state of a run of agents only.\<close>

definition AttackSurfacePanel :: "(string \<Rightarrow> string \<Rightarrow> int) \<Rightarrow> security_graph_view option \<Rightarrow> surface_row list" where
  "AttackSurfacePanel localeCompare graph = (case graph of
      None \<Rightarrow> []
    | Some g \<Rightarrow> map (surface_row_of g) (summarizeNonAgentNodes localeCompare g))"

record critical_node =
  cr_id :: string
  cr_betweenness :: rat

record choke_row =
  ck_id :: string
  ck_severity :: severity
  ck_state :: "string option"
  ck_meter :: jsnum

definition state_of_node :: "security_graph_view option \<Rightarrow> string \<Rightarrow> security_state option" where
  "state_of_node graph i = (case graph of None \<Rightarrow> None
     | Some g \<Rightarrow> map_get (foldl (\<lambda>m n. map_set m (gn_id n) (gn_security_state n)) [] (sg_nodes g)) i)"

definition max_betweenness :: "critical_node list \<Rightarrow> rat" where
  "max_betweenness nodes = foldl max (1/10000) (map cr_betweenness nodes)"

definition CriticalNodesPanel :: "critical_node list \<Rightarrow> security_graph_view option \<Rightarrow> choke_row list" where
  "CriticalNodesPanel nodes graph = map (\<lambda>n.
     let st = state_of_node graph (cr_id n)
     in \<lparr>ck_id = cr_id n, ck_severity = (case st of Some s \<Rightarrow> SECURITY_STATE_SEVERITY s | None \<Rightarrow> SevNeutral),
         ck_state = (case st of Some s \<Rightarrow> if s \<noteq> Healthy then Some (SECURITY_STATE_LABEL s) else None | None \<Rightarrow> None),
         ck_meter = meter_percent (Fin (cr_betweenness n / max_betweenness nodes))\<rparr>) nodes"

definition ObservedCountersPanel :: "stream_metrics \<Rightarrow> (string \<times> string \<times> severity option) list" where
  "ObservedCountersPanel m = [
     (''New compromises'', show_int (sm_newCompromises m), Some (if 0 < sm_newCompromises m then SevCritical else SevOk)),
     (''Total exposure'', show_nat (sm_totalExposure m), Some (if 0 < sm_totalExposure m then SevHigh else SevOk)),
     (''Outbreak duration'', show_int (sm_outbreakDuration m) @ '' ticks'', None),
     (''Model calls'', show_int (sm_modelCalls m), None)]"

section \<open>The overview\<close>

text \<open>The state of the page is whether the form is open; the rest is read from the provider, the stream
  and the hooks.\<close>

definition has_run :: "provider \<Rightarrow> bool" where
  "has_run p \<longleftrightarrow> truthy (c_experimentId (p_state p)) \<and> c_activeConfig (p_state p) \<noteq> None"

definition shows_configurator :: "provider \<Rightarrow> bool \<Rightarrow> bool" where
  "shows_configurator p configuring \<longleftrightarrow> \<not> has_run p \<or> configuring"

definition workflow_facts_of :: "provider \<Rightarrow> graph_state \<Rightarrow> bool \<Rightarrow> nat \<Rightarrow> workflow_facts" where
  "workflow_facts_of p stream hasMetrics findings =
     \<lparr>wf_hasRun = has_run p, wf_observedEvents = length (gs_recentEvents stream),
      wf_compromised = sm_compromised (selectMetrics stream), wf_hasMetrics = hasMetrics, wf_findings = findings\<rparr>"

record run_header =
  hd_id :: string
  hd_scenarios :: "string list"
  hd_button :: "string \<times> bool"

definition run_header_of :: "provider \<Rightarrow> bool \<Rightarrow> run_header" where
  "run_header_of p configuring =
     \<lparr>hd_id = shortId (or_default (c_experimentId (p_state p)) []),
      hd_scenarios = map (sc_label \<circ> scenarioMeta) (draft_scenarios (or_default (c_activeConfig (p_state p)) [])),
      hd_button = (if configuring then ''Hide configuration'' else ''New assessment'',
        canStart (p_state p) \<or> configuring)\<rparr>"

definition curve_empty_text :: "control_status \<Rightarrow> bool \<Rightarrow> string" where
  "curve_empty_text status hasCurve =
     or_default (liveLogGapHint status hasCurve) ''The outbreak curve builds as the simulation ticks.''"

definition recent_activity :: "event_feed \<Rightarrow> control_status \<Rightarrow> event list \<Rightarrow> feed_body" where
  "recent_activity feed status events =
     (let hint = liveLogGapHint status (events \<noteq> [])
      in feed_body_of feed (last_n 40 events)
           (Some (if truthy hint then ''No events in this session'' else ''No events yet'')) hint)"

record overview_run =
  ov_error :: "string option"
  ov_tiles :: "metric_tile list option"
  ov_curve :: "outbreak_sample list"
  ov_curve_empty :: string
  ov_fleet :: fleet_view
  ov_counters :: "(string \<times> string \<times> severity option) list"
  ov_surface :: "surface_row list"
  ov_choke :: "choke_row list"
  ov_activity :: feed_body

definition overview_run_of ::
  "(rat \<Rightarrow> string) \<Rightarrow> (string \<Rightarrow> string \<Rightarrow> int) \<Rightarrow> provider \<Rightarrow> graph_state \<Rightarrow> outbreak_sample list \<Rightarrow> insights \<Rightarrow>
   critical_node list \<Rightarrow> event_feed \<Rightarrow> overview_run" where
  "overview_run_of fraction localeCompare p stream series ins criticalNodes feed =
     (let metrics = map_option il_metrics (si_loaded ins); graph = map_option il_graph (si_loaded ins);
          m = selectMetrics stream; status = c_status (p_state p)
      in \<lparr>ov_error = (if truthy (si_error ins) then si_error ins else None),
          ov_tiles = map_option (PostureTiles fraction) metrics,
          ov_curve = series, ov_curve_empty = curve_empty_text status (series \<noteq> []),
          ov_fleet = FleetBreakdown m, ov_counters = ObservedCountersPanel m,
          ov_surface = AttackSurfacePanel localeCompare graph,
          ov_choke = CriticalNodesPanel criticalNodes graph,
          ov_activity = recent_activity feed status (gs_recentEvents stream)\<rparr>)"

datatype overview_view =
    OverviewRestoring
  | OverviewPage "run_header option" "workflow_stage list" "(bool \<times> experiment_config) option" "overview_run option"

definition OverviewPage_view ::
  "provider \<Rightarrow> bool \<Rightarrow> graph_state \<Rightarrow> bool \<Rightarrow> nat \<Rightarrow> overview_run \<Rightarrow> overview_view" where
  "OverviewPage_view p configuring stream hasMetrics findings run =
     (if p_hydrating p then OverviewRestoring
      else OverviewPage (if has_run p then Some (run_header_of p configuring) else None)
        (buildStages (workflow_facts_of p stream hasMetrics findings))
        (if shows_configurator p configuring
         then Some (\<not> canStart (p_state p), or_default (c_activeConfig (p_state p)) DEFAULT_CONFIG) else None)
        (if has_run p then Some run else None))"

text \<open>The two presses of the page: the button of the header, and the start of the form.\<close>

definition press_new_assessment :: "provider \<Rightarrow> bool \<Rightarrow> bool" where
  "press_new_assessment p configuring =
     (if \<not> p_hydrating p \<and> has_run p \<and> snd (hd_button (run_header_of p configuring)) then \<not> configuring else configuring)"

definition press_start :: "provider \<Rightarrow> bool \<Rightarrow> experiment_config \<Rightarrow> provider \<times> bool" where
  "press_start p configuring cfg =
     (if \<not> p_hydrating p \<and> shows_configurator p configuring \<and> canStart (p_state p) then (start p cfg, False)
      else (p, configuring))"

section \<open>The metrics screen\<close>

definition PROVENANCE_FIELDS :: "string list" where
  "PROVENANCE_FIELDS = [''seed'', ''node_count'', ''edge_density'', ''software_type_count'', ''p_same'', ''p_cross'',
     ''detector_sensitivity'', ''defense_enabled'', ''max_ticks'']"

definition config_chips :: "(json option \<Rightarrow> string) \<Rightarrow> string list \<Rightarrow> experiment_config \<Rightarrow> (string \<times> string) list" where
  "config_chips textOf ks config =
     map (\<lambda>f. (configLabel f, textOf (map_get config f))) ks @
     map (\<lambda>s. (''scenario'', s)) (draft_scenarios config)"

record metrics_screen =
  me_error :: "string option"
  me_tiles :: "metric_tile list option"
  me_list :: "metric_row list option"
  me_curve_empty :: string
  me_fleet :: fleet_view
  me_provenance :: "(string \<times> string) list option"

definition MetricsContent ::
  "(rat \<Rightarrow> string) \<Rightarrow> (json option \<Rightarrow> string) \<Rightarrow> control_state \<Rightarrow> graph_state \<Rightarrow> outbreak_sample list \<Rightarrow> insights \<Rightarrow> metrics_screen" where
  "MetricsContent fraction textOf control stream series ins =
     (let metrics = map_option il_metrics (si_loaded ins)
      in \<lparr>me_error = (if truthy (si_error ins) then si_error ins else None),
          me_tiles = map_option (PostureTiles fraction) metrics,
          me_list = map_option (\<lambda>m. MetricsList fraction m None True) metrics,
          me_curve_empty = curve_empty_text (c_status control) (series \<noteq> []),
          me_fleet = FleetBreakdown (selectMetrics stream),
          me_provenance = map_option (config_chips textOf PROVENANCE_FIELDS) (c_activeConfig control)\<rparr>)"

section \<open>Properties\<close>

text \<open>No stage of the workflow ever falls back: with more observed, a stage that is done stays done and one
  that is current stays current or is done. Without a run and with nothing observed the first stage is
  the current one and no other.\<close>

definition facts_grow :: "workflow_facts \<Rightarrow> workflow_facts \<Rightarrow> bool" where
  "facts_grow f g \<longleftrightarrow> (wf_hasRun f \<longrightarrow> wf_hasRun g) \<and> wf_observedEvents f \<le> wf_observedEvents g \<and>
     wf_compromised f \<le> wf_compromised g \<and> (wf_hasMetrics f \<longrightarrow> wf_hasMetrics g) \<and> wf_findings f \<le> wf_findings g"

fun stage_rank :: "stage_state \<Rightarrow> nat" where
  "stage_rank StagePending = 0"
| "stage_rank StageActive = 1"
| "stage_rank StageDone = 2"

theorem workflow_never_falls_back:
  assumes "facts_grow f g"
  shows "list_all2 (\<lambda>a b. wg_id a = wg_id b \<and> stage_rank (wg_state a) \<le> stage_rank (wg_state b)) (buildStages f) (buildStages g) \<and>
    (f = \<lparr>wf_hasRun = False, wf_observedEvents = 0, wf_compromised = 0, wf_hasMetrics = False, wf_findings = 0\<rparr> \<longrightarrow>
      map wg_state (buildStages f) = [StageActive, StagePending, StagePending, StagePending, StagePending, StagePending])"
  using assms by (simp add: buildStages_def workflow_stage_def step_state_def facts_grow_def)

theorem workflow_never_falls_back_witness:
  "stage_rank (wg_state (buildStages \<lparr>wf_hasRun = True, wf_observedEvents = 0, wf_compromised = 0, wf_hasMetrics = False, wf_findings = 0\<rparr> ! 1))
   \<le> stage_rank (wg_state (buildStages \<lparr>wf_hasRun = True, wf_observedEvents = 3, wf_compromised = 0, wf_hasMetrics = True, wf_findings = 0\<rparr> ! 1))"
proof -
  have "facts_grow \<lparr>wf_hasRun = True, wf_observedEvents = 0, wf_compromised = 0, wf_hasMetrics = False, wf_findings = 0\<rparr>
      \<lparr>wf_hasRun = True, wf_observedEvents = 3, wf_compromised = 0, wf_hasMetrics = True, wf_findings = 0\<rparr>"
    by (simp add: facts_grow_def)
  from conjunct1[OF workflow_never_falls_back[OF this]] show ?thesis
    by (rule list_all2_nthD[THEN conjunct2]) (simp add: buildStages_def)
qed

text \<open>A finished run that is opened again has a snapshot and no events: the strip then shows Observe as done
  while Attack is still the current stage.\<close>

theorem reopened_run_not_attacked:
  assumes "0 < compromised"
  shows "map wg_state (take 3 (buildStages \<lparr>wf_hasRun = True, wf_observedEvents = 0, wf_compromised = compromised,
      wf_hasMetrics = hasMetrics, wf_findings = findings\<rparr>)) = [StageDone, StageActive, StageDone]"
  using assms by (simp add: buildStages_def workflow_stage_def step_state_def)

text \<open>The form that is shown as enabled starts a run: once React has committed, one press issues exactly one
  create call with the configuration of the form and closes the form; a disabled or hidden form
  issues none.\<close>

theorem enabled_form_starts_run:
  assumes "p_ref p = p_state p"
  shows "case press_start p configuring cfg of (q, open_form) \<Rightarrow>
    (if \<not> p_hydrating p \<and> shows_configurator p configuring \<and> canStart (p_state p)
     then p_calls q = p_calls p @ [CallCreate (p_nextOp p) cfg] \<and> \<not> open_form \<and> \<not> canStart (p_ref q)
     else q = p \<and> open_form = configuring)"
proof -
  have "p_calls (start p cfg) = p_calls p @ [CallCreate (p_nextOp p) cfg] \<and> \<not> canStart (p_ref (start p cfg))"
    if "canStart (p_state p)"
    using that assms by (simp add: start_def issue_def apply_action_def Let_def open_request_def canStart_def)
  then show ?thesis by (simp add: press_start_def)
qed

theorem enabled_form_starts_run_witness:
  "p_calls (fst (press_start ((mount None)\<lparr>p_hydrating := False\<rparr>) False [])) = [CallNothing, CallCreate 1 []]"
  using enabled_form_starts_run[of "(mount None)\<lparr>p_hydrating := False\<rparr>" False "[]"]
  by (simp add: mount_def shows_configurator_def has_run_def initialControlState_def canStart_def split: prod.splits)

text \<open>The fleet panel counts agents of three states. Its segments add up to the number under them exactly
  when no agent is suspicious or recovered; otherwise the bar shares the whole track out among fewer
  agents than the number says.\<close>

theorem fleet_bar_omits_states:
  "sum_list (map bs_value (fleet_segments (selectMetrics s))) + length (filter (\<lambda>n. nv_security_state n \<in> {Suspicious, Recovered})
     (map_values (gs_nodes s))) = fl_total (FleetBreakdown (selectMetrics s))"
proof -
  have "length (filter (\<lambda>n. nv_security_state n = Compromised) ns) + length (filter (\<lambda>n. nv_security_state n = Quarantined) ns) +
      length (filter (\<lambda>n. nv_security_state n = Healthy) ns) +
      length (filter (\<lambda>n. nv_security_state n = Suspicious \<or> nv_security_state n = Recovered) ns) = length ns" for ns
  proof (induction ns)
    case (Cons n ns)
    then show ?case by (cases "nv_security_state n") auto
  qed simp
  from this[of "map_values (gs_nodes s)"] show ?thesis
    by (simp add: fleet_segments_def FleetBreakdown_def selectMetrics_def count_states_filter)
qed

text \<open>The attack surface lists as many fallen nodes as it counts, and its bar is the share of them.\<close>

theorem surface_rows_consistent:
  assumes "r \<in> set (AttackSurfacePanel localeCompare (Some graph))"
  shows "int (length (su_fallen r)) = su_compromised r \<and> 0 < su_total r \<and> su_compromised r \<le> su_total r \<and>
    su_meter r = Fin (of_int (su_compromised r) / of_int (su_total r) * 100)"
proof -
  obtain s where s: "s \<in> set (summarizeNonAgentNodes localeCompare graph)" and r: "r = surface_row_of graph s"
    using assms by (auto simp: AttackSurfacePanel_def)
  then obtain t c where tc: "(t, c) \<in> set (foldl count_non_agent [] (sg_nodes graph))" "s = summary_row (t, c)"
    by (auto simp: summarizeNonAgentNodes_def)
  let ?typed = "filter (\<lambda>n. gn_node_type n = t) (sg_nodes graph)"
  have c: "c = \<lparr>tc_total = int (length ?typed), tc_compromised = int (length (filter (\<lambda>n. gn_security_state n = Compromised) ?typed))\<rparr>"
    "t \<noteq> ''agent''"
    using group_counts[OF tc(1)] by (simp_all add: count_of_def conj_commute)
  have "t \<in> set (map_keys (foldl count_non_agent [] (sg_nodes graph)))" using tc(1) by force
  then have "?typed \<noteq> []"
    unfolding by_type.group_keys by (auto simp: non_agent_type_def filter_empty_conv split: if_splits)
  moreover have "length (filter (\<lambda>n. gn_security_state n = Compromised) ?typed) \<le> length ?typed" by (rule length_filter_le)
  ultimately show ?thesis
    by (auto simp: r tc(2) summary_row_def surface_row_of_def c meter_percent_def math_max_def math_min_def)
qed

text \<open>The bars of the choke points: within the track, in the order of the centralities, and the greatest one
  fills it.\<close>

lemma max_betweenness_ge: "n \<in> set nodes \<Longrightarrow> cr_betweenness n \<le> max_betweenness nodes" "1/10000 \<le> max_betweenness nodes"
proof -
  have "b \<le> foldl max b xs \<and> (x \<in> set xs \<longrightarrow> x \<le> foldl max b xs)" for b x :: rat and xs
  proof (induction xs arbitrary: b)
    case (Cons y ys)
    have "max b y \<le> foldl max (max b y) ys" "x \<in> set ys \<Longrightarrow> x \<le> foldl max (max b y) ys" using Cons[of "max b y"] by simp_all
    then show ?case by auto
  qed simp
  then show "n \<in> set nodes \<Longrightarrow> cr_betweenness n \<le> max_betweenness nodes" "1/10000 \<le> max_betweenness nodes"
    by (auto simp: max_betweenness_def)
qed

lemma meter_percent_share: "0 \<le> q \<Longrightarrow> q \<le> 1 \<Longrightarrow> meter_percent (Fin q) = Fin (q * 100)"
  by (auto simp: meter_percent_def math_max_def math_min_def)

theorem choke_bars_in_order:
  assumes "\<forall>n \<in> set nodes. 0 \<le> cr_betweenness n"
  shows "map ck_meter (CriticalNodesPanel nodes graph) = map (\<lambda>n. Fin (cr_betweenness n / max_betweenness nodes * 100)) nodes \<and>
    (\<forall>n \<in> set nodes. cr_betweenness n / max_betweenness nodes \<le> 1)"
proof -
  have pos: "0 < max_betweenness nodes" using max_betweenness_ge(2)[of nodes] by (rule less_le_trans[rotated]) simp
  then have "cr_betweenness n / max_betweenness nodes \<le> 1" "0 \<le> cr_betweenness n / max_betweenness nodes" if "n \<in> set nodes" for n
    using that assms max_betweenness_ge(1)[OF that] by (simp_all add: divide_le_eq_1)
  then show ?thesis by (simp add: CriticalNodesPanel_def Let_def meter_percent_share)
qed

end
