(* ===== verification/Analysis_Pages.thy ===== *)
theory Analysis_Pages
  imports Comparison Overview
begin

text \<open>
  The screens that act on findings and comparisons: \<open>frontend/src/app/remediation/page.tsx\<close> with
  \<open>components/insights/FindingsList.tsx\<close>, \<open>app/defenses/page.tsx\<close>, and \<open>app/history/compare/page.tsx\<close>, with
  \<open>components/insights/ArmStatusCard.tsx\<close>. A press is a call of the hook behind the screen, guarded by what
  the screen enables. \<open>JSON.stringify\<close> and the printing of a configuration value are arguments.
\<close>

section \<open>Findings\<close>

record recommendation =
  rc_description :: string
  rc_config_diff :: json_object

record diff_row =
  df_label :: string
  df_key :: string
  df_current :: "string option"
  df_value :: string

record finding_card =
  fi_description :: string
  fi_rows :: "diff_row list"
  fi_button :: "(string \<times> bool) option"

definition diff_row_of :: "(json \<Rightarrow> string) \<Rightarrow> experiment_config option \<Rightarrow> string \<times> json \<Rightarrow> diff_row" where
  "diff_row_of stringify baseConfig kv = (case kv of (key, value) \<Rightarrow>
     \<lparr>df_label = configLabel key, df_key = key,
      df_current = (case baseConfig of None \<Rightarrow> None | Some c \<Rightarrow> map_option stringify (map_get c key)),
      df_value = stringify value\<rparr>)"

text \<open>The button of a finding, where the list offers validation: its text and whether it can be pressed.\<close>

definition finding_card_of ::
  "(json \<Rightarrow> string) \<Rightarrow> experiment_config option \<Rightarrow> bool \<Rightarrow> string option \<Rightarrow> bool \<Rightarrow> recommendation \<Rightarrow> finding_card" where
  "finding_card_of stringify baseConfig offers validatingKey disabled r =
     (let busy = (validatingKey = Some (stringify (JObj (rc_config_diff r))))
      in \<lparr>fi_description = rc_description r, fi_rows = map (diff_row_of stringify baseConfig) (rc_config_diff r),
          fi_button = (if offers
            then Some (if busy then ''Re-testing'' @ ellipsis else ''Validate fix'', \<not> (disabled \<or> busy \<or> baseConfig = None))
            else None)\<rparr>)"

text \<open>No cards: the empty state, a clean result.\<close>

definition FindingsList ::
  "(json \<Rightarrow> string) \<Rightarrow> experiment_config option \<Rightarrow> bool \<Rightarrow> string option \<Rightarrow> bool \<Rightarrow> recommendation list \<Rightarrow> finding_card list" where
  "FindingsList stringify baseConfig offers validatingKey disabled recommendations =
     map (finding_card_of stringify baseConfig offers validatingKey disabled) recommendations"

section \<open>The remediation screen\<close>

abbreviation diff_key :: "(json \<Rightarrow> string) \<Rightarrow> json_object \<Rightarrow> string" where
  "diff_key stringify d \<equiv> stringify (JObj d)"

definition remediation_cards ::
  "(json \<Rightarrow> string) \<Rightarrow> fix_trial \<Rightarrow> experiment_config option \<Rightarrow> recommendation list option \<Rightarrow> finding_card list option" where
  "remediation_cards stringify trial config recommendations =
     map_option (FindingsList stringify config True (if ft_running trial then ft_diffKey trial else None)
       (ft_running trial \<or> config = None)) recommendations"

definition findings_badge :: "recommendation list option \<Rightarrow> (severity \<times> string) option" where
  "findings_badge recommendations = map_option (\<lambda>rs. (if rs \<noteq> [] then SevWarn else SevOk,
     show_nat (length rs) @ '' finding'' @ (if length rs = 1 then [] else ''s''))) recommendations"

fun trial_metrics :: "trial_arm \<Rightarrow> metrics_response option" where
  "trial_metrics (TrialDone m i) = Some m"
| "trial_metrics _ = None"

fun trial_error :: "trial_arm \<Rightarrow> string option" where
  "trial_error (TrialError e) = Some e"
| "trial_error _ = None"

datatype trial_title = TrialSpinner | TrialDiff string | TrialNoTitle

definition trial_title_of :: "(json \<Rightarrow> string) \<Rightarrow> (string \<Rightarrow> json_object) \<Rightarrow> fix_trial \<Rightarrow> trial_title" where
  "trial_title_of stringify parse trial =
     (if ft_running trial then TrialSpinner
      else if truthy (ft_diffKey trial) then TrialDiff (formatConfigDiff stringify (parse (the (ft_diffKey trial))))
      else TrialNoTitle)"

datatype trial_panel = TrialEmpty | TrialResult "string option" "string option" "delta_row list"

definition trial_panel_of :: "(rat \<Rightarrow> string) \<Rightarrow> fix_trial \<Rightarrow> trial_panel" where
  "trial_panel_of fraction trial =
     (if \<not> truthy (ft_diffKey trial) then TrialEmpty
      else TrialResult (trial_error (ft_before trial)) (trial_error (ft_after trial))
        (MetricsDeltaTable fraction (trial_metrics (ft_before trial)) (trial_metrics (ft_after trial))))"

definition press_validate ::
  "(json \<Rightarrow> string) \<Rightarrow> fix_trial \<Rightarrow> experiment_config option \<Rightarrow> recommendation list option \<Rightarrow> nat \<Rightarrow> fix_trial" where
  "press_validate stringify trial config recommendations k =
     (case (remediation_cards stringify trial config recommendations, recommendations, config) of
        (Some cards, Some rs, Some c) \<Rightarrow>
          if k < length rs \<and> (\<exists>label. fi_button (cards ! k) = Some (label, True))
          then validate (diff_key stringify) trial (c, rc_config_diff (rs ! k)) else trial
      | _ \<Rightarrow> trial)"

section \<open>The defense comparison\<close>

datatype arm_badge = BadgeRunning | BadgeComplete | BadgeFailed string | BadgeNotRun

record arm_card =
  ar_badge :: arm_badge
  ar_incomplete :: bool

definition ArmStatusCard :: "arm_state \<Rightarrow> arm_card" where
  "ArmStatusCard a =
     \<lparr>ar_badge = (case a of ArmRunning \<Rightarrow> BadgeRunning | ArmDone m i \<Rightarrow> BadgeComplete | ArmError e \<Rightarrow> BadgeFailed e
        | ArmIdle \<Rightarrow> BadgeNotRun),
      ar_incomplete = (case a of ArmDone m i \<Rightarrow> i = Some True | _ \<Rightarrow> False)\<rparr>"

fun arm_metrics :: "arm_state \<Rightarrow> metrics_response option" where
  "arm_metrics (ArmDone m i) = Some m"
| "arm_metrics _ = None"

definition SUMMARY_FIELDS :: "string list" where
  "SUMMARY_FIELDS = [''seed'', ''node_count'', ''detector_sensitivity'', ''max_ticks'']"

record defenses_screen =
  ds_button :: "string \<times> bool"
  ds_config :: "(string \<times> string) list"
  ds_off :: arm_card
  ds_on :: arm_card
  ds_outcome :: "delta_row list option"

definition arms_running :: "comparison \<Rightarrow> bool" where
  "arms_running s \<longleftrightarrow> cp_armA s = ArmRunning \<or> cp_armB s = ArmRunning"

definition arms_started :: "comparison \<Rightarrow> bool" where
  "arms_started s \<longleftrightarrow> cp_armA s \<noteq> ArmIdle \<or> cp_armB s \<noteq> ArmIdle"

definition DefensesPage ::
  "(rat \<Rightarrow> string) \<Rightarrow> (json option \<Rightarrow> string) \<Rightarrow> experiment_config option \<Rightarrow> comparison \<Rightarrow> defenses_screen" where
  "DefensesPage fraction textOf activeConfig s =
     \<lparr>ds_button = (if arms_running s then ''Running both arms'' @ ellipsis else if arms_started s then ''Run again'' else ''Run comparison'',
        \<not> arms_running s),
      ds_config = config_chips textOf SUMMARY_FIELDS (or_default activeConfig DEFAULT_CONFIG),
      ds_off = ArmStatusCard (cp_armB s), ds_on = ArmStatusCard (cp_armA s),
      ds_outcome = (if \<not> arms_started s then None
        else Some (MetricsDeltaTable fraction (arm_metrics (cp_armB s)) (arm_metrics (cp_armA s))))\<rparr>"

text \<open>The button of the header and, while nothing has been started, the one of the empty state.\<close>

datatype defenses_press = HeaderButton | EmptyStateButton

definition press_defenses :: "experiment_config option \<Rightarrow> comparison \<Rightarrow> defenses_press \<Rightarrow> comparison" where
  "press_defenses activeConfig s b =
     (if (case b of HeaderButton \<Rightarrow> \<not> arms_running s | EmptyStateButton \<Rightarrow> \<not> arms_started s)
      then launch_comparison s (RunComparison (or_default activeConfig DEFAULT_CONFIG)) else s)"

section \<open>Comparing two stored runs\<close>

datatype detail_state = DetailLoading | DetailError string | DetailLoaded experiment_detail

text \<open>\<open>useExperimentDetailState\<close>: a fetch per id, whose answer is dropped once the id has changed; until the
  answer arrives the state of the previous id stays.\<close>

record detail_hook =
  dh_state :: detail_state
  dh_gen :: nat

definition detail_mounted :: detail_hook where
  "detail_mounted = \<lparr>dh_state = DetailLoading, dh_gen = 0\<rparr>"

definition detail_effect :: "detail_hook \<Rightarrow> string option \<Rightarrow> detail_hook" where
  "detail_effect h i = h\<lparr>dh_gen := Suc (dh_gen h)\<rparr>"

definition detail_settle :: "detail_hook \<Rightarrow> nat \<Rightarrow> string + experiment_detail \<Rightarrow> detail_hook" where
  "detail_settle h g answer = (if g \<noteq> dh_gen h then h
     else h\<lparr>dh_state := (case answer of Inr d \<Rightarrow> DetailLoaded d | Inl e \<Rightarrow> DetailError e)\<rparr>)"

interpretation details: cancelled_effect dh_gen detail_settle dh_state detail_effect
  by unfold_locales (auto simp: detail_settle_def detail_effect_def)

datatype config_summary =
    SummaryLoading
  | SummaryError string
  | Summary "(string \<times> string) list" "severity \<times> bool" "severity \<times> bool"

definition ArmConfigSummary :: "(json option \<Rightarrow> string) \<Rightarrow> string \<Rightarrow> detail_state \<Rightarrow> config_summary" where
  "ArmConfigSummary textOf i state = (case state of
      DetailLoading \<Rightarrow> SummaryLoading
    | DetailError e \<Rightarrow> SummaryError e
    | DetailLoaded d \<Rightarrow>
        (let defended = (map_get (ed_config d) ''defense_enabled'' = Some (JBool True)); complete = (ed_is_complete d = Some True)
         in Summary ((''run'', shortId i) # map (\<lambda>f. (configLabel f, textOf (map_get (ed_config d) f))) SUMMARY_FIELDS)
              (if defended then SevOk else SevWarn, defended) (if complete then SevOk else SevWarn, complete)))"

text \<open>The warning over the arms compares three fields.\<close>

definition differsBeyondDefense :: "detail_state \<Rightarrow> detail_state \<Rightarrow> bool" where
  "differsBeyondDefense a b = (case (a, b) of
      (DetailLoaded x, DetailLoaded y) \<Rightarrow>
        ed_seed x \<noteq> ed_seed y \<or>
        map_get (ed_config x) ''node_count'' \<noteq> map_get (ed_config y) ''node_count'' \<or>
        map_get (ed_config x) ''max_ticks'' \<noteq> map_get (ed_config y) ''max_ticks''
    | _ \<Rightarrow> False)"

record compare_page =
  cm_pair :: "string option \<times> string option"
  cm_startedFor :: "string option"
  cm_comparison :: comparison
  cm_compared :: "(string \<times> string) list"
  cm_detailA :: detail_hook
  cm_detailB :: detail_hook

text \<open>\<open>cm_compared\<close> records, for the statements below, the pairs whose comparison was really launched.\<close>

definition compare_mounted :: compare_page where
  "compare_mounted = \<lparr>cm_pair = (None, None), cm_startedFor = None, cm_comparison = initial_comparison,
     cm_compared = [], cm_detailA = detail_mounted, cm_detailB = detail_mounted\<rparr>"

definition pair_key :: "string \<Rightarrow> string \<Rightarrow> string" where
  "pair_key a b = a @ '':'' @ b"

definition compare_effect :: "compare_page \<Rightarrow> compare_page" where
  "compare_effect p = (case cm_pair p of (a, b) \<Rightarrow>
     if \<not> truthy a \<or> \<not> truthy b then p
     else if cm_startedFor p = Some (pair_key (the a) (the b)) then p
     else p\<lparr>cm_startedFor := Some (pair_key (the a) (the b)),
            cm_comparison := launch_comparison (cm_comparison p) (CompareHistorical (the a) (the b)),
            cm_compared := (if cp_running (cm_comparison p) then cm_compared p else cm_compared p @ [(the a, the b)])\<rparr>)"

text \<open>A render with the ids of the address: the effects whose dependencies changed run, and the comparison
  effect may run again for the same ids.\<close>

datatype compare_input =
    AddressGives "string option" "string option"
  | EffectAgain
  | ArmSettles arm arm_result
  | DetailSettles arm nat "string + experiment_detail"

fun compare_step :: "compare_page \<Rightarrow> compare_input \<Rightarrow> compare_page" where
  "compare_step p (AddressGives a b) = compare_effect (p\<lparr>cm_pair := (a, b),
     cm_detailA := (if fst (cm_pair p) = a then cm_detailA p else detail_effect (cm_detailA p) a),
     cm_detailB := (if snd (cm_pair p) = b then cm_detailB p else detail_effect (cm_detailB p) b)\<rparr>)"
| "compare_step p EffectAgain = compare_effect p"
| "compare_step p (ArmSettles a r) =
     (if a \<in> running_arms (cm_comparison p) then p\<lparr>cm_comparison := settle_arm (cm_comparison p) a r\<rparr> else p)"
| "compare_step p (DetailSettles ArmA g r) = p\<lparr>cm_detailA := detail_settle (cm_detailA p) g r\<rparr>"
| "compare_step p (DetailSettles ArmB g r) = p\<lparr>cm_detailB := detail_settle (cm_detailB p) g r\<rparr>"

datatype compare_view = PickTwoRuns | Comparing bool arm_card arm_card config_summary config_summary "delta_row list"

definition CompareContent :: "(rat \<Rightarrow> string) \<Rightarrow> (json option \<Rightarrow> string) \<Rightarrow> compare_page \<Rightarrow> compare_view" where
  "CompareContent fraction textOf p = (case cm_pair p of (a, b) \<Rightarrow>
     if \<not> truthy a \<or> \<not> truthy b then PickTwoRuns
     else (let s = cm_comparison p; da = dh_state (cm_detailA p); db = dh_state (cm_detailB p)
           in Comparing (differsBeyondDefense da db) (ArmStatusCard (cp_armA s)) (ArmStatusCard (cp_armB s))
                (ArmConfigSummary textOf (the a) da) (ArmConfigSummary textOf (the b) db)
                (MetricsDeltaTable fraction (arm_metrics (cp_armA s)) (arm_metrics (cp_armB s)))))"

section \<open>The remediation screen follows its trial\<close>

lemma trial_running_flags: "trial.reached stringify initial_trial s \<Longrightarrow> ft_running s = ft_runningRef s"
proof (induction rule: trial.reached.induct)
  case start
  show ?case by (simp add: initial_trial_def)
next
  case (launched s rq)
  then show ?case by (simp add: validate_def)
next
  case (settled s a r)
  then show ?case by (simp add: settle_trial_def Let_def)
qed

text \<open>A press of an enabled button starts the trial of its own finding: the run's configuration is tested
  against that configuration with the change of the card, from then on no button is enabled, and
  the cards that read as being re-tested are those with the change on trial.\<close>

theorem validate_tests_its_finding:
  assumes "trial.reached (diff_key stringify) initial_trial s" and "\<not> ft_running s" and "k < length rs"
    and "t = press_validate stringify s (Some c) (Some rs) k"
    and "remediation_cards stringify t (Some c) (Some rs) = Some cards" and "j < length rs"
  shows "t = validate (diff_key stringify) s (c, rc_config_diff (rs ! k)) \<and> trial_arms t = {ArmA, ArmB} \<and>
    (\<exists>label. fi_button (cards ! j) = Some (label, False) \<and>
      (label = ''Re-testing'' @ ellipsis \<longleftrightarrow> diff_key stringify (rc_config_diff (rs ! j)) = diff_key stringify (rc_config_diff (rs ! k))))"
proof -
  have idle: "\<not> ft_runningRef s" using assms(1,2) trial_running_flags by blast
  have enabled: "remediation_cards stringify s (Some c) (Some rs) =
      Some (map (finding_card_of stringify (Some c) True None False) rs)"
    using assms(2) by (simp add: remediation_cards_def FindingsList_def)
  then have t: "t = validate (diff_key stringify) s (c, rc_config_diff (rs ! k))"
    using assms(3,4) by (simp add: press_validate_def finding_card_of_def Let_def)
  then have run: "ft_running t" "ft_diffKey t = Some (diff_key stringify (rc_config_diff (rs ! k)))" "trial_arms t = {ArmA, ArmB}"
    using idle by (auto simp: validate_def trial_arms_def)
  then have "cards = map (finding_card_of stringify (Some c) True (ft_diffKey t) True) rs"
    using assms(5) by (simp add: remediation_cards_def FindingsList_def)
  then show ?thesis using t run assms(6) by (auto simp: finding_card_of_def Let_def)
qed

definition one_recommendation :: recommendation where
  "one_recommendation = \<lparr>rc_description = ''d'', rc_config_diff = [(''defense_enabled'', JBool True)]\<rparr>"

theorem validate_tests_its_finding_witness:
  "trial_arms (press_validate (\<lambda>_. ''k'') initial_trial (Some []) (Some [one_recommendation]) 0) = {ArmA, ArmB}"
proof -
  let ?rs = "Some [one_recommendation]" and ?stringify = "\<lambda>_ :: json. ''k''"
  let ?t = "press_validate ?stringify initial_trial (Some []) ?rs 0"
  obtain cards where cards: "remediation_cards ?stringify ?t (Some []) ?rs = Some cards" by (simp add: remediation_cards_def)
  have idle: "\<not> ft_running initial_trial" and k: "0 < length [one_recommendation]" by (simp_all add: initial_trial_def)
  show ?thesis
    by (rule validate_tests_its_finding[OF trial.start idle k refl cards k, THEN conjunct2, THEN conjunct1])
qed

section \<open>The buttons of the defense comparison\<close>

text \<open>The button and the hook agree: in every state the hook can reach, the button of the header is enabled
  exactly when a press starts a comparison, and the press then runs both arms on the configuration that
  is shown; the button of the empty state never disturbs a running comparison.\<close>

theorem defenses_button_agrees:
  assumes "comparison.reached initial_comparison s"
  shows "snd (ds_button (DefensesPage fraction textOf activeConfig s)) = (\<not> cp_running s) \<and>
    press_defenses activeConfig s HeaderButton =
      (if cp_running s then s else launch_comparison s (RunComparison (or_default activeConfig DEFAULT_CONFIG))) \<and>
    (cp_running s \<longrightarrow> press_defenses activeConfig s EmptyStateButton = s)"
proof -
  have busy: "cp_running s \<longleftrightarrow> running_arms s \<noteq> {}"
    by (rule comparison.busy_iff_open[OF assms]) (simp_all add: initial_comparison_def running_arms_def)
  then have "arms_running s = cp_running s" by (auto simp: arms_running_def running_arms_def split: if_splits)
  then show ?thesis by (simp add: DefensesPage_def press_defenses_def launch_comparison_def)
qed

theorem defenses_button_agrees_witness:
  "press_defenses None initial_comparison HeaderButton = launch_comparison initial_comparison (RunComparison DEFAULT_CONFIG)"
  using defenses_button_agrees[OF comparison.start, of _ _ None] by (simp add: initial_comparison_def)

section \<open>The pair that is compared\<close>

text \<open>While the address names one pair of runs, however often its effect runs and in whatever order arms and
  details arrive, exactly one comparison is launched, of that pair.\<close>

definition same_pair :: "string \<Rightarrow> string \<Rightarrow> compare_input \<Rightarrow> bool" where
  "same_pair a b x \<longleftrightarrow> (case x of AddressGives a' b' \<Rightarrow> a' = Some a \<and> b' = Some b | _ \<Rightarrow> True)"

theorem pair_compared_once:
  assumes "a \<noteq> []" and "b \<noteq> []" and "list_all (same_pair a b) xs"
    and "p = foldl compare_step compare_mounted (AddressGives (Some a) (Some b) # xs)"
  shows "cm_compared p = [(a, b)] \<and> cm_pair p = (Some a, Some b)"
proof -
  define ok :: "compare_page \<Rightarrow> bool" where "ok = (\<lambda>p. cm_compared p = [(a, b)] \<and> cm_pair p = (Some a, Some b) \<and> cm_startedFor p = Some (pair_key a b))"
  have first: "ok (compare_step compare_mounted (AddressGives (Some a) (Some b)))"
    using assms(1,2) by (simp add: ok_def compare_effect_def compare_mounted_def initial_comparison_def)
  have keep: "ok (compare_step q x)" if "ok q" "same_pair a b x" for q x
  proof (cases x)
    case (DetailSettles arm g r)
    with that show ?thesis by (cases arm) (simp_all add: ok_def)
  qed (use that in \<open>auto simp: ok_def same_pair_def compare_effect_def\<close>)
  have "ok q \<Longrightarrow> list_all (same_pair a b) xs \<Longrightarrow> ok (foldl compare_step q xs)" for q xs
    by (induction xs arbitrary: q) (simp_all add: keep)
  from this[OF first assms(3)] show ?thesis by (simp add: assms(4) ok_def)
qed

theorem pair_compared_once_witness:
  "cm_compared (foldl compare_step compare_mounted [AddressGives (Some ''a'') (Some ''b''), EffectAgain, AddressGives (Some ''a'') (Some ''b'')])
   = [(''a'', ''b'')]"
  using pair_compared_once[of "''a''" "''b''" "[EffectAgain, AddressGives (Some ''a'') (Some ''b'')]", OF _ _ _ refl]
  by (simp add: same_pair_def)

text \<open>A pair that the address names while another is being compared is marked as started and never
  compared: the results of the first pair stay, under the ids of the second.\<close>

definition changed_pair :: "arm_result \<Rightarrow> arm_result \<Rightarrow> compare_input list" where
  "changed_pair ra rb = [AddressGives (Some ''a'') (Some ''b''), AddressGives (Some ''c'') (Some ''d''),
     ArmSettles ArmA ra, ArmSettles ArmB rb, EffectAgain]"

theorem changed_pair_is_never_compared:
  "let p = foldl compare_step compare_mounted (changed_pair ra rb) in
    cm_pair p = (Some ''c'', Some ''d'') \<and> cm_compared p = [(''a'', ''b'')] \<and> \<not> cp_running (cm_comparison p) \<and>
    cp_armA (cm_comparison p) = next_arm ra \<and> cp_armB (cm_comparison p) = next_arm rb"
  by (simp add: changed_pair_def compare_mounted_def compare_effect_def initial_comparison_def launch_comparison_def
      pair_key_def settle_arm_def running_arms_def Let_def)

text \<open>The warning is sound and not complete: where it is shown the runs differ in a field that is not the
  defense; runs that differ in any other field, or in nothing but the attacks, get none.\<close>

theorem warning_compares_three_fields:
  "(differsBeyondDefense (DetailLoaded x) (DetailLoaded y) \<longrightarrow>
      ed_seed x \<noteq> ed_seed y \<or> (\<exists>k. k \<noteq> ''defense_enabled'' \<and> map_get (ed_config x) k \<noteq> map_get (ed_config y) k)) \<and>
   (\<forall>k v. k \<notin> {''node_count'', ''max_ticks''} \<longrightarrow>
      \<not> differsBeyondDefense (DetailLoaded x) (DetailLoaded (x\<lparr>ed_config := map_set (ed_config x) k v\<rparr>)))"
proof
  show "differsBeyondDefense (DetailLoaded x) (DetailLoaded y) \<longrightarrow>
      ed_seed x \<noteq> ed_seed y \<or> (\<exists>k. k \<noteq> ''defense_enabled'' \<and> map_get (ed_config x) k \<noteq> map_get (ed_config y) k)"
  proof
    assume "differsBeyondDefense (DetailLoaded x) (DetailLoaded y)"
    then consider "ed_seed x \<noteq> ed_seed y" | "map_get (ed_config x) ''node_count'' \<noteq> map_get (ed_config y) ''node_count''"
      | "map_get (ed_config x) ''max_ticks'' \<noteq> map_get (ed_config y) ''max_ticks''"
      by (auto simp: differsBeyondDefense_def)
    then show "ed_seed x \<noteq> ed_seed y \<or> (\<exists>k. k \<noteq> ''defense_enabled'' \<and> map_get (ed_config x) k \<noteq> map_get (ed_config y) k)"
    proof cases
      case 2
      then show ?thesis by (intro disjI2 exI[of _ "''node_count''"]) simp
    next
      case 3
      then show ?thesis by (intro disjI2 exI[of _ "''max_ticks''"]) simp
    qed simp
  qed
qed (auto simp: differsBeyondDefense_def)

end
