(* ===== verification/Demo_Panels.thy ===== *)
theory Demo_Panels
  imports Demo_Page Stage Clock Narrative Activity
begin

text \<open>
  The sections of the demo screen, \<open>frontend/src/components/demo/\<close> and the panels at the end of
  \<open>app/demo/page.tsx\<close>: what each shows of the view it is given, and its own state where it has one (the open
  sections of the explanation, the two views of the timeline, the scrolling of the story, the clock of
  the header). Fixed sentences, icons and styles are left out; a severity stands for its colour.
\<close>

section \<open>The attack banner\<close>

record banner_step =
  bn_label :: string
  bn_reached :: bool
  bn_text :: string

record banner =
  bn_rule :: "string option"
  bn_requester :: "string option"
  bn_resource :: "string option"
  bn_steps :: "banner_step list"
  bn_reason :: "string option"

definition shown :: "string option \<Rightarrow> string option" where
  "shown x = (if truthy x then x else None)"

definition banner_step_of :: "cascade_step \<Rightarrow> banner_step" where
  "banner_step_of s = \<lparr>bn_label = ck_label s, bn_reached = (ck_seq s \<noteq> None),
     bn_text = (case ck_seq s of None \<Rightarrow> ''not reached'' | Some n \<Rightarrow> ck_detail s)\<rparr>"

text \<open>\<open>None\<close>: the quiet state before a violation.\<close>

definition AttackBanner :: "incident \<Rightarrow> banner option" where
  "AttackBanner i = (if \<not> in_detected i then None
     else Some \<lparr>bn_rule = shown (in_rule i), bn_requester = nullish (in_workerRole i) (in_workerId i),
       bn_resource = in_resource i, bn_steps = map banner_step_of (in_cascade i), bn_reason = shown (in_reason i)\<rparr>)"

section \<open>The containment chain\<close>

record artifact_view =
  av_id :: string
  av_worker_id :: string
  av_kind :: string
  av_summary :: string
  av_trusted :: bool
  av_taint_reason :: "string option"

datatype link_body =
    RemovedFromTeam
  | NothingTainted
  | TaintedIds "string list"
  | SeededWith string
  | TookOver
  | NoReplacement

record chain_link =
  cl_severity :: severity
  cl_title :: string
  cl_subtitle :: "string option"
  cl_badge :: string
  cl_body :: link_body

datatype chain_item = ChainLink chain_link | ChainConnector string severity

definition artifact_count :: "nat \<Rightarrow> string" where
  "artifact_count n = show_nat n @ '' artifact'' @ (if n = 1 then [] else ''s'')"

text \<open>What the replacement was seeded with: the trusted artifacts of the session, else the ids the event
  named, else nothing.\<close>

definition seed_text :: "incident \<Rightarrow> artifact_view list \<Rightarrow> string" where
  "seed_text i artifacts =
     (let trustedContext = filter (\<lambda>a. av_id a \<in> set (in_trustedContextIds i)) artifacts
      in if trustedContext \<noteq> [] then join '', '' (map av_id trustedContext)
         else let ids = join '', '' (in_trustedContextIds i) in if ids = [] then ''no artifacts'' else ids)"

definition replacement_link :: "incident \<Rightarrow> artifact_view list \<Rightarrow> chain_link" where
  "replacement_link i artifacts =
     (if truthy (in_replacementWorkerId i)
      then \<lparr>cl_severity = SevOk, cl_title = the (nullish (in_replacementRole i) (in_replacementWorkerId i)),
            cl_subtitle = shown (in_replacementWorkerId i), cl_badge = ''New worker'',
            cl_body = (if in_trustedContextOnly i then SeededWith (seed_text i artifacts) else TookOver)\<rparr>
      else \<lparr>cl_severity = SevNeutral, cl_title = ''Replacement'', cl_subtitle = None, cl_badge = ''Pending'',
            cl_body = NoReplacement\<rparr>)"

definition ContainmentPanel :: "incident \<Rightarrow> artifact_view list \<Rightarrow> chain_item list option" where
  "ContainmentPanel i artifacts = (if \<not> in_detected i then None
     else let tainted = filter (\<lambda>a. \<not> av_trusted a) artifacts
       in Some [
         ChainLink \<lparr>cl_severity = SevCritical,
           cl_title = or_default (nullish (in_workerRole i) (in_workerId i)) ''The worker'',
           cl_subtitle = shown (in_workerId i), cl_badge = ''Quarantined'', cl_body = RemovedFromTeam\<rparr>,
         ChainConnector ''output discarded'' SevCritical,
         ChainLink \<lparr>cl_severity = SevCritical, cl_title = ''Tainted output'', cl_subtitle = None,
           cl_badge = artifact_count (length (in_taintedArtifactIds i)),
           cl_body = (if tainted = [] then NothingTainted else TaintedIds (map av_id tainted))\<rparr>,
         ChainConnector ''task reassigned'' SevContained,
         ChainLink (replacement_link i artifacts)])"

section \<open>The explanation\<close>

datatype explanation_source = FromOpenAI | FromRules | FromNothing

record explanation_sections =
  xs_what_happened :: string
  xs_why_blocked :: string
  xs_what_was_contained :: string
  xs_how_swarm_recovered :: string
  xs_recovery_evidence :: string

record incident_explanation =
  ix_available :: bool
  ix_source :: explanation_source
  ix_headline :: string
  ix_body :: string
  ix_sections :: "explanation_sections option"
  ix_provider :: "string option"
  ix_model :: "string option"

definition SECTION_ORDER :: "((explanation_sections \<Rightarrow> string) \<times> string) list" where
  "SECTION_ORDER = [(xs_what_happened, ''What happened''), (xs_why_blocked, ''Why AgentShield blocked it''),
     (xs_what_was_contained, ''What was contained''), (xs_how_swarm_recovered, ''How the swarm recovered''),
     (xs_recovery_evidence, ''What proves recovery worked'')]"

datatype explanation_text = PlainBody string | Details "(string \<times> string option) list"

record explanation_view =
  xv_headline :: "string option"
  xv_generated :: string
  xv_text :: explanation_text

definition generated_by :: "incident_explanation \<Rightarrow> string" where
  "generated_by x = (case ix_source x of
      FromOpenAI \<Rightarrow> ''AI-generated'' @ middle_dot @ or_default (ix_model x) ''model'' @
        (if truthy (ix_provider x) then middle_dot @ the (ix_provider x) else [])
    | _ \<Rightarrow> ''Generated locally from recorded events '' @ em_dash @ '' no model involved'')"

text \<open>Which sections are open: the first one at first, then as the headings are pressed.\<close>

definition details_mounted :: "bool list" where
  "details_mounted = map (\<lambda>k. k = 0) [0..<length SECTION_ORDER]"

definition press_detail :: "bool list \<Rightarrow> nat \<Rightarrow> bool list" where
  "press_detail opened k = (if k < length opened then opened[k := \<not> opened ! k] else opened)"

definition ExplanationPanel :: "bool list \<Rightarrow> incident_explanation option \<Rightarrow> explanation_view option" where
  "ExplanationPanel opened x = (case x of
      None \<Rightarrow> None
    | Some e \<Rightarrow> if \<not> ix_available e then None
        else Some \<lparr>xv_headline = shown (Some (ix_headline e)), xv_generated = generated_by e,
          xv_text = (case ix_sections e of
              None \<Rightarrow> PlainBody (ix_body e)
            | Some s \<Rightarrow> Details (map (\<lambda>((part, heading), isopen). (heading, if isopen then Some (part s) else None))
                (zip SECTION_ORDER opened)))\<rparr>)"

section \<open>The timeline\<close>

datatype timeline_view = StoryView | StreamView

record story_row =
  sr_label :: "string option"
  sr_severity :: "severity option"
  sr_role :: "string option"
  sr_count :: "nat option"
  sr_detail :: "string option"

text \<open>Only a milestone has a colour and names its actor.\<close>

definition story_row_of :: "beat \<Rightarrow> story_row" where
  "story_row_of b = \<lparr>sr_label = b_label b,
     sr_severity = (if b_kind b = BkMilestone then b_severity b else None),
     sr_role = (if b_kind b = BkMilestone then shown (b_actorRole b) else None),
     sr_count = (if 1 < b_count b then Some (b_count b) else None), sr_detail = shown (Some (b_detail b))\<rparr>"

datatype timeline = Story string "story_row list" | FullStream event_feed

definition NarrativeTimeline :: "timeline_view \<Rightarrow> event_feed \<Rightarrow> event list \<Rightarrow> timeline" where
  "NarrativeTimeline view feed events = (case view of
      StoryView \<Rightarrow> (let beats = deriveNarrative events
        in Story (show_nat (length beats) @ '' beats from '' @ show_nat (length events) @ '' recorded events'')
             (map story_row_of beats))
    | StreamView \<Rightarrow> FullStream feed)"

text \<open>The list of the story follows its end. The browser keeps \<open>scrollTop\<close> between nought and the height that
  does not fit.\<close>

record scroller =
  sl_height :: int
  sl_client :: int
  sl_top :: int

definition scroll_to :: "scroller \<Rightarrow> int \<Rightarrow> scroller" where
  "scroll_to s y = s\<lparr>sl_top := max 0 (min y (sl_height s - sl_client s))\<rparr>"

definition follow_latest :: "scroller \<Rightarrow> scroller" where
  "follow_latest s = (if 120 < sl_height s - sl_top s - sl_client s then s else scroll_to s (sl_height s))"

text \<open>New beats make the list higher, then the effect runs.\<close>

definition beats_added :: "scroller \<Rightarrow> int \<Rightarrow> scroller" where
  "beats_added s grown = follow_latest (s\<lparr>sl_height := sl_height s + grown\<rparr>)"

section \<open>The stage\<close>

fun STAGE_SEVERITY :: "security_state \<Rightarrow> severity" where
  "STAGE_SEVERITY Quarantined = SevCritical"
| "STAGE_SEVERITY s = SECURITY_STATE_SEVERITY s"

record worker_card =
  wc_id :: string
  wc_role :: string
  wc_new :: "string option"
  wc_state :: "severity \<times> string"
  wc_note :: "string option"
  wc_model :: "(string \<times> string) option"
  wc_title :: "string option"

definition provenanceTitle :: "model_provenance option \<Rightarrow> string option" where
  "provenanceTitle p = map_option (\<lambda>p. show_int (mp_calls p) @ '' call(s) to '' @ mp_endpointHost p @
     (if mp_route p \<noteq> [] then '' via the '' @ mp_route p @ '' route'' else [])) p"

definition WorkerNode :: "stage_node \<Rightarrow> model_provenance option \<Rightarrow> worker_card" where
  "WorkerNode n p =
     \<lparr>wc_id = st_id n, wc_role = st_role n, wc_new = shown (st_replaces n),
      wc_state = (STAGE_SEVERITY (st_securityState n), SECURITY_STATE_LABEL (st_securityState n)),
      wc_note = shown (if st_securityState n = Quarantined then st_quarantineReason n else st_currentTask n),
      wc_model = map_option (\<lambda>p. (mp_model p, mp_provider p)) p, wc_title = provenanceTitle p\<rparr>"

definition brokenBefore :: "stage \<Rightarrow> stage_column \<Rightarrow> bool" where
  "brokenBefore st c = (case List.find (\<lambda>d. Suc (sc_column d) = sc_column c) (sg_columns st) of
      None \<Rightarrow> False
    | Some previous \<Rightarrow> list_ex (\<lambda>n. st_securityState n = Quarantined) (sc_nodes previous))"

text \<open>A card with the drop above it, active or not, unless it is the first of its column; a column with the
  arrow into it, broken or not, unless it is the first.\<close>

definition stage_cells :: "stage \<Rightarrow> provenance_index \<Rightarrow> stage_column \<Rightarrow> (bool option \<times> worker_card) list" where
  "stage_cells st provenance c = map (\<lambda>(k, n).
     (if k = 0 then None else Some (map_get (sg_reassignments st) (st_id (sc_nodes c ! (k - 1))) = Some (st_id n)),
      WorkerNode n (map_get (pi_byWorker provenance) (st_id n)))) (enumerate 0 (sc_nodes c))"

text \<open>No columns: the empty state.\<close>

definition IncidentStage :: "stage \<Rightarrow> provenance_index \<Rightarrow> (bool option \<times> (bool option \<times> worker_card) list) list" where
  "IncidentStage st provenance = map (\<lambda>(k, c).
     (if k = 0 then None else Some (brokenBefore st c), stage_cells st provenance c)) (enumerate 0 (sg_columns st))"

section \<open>The line of models\<close>

record provenance_line =
  pl_calls :: string
  pl_chips :: "(string \<times> string \<times> string) list"
  pl_fallbacks :: "(string \<times> string) list"

definition ModelChip :: "model_provenance \<Rightarrow> string \<times> string \<times> string" where
  "ModelChip p = (mp_model p, mp_provider p, show_int (mp_calls p) @ '' call(s) to '' @ mp_endpointHost p)"

text \<open>\<open>None\<close>: the line that says no model was called.\<close>

definition ProvenanceBar :: "provenance_index \<Rightarrow> provenance_line option" where
  "ProvenanceBar provenance = (if pi_calls provenance = 0 then None
     else Some \<lparr>pl_calls = show_int (pi_calls provenance) @ '' real model call'' @ (if pi_calls provenance = 1 then [] else ''s''),
       pl_chips = map ModelChip (pi_distinct provenance),
       pl_fallbacks = map (\<lambda>f. (fr_workerId f, routeLabel (fr_route f))) (pi_fallbacks provenance)\<rparr>)"

section \<open>The header\<close>

fun RUN_STATE :: "workflow_state \<Rightarrow> string \<times> severity \<times> string" where
  "RUN_STATE WfIdle = (''Idle'', SevNeutral, ''Waiting for the swarm to start.'')"
| "RUN_STATE WfRunning = (''Running'', SevNeutral, ''The team is working.'')"
| "RUN_STATE WfUnderAttack = (''Contained'', SevCritical, ''A worker broke policy and was quarantined.'')"
| "RUN_STATE WfRecovering = (''Recovering'', SevContained, ''A replacement worker has the task.'')"
| "RUN_STATE WfRecovered = (''Recovered'', SevOk, ''The workflow finished despite the compromise.'')"
| "RUN_STATE WfFailed = (''Failed'', SevHigh, ''The workflow did not complete.'')"

definition LIVE_STATES :: "workflow_state list" where
  "LIVE_STATES = [WfRunning, WfUnderAttack, WfRecovering]"

text \<open>\<open>useElapsed\<close>: the time of the last tick, and the timer, which runs exactly while the run is live.\<close>

record elapsed_clock =
  ec_now :: int
  ec_live :: bool
  ec_armed :: bool

datatype clock_input = Rendered bool | Ticked int

definition clock_mounted :: "int \<Rightarrow> bool \<Rightarrow> elapsed_clock" where
  "clock_mounted now live = \<lparr>ec_now = now, ec_live = live, ec_armed = live\<rparr>"

fun clock_step :: "elapsed_clock \<Rightarrow> clock_input \<Rightarrow> elapsed_clock" where
  "clock_step c (Rendered live) = (if live = ec_live c then c else c\<lparr>ec_live := live, ec_armed := live\<rparr>)"
| "clock_step c (Ticked now) = (if ec_armed c then c\<lparr>ec_now := now\<rparr> else c)"

definition clock_after :: "int \<Rightarrow> bool \<Rightarrow> clock_input list \<Rightarrow> elapsed_clock" where
  "clock_after now live = foldl clock_step (clock_mounted now live)"

definition useElapsed :: "run_window \<Rightarrow> elapsed_clock \<Rightarrow> int option" where
  "useElapsed w c = elapsedMs w (ec_live c) (ec_now c)"

record header_view =
  he_state :: "string \<times> severity \<times> string"
  he_pulse :: bool
  he_model :: "(string \<times> string) + string"
  he_session :: string
  he_elapsed :: string
  he_stream :: "severity \<times> string"
  he_reset :: "string \<times> bool"

definition summary_live :: "runtime_session_summary option \<Rightarrow> bool" where
  "summary_live s = (case s of None \<Rightarrow> False | Some s \<Rightarrow> rs_workflow_state s \<in> set LIVE_STATES)"

definition RunHeader ::
  "runtime_session_summary option \<Rightarrow> provenance_index \<Rightarrow> run_window \<Rightarrow> elapsed_clock \<Rightarrow> bool \<Rightarrow> bool \<Rightarrow> header_view" where
  "RunHeader s provenance w c online resetting =
     \<lparr>he_state = RUN_STATE (case s of None \<Rightarrow> WfIdle | Some s \<Rightarrow> rs_workflow_state s), he_pulse = summary_live s,
      he_model = (case pi_primary provenance of
          Some p \<Rightarrow> Inl (mp_model p, mp_provider p)
        | None \<Rightarrow> Inr (case s of None \<Rightarrow> em_dash | Some _ \<Rightarrow> ''no model call recorded'')),
      he_session = (case s of None \<Rightarrow> em_dash | Some s \<Rightarrow> take 8 (rs_session_id s)),
      he_elapsed = formatDuration (useElapsed w c),
      he_stream = (if online then (SevOk, ''live'') else (SevNeutral, ''idle'')),
      he_reset = (if resetting then ''Resetting'' @ ellipsis else ''Reset demo'', \<not> resetting)\<rparr>"

section \<open>The evidence\<close>

definition countClass :: "string \<Rightarrow> severity" where
  "countClass label =
     (if label = ''passed'' then SevOk
      else if label = ''failed'' \<or> take 5 label = ''error'' then SevCritical else SevNeutral)"

record run_card =
  rd_phase :: string
  rd_verdict :: "severity \<times> string"
  rd_counts :: "(nat \<times> string \<times> severity) list"
  rd_text :: "string option"
  rd_command :: string
  rd_summary :: "string option"

text \<open>Where no count could be read the summary stands in their place.\<close>

definition RunCard :: "test_run \<Rightarrow> string \<Rightarrow> run_card" where
  "RunCard r phase =
     \<lparr>rd_phase = phase, rd_verdict = (if tr_passed r then (SevOk, ''Green'') else (SevCritical, ''Red'')),
      rd_counts = map (\<lambda>c. (tc_value c, tc_label c, countClass (tc_label c))) (tr_counts r),
      rd_text = (if tr_counts r = [] then Some (tr_summary r) else None),
      rd_command = or_default (tr_command r) ''pytest'',
      rd_summary = (if tr_counts r \<noteq> [] then Some (tr_summary r) else None)\<rparr>"

datatype evidence_view = NoTestRun | EvidencePair run_card "run_card option"

definition TestEvidencePanel :: "test_evidence \<Rightarrow> evidence_view" where
  "TestEvidencePanel ev = (case te_before ev of
      None \<Rightarrow> NoTestRun
    | Some before \<Rightarrow> EvidencePair (RunCard before ''Before fix'') (map_option (\<lambda>r. RunCard r ''After fix'') (te_after ev)))"

text \<open>The names of the steps are the properties of an object literal, so a step named like a member that every
  object inherits finds that member.\<close>

definition STEP_LABEL :: "(string \<times> string) list" where
  "STEP_LABEL = [(''analysis'', ''Repository analysed''), (''research'', ''Vulnerability investigated''),
     (''patch'', ''Patch applied''), (''pytest'', ''Tests run''), (''review'', ''Independently reviewed'')]"

datatype step_text = StepText string | InheritedMember string

definition step_text_of :: "string \<Rightarrow> step_text" where
  "step_text_of step = (case map_of STEP_LABEL step of
      Some label \<Rightarrow> StepText label
    | None \<Rightarrow> if step \<in> set object_prototype then InheritedMember step else StepText step)"

text \<open>No rows: nothing completed yet.\<close>

definition VerificationPanel :: "demo_verdict \<Rightarrow> (step_text \<times> string \<times> string option) list" where
  "VerificationPanel v = map (\<lambda>s. (step_text_of (cs_step s), cs_detail s, shown (cs_workerId s))) (completedSteps v)"

record artifact_row =
  aw_id :: string
  aw_trust :: "severity \<times> string"
  aw_source :: string
  aw_text :: string

definition ArtifactPanel :: "artifact_view list \<Rightarrow> artifact_row list" where
  "ArtifactPanel artifacts = map (\<lambda>a. \<lparr>aw_id = av_id a,
     aw_trust = (if av_trusted a then (SevOk, ''trusted'') else (SevCritical, ''untrusted'')),
     aw_source = av_kind a @ middle_dot @ av_worker_id a, aw_text = or_default (av_taint_reason a) (av_summary a)\<rparr>) artifacts"

section \<open>The verdict\<close>

record strip =
  vs_tone :: severity
  vs_lights :: "(string \<times> severity \<times> string) list"

definition light_severity :: "light_status \<Rightarrow> severity" where
  "light_severity st = (case st of LsLit \<Rightarrow> SevOk | LsFailed \<Rightarrow> SevCritical | LsPending \<Rightarrow> SevNeutral)"

definition VerdictStrip :: "verdict_light list \<Rightarrow> strip" where
  "VerdictStrip lights =
     (let complete = list_all (\<lambda>l. vl_status l = LsLit) lights; failed = list_ex (\<lambda>l. vl_status l = LsFailed) lights
      in \<lparr>vs_tone = (if failed then SevCritical else if complete then SevOk else SevNeutral),
          vs_lights = map (\<lambda>l. (vl_label l, light_severity (vl_status l), vl_hint l)) lights\<rparr>)"

section \<open>Before a run\<close>

datatype idle_status = IdleWaiting | IdleConnecting | IdleUnreachable

record idle_view =
  id_heading :: string
  id_severity :: severity
  id_detail :: "string option"
  id_beats :: "(string \<times> string) list"
  id_command :: "string option"

definition IDLE_BEATS :: "(string \<times> string) list" where
  "IDLE_BEATS = [(''01'', ''A real team starts work''), (''02'', ''One of them is compromised''),
     (''03'', ''The swarm routes around it'')]"

definition IdleState :: "idle_status \<Rightarrow> string option \<Rightarrow> string \<Rightarrow> idle_view" where
  "IdleState status detail command =
     \<lparr>id_heading = (case status of IdleUnreachable \<Rightarrow> ''Cannot reach the AgentShield control plane''
        | IdleConnecting \<Rightarrow> ''Attaching to the live session'' @ ellipsis | IdleWaiting \<Rightarrow> ''Ready for a live run''),
      id_severity = (if status = IdleUnreachable then SevCritical else SevNeutral),
      id_detail = (if status = IdleUnreachable then shown detail else None),
      id_beats = (if status = IdleWaiting then IDLE_BEATS else []),
      id_command = (if status = IdleWaiting then Some command else None)\<rparr>"

section \<open>The screen\<close>

definition LAUNCH_COMMAND :: string where
  "LAUNCH_COMMAND = ''python workswarm/run_demo.py''"

record run_sections =
  ru_objective :: string
  ru_stage :: "(bool option \<times> (bool option \<times> worker_card) list) list"
  ru_models :: "provenance_line option"
  ru_banner :: "banner option"
  ru_chain :: "chain_item list option"
  ru_timeline :: timeline
  ru_evidence :: evidence_view
  ru_steps :: "(step_text \<times> string \<times> string option) list"
  ru_artifacts :: "artifact_row list"
  ru_explanation :: "explanation_view option"
  ru_strip :: strip

definition run_sections_of ::
  "demo_page \<Rightarrow> runtime_session_summary \<Rightarrow> artifact_view list \<Rightarrow> timeline_view \<Rightarrow> event_feed \<Rightarrow> bool list \<Rightarrow>
   incident_explanation option \<Rightarrow> run_sections" where
  "run_sections_of d s artifacts view feed opened explanation =
     (let events = liveEvents d; provenance = deriveProvenance events; incident = deriveIncident events;
          verdict = deriveVerdict events
      in \<lparr>ru_objective = rs_objective s, ru_stage = IncidentStage (buildStage (Some s) (dm_stream d)) provenance,
          ru_models = ProvenanceBar provenance, ru_banner = AttackBanner incident,
          ru_chain = ContainmentPanel incident artifacts, ru_timeline = NarrativeTimeline view feed events,
          ru_evidence = TestEvidencePanel (deriveTestEvidence events), ru_steps = VerificationPanel verdict,
          ru_artifacts = ArtifactPanel artifacts, ru_explanation = ExplanationPanel opened explanation,
          ru_strip = VerdictStrip (verdictLights verdict)\<rparr>)"

datatype demo_screen = ScreenIdle idle_view | ScreenRun run_sections

definition demo_screen_of ::
  "demo_page \<Rightarrow> artifact_view list \<Rightarrow> timeline_view \<Rightarrow> event_feed \<Rightarrow> bool list \<Rightarrow> incident_explanation option \<Rightarrow> demo_screen" where
  "demo_screen_of d artifacts view feed opened explanation = (case demo_view_of d of
      DemoConnecting \<Rightarrow> ScreenIdle (IdleState IdleConnecting None LAUNCH_COMMAND)
    | DemoWaiting \<Rightarrow> ScreenIdle (IdleState IdleWaiting None LAUNCH_COMMAND)
    | DemoUnreachable e \<Rightarrow> ScreenIdle (IdleState IdleUnreachable (Some e) LAUNCH_COMMAND)
    | DemoRun _ _ _ \<Rightarrow> ScreenRun (run_sections_of d (the (dm_summary d)) artifacts view feed opened explanation))"

section \<open>The sections agree\<close>

text \<open>The verdict and the evidence panel are two folds of the same events. A pytest report is the same
  fact to both.\<close>

lemma pytest_result_is_run:
  "map_option (\<lambda>(passed, summary, command). (passed, or_default summary [], command)) (pytest_result e) =
   map_option (\<lambda>r. (tr_passed r, tr_summary r, tr_command r)) (test_run_of e)"
  by (simp add: pytest_result_def pytest_report_def test_run_of_def Let_def)

lemma last_pytest_result:
  "map_option (\<lambda>p. (p, or_default (testSummary (deriveVerdict es)) [], testCommand (deriveVerdict es)))
     (testsPassed (deriveVerdict es)) =
   map_option (\<lambda>r. (tr_passed r, tr_summary r, tr_command r)) (last_some (map test_run_of es))"
proof -
  have "map_option (\<lambda>(passed, summary, command). (passed, or_default summary [], command))
      (test_fields (deriveVerdict es)) =
    map_option (\<lambda>r. (tr_passed r, tr_summary r, tr_command r)) (last_some (map test_run_of es))"
    by (simp add: derived_tests pytest_result_is_run flip: last_some_map_option)
  then show ?thesis by (simp add: test_fields_def option.map_comp comp_def)
qed

lemma tests_passed_last_run: "testsPassed (deriveVerdict es) = map_option tr_passed (last_some (map test_run_of es))"
  using arg_cong[OF last_pytest_result[of es], of "map_option fst"] by (simp add: option.map_comp comp_def option.map_ident)

lemma incident_detected: "in_detected (deriveIncident es) \<longleftrightarrow> (\<exists>e \<in> set es. e_event_type e = POLICY_VIOLATION)"
  by (simp add: deriveIncident_scanned incident_of_def find_request_fields scanned_def detected.flag_fold)
    (simp add: initial_scan_def)

text \<open>The card of the last run that is shown.\<close>

fun latest_card :: "evidence_view \<Rightarrow> run_card option" where
  "latest_card NoTestRun = None"
| "latest_card (EvidencePair before None) = Some before"
| "latest_card (EvidencePair before (Some after)) = Some after"

lemma latest_card_verdict:
  "map_option (snd \<circ> rd_verdict) (latest_card (TestEvidencePanel (deriveTestEvidence es))) =
   map_option (\<lambda>r. if tr_passed r then ''Green'' else ''Red'') (last_some (map test_run_of es))"
proof -
  let ?rs = "foldl push_run [] es"
  have last: "last_some (map test_run_of es) = (if ?rs = [] then None else Some (last ?rs))"
    by (simp add: last_some_map_filter runs.log_fold)
  show ?thesis
  proof (cases ?rs rule: rev_cases)
    case Nil
    then show ?thesis by (simp add: last deriveTestEvidence_def Let_def EMPTY_TEST_EVIDENCE_def TestEvidencePanel_def)
  next
    case (snoc rs r)
    then show ?thesis
      by (cases rs) (auto simp: last deriveTestEvidence_def Let_def TestEvidencePanel_def RunCard_def nth_append)
  qed
qed

lemma strip_tone:
  "vs_tone (VerdictStrip (verdictLights v)) =
     (if testsPassed v = Some False then SevCritical
      else if attackDetected v \<and> agentQuarantined v \<and> workflowRecovered v \<and> testsPassed v = Some True then SevOk
      else SevNeutral)"
  by (auto simp: VerdictStrip_def verdictLights_def Let_def)

text \<open>C31. The sections of the run screen tell one story. The banner and the containment chain are there exactly
  when a violation is among the events; the strip is red exactly when the newest test card is, and green
  exactly when a violation, a quarantine and a recovery are on record and the newest test card is green.\<close>

theorem demo_sections_agree:
  "let r = run_sections_of d s artifacts view feed opened explanation;
       saw = (\<lambda>ty. \<exists>e \<in> set (liveEvents d). e_event_type e = ty);
       card = (\<lambda>word. \<exists>c. latest_card (ru_evidence r) = Some c \<and> snd (rd_verdict c) = word) in
    (ru_banner r \<noteq> None \<longleftrightarrow> saw POLICY_VIOLATION) \<and> (ru_chain r \<noteq> None \<longleftrightarrow> saw POLICY_VIOLATION) \<and>
    (vs_tone (ru_strip r) = SevCritical \<longleftrightarrow> card ''Red'') \<and>
    (vs_tone (ru_strip r) = SevOk \<longleftrightarrow>
       saw POLICY_VIOLATION \<and> saw AGENT_QUARANTINED \<and> saw WORKFLOW_RECOVERED \<and> card ''Green'')"
proof -
  let ?es = "liveEvents d"
  let ?ev = "TestEvidencePanel (deriveTestEvidence ?es)"
  have card: "(\<exists>c. latest_card ?ev = Some c \<and> snd (rd_verdict c) = word) \<longleftrightarrow>
      map_option (snd \<circ> rd_verdict) (latest_card ?ev) = Some word" for word
    by auto
  show ?thesis
    by (cases "last_some (map test_run_of ?es)")
      (simp_all add: run_sections_of_def Let_def card latest_card_verdict strip_tone tests_passed_last_run derived_flags
        AttackBanner_def ContainmentPanel_def incident_detected)
qed

section \<open>Arrows and drops\<close>

lemma stage_columns:
  assumes "c \<in> set (sg_columns (stage_of ns))"
  shows "set (sc_nodes c) = {n \<in> set ns. st_column n = sc_column c}"
proof -
  have "(sc_column c, sc_nodes c) \<in> set (column_nodes (stage_of ns))" using assms by (auto simp: column_nodes_def)
  then have "mset (sc_nodes c) = mset (filter (\<lambda>n. st_column n = sc_column c) ns)"
    using stage_partition[of ns] by (auto simp: Let_def)
  from mset_eq_setD[OF this] show ?thesis by auto
qed

lemma stage_column_exists:
  assumes "n \<in> set ns"
  shows "\<exists>c \<in> set (sg_columns (stage_of ns)). sc_column c = st_column n"
proof -
  have "st_column n \<in> set (map fst (column_nodes (stage_of ns)))"
    using stage_partition[of ns] assms by (auto simp: Let_def)
  then show ?thesis by (auto simp: column_nodes_def)
qed

text \<open>The arrow into a column is drawn interrupted exactly when a worker one step up the chain is in
  quarantine.\<close>

theorem arrow_broken_by_quarantine:
  "brokenBefore (stage_of ns) c \<longleftrightarrow> (\<exists>n \<in> set ns. Suc (st_column n) = sc_column c \<and> st_securityState n = Quarantined)"
proof (cases "List.find (\<lambda>d. Suc (sc_column d) = sc_column c) (sg_columns (stage_of ns))")
  case None
  then have "\<forall>n \<in> set ns. Suc (st_column n) \<noteq> sc_column c"
    using stage_column_exists by (fastforce simp: find_None_iff)
  with None show ?thesis by (auto simp: brokenBefore_def)
next
  case (Some d)
  then have d: "d \<in> set (sg_columns (stage_of ns))" "Suc (sc_column d) = sc_column c" by (auto simp: find_Some_iff)
  have "(\<exists>n \<in> set (sc_nodes d). st_securityState n = Quarantined) \<longleftrightarrow>
      (\<exists>n \<in> set ns. Suc (st_column n) = sc_column c \<and> st_securityState n = Quarantined)"
    unfolding stage_columns[OF d(1)] using d(2) by (metis (mono_tags, lifting) mem_Collect_eq nat.inject)
  with Some show ?thesis by (simp add: brokenBefore_def list_ex_iff)
qed

lemma reassignments_last:
  "map_get (sg_reassignments (stage_of ns)) a =
     (if a = [] then None else last_some (map (\<lambda>n. if st_replaces n = Some a then Some (st_id n) else None) ns))"
proof -
  have "map_get (foldl (\<lambda>m n. if truthy (st_replaces n) then map_set m (the (st_replaces n)) (st_id n) else m) [] ns) a =
      (if a = [] then None else last_some (map (\<lambda>n. if st_replaces n = Some a then Some (st_id n) else None) ns))"
    by (induction ns rule: rev_induct) (auto simp: last_some_append truthy_iff)
  then show ?thesis by (simp add: stage_of_def)
qed

definition demo_node :: "string \<Rightarrow> security_state \<Rightarrow> string option \<Rightarrow> nat \<Rightarrow> stage_node" where
  "demo_node i state r k = \<lparr>st_id = i, st_role = i, st_securityState = state, st_currentTask = None,
     st_quarantineReason = None, st_replaces = r, st_modelBacked = False, st_column = k\<rparr>"

text \<open>Which worker's output crossed does not matter: the arrow stays interrupted after a replacement, in the same
  column, has handed its work on.\<close>

theorem arrow_broken_after_reroute:
  "brokenBefore (stage_of [demo_node ''a'' Quarantined None 0, demo_node ''b'' Healthy (Some ''a'') 0,
     demo_node ''c'' Healthy None 1]) \<lparr>sc_column = 1, sc_nodes = [demo_node ''c'' Healthy None 1]\<rparr>"
  by (simp add: arrow_broken_by_quarantine demo_node_def)

text \<open>The label of a drop does not depend on whether there was a reassignment: two workers of the same depth
  are joined by one.\<close>

theorem drop_without_reassignment:
  assumes "c = \<lparr>sc_column = 0, sc_nodes = [demo_node ''a'' Healthy None 0, demo_node ''b'' Healthy None 0]\<rparr>"
  shows "map fst (stage_cells (stage_of (sc_nodes c)) ix c) = [None, Some False]"
  by (simp add: assms stage_cells_def reassignments_last enumerate_eq_zip demo_node_def)

section \<open>The containment chain\<close>

text \<open>The first links are not tied to their events: with a violation and nothing else on record the chain
  already reads as quarantined and reassigned, while the light of the quarantine is pending.\<close>

theorem chain_ahead_of_events:
  assumes "e_event_type e = POLICY_VIOLATION"
  shows "(\<exists>a b links. ContainmentPanel (deriveIncident [e]) artifacts =
      Some (ChainLink a # links) \<and> cl_badge a = ''Quarantined'' \<and> ChainConnector ''task reassigned'' SevContained \<in> set links) \<and>
    vl_status (verdictLights (deriveVerdict [e]) ! 1) = LsPending"
  using assms by (auto simp: ContainmentPanel_def incident_detected Let_def verdictLights_def derived_flags)

text \<open>The badge counts the ids of the quarantine event, the list names the untrusted artifacts of the session
  summary, and nothing relates the two.\<close>

theorem tainted_count_and_list:
  assumes "in_detected i"
  shows "\<exists>a b c d. ContainmentPanel i artifacts = Some [a, b, ChainLink \<lparr>cl_severity = SevCritical, cl_title = ''Tainted output'',
      cl_subtitle = None, cl_badge = artifact_count (length (in_taintedArtifactIds i)),
      cl_body = (if \<exists>a \<in> set artifacts. \<not> av_trusted a
        then TaintedIds (map av_id (filter (\<lambda>a. \<not> av_trusted a) artifacts)) else NothingTainted)\<rparr>, c, d]"
  using assms by (auto simp: ContainmentPanel_def Let_def filter_empty_conv)

section \<open>The story follows its end\<close>

definition at_end :: "scroller \<Rightarrow> bool" where
  "at_end s \<longleftrightarrow> sl_top s = max 0 (sl_height s - sl_client s)"

text \<open>A reader at the end stays at the end while the beats that arrive together are at most 120 pixels
  high, is left behind by a higher batch, and a reader who has scrolled up is never moved.\<close>

theorem story_follows:
  assumes "0 \<le> grown" and "0 \<le> sl_client s" and "sl_client s \<le> sl_height s"
  shows "at_end s \<Longrightarrow> at_end (beats_added s grown) \<longleftrightarrow> grown \<le> 120"
    and "120 < sl_height s - sl_top s - sl_client s \<Longrightarrow> sl_top (beats_added s grown) = sl_top s"
  using assms by (auto simp: at_end_def beats_added_def follow_latest_def scroll_to_def)

section \<open>The clock of the header\<close>

lemma clock_armed: "ec_armed (clock_after now live xs) = ec_live (clock_after now live xs)"
proof -
  have "ec_armed c = ec_live c \<Longrightarrow> ec_armed (clock_step c x) = ec_live (clock_step c x)" for c x by (cases x) auto
  then have "ec_armed c = ec_live c \<Longrightarrow> ec_armed (foldl clock_step c xs) = ec_live (foldl clock_step c xs)" for c
    by (induction xs arbitrary: c) auto
  then show ?thesis by (simp add: clock_after_def clock_mounted_def)
qed

text \<open>A tick shows the time since the first event, never less than nought, while the run is live; the clock stands
  still once the run is over, at the distance of its first and last event.\<close>

theorem header_clock:
  assumes "c = clock_after now live xs"
  shows "useElapsed w (clock_step c (Ticked t)) =
    (case startedAt w of None \<Rightarrow> None
     | Some a \<Rightarrow> Some (max 0 ((if ec_live c then t else or_default (lastEventAt w) a) - a)))"
  using clock_armed[of now live xs] by (auto simp: assms useElapsed_def elapsedMs_def split: option.split)

text \<open>The window is that of the events on the screen, the last two hundred. Once the first event has left it
  the clock no longer counts from the start of the run.\<close>

theorem clock_forgets_start:
  assumes "reduce_all (reduce_snapshot initialGraphState f) (map EventFrame (e # es)) = Inr (dm_stream d)"
    and "demo_session d = Some (sf_experiment_id f)" and "sf_experiment_id f \<noteq> []"
    and "200 \<le> length es" and "dp (e_wall_time e) = Some t" and "\<forall>e \<in> set es. \<exists>u > t. dp (e_wall_time e) = Some u"
  shows "startedAt (runWindow dp (e # es)) = Some t \<and> (\<exists>u > t. startedAt (runWindow dp (liveEvents d)) = Some u)"
proof -
  have live: "liveEvents d = last_n 200 es"
    using lights_of_recent_events[OF assms(1-3)] assms(4)
    by (simp add: last_n_def drop_Cons' Suc_diff_le)
  have later: "\<forall>u \<in> set (instants dp vs). t < u" if "set vs \<subseteq> set es" for vs
    using that assms(6) by (fastforce simp: instants_def List.map_filter_def)
  have "instants dp (e # es) = t # instants dp es" using assms(5) by (simp add: instants_def map_filter_simps)
  moreover have "Min (insert t (set (instants dp es))) = t"
    using later[of es] by (intro Min_eqI) (auto intro: less_imp_le)
  ultimately have whole: "startedAt (runWindow dp (e # es)) = Some t" by (simp add: runWindow_of window_of_def)
  have "last_n 200 es \<noteq> []" using assms(4) by (cases es) (auto simp: last_n_def)
  then obtain v vs where "last_n 200 es = v # vs" by (cases "last_n 200 es") auto
  then have some: "instants dp (last_n 200 es) \<noteq> []"
    using assms(6) set_last_n[of 200 es] by (fastforce simp: instants_def map_filter_simps)
  then have "startedAt (runWindow dp (liveEvents d)) = Some (Min (set (instants dp (last_n 200 es))))"
    by (simp add: live runWindow_of window_of_def)
  moreover have "t < Min (set (instants dp (last_n 200 es)))"
    using some later[OF set_last_n[of 200 es]] by simp
  ultimately show ?thesis using whole by blast
qed

end
