(* ===== verification/UI_Kit.thy ===== *)
theory UI_Kit
  imports Configurator Event_Folds
begin

text \<open>
  The controls the screens are built from: \<open>frontend/src/components/ui/Field.tsx\<close>, the segmented control of
  \<open>ui/Button.tsx\<close>, the badges of \<open>ui/Badge.tsx\<close> and two helpers, as what they show and what they hand to their callback
  when the browser reports a change. \<open>Number\<close> is written out for the texts a number input can hold. The
  classes and the markup around the controls are left out.
\<close>

section \<open>Reading a number\<close>

definition signed_part :: "string \<Rightarrow> bool \<times> string" where
  "signed_part s = (case s of c # t \<Rightarrow> if c = CHR ''-'' then (True, t) else if c = CHR ''+'' then (False, t) else (False, s)
     | [] \<Rightarrow> (False, []))"

definition exponent_of :: "string \<Rightarrow> int option" where
  "exponent_of s = (case s of
      [] \<Rightarrow> Some 0
    | c # t \<Rightarrow> (case signed_part t of (neg, ds) \<Rightarrow>
        if c \<in> {CHR ''e'', CHR ''E''} \<and> ds \<noteq> [] \<and> list_all is_digit ds
        then Some ((if neg then -1 else 1) * int (digits_value ds)) else None))"

definition fraction_part :: "string \<Rightarrow> string \<times> string" where
  "fraction_part s = (case s of c # t \<Rightarrow> if c = CHR ''.'' then (takeWhile is_digit t, dropWhile is_digit t) else ([], s)
     | [] \<Rightarrow> ([], []))"

text \<open>\<open>Number(text)\<close>: nothing is nought; a sign, digits with at most one point, and an exponent are the number
  they read as; the rest is not a number.\<close>

definition js_number :: "string \<Rightarrow> jsnum" where
  "js_number s = (if s = [] then Fin 0 else
     case signed_part s of (neg, r) \<Rightarrow> case fraction_part (dropWhile is_digit r) of (decimals, rest) \<Rightarrow>
       (let ds = takeWhile is_digit r @ decimals
        in if ds = [] then NaN else case exponent_of rest of
            None \<Rightarrow> NaN
          | Some k \<Rightarrow> Fin ((if neg then -1 else 1) * (of_nat (digits_value ds) * 10 powi (k - int (length decimals))))))"

section \<open>Fields\<close>

text \<open>The change of a number field hands over the number of its text; of the others the value picked.\<close>

definition number_change :: "bool \<Rightarrow> string \<Rightarrow> jsnum option" where
  "number_change disabled text = (if disabled then None else Some (js_number text))"

definition select_change :: "bool \<Rightarrow> (string \<times> string) list \<Rightarrow> string \<Rightarrow> string option" where
  "select_change disabled options value = (if disabled \<or> value \<notin> set (map fst options) then None else Some value)"

definition toggle_change :: "bool \<Rightarrow> bool \<Rightarrow> bool option" where
  "toggle_change disabled checked = (if disabled then None else Some (\<not> checked))"

definition ChipMultiSelect :: "(string \<times> string) list \<Rightarrow> string list \<Rightarrow> (string \<times> bool) list" where
  "ChipMultiSelect options selected = map (\<lambda>(value, label). (label, value \<in> set selected)) options"

definition chip_press :: "bool \<Rightarrow> (string \<times> string) list \<Rightarrow> nat \<Rightarrow> string option" where
  "chip_press disabled options k = (if disabled \<or> length options \<le> k then None else Some (fst (options ! k)))"

section \<open>The segmented control\<close>

datatype press_kind = ByPointer | ByKeyboard

definition SegmentedControl :: "'a \<Rightarrow> ('a \<times> string) list \<Rightarrow> (string \<times> bool) list" where
  "SegmentedControl value options = map (\<lambda>(v, label). (label, v = value)) options"

text \<open>Disabled, it takes no pointer events; its buttons stay enabled.\<close>

definition segment_press :: "bool \<Rightarrow> ('a \<times> string) list \<Rightarrow> press_kind \<Rightarrow> nat \<Rightarrow> 'a option" where
  "segment_press disabled options how k =
     (if length options \<le> k \<or> disabled \<and> how = ByPointer then None else Some (fst (options ! k)))"

section \<open>Badges\<close>

record badge =
  bd_severity :: severity
  bd_pulse :: bool
  bd_text :: string

definition SecurityStateBadge :: "security_state \<Rightarrow> badge" where
  "SecurityStateBadge st = \<lparr>bd_severity = SECURITY_STATE_SEVERITY st, bd_pulse = False, bd_text = SECURITY_STATE_LABEL st\<rparr>"

definition RunStatusBadge :: "control_status \<Rightarrow> badge" where
  "RunStatusBadge st = \<lparr>bd_severity = RUN_STATUS_SEVERITY st, bd_pulse = (st = CsRunning), bd_text = RUN_STATUS_LABEL st\<rparr>"

section \<open>Classes and sizes\<close>

text \<open>\<open>lib/cn.ts\<close> joins what is not falsy; \<open>lib/useElementSize.ts\<close> keeps the last box that was observed, and sets
  its state, which renders again, only for another size.\<close>

definition cn :: "string option list \<Rightarrow> string" where
  "cn parts = join '' '' (map the (filter truthy parts))"

record box_size =
  bx_width :: rat
  bx_height :: rat

definition size_observed :: "box_size \<times> nat \<Rightarrow> box_size option \<Rightarrow> box_size \<times> nat" where
  "size_observed s entry = (case entry of None \<Rightarrow> s | Some b \<Rightarrow> if fst s = b then s else (b, Suc (snd s)))"

definition useElementSize :: "box_size option list \<Rightarrow> box_size \<times> nat" where
  "useElementSize entries = foldl size_observed (\<lparr>bx_width = 0, bx_height = 0\<rparr>, 0) entries"

section \<open>Typing into the form\<close>

text \<open>A number field of the run configurator: what it shows, and the change that a text makes. Only whole
  numbers are printed here.\<close>

definition field_text :: "configurator \<Rightarrow> string \<Rightarrow> string" where
  "field_text s key = (case map_get (cf_draft s) key of Some (JNum (Fin q)) \<Rightarrow> show_int \<lfloor>q\<rfloor> | _ \<Rightarrow> [])"

definition type_text :: "configurator \<Rightarrow> string \<Rightarrow> string \<Rightarrow> configurator" where
  "type_text s key text = form_step s (EnterNumber key (js_number text))"

text \<open>The field is controlled: a key is typed after what the field shows.\<close>

definition type_key :: "configurator \<Rightarrow> string \<Rightarrow> char \<Rightarrow> configurator" where
  "type_key s key c = type_text s key (field_text s key @ [c])"

section \<open>Properties\<close>

lemma takeWhile_all_digits: "takeWhile is_digit (show_nat n) = show_nat n" "dropWhile is_digit (show_nat n) = []"
  using show_nat_digits by (auto simp: takeWhile_eq_all_conv dropWhile_eq_Nil_conv)

lemma signed_show_nat: "signed_part (show_nat n) = (False, show_nat n)"
proof -
  obtain c t where s: "show_nat n = c # t" using show_nat_nonempty by (cases "show_nat n") blast
  then have "is_digit c" using show_nat_digits[of c n] by simp
  then have "c \<noteq> CHR ''-''" "c \<noteq> CHR ''+''" by (auto simp: is_digit_def)
  then show ?thesis by (simp add: signed_part_def s)
qed

lemma js_number_show_nat [simp]: "js_number (show_nat n) = Fin (of_nat n)"
  by (simp add: js_number_def signed_show_nat takeWhile_all_digits fraction_part_def exponent_of_def)

lemma form_number:
  assumes "control_for s key = Some c" and "fc_kind c = NumberControl True" and "map_of BOUNDS key = Some (lo, hi)"
  shows "map_get (cf_draft (type_text s key text)) key = Some (JNum (clamp (math_trunc (js_number text)) lo hi))"
  using assms by (simp add: type_text_def setNumber_def set_field_def)

text \<open>What is typed is what is kept: the digits of a whole number within the bounds of an enabled field put exactly
  that number into the configuration, and the field then reads it back.\<close>

theorem typed_number_kept:
  assumes "control_for s key = Some c" and "fc_kind c = NumberControl True" and "map_of BOUNDS key = Some (lo, hi)"
    and "lo \<le> of_nat n" and "of_nat n \<le> hi"
  shows "map_get (cf_draft (type_text s key (show_nat n))) key = Some (JNum (Fin (of_nat n))) \<and>
    field_text (type_text s key (show_nat n)) key = show_nat n"
proof -
  have "clamp (Fin (of_nat n)) lo hi = Fin (of_nat n)"
    using assms(4,5) by (simp add: clamp_def math_min_def math_max_def)
  then show ?thesis by (simp add: form_number[OF assms(1-3)] field_text_def show_int_def)
qed

theorem typed_number_kept_witness:
  "field_text (type_text (initial_configurator DEFAULT_CONFIG) ''tool_count'' (show_nat 7)) ''tool_count'' = show_nat 7"
proof -
  let ?c = "surface_controls DEFAULT_CONFIG False ! 0"
  have c: "control_for (initial_configurator DEFAULT_CONFIG) ''tool_count'' = Some ?c" "fc_kind ?c = NumberControl True"
    "map_of BOUNDS ''tool_count'' = Some (0, 20)"
    by code_simp+
  show ?thesis using typed_number_kept[OF c, of 7] by simp
qed

text \<open>An emptied field is a field with its lower bound: \<open>Number("")\<close> is nought and is clamped at once.\<close>

theorem emptied_field_holds_minimum:
  assumes "control_for s key = Some c" and "fc_kind c = NumberControl True" and "map_of BOUNDS key = Some (lo, hi)"
    and "0 \<le> lo" and "lo \<le> hi"
  shows "map_get (cf_draft (type_text s key [])) key = Some (JNum (Fin lo))"
  using assms(4,5) by (simp add: form_number[OF assms(1-3)] js_number_def clamp_def math_min_def math_max_def)

text \<open>Every key is clamped, so eighty agents cannot be typed: over the selected text an 8 becomes 25, and the 0
  after it makes 250, which becomes 100.\<close>

theorem eighty_agents_cannot_be_typed:
  "let s = type_text (initial_configurator DEFAULT_CONFIG) ''node_count'' ''8''
   in map_get (cf_draft s) ''node_count'' = Some (JNum (Fin 25)) \<and>
      map_get (cf_draft (type_key s ''node_count'' (CHR ''0''))) ''node_count'' = Some (JNum (Fin 100))"
  by code_simp

text \<open>With options of different values one segment is on when the value is among them and none otherwise.\<close>

theorem one_segment_on:
  assumes "distinct (map fst options)"
  shows "length (filter snd (SegmentedControl value options)) = (if value \<in> fst ` set options then 1 else 0)"
proof -
  have "length (filter (\<lambda>o'. fst o' = value) options) = (if value \<in> fst ` set options then 1 else 0)"
    using assms by (induction options) auto
  then show ?thesis by (simp add: SegmentedControl_def filter_map comp_def split_beta)
qed

text \<open>A disabled segmented control still answers the keyboard.\<close>

theorem disabled_segments_answer_keyboard:
  "k < length options \<Longrightarrow> segment_press True options ByPointer k = None \<and>
     segment_press True options ByKeyboard k = segment_press False options ByKeyboard k \<and>
     segment_press True options ByKeyboard k \<noteq> None"
  by (simp add: segment_press_def)

text \<open>The size is that of the last box observed, and repeating it does not render again.\<close>

theorem size_of_last_box:
  "fst (useElementSize entries) = or_default (last_some entries) \<lparr>bx_width = 0, bx_height = 0\<rparr> \<and>
   (last_some entries = Some b \<longrightarrow> useElementSize (entries @ replicate n (Some b)) = useElementSize entries)"
proof -
  have size: "fst (useElementSize es) = or_default (last_some es) \<lparr>bx_width = 0, bx_height = 0\<rparr>" for es
    by (induction es rule: rev_induct) (auto simp: useElementSize_def size_observed_def last_some_append split: option.split)
  have "fst s = b \<Longrightarrow> foldl size_observed s (replicate n (Some b)) = s" for s
    by (induction n) (simp_all add: size_observed_def)
  then have "last_some entries = Some b \<Longrightarrow> useElementSize (entries @ replicate n (Some b)) = useElementSize entries"
    using size[of entries] by (simp add: useElementSize_def)
  with size show ?thesis by blast
qed

end
