(* ===== verification/Canvas_Live.thy ===== *)
theory Canvas_Live
  imports Workspace
begin

text \<open>
  \<open>frontend/src/components/graph/TopologyGraph.tsx\<close> as a component, and \<open>TopologyWorkspace.tsx\<close> around it: the ref
  the render callbacks read, the effects of a commit, the events of the renderer, and the workspace that mounts the
  canvas, passes its props and takes its selections. It builds on the graph (\<open>Graph_Canvas\<close>), the models of a run
  (\<open>Graph_Model\<close>, \<open>Stream_Reducer\<close>) and the state of the workspace (\<open>Workspace\<close>). The renderer, sigma, is the
  source of the events; the layout package stays an argument.
\<close>

section \<open>The component\<close>

record graph_props =
  gp_model :: topology_model
  gp_layers :: "edge_layer list"
  gp_selectedId :: "string option"
  gp_highlightPath :: "string list option"
  gp_focusIds :: "string list option"

text \<open>What a mounted component holds besides its props: the graph of the build effect, the ref \<open>liveRef\<close>, and the
  cursor it has set on its container.\<close>

record topology_graph =
  tg_canvas :: canvas
  tg_live :: canvas_live
  tg_cursor :: string

definition initial_live :: "graph_props \<Rightarrow> canvas_live" where
  "initial_live p = \<lparr>lv_nodes = tm_nodes (gp_model p), lv_layers = gp_layers p, lv_selectedId = gp_selectedId p,
     lv_hoveredId = None, lv_pathIds = [], lv_focusIds = None\<rparr>"

definition sync_model :: "topology_model \<Rightarrow> canvas_live \<Rightarrow> canvas_live" where
  "sync_model model live = live\<lparr>lv_nodes := tm_nodes model\<rparr>"

definition sync_view :: "graph_props \<Rightarrow> canvas_live \<Rightarrow> canvas_live" where
  "sync_view p live = live\<lparr>lv_layers := gp_layers p, lv_selectedId := gp_selectedId p,
     lv_pathIds := or_default (gp_highlightPath p) [], lv_focusIds := gp_focusIds p\<rparr>"

text \<open>The effects of a commit, in their order: build, colours, view.\<close>

definition commit_graph ::
  "(string \<Rightarrow> string \<Rightarrow> int) \<Rightarrow> force_layout \<Rightarrow> graph_props \<Rightarrow> topology_graph \<Rightarrow> topology_graph option" where
  "commit_graph localeCompare force p g =
     map_option (\<lambda>c. g\<lparr>tg_canvas := c, tg_live := sync_view p (sync_model (gp_model p) (tg_live g))\<rparr>)
       (canvas_render localeCompare force (tg_canvas g) (gp_model p))"

definition mount_graph ::
  "(string \<Rightarrow> string \<Rightarrow> int) \<Rightarrow> force_layout \<Rightarrow> graph_props \<Rightarrow> topology_graph option" where
  "mount_graph localeCompare force p =
     commit_graph localeCompare force p \<lparr>tg_canvas = blank_canvas, tg_live = initial_live p, tg_cursor = []\<rparr>"

datatype canvas_event = ClickNode string | ClickStage | EnterNode string | LeaveNode

definition on_canvas :: "topology_graph \<Rightarrow> string \<Rightarrow> bool" where
  "on_canvas g i \<longleftrightarrow> (case cs_graph (tg_canvas g) of None \<Rightarrow> False | Some c \<Rightarrow> i \<in> set (map cn_id (cv_nodes c)))"

text \<open>What an event does to the component, and the argument of the call of \<open>onSelect\<close> if it makes one. A renderer
  speaks of the nodes of its graph, and there is none without a graph.\<close>

fun graph_event :: "topology_graph \<Rightarrow> canvas_event \<Rightarrow> topology_graph \<times> string option option" where
  "graph_event g (ClickNode i) = (g, if on_canvas g i then Some (Some i) else None)"
| "graph_event g ClickStage = (g, if cs_graph (tg_canvas g) = None then None else Some None)"
| "graph_event g (EnterNode i) =
     (if on_canvas g i then g\<lparr>tg_live := (tg_live g)\<lparr>lv_hoveredId := Some i\<rparr>, tg_cursor := ''pointer''\<rparr> else g, None)"
| "graph_event g LeaveNode =
     (if cs_graph (tg_canvas g) = None then g
      else g\<lparr>tg_live := (tg_live g)\<lparr>lv_hoveredId := None\<rparr>, tg_cursor := ''default''\<rparr>, None)"

section \<open>The workspace around it\<close>

record view_data =
  vd_graph :: "security_graph_view option"
  vd_stream :: graph_state
  vd_blastRadius :: "blast_radius_response option"
  vd_loading :: bool

text \<open>\<open>next/dynamic\<close> shows a spinner until the module of the canvas has been loaded.\<close>

record investigation =
  in_workspace :: workspace
  in_data :: view_data
  in_loaded :: bool
  in_canvas :: "topology_graph option"

definition in_model :: "investigation \<Rightarrow> topology_model" where
  "in_model v = buildTopologyModel (vd_graph (in_data v)) (vd_stream (in_data v))"

definition canvas_props :: "investigation \<Rightarrow> graph_props" where
  "canvas_props v = (let w = in_workspace v
     in \<lparr>gp_model = in_model v, gp_layers = ws_layers w, gp_selectedId = ws_selectedId w, gp_highlightPath = ws_path w,
         gp_focusIds = focusIds (ws_focus w) (vd_blastRadius (in_data v))\<rparr>)"

definition shows_canvas :: "investigation \<Rightarrow> bool" where
  "shows_canvas v \<longleftrightarrow> in_loaded v \<and> graph_area_of (vd_loading (in_data v)) (in_model v) = AreaCanvas"

text \<open>A render of the workspace mounts, updates or unmounts the canvas.\<close>

definition commit_workspace ::
  "(string \<Rightarrow> string \<Rightarrow> int) \<Rightarrow> force_layout \<Rightarrow> investigation \<Rightarrow> investigation option" where
  "commit_workspace localeCompare force v =
     (if shows_canvas v
      then map_option (\<lambda>g. v\<lparr>in_canvas := Some g\<rparr>)
        (case in_canvas v of
            None \<Rightarrow> mount_graph localeCompare force (canvas_props v)
          | Some g \<Rightarrow> commit_graph localeCompare force (canvas_props v) g)
      else Some (v\<lparr>in_canvas := None\<rparr>))"

datatype investigation_input =
    OnPanel workspace_input
  | OnCanvas canvas_event
  | RendererLoaded
  | DataArrived view_data

fun take_input :: "investigation \<Rightarrow> investigation_input \<Rightarrow> investigation" where
  "take_input v (OnPanel x) = v\<lparr>in_workspace := workspace_step (in_workspace v) x\<rparr>"
| "take_input v (OnCanvas e) = (case in_canvas v of
      None \<Rightarrow> v
    | Some g \<Rightarrow> (case graph_event g e of (g', call) \<Rightarrow>
        v\<lparr>in_canvas := Some g',
          in_workspace := (case call of None \<Rightarrow> in_workspace v | Some i \<Rightarrow> select_node (in_workspace v) i)\<rparr>))"
| "take_input v RendererLoaded = v\<lparr>in_loaded := True\<rparr>"
| "take_input v (DataArrived d) = v\<lparr>in_data := d\<rparr>"

definition investigation_step ::
  "(string \<Rightarrow> string \<Rightarrow> int) \<Rightarrow> force_layout \<Rightarrow> investigation \<Rightarrow> investigation_input \<Rightarrow> investigation option" where
  "investigation_step localeCompare force v x = commit_workspace localeCompare force (take_input v x)"

fun investigate ::
  "(string \<Rightarrow> string \<Rightarrow> int) \<Rightarrow> force_layout \<Rightarrow> investigation \<Rightarrow> investigation_input list \<Rightarrow> investigation option" where
  "investigate localeCompare force v [] = Some v"
| "investigate localeCompare force v (x # xs) = (case investigation_step localeCompare force v x of
     None \<Rightarrow> None | Some v' \<Rightarrow> investigate localeCompare force v' xs)"

definition initial_investigation :: "view_data \<Rightarrow> investigation" where
  "initial_investigation d = \<lparr>in_workspace = initial_workspace, in_data = d, in_loaded = False, in_canvas = None\<rparr>"

section \<open>The structure of a run\<close>

text \<open>What does not change during a run: its agents and their kinds, the links of the snapshot, and the nodes and edges of
  the security graph.\<close>

record run_shape =
  rs_agents :: "(string \<times> agent_kind) list"
  rs_links :: "edge_view list"
  rs_nodes :: "(string \<times> string \<times> json option) list"
  rs_edges :: "graph_edge_view list"

definition kinds_of :: "node_view list \<Rightarrow> (string \<times> agent_kind) list" where
  "kinds_of ns = map (\<lambda>n. (nv_id n, nv_agent_kind n)) ns"

definition node_shapes :: "security_graph_view \<Rightarrow> (string \<times> string \<times> json option) list" where
  "node_shapes g = map (\<lambda>n. (gn_id n, gn_node_type n, map_of (gn_attrs n) ''agent_kind'')) (sg_nodes g)"

definition frame_of_run :: "string \<Rightarrow> run_shape \<Rightarrow> stream_frame \<Rightarrow> bool" where
  "frame_of_run run R f = (case f of
      EventFrame e \<Rightarrow> True
    | SnapshotFrame s \<Rightarrow> sf_experiment_id s = run \<and> kinds_of (sf_nodes s) = rs_agents R \<and> sf_edges s = rs_links R)"

definition graph_of_run :: "run_shape \<Rightarrow> security_graph_view \<Rightarrow> bool" where
  "graph_of_run R g \<longleftrightarrow> node_shapes g = rs_nodes R \<and> sg_edges g = rs_edges R"

text \<open>The data of a run: a stream folded from its frames, and a graph of it, once one has been polled.\<close>

definition data_of_run :: "string \<Rightarrow> run_shape \<Rightarrow> view_data \<Rightarrow> bool" where
  "data_of_run run R d \<longleftrightarrow>
     (\<exists>frames. list_all (frame_of_run run R) frames \<and> reduce_all initialGraphState frames = Inr (vd_stream d)) \<and>
     (case vd_graph d of None \<Rightarrow> True | Some g \<Rightarrow> graph_of_run R g)"

definition input_of_run :: "string \<Rightarrow> run_shape \<Rightarrow> investigation_input \<Rightarrow> bool" where
  "input_of_run run R x = (case x of DataArrived d \<Rightarrow> data_of_run run R d | _ \<Rightarrow> True)"

text \<open>The kinds a node map holds, by key. An event replaces nodes by nodes of the same kind; a snapshot indexes its own.\<close>

definition kinds_in :: "(string, node_view) jsmap \<Rightarrow> (string, agent_kind) jsmap" where
  "kinds_in m = map (map_prod id nv_agent_kind) m"

definition index_kinds :: "(string \<times> agent_kind) list \<Rightarrow> (string, agent_kind) jsmap" where
  "index_kinds ks = fold (\<lambda>(i, k) m. map_set m i k) ks []"

lemma kinds_in_get [simp]: "map_get (kinds_in m) k = map_option nv_agent_kind (map_get m k)"
  by (induction m) (auto simp: kinds_in_def)

lemma kinds_in_set [simp]: "kinds_in (map_set m k n) = map_set (kinds_in m) k (nv_agent_kind n)"
  by (induction m) (auto simp: kinds_in_def)

lemma map_set_same: "map_get m k = Some v \<Longrightarrow> map_set m k v = m"
  by (induction m) auto

lemma kinds_in_keep: "map_get (kinds_in m) k = Some (nv_agent_kind n) \<Longrightarrow> kinds_in (map_set m k n) = kinds_in m"
  by (simp only: kinds_in_set map_set_same)

lemma apply_event_kinds: "kinds_in (gs_nodes (apply_event s e)) = kinds_in (gs_nodes s)"
proof -
  have compromise: "kinds_in (apply_compromise s e (gs_nodes s)) = kinds_in (gs_nodes s)"
    by (auto simp: apply_compromise_def mark_compromised_def intro!: map_set_same split: option.split)
  have "kinds_in (apply_quarantine s e m) = kinds_in m" if "kinds_in m = kinds_in (gs_nodes s)" for m
    using that by (auto simp: apply_quarantine_def intro!: map_set_same split: option.split)
  from this[OF compromise] show ?thesis by (simp add: apply_event_def compromise)
qed

lemma index_nodes_kinds: "kinds_in (index_nodes ns) = index_kinds (kinds_of ns)"
proof -
  have "kinds_in (fold (\<lambda>n m. map_set m (nv_id n) n) ns m) = fold (\<lambda>(i, k) m. map_set m i k) (kinds_of ns) (kinds_in m)" for m
    by (induction ns arbitrary: m) (simp_all add: kinds_of_def)
  from this[of "[]"] show ?thesis by (simp add: index_nodes_def index_kinds_def) (simp add: kinds_in_def)
qed

text \<open>The stream of a run has the structure of the run, from its first snapshot on; before it there is nothing.\<close>

definition stream_of_run :: "string \<Rightarrow> run_shape \<Rightarrow> graph_state \<Rightarrow> bool" where
  "stream_of_run run R s \<longleftrightarrow> gs_wf s \<and>
     (gs_experimentId s = None \<and> gs_nodes s = [] \<and> gs_edges s = [] \<or>
      gs_experimentId s = Some run \<and> gs_edges s = rs_links R \<and> kinds_in (gs_nodes s) = index_kinds (rs_agents R))"

lemma apply_event_structure [simp]:
  "gs_experimentId (apply_event s e) = gs_experimentId s" "gs_edges (apply_event s e) = gs_edges s"
  by (simp_all add: apply_event_def)

lemma apply_event_no_nodes: "gs_nodes s = [] \<Longrightarrow> gs_nodes (apply_event s e) = []"
  by (auto simp: apply_event_def apply_compromise_def apply_quarantine_def split: option.split)

lemma reduce_of_run:
  assumes "stream_of_run run R s" and "frame_of_run run R f" and "reduce s f = Inr s'"
  shows "stream_of_run run R s'"
proof (cases f)
  case (EventFrame e)
  then have s': "s' = apply_event s e" using assms(3) by (simp split: if_splits)
  have wf: "gs_wf s" using assms(1) by (simp add: stream_of_run_def)
  from assms(1) show ?thesis unfolding stream_of_run_def s' apply_event_kinds
    using apply_event_wf[OF wf] apply_event_no_nodes[of s e] by auto
next
  case (SnapshotFrame g)
  then have s': "s' = reduce_snapshot s g" and g: "sf_experiment_id g = run" "kinds_of (sf_nodes g) = rs_agents R" "sf_edges g = rs_links R"
    using assms(2,3) by (simp_all add: frame_of_run_def)
  have "gs_wf s'" using assms(1) reduce_snapshot_wf by (simp add: s' stream_of_run_def)
  then show ?thesis using g by (auto simp: stream_of_run_def s' reduce_snapshot_def Let_def index_nodes_kinds)
qed

lemma stream_of_frames:
  assumes "list_all (frame_of_run run R) frames" and "reduce_all initialGraphState frames = Inr s"
  shows "stream_of_run run R s"
proof -
  have "stream_of_run run R t \<Longrightarrow> list_all (frame_of_run run R) fs \<Longrightarrow> reduce_all t fs = Inr s \<Longrightarrow> stream_of_run run R s" for t fs
    by (induction fs arbitrary: t) (auto split: sum.splits dest: reduce_of_run)
  moreover have "stream_of_run run R initialGraphState"
    using initialGraphState_wf by (simp add: stream_of_run_def) (simp add: initialGraphState_def)
  ultimately show ?thesis using assms by blast
qed

section \<open>One key, one skeleton\<close>

lemma last_sep_inj:
  assumes "c \<notin> set ys" "c \<notin> set ys'"
  shows "xs @ c # ys = xs' @ c # ys' \<longleftrightarrow> xs = xs' \<and> ys = ys'"
proof
  assume "xs @ c # ys = xs' @ c # ys'"
  then have "rev ys @ c # rev xs = rev ys' @ c # rev xs'" by (metis append.assoc append_Cons append_Nil rev.simps(2) rev_append)
  then show "xs = xs' \<and> ys = ys'" using append_sep_inj[of c "rev ys" "rev ys'"] assms by simp
qed simp

lemma structure_key_inj:
  "structure_key p r n m = structure_key p r' n' m' \<longleftrightarrow> or_default r ''none'' = or_default r' ''none'' \<and> n = n' \<and> m = m'"
proof -
  have digits: "CHR '':'' \<notin> set (show_nat k)" for k using show_nat_digits[of "CHR '':''" k] by (auto simp: is_digit_def)
  show ?thesis
    using last_sep_inj[OF digits digits, of "p @ '':'' @ or_default r ''none'' @ '':'' @ show_nat n" m
        "p @ '':'' @ or_default r' ''none'' @ '':'' @ show_nat n'" m']
      last_sep_inj[OF digits digits, of "p @ '':'' @ or_default r ''none''" n "p @ '':'' @ or_default r' ''none''" n']
    by (auto simp: structure_key_def)
qed

definition plain_node :: "string \<Rightarrow> string \<Rightarrow> topology_node" where
  "plain_node i ty = \<lparr>tn_id = i, tn_nodeType = ty, tn_securityState = Healthy, tn_attrs = []\<rparr>"

definition plain_size :: "string \<Rightarrow> bool \<Rightarrow> rat" where
  "plain_size ty llm = (let base = or_default (map_of NODE_SIZE ty) 4 in if ty = ''agent'' \<and> llm then base * (3/2) else base)"

definition link_edge :: "edge_view \<Rightarrow> topology_edge" where
  "link_edge e = \<lparr>te_source = ev_source e, te_target = ev_target e, te_edgeType = ''communicates_with''\<rparr>"

definition graph_edge :: "graph_edge_view \<Rightarrow> topology_edge" where
  "graph_edge e = \<lparr>te_source = ge_source e, te_target = ge_target e, te_edgeType = ge_edge_type e\<rparr>"

lemma agent_kind_name_real [simp]: "agent_kind_name k = ''real'' \<longleftrightarrow> k = RealAgent"
  by (cases k) auto

lemma live_attrs_kind [simp]: "map_of (live_attrs n as) ''agent_kind'' = Some (JStr (agent_kind_name (nv_agent_kind n)))"
  by (simp add: live_attrs_def)

lemma stream_skeleton:
  assumes "nodes_wf (gs_nodes s)"
  shows "skeleton (buildTopologyModel None s) =
    (map (\<lambda>(i, k). (plain_node i ''agent'', plain_size ''agent'' (k = RealAgent))) (kinds_in (gs_nodes s)), map link_edge (gs_edges s))"
proof -
  have "nv_id n = k" if "(k, n) \<in> set (gs_nodes s)" for k n using assms that by (auto simp: nodes_wf_def)
  then show ?thesis
    by (auto simp: buildTopologyModel_def stream_topology_def skeleton_def Let_def kinds_in_def link_edge_def bare_def
        plain_node_def plain_size_def nodeSize_def)
qed

lemma graph_skeleton:
  assumes "nodes_wf (gs_nodes s)"
  shows "skeleton (buildTopologyModel (Some g) s) =
    (map (\<lambda>(i, ty, a). (plain_node i ty, plain_size ty (case map_get (kinds_in (gs_nodes s)) i of
        Some k \<Rightarrow> k = RealAgent | None \<Rightarrow> a = Some (JStr ''real'')))) (node_shapes g), map graph_edge (sg_edges g))"
  by (auto simp: buildTopologyModel_def skeleton_def Let_def overlay_node_def live_states_get[OF assms] node_shapes_def
      graph_edge_def bare_def plain_node_def plain_size_def nodeSize_def split: option.split)

lemma model_key:
  "tm_structureKey (buildTopologyModel None s) =
     structure_key ''stream'' (gs_experimentId s) (length (gs_nodes s)) (length (gs_edges s))"
  "tm_structureKey (buildTopologyModel (Some g) s) =
     structure_key ''graph'' (gs_experimentId s) (length (sg_nodes g)) (length (sg_edges g))"
  by (simp_all add: buildTopologyModel_def stream_topology_def Let_def)

definition model_of :: "view_data \<Rightarrow> topology_model" where
  "model_of d = buildTopologyModel (vd_graph d) (vd_stream d)"

lemma data_of_run_stream: "data_of_run run R d \<Longrightarrow> stream_of_run run R (vd_stream d)"
  by (auto simp: data_of_run_def intro: stream_of_frames)

text \<open>In the views of one run equal keys stand for equal structure: before the first snapshot the key is another one.\<close>

lemma key_determines_skeleton:
  assumes "run \<noteq> ''none''" and "data_of_run run R d" and "data_of_run run R d'"
    and "tm_structureKey (model_of d) = tm_structureKey (model_of d')"
  shows "skeleton (model_of d) = skeleton (model_of d')"
proof -
  note s = data_of_run_stream[OF assms(2)] data_of_run_stream[OF assms(3)]
  then have wf: "nodes_wf (gs_nodes (vd_stream d))" "nodes_wf (gs_nodes (vd_stream d'))"
    by (simp_all add: stream_of_run_def gs_wf_def)
  consider (mesh) "vd_graph d = None" "vd_graph d' = None"
    | (typed) g g' where "vd_graph d = Some g" "vd_graph d' = Some g'" "graph_of_run R g" "graph_of_run R g'"
    | (mixed) g where "vd_graph d = None \<and> vd_graph d' = Some g \<or> vd_graph d = Some g \<and> vd_graph d' = None"
    using assms(2,3) by (cases "vd_graph d"; cases "vd_graph d'") (auto simp: data_of_run_def)
  then show ?thesis
  proof cases
    case mesh
    with s assms(1,4) wf show ?thesis
      by (auto simp: model_of_def model_key structure_key_inj stream_of_run_def stream_skeleton)
  next
    case typed
    have "gs_experimentId (vd_stream d) = gs_experimentId (vd_stream d')"
      using s assms(1,4) typed by (auto simp: model_of_def model_key structure_key_inj stream_of_run_def)
    then have "kinds_in (gs_nodes (vd_stream d)) = kinds_in (gs_nodes (vd_stream d'))"
      using s by (auto simp: stream_of_run_def)
    with typed wf show ?thesis by (simp add: model_of_def graph_skeleton graph_of_run_def)
  next
    case mixed
    with assms(4) show ?thesis by (auto simp: model_of_def model_key structure_key_def)
  qed
qed

lemma model_ids_distinct:
  assumes "distinct (map fst (rs_nodes R))" and "data_of_run run R d"
  shows "distinct (map tn_id (tm_nodes (model_of d)))"
proof (cases "vd_graph d")
  case None
  have wf: "nodes_wf (gs_nodes (vd_stream d))"
    using data_of_run_stream[OF assms(2)] by (simp add: stream_of_run_def gs_wf_def)
  have "map tn_id (tm_nodes (model_of d)) = map (nv_id \<circ> snd) (gs_nodes (vd_stream d))"
    by (simp add: model_of_def None buildTopologyModel_def stream_topology_def Let_def comp_def)
  also have "\<dots> = map_keys (gs_nodes (vd_stream d))" using wf by (auto simp: nodes_wf_def)
  finally show ?thesis using wf by (simp add: nodes_wf_def)
next
  case (Some g)
  with assms(2) have "rs_nodes R = node_shapes g" by (simp add: data_of_run_def graph_of_run_def)
  then have "map fst (rs_nodes R) = map gn_id (sg_nodes g)" by (simp add: node_shapes_def comp_def)
  with assms(1) Some show ?thesis
    by (simp add: model_of_def buildTopologyModel_def Let_def overlay_node_def comp_def)
qed

section \<open>The canvas shows the run and the workspace\<close>

definition canvas_true :: "(string \<Rightarrow> string \<Rightarrow> int) \<Rightarrow> force_layout \<Rightarrow> investigation \<Rightarrow> bool" where
  "canvas_true lc force v \<longleftrightarrow> (case in_canvas v of
      None \<Rightarrow> \<not> shows_canvas v
    | Some g \<Rightarrow> shows_canvas v \<and> in_sync lc force (tg_canvas g) (in_model v) \<and>
        tg_live g = canvas_live_of (in_workspace v) (vd_blastRadius (in_data v)) (in_model v) (lv_hoveredId (tg_live g)))"

lemma in_model_of: "in_model v = model_of (in_data v)"
  by (simp add: in_model_def model_of_def)

lemma synced_live:
  "sync_view (canvas_props v) (sync_model (gp_model (canvas_props v)) live) =
     canvas_live_of (in_workspace v) (vd_blastRadius (in_data v)) (in_model v) (lv_hoveredId live)"
  by (simp add: sync_view_def sync_model_def canvas_props_def canvas_live_of_def Let_def)

lemma commit_canvas_true:
  assumes "run \<noteq> ''none''" and "distinct (map fst (rs_nodes R))" and "data_of_run run R (in_data v)"
    and "\<And>g. in_canvas v = Some g \<Longrightarrow> \<exists>d. data_of_run run R d \<and> in_sync lc force (tg_canvas g) (model_of d)"
  shows "\<exists>v'. commit_workspace lc force v = Some v' \<and> canvas_true lc force v' \<and> in_data v' = in_data v \<and>
    in_workspace v' = in_workspace v \<and> in_loaded v' = in_loaded v"
proof (cases "shows_canvas v")
  case False
  then show ?thesis by (simp add: commit_workspace_def canvas_true_def) (simp add: shows_canvas_def in_model_def)
next
  case True
  define g where "g = (case in_canvas v of
      Some g \<Rightarrow> g | None \<Rightarrow> \<lparr>tg_canvas = blank_canvas, tg_live = initial_live (canvas_props v), tg_cursor = []\<rparr>)"
  have d: "distinct (map tn_id (tm_nodes (in_model v)))" using model_ids_distinct[OF assms(2,3)] by (simp add: in_model_of)
  have "\<exists>m0. in_sync lc force (tg_canvas g) m0 \<and> skeleton m0 = skeleton (in_model v)"
    if key: "cs_key (tg_canvas g) = Some (tm_structureKey (in_model v))"
  proof (cases "in_canvas v")
    case None
    with key show ?thesis by (simp add: g_def blank_canvas_def)
  next
    case (Some g')
    with assms(4) obtain d where d: "data_of_run run R d" "in_sync lc force (tg_canvas g) (model_of d)" by (auto simp: g_def)
    with key have "tm_structureKey (model_of d) = tm_structureKey (model_of (in_data v))" by (simp add: in_sync_def in_model_of)
    with key_determines_skeleton[OF assms(1) d(1) assms(3)] d(2) show ?thesis by (auto simp: in_model_of)
  qed
  then obtain c where c: "canvas_render lc force (tg_canvas g) (in_model v) = Some c" "in_sync lc force c (in_model v)"
    using render_in_sync[OF d, of "tg_canvas g" lc force] by blast
  have "commit_workspace lc force v = map_option (\<lambda>g. v\<lparr>in_canvas := Some g\<rparr>) (commit_graph lc force (canvas_props v) g)"
    using True by (simp add: commit_workspace_def mount_graph_def g_def split: option.split)
  moreover have "gp_model (canvas_props v) = in_model v" by (simp add: canvas_props_def Let_def)
  ultimately have "commit_workspace lc force v = Some (v\<lparr>in_canvas := Some (g\<lparr>tg_canvas := c, tg_live :=
      canvas_live_of (in_workspace v) (vd_blastRadius (in_data v)) (in_model v) (lv_hoveredId (tg_live g))\<rparr>)\<rparr>)"
    using c(1) synced_live[of v "tg_live g"] by (simp add: commit_graph_def)
  with True c(2) show ?thesis
    by (simp add: canvas_true_def) (simp add: shows_canvas_def in_model_def canvas_live_of_def)
qed

lemma graph_event_canvas [simp]: "tg_canvas (fst (graph_event g e)) = tg_canvas g"
  by (cases e) simp_all

lemma step_canvas_true:
  assumes "run \<noteq> ''none''" and "distinct (map fst (rs_nodes R))"
    and "data_of_run run R (in_data v)" and "canvas_true lc force v" and "input_of_run run R x"
  shows "\<exists>v'. investigation_step lc force v x = Some v' \<and> canvas_true lc force v' \<and> data_of_run run R (in_data v') \<and>
    in_workspace v' = in_workspace (take_input v x)"
proof -
  have data: "data_of_run run R (in_data (take_input v x))"
    using assms(3,5) by (cases x) (auto simp: input_of_run_def split: option.split prod.split)
  have canvas: "in_sync lc force (tg_canvas g) (model_of (in_data v))" if "in_canvas (take_input v x) = Some g" for g
  proof -
    have "\<exists>g'. in_canvas v = Some g' \<and> tg_canvas g' = tg_canvas g"
      using that by (cases x) (auto simp: split_beta split: option.splits)
    with assms(4) show ?thesis by (auto simp: canvas_true_def in_model_of)
  qed
  show ?thesis
    using commit_canvas_true[OF assms(1,2) data, of lc force] canvas assms(3) data
    by (fastforce simp: investigation_step_def)
qed

lemma reachable_canvas_true:
  assumes "run \<noteq> ''none''" and "distinct (map fst (rs_nodes R))" and "data_of_run run R d"
    and "\<forall>x \<in> set xs. input_of_run run R x"
  shows "\<exists>v. investigate lc force (initial_investigation d) xs = Some v \<and> canvas_true lc force v \<and> data_of_run run R (in_data v)"
proof -
  have "\<exists>v'. investigate lc force v xs = Some v' \<and> canvas_true lc force v' \<and> data_of_run run R (in_data v')"
    if "canvas_true lc force v" "data_of_run run R (in_data v)" "\<forall>x \<in> set xs. input_of_run run R x" for v
    using that
  proof (induction xs arbitrary: v)
    case (Cons x xs)
    then obtain v' where "investigation_step lc force v x = Some v'" "canvas_true lc force v'" "data_of_run run R (in_data v')"
      using step_canvas_true[OF assms(1,2) Cons.prems(2,1), of x] by auto
    with Cons.IH[of v'] Cons.prems(3) show ?case by simp
  qed simp
  moreover have "canvas_true lc force (initial_investigation d)" "data_of_run run R (in_data (initial_investigation d))"
    using assms(3) by (simp_all add: canvas_true_def shows_canvas_def initial_investigation_def)
  ultimately show ?thesis using assms(4) by blast
qed

text \<open>C24. The canvas shows the run and the workspace. Whatever is clicked, searched, hovered and toggled, and whatever the
  stream and the polls of one run bring in between, no effect throws; the canvas is there exactly when its module is
  loaded and the model has nodes; its graph is then the fresh build of the model of the current data, although it is only
  rebuilt for another key; and what its callbacks read is the selection, the layers, the path and the focus of the
  workspace.\<close>

theorem canvas_shows_workspace:
  assumes "run \<noteq> ''none''" and "distinct (map fst (rs_nodes R))" and "data_of_run run R d"
    and "\<forall>x \<in> set xs. input_of_run run R x"
  shows "\<exists>v. investigate lc force (initial_investigation d) xs = Some v \<and> (in_canvas v = None \<longleftrightarrow> \<not> shows_canvas v) \<and>
    (\<forall>g. in_canvas v = Some g \<longrightarrow> cs_graph (tg_canvas g) = fresh_canvas lc force (in_model v) \<and>
      tg_live g = canvas_live_of (in_workspace v) (vd_blastRadius (in_data v)) (in_model v) (lv_hoveredId (tg_live g)))"
proof -
  obtain v where "investigate lc force (initial_investigation d) xs = Some v" "canvas_true lc force v"
    using reachable_canvas_true[OF assms] by blast
  then show ?thesis by (auto simp: canvas_true_def in_sync_def split: option.splits)
qed

text \<open>Two agents, and an attack on one of them while the other is selected on the canvas.\<close>

definition pair_frames :: "stream_frame list" where
  "pair_frames = [SnapshotFrame demo_snapshot]"

definition pair_shape :: run_shape where
  "pair_shape = \<lparr>rs_agents = kinds_of (sf_nodes demo_snapshot), rs_links = sf_edges demo_snapshot, rs_nodes = [], rs_edges = []\<rparr>"

definition pair_data :: "stream_frame list \<Rightarrow> view_data" where
  "pair_data fs = \<lparr>vd_graph = None, vd_stream = (case reduce_all initialGraphState fs of Inr s \<Rightarrow> s | Inl _ \<Rightarrow> initialGraphState),
     vd_blastRadius = None, vd_loading = False\<rparr>"

lemma pair_data_of_run: "data_of_run (sf_experiment_id demo_snapshot) pair_shape (pair_data pair_frames)"
  unfolding data_of_run_def
proof (intro conjI exI)
  show "list_all (frame_of_run (sf_experiment_id demo_snapshot) pair_shape) pair_frames"
    by (simp add: pair_frames_def frame_of_run_def pair_shape_def)
  show "reduce_all initialGraphState pair_frames = Inr (vd_stream (pair_data pair_frames))"
    by (simp add: pair_data_def pair_frames_def)
qed (simp add: pair_data_def)

lemma commit_fields:
  assumes "commit_workspace lc force v = Some v'"
  shows "in_workspace v' = in_workspace v" "in_data v' = in_data v" "in_loaded v' = in_loaded v"
  using assms by (auto simp: commit_workspace_def split: if_splits)

lemma investigate_ConsD:
  assumes "investigate lc force v (x # xs) = Some v'"
  obtains v1 where "investigate lc force v1 xs = Some v'" "in_workspace v1 = in_workspace (take_input v x)"
    "in_data v1 = in_data (take_input v x)" "in_loaded v1 = in_loaded (take_input v x)"
proof (cases "investigation_step lc force v x")
  case (Some v1)
  with assms commit_fields[OF Some[unfolded investigation_step_def]] show ?thesis by (intro that[of v1]) simp_all
qed (use assms in simp)

theorem canvas_shows_workspace_witness:
  "\<exists>v g. investigate (\<lambda>_ _. 0) (\<lambda>_ _ _. (0, 0)) (initial_investigation (pair_data pair_frames))
       [RendererLoaded, OnPanel (SelectNode (Some ''b'')), OnPanel (ToggleLayer LayerOversight)] = Some v \<and>
     in_canvas v = Some g \<and> lv_selectedId (tg_live g) = Some ''b'' \<and> lv_layers (tg_live g) = ALL_LAYERS \<and>
     map tn_id (lv_nodes (tg_live g)) = [''a'', ''b'']"
proof -
  let ?xs = "[RendererLoaded, OnPanel (SelectNode (Some ''b'')), OnPanel (ToggleLayer LayerOversight)]"
  obtain v where v: "investigate (\<lambda>_ _. 0) (\<lambda>_ _ _. (0, 0)) (initial_investigation (pair_data pair_frames)) ?xs = Some v \<and>
      (in_canvas v = None \<longleftrightarrow> \<not> shows_canvas v) \<and>
      (\<forall>g. in_canvas v = Some g \<longrightarrow> cs_graph (tg_canvas g) = fresh_canvas (\<lambda>_ _. 0) (\<lambda>_ _ _. (0, 0)) (in_model v) \<and>
        tg_live g = canvas_live_of (in_workspace v) (vd_blastRadius (in_data v)) (in_model v) (lv_hoveredId (tg_live g)))"
    using canvas_shows_workspace[OF _ _ pair_data_of_run, of ?xs "\<lambda>_ _. 0" "\<lambda>_ _ _. (0, 0)"]
    by (rule exE) (simp_all add: demo_snapshot_def pair_shape_def input_of_run_def)
  note run = v[THEN conjunct1] and there = v[THEN conjunct2, THEN conjunct1]
    and live = v[THEN conjunct2, THEN conjunct2, THEN spec, THEN mp, THEN conjunct2]
  have fields: "in_data v = pair_data pair_frames" "in_loaded v"
    "in_workspace v = workspace_step (workspace_step initial_workspace (SelectNode (Some ''b''))) (ToggleLayer LayerOversight)"
    using run by (auto elim!: investigate_ConsD simp: initial_investigation_def simp del: investigate.simps(2))
  then have ws: "ws_selectedId (in_workspace v) = Some ''b''" "ws_layers (in_workspace v) = ALL_LAYERS"
    by (simp_all add: initial_workspace_def select_node_def toggleLayer_def INITIAL_LAYERS_def ALL_LAYERS_def)
  have model: "map tn_id (tm_nodes (in_model v)) = [''a'', ''b'']"
    by (simp add: in_model_def fields(1) pair_data_def pair_frames_def buildTopologyModel_def stream_topology_def Let_def
        reduce_snapshot_def index_nodes_def demo_snapshot_def demo_node_def)
  then have "shows_canvas v" using fields by (auto simp: shows_canvas_def graph_area_of_def)
  then obtain g where "in_canvas v = Some g" using there by auto
  with run live[OF this] ws model show ?thesis
    by (intro exI[of _ v] exI[of _ g]) (metis (no_types, lifting) canvas_live_of_def canvas_live.select_convs(1,2,3))
qed

text \<open>A click inspects. In every reachable state the node that is clicked on the canvas is a node of the current model, and
  the click opens the inspector on it: it never finds that the node is not part of the topology.\<close>

lemma build_canvas_ids: "build_canvas lc force m = Some c \<Longrightarrow> map cn_id (cv_nodes c) = map tn_id (tm_nodes m)"
  by (auto simp: build_canvas_def canvas_node_of_def comp_def split: option.splits if_splits)

lemma on_canvas_model:
  assumes "canvas_true lc force v" and "in_canvas v = Some g" and "on_canvas g i"
  shows "i \<in> set (map tn_id (tm_nodes (in_model v)))"
proof -
  obtain c where c: "cs_graph (tg_canvas g) = Some c" "i \<in> set (map cn_id (cv_nodes c))"
    using assms(3) by (auto simp: on_canvas_def split: option.splits)
  then have "build_canvas lc force (in_model v) = Some c"
    using assms(1,2) by (simp add: canvas_true_def in_sync_def fresh_canvas_def split: if_splits)
  with c(2) show ?thesis by (simp only: build_canvas_ids)
qed

lemma find_by_id:
  assumes "i \<in> set (map tn_id ns)"
  obtains n where "List.find (\<lambda>n. tn_id n = i) ns = Some n" "tn_id n = i"
  using assms by (cases "List.find (\<lambda>n. tn_id n = i) ns") (auto simp: find_None_iff find_Some_iff)

theorem click_inspects:
  assumes "run \<noteq> ''none''" and "distinct (map fst (rs_nodes R))" and "data_of_run run R d"
    and "\<forall>x \<in> set xs. input_of_run run R x"
    and "investigate lc force (initial_investigation d) xs = Some v"
    and "in_canvas v = Some g" and "on_canvas g i" and "i \<noteq> []"
  shows "\<exists>v' panel. investigation_step lc force v (OnCanvas (ClickNode i)) = Some v' \<and>
    workspace_aside stringify textOf (in_workspace v') (vd_stream (in_data v')) (in_model v') (vd_blastRadius (in_data v')) prov =
      Some (AsideInspector (Inspecting panel)) \<and> ip_id panel = i"
proof -
  have inv: "canvas_true lc force v" "data_of_run run R (in_data v)"
    using reachable_canvas_true[OF assms(1-4), of lc force] assms(5) by auto
  let ?x = "OnCanvas (ClickNode i)"
  obtain v' where v': "investigation_step lc force v ?x = Some v'"
    using step_canvas_true[OF assms(1,2) inv(2,1), of ?x] by (auto simp: input_of_run_def)
  have fields: "in_data v' = in_data v" "in_workspace v' = select_node (in_workspace v) (Some i)"
    using commit_fields[OF v'[unfolded investigation_step_def]] assms(6,7) by simp_all
  have sel: "ws_selectedId (in_workspace v') = Some i"
    using assms(8) by (simp add: fields select_node_def Let_def truthy_iff)
  obtain n where "List.find (\<lambda>n. tn_id n = i) (tm_nodes (in_model v')) = Some n" "tn_id n = i"
    using find_by_id[OF on_canvas_model[OF inv(1) assms(6,7)]] fields(1) by (auto simp: in_model_def)
  then show ?thesis using v' assms(8)
    by (simp add: workspace_aside_def sel truthy_iff Let_def NodeInspector_def)
qed

text \<open>What is traced survives the run: nothing but the user clears the attack path, so the path found in one run is
  still traced, and everything off it dimmed, over the canvas of the next.\<close>

theorem path_survives_new_run:
  "in_workspace (take_input v (DataArrived d)) = in_workspace v \<and>
   gp_highlightPath (canvas_props (take_input v (DataArrived d))) = ws_path (in_workspace v)"
  by (simp add: canvas_props_def Let_def)

end
