(* ===== verification/Launch.thy ===== *)
theory Launch
  imports Overview
begin

text \<open>
  The launch of an assessment, end to end: the overview (\<open>frontend/src/app/page.tsx\<close>) mounts the form
  (\<open>components/run/RunConfigurator.tsx\<close>) over the configuration of the run or the default, the form edits its draft, and
  the handlers of the provider (\<open>lib/experiment/ExperimentProvider.tsx\<close>) send configurations to the backend and take
  them back from its answers. The machine puts \<open>Overview\<close>, \<open>Configurator\<close> and \<open>Provider\<close> together; what the
  backend reports is an input.
\<close>

section \<open>The page\<close>

record launch_page =
  la_provider :: provider
  la_configuring :: bool
  la_form :: "configurator option"

text \<open>A render commits what is queued, and mounts, keeps or unmounts the form; a mounted form keeps its draft.\<close>

definition render_page :: "launch_page \<Rightarrow> launch_page" where
  "render_page s = (let p = commit (la_provider s)
     in s\<lparr>la_provider := p,
          la_form := (if p_hydrating p \<or> \<not> shows_configurator p (la_configuring s) then None
            else Some (case la_form s of
                Some f \<Rightarrow> f
              | None \<Rightarrow> initial_configurator (or_default (c_activeConfig (p_state p)) DEFAULT_CONFIG)))\<rparr>)"

definition mount_page :: "string option \<Rightarrow> launch_page" where
  "mount_page stored = render_page \<lparr>la_provider = mount stored, la_configuring = False, la_form = None\<rparr>"

datatype launch_input =
    EditForm form_action
  | PressLaunch
  | PressNewAssessment
  | BarPause
  | BarResume
  | BarRerun
  | BarSpeed jsnum
  | StatusTimer
  | Answered backend_call call_result
  | Rendered

text \<open>The controls of the form are disabled while no run can start, all but the switch of the run limits; the submit of
  a form whose button is disabled does nothing.\<close>

fun launch_step :: "launch_page \<Rightarrow> launch_input \<Rightarrow> launch_page" where
  "launch_step s (EditForm a) = (case la_form s of
      Some f \<Rightarrow> if canStart (p_state (la_provider s)) \<or> a = ToggleAdvanced then s\<lparr>la_form := Some (form_step f a)\<rparr> else s
    | None \<Rightarrow> s)"
| "launch_step s PressLaunch = (case la_form s of
      Some f \<Rightarrow> if canStart (p_state (la_provider s))
        then s\<lparr>la_configuring := False, la_provider := start (la_provider s) (cf_draft f)\<rparr> else s
    | None \<Rightarrow> s)"
| "launch_step s PressNewAssessment = s\<lparr>la_configuring := press_new_assessment (la_provider s) (la_configuring s)\<rparr>"
| "launch_step s BarPause = s\<lparr>la_provider := pause (la_provider s)\<rparr>"
| "launch_step s BarResume = s\<lparr>la_provider := resume (la_provider s)\<rparr>"
| "launch_step s BarRerun = s\<lparr>la_provider := reset (la_provider s)\<rparr>"
| "launch_step s (BarSpeed v) = s\<lparr>la_provider := changeSpeed (la_provider s) v\<rparr>"
| "launch_step s StatusTimer = s\<lparr>la_provider := poll_status (la_provider s)\<rparr>"
| "launch_step s (Answered c r) =
     (if c \<in> set (p_calls (la_provider s)) then s\<lparr>la_provider := settle (la_provider s) c r\<rparr> else s)"
| "launch_step s Rendered = render_page s"

section \<open>Configurations on their way\<close>

text \<open>The configuration a call carries to the backend, and the one an action carries back.\<close>

fun call_config :: "backend_call \<Rightarrow> experiment_config option" where
  "call_config (CallCreate op cfg) = Some cfg"
| "call_config (CallResetStop op eid cfg) = Some cfg"
| "call_config (CallResetCreate op cfg) = Some cfg"
| "call_config _ = None"

fun action_config :: "control_action \<Rightarrow> experiment_config option" where
  "action_config (StartSucceeded op eid st cfg) = Some cfg"
| "action_config (ResetCreateSucceeded op eid st cfg) = Some cfg"
| "action_config _ = None"

definition accepted :: "experiment_config option \<Rightarrow> bool" where
  "accepted c \<longleftrightarrow> (case c of None \<Rightarrow> True | Some cfg \<Rightarrow> backend_accepts cfg)"

definition provider_accepted :: "provider \<Rightarrow> bool" where
  "provider_accepted p \<longleftrightarrow> accepted (c_activeConfig (p_state p)) \<and> accepted (c_activeConfig (p_ref p)) \<and>
     list_all (\<lambda>a. accepted (action_config a)) (p_queue p) \<and> list_all (\<lambda>c. accepted (call_config c)) (p_calls p)"

definition page_accepted :: "launch_page \<Rightarrow> bool" where
  "page_accepted s \<longleftrightarrow> provider_accepted (la_provider s) \<and> accepted (map_option cf_draft (la_form s))"

text \<open>The backend reports the configurations of its runs, which it has accepted; a number typed is finite.\<close>

fun fair_input :: "launch_input \<Rightarrow> bool" where
  "fair_input (EditForm a) = typed a"
| "fair_input (Answered c (CallOk sm)) = backend_accepts (es_config sm)"
| "fair_input _ = True"

lemma accepted_simps [simp]: "accepted None" "accepted (Some cfg) = backend_accepts cfg"
  by (simp_all add: accepted_def)

lemma control_step_accepted:
  assumes "accepted (c_activeConfig s)" and "accepted (action_config a)" and "control_step s a = Some t"
  shows "accepted (c_activeConfig t)"
  using assms by (cases a) (auto simp: open_request_def close_request_def adopt_run_def split: if_splits)

lemma controlReducer_accepted:
  "accepted (c_activeConfig s) \<Longrightarrow> accepted (action_config a) \<Longrightarrow> accepted (c_activeConfig (controlReducer s a))"
  by (auto simp: controlReducer_def control_step_accepted split: option.split)

lemma controls_accepted:
  "accepted (c_activeConfig s) \<Longrightarrow> list_all (\<lambda>a. accepted (action_config a)) as \<Longrightarrow>
     accepted (c_activeConfig (foldl controlReducer s as))"
  by (induction as arbitrary: s) (simp_all add: controlReducer_accepted)

lemma provider_accepted_simps [simp]:
  "provider_accepted (p\<lparr>p_nextOp := n\<rparr>) = provider_accepted p" "provider_accepted (p\<lparr>p_hydrating := h\<rparr>) = provider_accepted p"
  "provider_accepted (p\<lparr>p_stored := st\<rparr>) = provider_accepted p"
  "provider_accepted (p\<lparr>p_calls := p_calls p @ [c]\<rparr>) = (provider_accepted p \<and> accepted (call_config c))"
  by (auto simp: provider_accepted_def)

lemma apply_action_accepted:
  "provider_accepted p \<Longrightarrow> accepted (action_config a) \<Longrightarrow> provider_accepted (fst (apply_action p a))"
  by (auto simp: apply_action_def provider_accepted_def dest: control_step_accepted split: option.split)

lemma apply_only_accepted: "provider_accepted p \<Longrightarrow> accepted (action_config a) \<Longrightarrow> provider_accepted (apply_only p a)"
  by (simp add: apply_only_def apply_action_accepted)

lemma issue_accepted:
  assumes "provider_accepted p" and "accepted (action_config (act (p_nextOp p)))" and "accepted (call_config (call (p_nextOp p)))"
  shows "provider_accepted (issue p act call)"
  using apply_action_accepted[of "p\<lparr>p_nextOp := p_nextOp p + 1\<rparr>" "act (p_nextOp p)"] assms
  by (auto simp: issue_def Let_def split: prod.split)

lemma handlers_accepted:
  assumes "provider_accepted p"
  shows "backend_accepts cfg \<Longrightarrow> provider_accepted (start p cfg)" "provider_accepted (pause p)" "provider_accepted (resume p)"
    "provider_accepted (changeSpeed p v)" "provider_accepted (reset p)" "provider_accepted (poll_status p)" "provider_accepted (commit p)"
proof -
  show "provider_accepted (commit p)"
    using assms by (simp add: commit_def Let_def provider_accepted_def controls_accepted)
  show "provider_accepted (reset p)"
    using assms by (auto simp: reset_def issue_accepted provider_accepted_def[of p] split: option.splits intro!: issue_accepted)
qed (use assms in \<open>auto simp: start_def pause_def resume_def changeSpeed_def poll_status_def split: option.split intro!: issue_accepted\<close>)

lemma drop_call_accepted: "provider_accepted p \<Longrightarrow> provider_accepted (drop_call p c)"
  by (auto simp: provider_accepted_def drop_call_def list_all_iff dest: notin_set_remove1)

lemma settle_accepted:
  assumes "provider_accepted p" and "accepted (call_config c)" and "fair_input (Answered c r)"
  shows "provider_accepted (settle p c r)"
proof -
  note d = drop_call_accepted[OF assms(1), of c]
  show ?thesis unfolding settle_def
    using d assms(2,3)
    by (cases c; cases r) (auto simp: apply_only_accepted reset_create_def Let_def)
qed

lemma render_accepted:
  assumes "page_accepted s"
  shows "page_accepted (render_page s)"
proof -
  let ?p = "commit (la_provider s)"
  have p: "provider_accepted ?p" using assms by (simp add: page_accepted_def handlers_accepted)
  have "backend_accepts DEFAULT_CONFIG" using presets_ok by (simp add: PRESETS_def draft_ok_def)
  with p have "backend_accepts (or_default (c_activeConfig (p_state ?p)) DEFAULT_CONFIG)"
    by (cases "c_activeConfig (p_state ?p)") (simp_all add: provider_accepted_def)
  with assms p show ?thesis
    by (cases "la_form s") (simp_all add: page_accepted_def render_page_def Let_def initial_configurator_def)
qed

lemma launch_step_accepted:
  assumes "page_accepted s" and "fair_input x"
  shows "page_accepted (launch_step s x)"
proof (cases x)
  case (EditForm a)
  with assms show ?thesis
    by (auto simp: page_accepted_def form_step_accepts split: option.splits)
next
  case PressLaunch
  with assms show ?thesis by (auto simp: page_accepted_def handlers_accepted split: option.splits)
next
  case (Answered c r)
  have "accepted (call_config c)" if "c \<in> set (p_calls (la_provider s))"
    using assms(1) that by (simp add: page_accepted_def provider_accepted_def list_all_iff)
  with assms Answered show ?thesis by (simp add: page_accepted_def settle_accepted)
qed (use assms in \<open>simp_all add: page_accepted_def handlers_accepted render_accepted[unfolded page_accepted_def]\<close>)

section \<open>No launch is refused for its configuration\<close>

text \<open>C19. Whatever is typed, picked and pressed on the page and in the bar, whatever run is adopted from an earlier visit, and
  however the calls are answered, as long as the backend reports configurations that it accepts: each configuration on its
  way to the backend, for a launch or for either half of a re-run, passes the backend's validation. And the launch of a
  form that is shown and enabled sends its draft, once.\<close>

theorem every_launch_accepted:
  assumes "\<forall>x \<in> set xs. fair_input x"
  shows "let s = foldl launch_step (mount_page stored) xs in
    (\<forall>c \<in> set (p_calls (la_provider s)). \<forall>cfg. call_config c = Some cfg \<longrightarrow> backend_accepts cfg) \<and>
    (\<forall>f. la_form s = Some f \<and> canStart (p_state (la_provider s)) \<and> canStart (p_ref (la_provider s)) \<longrightarrow>
      p_calls (la_provider (launch_step s PressLaunch)) =
        p_calls (la_provider s) @ [CallCreate (p_nextOp (la_provider s)) (cf_draft f)])"
proof -
  let ?s = "foldl launch_step (mount_page stored) xs"
  have "provider_accepted (mount stored)"
    by (simp add: provider_accepted_def mount_def initialControlState_def split: option.split)
  then have "page_accepted (mount_page stored)"
    unfolding mount_page_def by (intro render_accepted) (simp add: page_accepted_def)
  then have "page_accepted ?s"
    using assms by (induction xs rule: rev_induct) (simp_all add: launch_step_accepted)
  then have calls: "\<forall>c \<in> set (p_calls (la_provider ?s)). accepted (call_config c)"
    by (simp add: page_accepted_def provider_accepted_def list_all_iff)
  have "p_calls (start p cfg) = p_calls p @ [CallCreate (p_nextOp p) cfg]" if "canStart (p_ref p)" for p cfg
    using that by (simp add: start_def issue_def apply_action_def Let_def)
  with calls show ?thesis by (auto simp: Let_def)
qed

text \<open>A first visit: 250 is typed into the field of the agents, a second scenario chosen, and the form launched.\<close>

definition first_launch :: "launch_input list" where
  "first_launch = [Answered CallNothing (CallErr []), Rendered, EditForm (EnterNumber ''node_count'' (Fin 250)),
     EditForm (ClickScenario ''attestation''), PressLaunch]"

theorem every_launch_accepted_witness:
  "\<exists>cfg. p_calls (la_provider (foldl launch_step (mount_page None) first_launch)) = [CallCreate 1 cfg] \<and>
     backend_accepts cfg \<and> map_get cfg ''node_count'' = Some (JNum (Fin 100))"
proof -
  let ?s = "foldl launch_step (mount_page None) first_launch"
  let ?cfg = "the (call_config (hd (p_calls (la_provider ?s))))"
  have "\<forall>x \<in> set first_launch. fair_input x" by (auto simp: first_launch_def)
  note ok = every_launch_accepted[OF this, of None, unfolded Let_def, THEN conjunct1]
  have calls: "p_calls (la_provider ?s) = [CallCreate 1 ?cfg] \<and> map_get ?cfg ''node_count'' = Some (JNum (Fin 100))"
    by code_simp
  with ok have "backend_accepts ?cfg" by (metis call_config.simps(1) list.set_intros(1))
  with calls show ?thesis by blast
qed

end
