(* ===== verification/Runtime_Live.thy ===== *)
theory Runtime_Live
  imports Runtime_Stream
begin

text \<open>
  The life of \<open>useRuntimeStream\<close> for one session: every interleaving of the answers of \<open>attach\<close>, the callbacks of its
  sockets, its reconnect timers and the unmount, as a step relation over the callbacks of \<open>Runtime_Stream\<close> and
  \<open>Stream_Hook\<close>; what every reachable state satisfies; and what a resync does to the events of the screen.
\<close>

section \<open>Steps\<close>

text \<open>A socket that has been closed delivers nothing more but its \<open>close\<close> event. The answers of \<open>attach\<close> arrive only
  while it waits for them.\<close>

inductive runtime_step :: "runtime_hook \<Rightarrow> runtime_hook \<Rightarrow> bool" where
  rt_opened: "w \<in> set (h_sockets h) \<Longrightarrow> \<not> ws_closing w \<Longrightarrow> runtime_step h (rt_on_open h)"
| rt_message: "w \<in> set (h_sockets h) \<Longrightarrow> \<not> ws_closing w \<Longrightarrow> runtime_step h (on_message h frame)"
| rt_error: "w \<in> set (h_sockets h) \<Longrightarrow> runtime_step h (on_error h)"
| rt_closed: "w \<in> set (h_sockets h) \<Longrightarrow> runtime_step h (rt_on_close h (ws_id w))"
| rt_timer: "t \<in> set (h_timers h) \<Longrightarrow> runtime_step h (fire_timer h t)"
| rt_unmount: "runtime_step h (cleanup h)"
| rt_snapshot: "rh_phase h = AwaitSnapshot \<Longrightarrow> runtime_step h (attach_snapshot h answer)"
| rt_events: "rh_phase h = AwaitEvents f \<Longrightarrow> runtime_step h (attach_events h f page)"

inductive runtime_reachable :: "runtime_hook \<Rightarrow> bool" where
  rt_mounted: "runtime_reachable mount_runtime"
| rt_stepped: "runtime_reachable h \<Longrightarrow> runtime_step h h' \<Longrightarrow> runtime_reachable h'"

inductive_cases runtime_stepE: "runtime_step h h'"

section \<open>Invariants\<close>

definition attaching :: "runtime_hook \<Rightarrow> bool" where
  "attaching h \<longleftrightarrow> (case rh_phase h of AwaitSnapshot \<Rightarrow> True | AwaitEvents f \<Rightarrow> True | _ \<Rightarrow> False)"

text \<open>The frames of the backfill: none, the snapshot, or the snapshot with the events of one page.\<close>

definition backfilled :: "stream_frame list \<Rightarrow> bool" where
  "backfilled pre \<longleftrightarrow> pre = [] \<or> (\<exists>f es. pre = SnapshotFrame f # map EventFrame es)"

definition live_part :: "stream_frame list \<Rightarrow> stream_frame list \<Rightarrow> bool" where
  "live_part pre live \<longleftrightarrow> contiguous live \<and> (pre \<noteq> [] \<and> live \<noteq> [] \<longrightarrow> follows (last pre) (hd live))"

definition frames_inv :: "runtime_hook \<Rightarrow> bool" where
  "frames_inv h \<longleftrightarrow> h_expectedNextSeq h = next_after (h_updates h) \<and>
     (\<exists>pre live. h_updates h = pre @ live \<and> backfilled pre \<and> live_part pre live \<and>
       (case rh_phase h of AwaitSnapshot \<Rightarrow> pre = [] \<and> live = [] | AwaitEvents f \<Rightarrow> pre = [SnapshotFrame f] \<and> live = []
        | _ \<Rightarrow> True))"

definition links_inv :: "runtime_hook \<Rightarrow> bool" where
  "links_inv h \<longleftrightarrow> (attaching h \<longrightarrow> h_sockets h = [] \<and> h_timers h = []) \<and>
     (h_cancelled h \<or> attaching h \<or> h_sockets h \<noteq> [] \<or> h_timers h \<noteq> []) \<and> (rh_connected h \<longrightarrow> h_sockets h \<noteq> [])"

definition runtime_inv :: "runtime_hook \<Rightarrow> bool" where
  "runtime_inv h \<longleftrightarrow> frames_inv h \<and> links_inv h \<and> backoff_inv h"

lemma next_after_snoc [simp]: "next_after (fs @ [f]) = Some (frame_next f)"
  by (simp add: next_after_def frame_next_seq)

lemma live_part_snoc:
  assumes "live_part pre live" and "\<not> is_gap (next_after (pre @ live)) f"
  shows "live_part pre (live @ [f])"
proof (cases "live = []")
  case False
  then have "next_after (pre @ live) = next_after live" by (simp add: next_after_def)
  with assms False show ?thesis by (auto simp: live_part_def contiguous_snoc)
qed (use assms in \<open>auto simp: live_part_def gap_iff\<close>)

text \<open>What the callbacks leave alone.\<close>

lemma callback_frame:
  "rh_phase (close_socket h) = rh_phase h" "rh_connected (close_socket h) = rh_connected h"
  "h_updates (close_socket h) = h_updates h" "h_expectedNextSeq (close_socket h) = h_expectedNextSeq h"
  "h_cancelled (close_socket h) = h_cancelled h" "(h_sockets (close_socket h) = []) = (h_sockets h = [])"
  "rh_phase (scheduleReconnect h s) = rh_phase h" "rh_connected (scheduleReconnect h s) = rh_connected h"
  "h_updates (scheduleReconnect h s) = h_updates h" "h_expectedNextSeq (scheduleReconnect h s) = h_expectedNextSeq h"
  "h_cancelled (scheduleReconnect h s) = h_cancelled h" "h_sockets (scheduleReconnect h s) = h_sockets h"
  "rh_phase (connect h s) = rh_phase h" "rh_connected (connect h s) = rh_connected h"
  "h_updates (connect h s) = h_updates h" "h_expectedNextSeq (connect h s) = h_expectedNextSeq h"
  "h_cancelled (connect h s) = h_cancelled h" "h_timers (connect h s) = h_timers h"
  "rh_phase (drop_socket h i) = rh_phase h" "rh_connected (drop_socket h i) = rh_connected h"
  "h_updates (drop_socket h i) = h_updates h" "h_expectedNextSeq (drop_socket h i) = h_expectedNextSeq h"
  "h_cancelled (drop_socket h i) = h_cancelled h" "h_timers (drop_socket h i) = h_timers h"
  "h_timers (close_socket h) = h_timers h"
  by (auto simp: close_socket_def scheduleReconnect_def connect_def drop_socket_def split: option.split)

lemma frames_same:
  "frames_inv h \<Longrightarrow> h_updates h' = h_updates h \<Longrightarrow> h_expectedNextSeq h' = h_expectedNextSeq h \<Longrightarrow> rh_phase h' = rh_phase h \<Longrightarrow>
     frames_inv h'"
  by (simp add: frames_inv_def)

lemma step_frames:
  assumes "runtime_step h h'" and "frames_inv h" and "links_inv h"
  shows "frames_inv h'"
  using assms(1)
proof cases
  case (rt_message w frame)
  show ?thesis
  proof (cases "is_gap (h_expectedNextSeq h) frame")
    case True
    then have "h' = scheduleReconnect (close_socket h) None" by (simp add: rt_message on_message_def)
    then show ?thesis by (intro frames_same[OF assms(2)]) (simp_all add: callback_frame)
  next
    case False
    obtain pre live where split: "h_updates h = pre @ live" "backfilled pre" "live_part pre live"
      using assms(2) by (auto simp: frames_inv_def)
    have "\<not> attaching h" using rt_message assms(3) by (auto simp: links_inv_def)
    then have phase: "case rh_phase h of AwaitSnapshot \<Rightarrow> False | AwaitEvents f \<Rightarrow> False | _ \<Rightarrow> True"
      by (simp add: attaching_def split: attach_phase.splits)
    have "live_part pre (live @ [frame])"
      using live_part_snoc[OF split(3)] False assms(2) split(1) by (simp add: frames_inv_def)
    then have "\<exists>p l. h_updates h @ [frame] = p @ l \<and> backfilled p \<and> live_part p l"
      using split by (intro exI[of _ pre] exI[of _ "live @ [frame]"]) simp
    then show ?thesis using phase False
      by (cases "rh_phase h") (simp_all add: frames_inv_def rt_message on_message_accepts)
  qed
next
  case (rt_snapshot answer)
  then have empty: "h_updates h = []" using assms(2) by (auto simp: frames_inv_def)
  show ?thesis
  proof (cases answer)
    case (Inl err)
    with empty assms(2) show ?thesis
      by (auto simp: rt_snapshot attach_snapshot_def attach_failed_def frames_inv_def callback_frame backfilled_def
          live_part_def intro: exI[of _ "[]"])
  next
    case (Inr f)
    with empty assms(2) show ?thesis
      by (auto simp: rt_snapshot attach_snapshot_def apply_frame_def set_state_def frames_inv_def backfilled_def live_part_def
          next_after_def)
  qed
next
  case (rt_events f page)
  then have one: "h_updates h = [SnapshotFrame f]" using assms(2) by (auto simp: frames_inv_def)
  have split: "\<exists>p l. SnapshotFrame f # map EventFrame es = p @ l \<and> backfilled p \<and> live_part p l" for es
    by (rule exI[of _ "SnapshotFrame f # map EventFrame es"], rule exI[of _ "[]"])
      (auto simp: backfilled_def live_part_def)
  show ?thesis
  proof (cases page)
    case (Inl err)
    with one assms(2) split[of "[]"] show ?thesis
      by (auto simp: rt_events attach_events_def attach_failed_def frames_inv_def callback_frame)
  next
    case (Inr pg)
    have "next_after (SnapshotFrame f # map EventFrame es) = (if es = [] then next_after [SnapshotFrame f] else Some (e_seq (last es) + 1))" for es
      by (simp add: next_after_def last_map)
    with Inr one assms(2) split show ?thesis
      by (auto simp: rt_events attach_events_def frames_inv_def backfill_all callback_frame)
  qed
qed (auto intro!: frames_same[OF assms(2)]
    simp: rt_on_open_def on_open_def on_error_def rt_on_close_def on_close_def fire_timer_def cleanup_def callback_frame)

lemma rt_flags [simp]:
  "backoff_inv (h\<lparr>rh_connected := c\<rparr>) = backoff_inv h" "backoff_inv (h\<lparr>rh_phase := q\<rparr>) = backoff_inv h"
  by (simp_all add: backoff_inv_def)

lemma connect_backoff: "backoff_inv h \<Longrightarrow> backoff_inv (connect h s)"
  by (simp add: backoff_inv_def backoff_frame_fields)

lemma attach_backoff:
  assumes "backoff_inv h"
  shows "backoff_inv (attach_snapshot h answer)" "backoff_inv (attach_events h f page)"
proof -
  have frames: "backoff_inv (h\<lparr>h_updates := u, h_expectedNextSeq := n, h_schemaError := x\<rparr>)" for u n x
    using assms by (simp add: backoff_inv_def)
  show "backoff_inv (attach_snapshot h answer)"
    using assms frames
    by (auto simp: attach_snapshot_def attach_failed_def connect_backoff apply_frame_def set_state_def split: sum.split)
  show "backoff_inv (attach_events h f page)"
    using assms frames
    by (auto simp: attach_events_def attach_failed_def connect_backoff backfill_all split: sum.split)
qed

lemma step_backoff:
  assumes "runtime_step h h'" and "backoff_inv h"
  shows "backoff_inv h'"
  using assms(1)
proof cases
  case (rt_opened w)
  with hook_step_backoff[OF hook_step.step_open assms(2)] show ?thesis by (simp add: rt_on_open_def)
next
  case (rt_closed w)
  have "backoff_inv (h\<lparr>rh_connected := False\<rparr>)" using assms(2) by simp
  then show ?thesis
    using hook_step_backoff[OF hook_step.step_close[of w "h\<lparr>rh_connected := False\<rparr>"]] rt_closed by (simp add: rt_on_close_def)
qed (use hook_step_backoff[OF _ assms(2)] attach_backoff[OF assms(2)] in
    \<open>auto intro: hook_step.intros\<close>)

lemma connect_links: "h_sockets (connect h s) = [] \<longleftrightarrow> h_cancelled h \<and> h_sockets h = []"
  by (simp add: connect_def)

lemma schedule_links: "h_timers (scheduleReconnect h s) = [] \<longleftrightarrow> h_cancelled h \<and> h_timers h = []"
  by (simp add: scheduleReconnect_def)

lemma step_links:
  assumes "runtime_step h h'" and "links_inv h"
  shows "links_inv h'"
  using assms(1)
proof cases
  case (rt_opened w)
  with assms(2) show ?thesis by (auto simp: rt_on_open_def on_open_def links_inv_def attaching_def)
next
  case (rt_message w frame)
  have busy: "\<not> attaching h" using rt_message assms(2) by (auto simp: links_inv_def)
  show ?thesis
  proof (cases "is_gap (h_expectedNextSeq h) frame")
    case True
    with rt_message busy assms(2) show ?thesis
      by (auto simp: on_message_def links_inv_def attaching_def callback_frame)
  next
    case False
    with rt_message busy assms(2) show ?thesis
      by (auto simp: on_message_accepts links_inv_def attaching_def)
  qed
next
  case (rt_error w)
  with assms(2) show ?thesis by (simp add: on_error_def links_inv_def attaching_def callback_frame)
next
  case (rt_closed w)
  then have "\<not> attaching h" using assms(2) by (auto simp: links_inv_def)
  with rt_closed show ?thesis
    by (simp add: rt_on_close_def on_close_def links_inv_def attaching_def callback_frame schedule_links)
next
  case (rt_timer t)
  then have "\<not> attaching h" using assms(2) by (auto simp: links_inv_def)
  with rt_timer assms(2) show ?thesis
    by (auto simp: fire_timer_def links_inv_def attaching_def callback_frame connect_links)
next
  case rt_unmount
  with assms(2) show ?thesis by (auto simp: cleanup_def links_inv_def attaching_def callback_frame)
next
  case (rt_snapshot answer)
  with assms(2) show ?thesis
    by (auto simp: attach_snapshot_def attach_failed_def apply_frame_def set_state_def links_inv_def attaching_def
        callback_frame connect_links split: sum.split)
next
  case (rt_events f page)
  with assms(2) show ?thesis
    by (auto simp: attach_events_def attach_failed_def backfill_all links_inv_def attaching_def
        callback_frame connect_links split: sum.split)
qed

lemma runtime_reachable_inv: "runtime_reachable h \<Longrightarrow> runtime_inv h"
proof (induction rule: runtime_reachable.induct)
  case rt_mounted
  show ?case
    by (simp add: runtime_inv_def frames_inv_def links_inv_def backoff_inv_def attaching_def backfilled_def live_part_def
        mount_runtime_def stream_hook.defs initial_hook_def next_after_def MIN_BACKOFF_MS_def MAX_BACKOFF_MS_def)
next
  case (rt_stepped h h')
  then show ?case by (auto simp: runtime_inv_def step_frames step_links step_backoff)
qed

section \<open>Properties\<close>

text \<open>C29. The live screen hears of everything in order, or tries to. In every interleaving the frames handed to React are a
  backfill, which is empty, a snapshot, or a snapshot with one page of events, and then frames of sockets without a gap, the
  first of which follows the backfill; no socket and no timer exists before the backfill is over; from then on, until the
  unmount, there is a socket or a timer that will open one, with a delay between 250 and 5000 ms; and the screen calls
  itself connected only while a socket exists.\<close>

theorem runtime_stream_contiguous:
  assumes "runtime_reachable h"
  shows "(\<exists>pre live. h_updates h = pre @ live \<and> backfilled pre \<and> contiguous live \<and>
      (pre \<noteq> [] \<and> live \<noteq> [] \<longrightarrow> follows (last pre) (hd live))) \<and>
    h_expectedNextSeq h = next_after (h_updates h) \<and>
    (attaching h \<longrightarrow> h_sockets h = [] \<and> h_timers h = []) \<and>
    (h_cancelled h \<or> attaching h \<or> h_sockets h \<noteq> [] \<or> h_timers h \<noteq> []) \<and>
    (\<forall>t \<in> set (h_timers h). t_delay t \<in> {250..5000}) \<and> (rh_connected h \<longrightarrow> h_sockets h \<noteq> [])"
proof -
  have inv: "frames_inv h" "links_inv h" "backoff_inv h"
    using runtime_reachable_inv[OF assms] by (simp_all add: runtime_inv_def)
  from inv(1) have "\<exists>pre live. h_updates h = pre @ live \<and> backfilled pre \<and> live_part pre live"
    unfolding frames_inv_def by blast
  with inv show ?thesis
    by (simp add: frames_inv_def links_inv_def backoff_inv_def live_part_def MIN_BACKOFF_MS_def MAX_BACKOFF_MS_def)
qed

lemma attach_both_reachable: "runtime_reachable (attach_both mount_runtime f es)"
proof -
  have "runtime_reachable (attach_snapshot mount_runtime (Inr f))"
    by (rule rt_stepped[OF rt_mounted rt_snapshot]) (simp add: mount_runtime_def stream_hook.defs)
  then show ?thesis unfolding attach_both_def
    by (rule rt_stepped[OF _ rt_events]) (simp add: attach_snapshot_def apply_frame_def set_state_def)
qed

text \<open>The attach that delivered a snapshot and one event, and the first message of the socket.\<close>

definition attached_hook :: runtime_hook where
  "attached_hook = attach_both mount_runtime demo_snapshot []"

definition live_hook :: runtime_hook where
  "live_hook = on_message attached_hook (EventFrame (demo_event 1 MODEL_REQUESTED None None))"

lemma attached_reachable: "runtime_reachable attached_hook"
  unfolding attached_hook_def by (rule attach_both_reachable)

lemma live_reachable: "runtime_reachable live_hook"
proof -
  have "last (h_sockets attached_hook) \<in> set (h_sockets attached_hook)" "\<not> ws_closing (last (h_sockets attached_hook))"
    by (simp_all add: attached_hook_def attach_both_eq)
  then show ?thesis unfolding live_hook_def by (rule rt_stepped[OF attached_reachable rt_message])
qed

theorem runtime_stream_contiguous_witness:
  "length (h_updates live_hook) = 2 \<and> h_expectedNextSeq live_hook = Some 2"
proof -
  have "h_updates live_hook = [SnapshotFrame demo_snapshot, EventFrame (demo_event 1 MODEL_REQUESTED None None)]"
    by (simp add: live_hook_def attached_hook_def attach_both_eq on_message_accepts demo_snapshot_def demo_event_def)
  with runtime_stream_contiguous[OF live_reachable] show ?thesis
    by (simp add: next_after_def demo_event_def)
qed

section \<open>A resync has no backfill\<close>

fun frame_events :: "stream_frame list \<Rightarrow> event list" where
  "frame_events [] = []"
| "frame_events (SnapshotFrame f # fs) = frame_events fs"
| "frame_events (EventFrame e # fs) = e # frame_events fs"

lemma recent_events_heard:
  "reduce_all s fs = Inr t \<Longrightarrow> set (gs_recentEvents t) \<subseteq> set (gs_recentEvents s) \<union> set (frame_events fs)"
proof (induction fs arbitrary: s)
  case (Cons f fs)
  obtain s1 where s1: "reduce s f = Inr s1" "reduce_all s1 fs = Inr t" using Cons.prems by (auto split: sum.splits)
  have "set (gs_recentEvents s1) \<subseteq> set (gs_recentEvents s) \<union> set (frame_events [f])"
  proof (cases f)
    case (EventFrame e)
    with s1(1) set_last_n[of EVENT_LOG_CAP "gs_recentEvents s @ [e]"] show ?thesis
      by (auto simp: apply_event_def split: if_splits)
  qed (use s1(1) in \<open>auto simp: reduce_snapshot_def Let_def\<close>)
  moreover have "set (frame_events (f # fs)) = set (frame_events [f]) \<union> set (frame_events fs)" by (cases f) simp_all
  ultimately show ?case using Cons.IH[OF s1(2)] by blast
qed simp

lemma frame_events_map [simp]: "frame_events (map EventFrame es) = es"
  by (induction es) simp_all

lemma frame_events_append [simp]: "frame_events (fs @ gs) = frame_events fs @ frame_events gs"
  by (induction fs rule: frame_events.induct) simp_all

text \<open>After a gap the hook asks for a fresh snapshot, and a snapshot carries no history: only the attach reads the replay
  buffer. So the events published between the last one heard and that snapshot are in its node states and never in the
  log, from which the verdict, the cascade and the timeline of the screen are derived.\<close>

theorem resync_loses_events:
  assumes "reduce_all initialGraphState (fs @ SnapshotFrame g # map EventFrame es) = Inr t"
    and "\<forall>e \<in> set (frame_events fs). e_seq e \<le> n" and "\<forall>e \<in> set es. sf_last_seq g < e_seq e"
  shows "\<forall>e \<in> set (gs_recentEvents t). e_seq e \<le> n \<or> sf_last_seq g < e_seq e"
proof
  fix e assume "e \<in> set (gs_recentEvents t)"
  then have "e \<in> set (frame_events fs) \<union> set es"
    using recent_events_heard[OF assms(1)] by (auto simp: initialGraphState_def)
  with assms(2,3) show "e_seq e \<le> n \<or> sf_last_seq g < e_seq e" by blast
qed

text \<open>The replay page ran one event past the snapshot, the socket resumed before it, and the violation of policy is
  published while the hook waits to reconnect: the light of the attack stays dark over a worker in quarantine.\<close>

definition refused_hook :: runtime_hook where
  "refused_hook = on_message (attach_both mount_runtime demo_snapshot [demo_event 1 MODEL_REQUESTED None None])
     (EventFrame (demo_event 1 MODEL_REQUESTED None None))"

definition reopened_hook :: runtime_hook where
  "reopened_hook = fire_timer refused_hook (hd (h_timers refused_hook))"

definition resynced_hook :: runtime_hook where
  "resynced_hook = on_message (on_message reopened_hook (SnapshotFrame (demo_snapshot\<lparr>sf_last_seq := 3,
         sf_nodes := [demo_node ''a'' Quarantined, demo_node ''b'' Healthy]\<rparr>)))
       (EventFrame (demo_event 4 WORKFLOW_RECOVERED None None))"

lemmas resync_simps = attach_both_eq on_message_def scheduleReconnect_def close_socket_def fire_timer_def connect_def
  apply_frame_def set_state_def demo_event_def demo_snapshot_def

lemma hears_last:
  "runtime_reachable h \<Longrightarrow> h_sockets h \<noteq> [] \<Longrightarrow> \<not> ws_closing (last (h_sockets h)) \<Longrightarrow> runtime_reachable (on_message h frame)"
  by (rule rt_stepped[OF _ rt_message[OF last_in_set]])

lemma resynced_reachable: "runtime_reachable resynced_hook"
proof -
  have "runtime_reachable refused_hook" unfolding refused_hook_def
    by (rule hears_last[OF attach_both_reachable]) (simp_all add: attach_both_eq)
  then have "runtime_reachable reopened_hook" unfolding reopened_hook_def
    by (rule rt_stepped[OF _ rt_timer]) (simp add: refused_hook_def resync_simps)
  then show ?thesis unfolding resynced_hook_def
    by (intro hears_last) (simp_all add: reopened_hook_def refused_hook_def resync_simps)
qed

theorem lost_violation_stays_dark:
  "runtime_reachable resynced_hook \<and> (\<exists>s. rendered resynced_hook (length (h_updates resynced_hook)) = Inr s \<and>
     map e_seq (gs_recentEvents s) = [1, 4] \<and> agent_state ''a'' s = Some Quarantined)"
  by (simp add: resynced_reachable)
    (simp add: rendered_def resynced_hook_def reopened_hook_def refused_hook_def resync_simps CURRENT_SCHEMA_VERSION_def
      agent_state_def apply_event_def reduce_snapshot_def initialGraphState_def demo_node_def index_nodes_def
      apply_compromise_def apply_quarantine_def EVENT_LOG_CAP_def)

end
