(* ===== verification/Configurator_View.thy ===== *)
theory Configurator_View
  imports UI_Kit
begin

text \<open>
  What \<open>frontend/src/components/run/RunConfigurator.tsx\<close> shows over the state of \<open>Configurator\<close>: the presets with the
  text of the chosen one, the groups of controls, the scenario chips with their notes, the warnings, the switch of the run
  limits and the button that launches. Classes and headings are left out.
\<close>

section \<open>The form\<close>

record preset_chip =
  pc_label :: string
  pc_title :: string
  pc_chosen :: bool
  pc_disabled :: bool

record form_view =
  fv_presets :: "preset_chip list"
  fv_preset_text :: "string option"
  fv_controls :: "form_control list"
  fv_scenarios :: "(string \<times> bool) list"
  fv_notes :: "(string \<times> string) list"
  fv_attack_free :: bool
  fv_warnings :: "string list"
  fv_vllm_warning :: bool
  fv_limits_switch :: string
  fv_submit :: "string \<times> bool"

text \<open>A text is shown for a preset that is chosen, also for one that is not in the list: then it is empty.\<close>

definition preset_text :: "string option \<Rightarrow> string option" where
  "preset_text presetId =
     (if truthy presetId
      then Some (or_default (map_option ps_description (List.find (\<lambda>p. Some (ps_id p) = presetId) PRESETS)) [])
      else None)"

text \<open>The field each warning names.\<close>

definition form_warnings :: "experiment_config \<Rightarrow> string list" where
  "form_warnings draft =
     (if needsSentinels draft then [''sentinel_count''] else []) @
     (if needsCredentials draft then [''credential_count''] else []) @
     (if needsRealAgents draft then [''real_agent_count''] else [])"

definition RunConfigurator :: "configurator \<Rightarrow> bool \<Rightarrow> string \<Rightarrow> form_view" where
  "RunConfigurator s disabled submitLabel =
     (let draft = cf_draft s; scenarios = draft_scenarios draft
      in \<lparr>fv_presets = map (\<lambda>p. \<lparr>pc_label = ps_label p, pc_title = ps_description p, pc_chosen = (cf_presetId s = Some (ps_id p)),
            pc_disabled = disabled\<rparr>) PRESETS,
          fv_preset_text = preset_text (cf_presetId s),
          fv_controls = form_controls s disabled,
          fv_scenarios = ChipMultiSelect (map (\<lambda>m. (sc_value m, sc_label m)) SCENARIOS) scenarios,
          fv_notes = map (\<lambda>v. (sc_label (scenarioMeta v), sc_hint (scenarioMeta v))) scenarios,
          fv_attack_free = (scenarios = []),
          fv_warnings = form_warnings draft,
          fv_vllm_warning = warns_vllm draft,
          fv_limits_switch = (if cf_showAdvanced s then [CHR 0xE2, CHR 0x88, CHR 0x92] @ '' Hide'' else ''+ Show'') @ '' run limits'',
          fv_submit = (submitLabel, \<not> disabled)\<rparr>)"

section \<open>Properties\<close>

lemma preset_ids_distinct: "distinct (map ps_id PRESETS)"
  by (simp add: PRESETS_def)

text \<open>The preset that is chosen is what is in the form.\<close>

definition preset_true :: "configurator \<Rightarrow> bool" where
  "preset_true s \<longleftrightarrow> (case cf_presetId s of None \<Rightarrow> True
     | Some i \<Rightarrow> (case List.find (\<lambda>p. ps_id p = i) PRESETS of Some p \<Rightarrow> cf_draft s = ps_config p | None \<Rightarrow> False))"

lemma set_field_true [simp]: "preset_true (set_field s key v)"
  by (simp add: preset_true_def set_field_def)

lemma setNumber_true: "preset_true s \<Longrightarrow> preset_true (setNumber s key v whole)"
  by (simp add: setNumber_def split: option.split)

lemma form_step_preset:
  assumes "preset_true s"
  shows "preset_true (form_step s a)"
proof (cases a)
  case (ClickScenario v)
  with assms show ?thesis by (simp add: toggleScenario_def preset_true_def)
next
  case (ClickPreset i)
  show ?thesis
  proof (cases "List.find (\<lambda>p. ps_id p = i) PRESETS")
    case (Some p)
    then have "p \<in> set PRESETS" "ps_id p = i" by (auto simp: find_Some_iff)
    with Some ClickPreset show ?thesis by (simp add: choose_preset_def preset_true_def)
  qed (use assms ClickPreset in simp)
next
  case ToggleAdvanced
  with assms show ?thesis by (auto simp: preset_true_def split: option.splits)
qed (use assms in \<open>auto simp: setNumber_true split: option.split control_kind.split\<close>)

lemma find_by_preset:
  assumes "List.find (\<lambda>p. ps_id p = i) PRESETS = Some q"
  shows "q \<in> set PRESETS" and "ps_id q = i" and "p \<in> set PRESETS \<Longrightarrow> ps_id p = i \<Longrightarrow> p = q"
proof -
  show q: "q \<in> set PRESETS" "ps_id q = i" using assms by (auto simp: find_Some_iff)
  show "p = q" if "p \<in> set PRESETS" "ps_id p = i"
    using preset_ids_distinct q that by (auto simp: distinct_map inj_on_def)
qed

text \<open>C20. A preset is highlighted only over its own configuration, after any edits of a form that started from the default:
  then the text under the presets is its description; and without a highlighted preset there is no text.\<close>

theorem chosen_preset_is_draft:
  shows "let s = foldl form_step (initial_configurator DEFAULT_CONFIG) actions; v = RunConfigurator s disabled submitLabel in
    (\<forall>k < length PRESETS. pc_chosen (fv_presets v ! k) \<longrightarrow>
       cf_draft s = ps_config (PRESETS ! k) \<and> fv_preset_text v = Some (ps_description (PRESETS ! k))) \<and>
    (list_all (\<lambda>c. \<not> pc_chosen c) (fv_presets v) \<longrightarrow> fv_preset_text v = None)"
proof -
  let ?s = "foldl form_step (initial_configurator DEFAULT_CONFIG) actions"
  have "preset_true (initial_configurator DEFAULT_CONFIG)"
    by (simp add: preset_true_def initial_configurator_def PRESETS_def)
  then have true: "preset_true ?s"
    by (induction actions rule: rev_induct) (simp_all add: form_step_preset)
  show ?thesis
  proof (cases "cf_presetId ?s")
    case None
    then show ?thesis by (simp add: Let_def RunConfigurator_def preset_text_def)
  next
    case (Some i)
    with true obtain q where q: "List.find (\<lambda>p. ps_id p = i) PRESETS = Some q" "cf_draft ?s = ps_config q"
      by (auto simp: preset_true_def split: option.splits)
    note found = find_by_preset[OF q(1)]
    have "i \<noteq> []" using found(1,2) by (auto simp: PRESETS_def)
    then have shown: "preset_text (cf_presetId ?s) = Some (ps_description q)"
      using q(1) by (simp add: Some preset_text_def truthy_iff)
    have chosen: "PRESETS ! k = q" if "k < length PRESETS" "cf_presetId ?s = Some (ps_id (PRESETS ! k))" for k
      using found(3)[of "PRESETS ! k"] that by (simp add: Some)
    have one: "\<exists>p \<in> set PRESETS. cf_presetId ?s = Some (ps_id p)" using found(1,2) Some by blast
    let ?v = "RunConfigurator ?s disabled submitLabel"
    have "fv_preset_text ?v = Some (ps_description q)" by (simp only: RunConfigurator_def Let_def form_view.simps shown)
    moreover have "pc_chosen (fv_presets ?v ! k) \<longleftrightarrow> cf_presetId ?s = Some (ps_id (PRESETS ! k))" if "k < length PRESETS" for k
      using that by (simp add: RunConfigurator_def Let_def)
    moreover have "\<not> list_all (\<lambda>c. \<not> pc_chosen c) (fv_presets ?v)"
      using one by (simp add: RunConfigurator_def Let_def list_all_iff)
    ultimately show ?thesis using chosen q(2) unfolding Let_def by metis
  qed
qed

theorem chosen_preset_is_draft_witness:
  "let s = foldl form_step (initial_configurator DEFAULT_CONFIG) [ClickScenario ''attestation'', ClickPreset ''undefended''];
     v = RunConfigurator s False ''Launch assessment''
   in pc_chosen (fv_presets v ! 1) \<and> fv_preset_text v = Some (ps_description (PRESETS ! 1))"
proof -
  let ?as = "[ClickScenario ''attestation'', ClickPreset ''undefended'']"
  let ?v = "RunConfigurator (foldl form_step (initial_configurator DEFAULT_CONFIG) ?as) False ''Launch assessment''"
  have "pc_chosen (fv_presets ?v ! 1)" "1 < length PRESETS" by code_simp+
  with chosen_preset_is_draft[where actions = ?as and disabled = False and submitLabel = "''Launch assessment''"]
  show ?thesis unfolding Let_def by blast
qed

text \<open>The highlighted preset of a form that is opened over the configuration of a run is the baseline, whatever that
  configuration is.\<close>

theorem reopened_form_claims_baseline:
  "let s = initial_configurator (ps_config (PRESETS ! 1)); v = RunConfigurator s False ''Launch assessment'' in
    pc_chosen (fv_presets v ! 0) \<and> fv_preset_text v = Some (ps_description (PRESETS ! 0)) \<and> cf_draft s \<noteq> ps_config (PRESETS ! 0)"
  by code_simp

text \<open>The chips show the scenarios of the draft, each with a note, and the warning names exactly the counts that an active
  scenario needs and that are zero.\<close>

theorem form_names_what_is_missing:
  "set (form_warnings draft) = {f \<in> {''real_agent_count'', ''sentinel_count'', ''credential_count''}. f \<in> set (missing_fields draft)} \<and>
   (form_warnings draft \<noteq> [] \<longleftrightarrow> needs_warning draft)"
proof
  show "form_warnings draft \<noteq> [] \<longleftrightarrow> needs_warning draft" by (simp add: form_warnings_def needs_warning_def)
  have "f \<in> set (missing_fields draft) \<longleftrightarrow> f \<in> set (form_warnings draft)"
    if "f \<in> {''real_agent_count'', ''sentinel_count'', ''credential_count''}" for f
    using that unfolding missing_fields_def form_warnings_def needsSentinels_def needsCredentials_def needsRealAgents_def
      usesSentinelCompromise_def usesAttestation_def usesCollusion_def usesPromptInjection_def
    by (auto simp: requires_eq)
  moreover have "set (form_warnings draft) \<subseteq> {''real_agent_count'', ''sentinel_count'', ''credential_count''}"
    by (auto simp: form_warnings_def)
  ultimately show "set (form_warnings draft) = {f \<in> {''real_agent_count'', ''sentinel_count'', ''credential_count''}. f \<in> set (missing_fields draft)}"
    by blast
qed

end
