(* ===== verification/App.thy ===== *)
theory App
  imports Shell Live_Run
begin

text \<open>
  The application around the screens: the context of \<open>frontend/src/lib/experiment/ExperimentProvider.tsx\<close> that the screens
  read, the frame of \<open>components/shell/AppShell.tsx\<close>, the guards of the screens that need a run (\<open>app/topology\<close>,
  \<open>app/activity\<close>, \<open>app/metrics\<close>, \<open>app/remediation\<close>), which screen the path of the browser names, and the
  health route (\<open>app/api/health/route.ts\<close>).
\<close>

section \<open>The context\<close>

record experiment_context =
  ec_control :: control_state
  ec_hydrating :: bool
  ec_canStart :: bool
  ec_canPause :: bool
  ec_canResume :: bool
  ec_canReset :: bool
  ec_canSetSpeed :: bool
  ec_stream :: graph_state
  ec_schemaError :: "string option"

definition context_value :: "provider \<Rightarrow> graph_state \<Rightarrow> string option \<Rightarrow> experiment_context" where
  "context_value p stream schemaError =
     (let c = p_state p
      in \<lparr>ec_control = c, ec_hydrating = p_hydrating p, ec_canStart = canStart c, ec_canPause = canPause c,
          ec_canResume = canResume c, ec_canReset = canReset c, ec_canSetSpeed = canSetSpeed c,
          ec_stream = stream, ec_schemaError = schemaError\<rparr>)"

definition useExperiment :: "experiment_context option \<Rightarrow> string + experiment_context" where
  "useExperiment c = (case c of None \<Rightarrow> Inl ''useExperiment must be used inside an ExperimentProvider'' | Some v \<Rightarrow> Inr v)"

text \<open>What a screen below the provider reads, in a render that has processed \<open>n\<close> frames; a render of a frame the reducer
  refuses throws.\<close>

definition screen_context :: "live_run \<Rightarrow> nat \<Rightarrow> string + experiment_context" where
  "screen_context r n = (case rendered (lr_stream r) n of
      Inl err \<Rightarrow> Inl err
    | Inr s \<Rightarrow> useExperiment (Some (context_value (lr_provider r) s (h_schemaError (lr_stream r)))))"

section \<open>The frame\<close>

record nav_link =
  nl_href :: string
  nl_label :: string
  nl_stage :: string
  nl_current :: bool

definition nav_link_of :: "string \<Rightarrow> nav_item \<Rightarrow> nav_link" where
  "nav_link_of pathname i = \<lparr>nl_href = ni_href i, nl_label = ni_label i, nl_stage = ni_stage i,
     nl_current = isActivePath pathname (ni_href i)\<rparr>"

text \<open>The rail with its groups, the bar of the run, and the strip that replaces the rail on a narrow screen.\<close>

record shell_view =
  sv_home :: string
  sv_rail :: "(string \<times> nav_link list) list"
  sv_bar :: "bar_view option"
  sv_strip :: "(string \<times> string \<times> bool) list"

definition AppShell :: "string \<Rightarrow> provider \<Rightarrow> int \<Rightarrow> shell_view" where
  "AppShell pathname p tick =
     \<lparr>sv_home = ''/'', sv_rail = map (\<lambda>(label, items). (label, map (nav_link_of pathname) items)) NAV,
      sv_bar = (if shows_context_bar pathname then Some (RunContextBar p tick) else None),
      sv_strip = map (\<lambda>i. (ni_href i, ni_label i, isActivePath pathname (ni_href i))) (concat (map snd NAV))\<rparr>"

record page_header =
  ph_eyebrow :: "string option"
  ph_title :: string
  ph_description :: "string option"

definition PageHeader :: "string option \<Rightarrow> string \<Rightarrow> string option \<Rightarrow> page_header" where
  "PageHeader eyebrow title description = \<lparr>ph_eyebrow = (if truthy eyebrow then eyebrow else None), ph_title = title,
     ph_description = (if truthy description then description else None)\<rparr>"

section \<open>Screens\<close>

definition TopologyPage :: "provider \<Rightarrow> guarded" where
  "TopologyPage = RequiresRun ''No system mapped yet''
     (''The topology view renders the typed security graph of a running assessment '' @ em_dash @
      '' agents, tools, credentials, resources and the security plane watching them.'')"

definition TopologyContent_header :: page_header where
  "TopologyContent_header = PageHeader (Some (''Map'' @ middle_dot @ ''Attack paths'')) ''Topology''
     (Some (''Colour is security state; shape and size are node type. Toggle edge layers to isolate communication, access '' @
       ''or oversight relationships, then trace a specific attack path between any two nodes.''))"

definition ActivityPage :: "provider \<Rightarrow> guarded" where
  "ActivityPage = RequiresRun ''No activity to observe''
     (''The activity log streams every event the simulation emits '' @ em_dash @
      '' compromise attempts, detections, quarantines, model calls and security-plane violations.'')"

definition MetricsPage :: "provider \<Rightarrow> guarded" where
  "MetricsPage = RequiresRun ''Nothing to measure yet''
     ''Security and utility metrics are computed from a running or completed assessment.''"

definition RemediationPage :: "provider \<Rightarrow> guarded" where
  "RemediationPage = RequiresRun ''No findings without a run''
     ''Remediation recommendations are derived from a run's security graph and metrics. Launch an assessment first.''"

datatype screen =
    ScreenOverview
  | ScreenGuarded guarded
  | ScreenDefenses
  | ScreenRuns
  | ScreenReplay string
  | ScreenCompare
  | ScreenDemo

text \<open>The screens under \<open>app/\<close> by their directories; a static directory goes before the parameter \<open>[id]\<close>.\<close>

definition history_id :: "string \<Rightarrow> string option" where
  "history_id pathname = (let rest = drop (length ''/history/'') pathname
     in if starts_with pathname ''/history/'' \<and> rest \<noteq> [] \<and> CHR ''/'' \<notin> set rest then Some rest else None)"

definition screen_at :: "provider \<Rightarrow> string \<Rightarrow> screen option" where
  "screen_at p pathname =
     (if pathname = ''/'' then Some ScreenOverview
      else if pathname = ''/topology'' then Some (ScreenGuarded (TopologyPage p))
      else if pathname = ''/activity'' then Some (ScreenGuarded (ActivityPage p))
      else if pathname = ''/metrics'' then Some (ScreenGuarded (MetricsPage p))
      else if pathname = ''/defenses'' then Some ScreenDefenses
      else if pathname = ''/remediation'' then Some (ScreenGuarded (RemediationPage p))
      else if pathname = ''/history'' then Some ScreenRuns
      else if pathname = ''/history/compare'' then Some ScreenCompare
      else if pathname = ''/demo'' then Some ScreenDemo
      else map_option ScreenReplay (history_id pathname))"

section \<open>Health\<close>

text \<open>The route passes the answer of the backend on, status and body; an unreachable backend or a body that is not JSON is
  a 502. The answer is an argument: the status, and the body if it parses.\<close>

definition health_route :: "(nat \<times> json option) option \<Rightarrow> nat \<times> json" where
  "health_route answer = (case answer of
      Some (status, Some body) \<Rightarrow> (status, body)
    | _ \<Rightarrow> (502, JObj [(''status'', JStr ''error''), (''postgres'', JStr ''unknown'')]))"

section \<open>Properties\<close>

text \<open>What a screen may offer is what the handlers accept: with nothing queued, each flag of the context says exactly
  whether the reducer would take the request.\<close>

theorem context_flags_exact:
  "let c = context_value p s err; takes = (\<lambda>a. control_step (p_state p) a \<noteq> None) in
    (ec_canStart c \<longleftrightarrow> takes (StartRequested op)) \<and> (ec_canPause c \<longleftrightarrow> takes (PauseRequested op)) \<and>
    (ec_canResume c \<longleftrightarrow> takes (ResumeRequested op)) \<and> (ec_canReset c \<longleftrightarrow> takes (ResetRequested op)) \<and>
    (ec_canSetSpeed c \<longleftrightarrow> takes (SpeedRequested op))"
  by (simp add: context_value_def Let_def)

text \<open>The links of the rail and of the strip are the same, and at most one of them is current.\<close>

lemma rail_is_strip:
  "concat (map (\<lambda>(label, links). map (\<lambda>l. (nl_href l, nl_label l, nl_current l)) links) (sv_rail (AppShell pathname p tick))) =
     sv_strip (AppShell pathname p tick)"
  by (simp add: AppShell_def nav_link_of_def NAV_def)

text \<open>Navigation keeps its word. Every entry leads to a screen, which highlights that entry and no other; the entries that
  are marked as needing a run are exactly those whose screen asks for one when there is none, and shows its content once
  there is one; and the bar of the simulated run is shown on exactly the screens that are not about a stored or a live
  session.\<close>

theorem navigation_leads_to_screens:
  assumes "i \<in> set nav_items"
  shows "\<exists>s. screen_at p (ni_href i) = Some s \<and>
    filter (\<lambda>(href, label, current). current) (sv_strip (AppShell (ni_href i) p tick)) = [(ni_href i, ni_label i, True)] \<and>
    (\<not> p_hydrating p \<longrightarrow> (if truthy (c_experimentId (p_state p))
       then (ni_needsRun i \<longleftrightarrow> s = ScreenGuarded (RunContent (the (c_experimentId (p_state p)))))
       else (ni_needsRun i \<longleftrightarrow> (\<exists>title description. s = ScreenGuarded (NeedsRun title description))))) \<and>
    (sv_bar (AppShell (ni_href i) p tick) = None \<longleftrightarrow> s = ScreenRuns \<or> s = ScreenDemo)"
proof -
  have "i \<in> set (concat (map snd NAV))" using assms by (simp add: nav_items_def)
  then show ?thesis
    unfolding NAV_def
    by (auto simp: nav_item_def screen_at_def AppShell_def isActivePath_def starts_with_def shows_context_bar_def NAV_def
        TopologyPage_def ActivityPage_def MetricsPage_def RemediationPage_def RequiresRun_def)
qed

theorem navigation_leads_to_screens_witness:
  "\<exists>title description. screen_at ((mount None)\<lparr>p_hydrating := False\<rparr>) ''/metrics'' = Some (ScreenGuarded (NeedsRun title description))"
proof -
  let ?i = "nav_item ''/metrics'' ''Metrics'' ''Measure'' True" and ?p = "(mount None)\<lparr>p_hydrating := False\<rparr>"
  have "?i \<in> set nav_items" by (simp add: nav_items_def NAV_def)
  from navigation_leads_to_screens[OF this, of ?p 0] show ?thesis
    by (auto simp: nav_item_def mount_def initialControlState_def)
qed

text \<open>A path below the runs is the replay of the run it names, as long as the run is not called compare.\<close>

theorem replay_link_opens_run:
  assumes "eid \<noteq> []" and "CHR ''/'' \<notin> set eid" and "eid \<noteq> ''compare''"
  shows "screen_at p (''/history/'' @ eid) = Some (ScreenReplay eid) \<and> \<not> shows_context_bar (''/history/'' @ eid)"
  using assms by (simp add: screen_at_def history_id_def starts_with_def shows_context_bar_def Let_def)

text \<open>The health route never reports success for a backend that could not be read.\<close>

theorem health_failure_is_502:
  "fst (health_route answer) = 200 \<longleftrightarrow> (\<exists>body. answer = Some (200, Some body))"
  by (auto simp: health_route_def split: option.split)

end
