(* ===== verification/Canvas_Paint.thy ===== *)
theory Canvas_Paint
  imports Graph_Canvas Complex_Main
begin

text \<open>
  The outlines that the overlay of \<open>frontend/src/components/graph/TopologyGraph.tsx\<close> draws: the shape ring of a node and the
  rounded box of a label, as the commands given to the 2D context. Coordinates are real numbers, as the sines of the
  hexagon are; what the context rasterises is the browser's.
\<close>

datatype pen =
    PenRect real real real real
  | PenMove real real
  | PenLine real real
  | PenQuadratic real real real real
  | PenArc real real real
  | PenArcTo real real real real real
  | PenClose

definition hexagon_point :: "real \<Rightarrow> real \<Rightarrow> real \<Rightarrow> nat \<Rightarrow> real \<times> real" where
  "hexagon_point x y r i = (let angle = pi / 3 * real i - pi / 2 in (x + r * cos angle, y + r * sin angle))"

fun traceShape :: "node_shape \<Rightarrow> real \<Rightarrow> real \<Rightarrow> real \<Rightarrow> pen list" where
  "traceShape ShSquare x y r = [PenRect (x - r * 0.85) (y - r * 0.85) (r * 1.7) (r * 1.7)]"
| "traceShape ShDiamond x y r = [PenMove x (y - r), PenLine (x + r) y, PenLine x (y + r), PenLine (x - r) y, PenClose]"
| "traceShape ShTriangle x y r =
     [PenMove x (y - r * 1.1), PenLine (x + r) (y + r * 0.75), PenLine (x - r) (y + r * 0.75), PenClose]"
| "traceShape ShHexagon x y r =
     map (\<lambda>i. case hexagon_point x y r i of (px, py) \<Rightarrow> if i = 0 then PenMove px py else PenLine px py) [0..<6] @ [PenClose]"
| "traceShape ShShield x y r =
     [PenMove (x - r * 0.85) (y - r * 0.8), PenLine (x + r * 0.85) (y - r * 0.8), PenLine (x + r * 0.85) (y + r * 0.1),
      PenQuadratic (x + r * 0.75) (y + r * 0.8) x (y + r * 1.1), PenQuadratic (x - r * 0.75) (y + r * 0.8) (x - r * 0.85) (y + r * 0.1),
      PenClose]"
| "traceShape ShCircle x y r = [PenArc x y r]"

definition roundRect :: "real \<Rightarrow> real \<Rightarrow> real \<Rightarrow> real \<Rightarrow> real \<Rightarrow> pen list" where
  "roundRect x y w h r = [PenMove (x + r) y, PenArcTo (x + w) y (x + w) (y + h) r, PenArcTo (x + w) (y + h) x (y + h) r,
     PenArcTo x (y + h) x y r, PenArcTo x y (x + w) y r, PenClose]"

text \<open>The points a command is given: corners, ends, control points, and for a circle its extreme points. The path lies in
  their convex hull.\<close>

fun pen_points :: "pen \<Rightarrow> (real \<times> real) list" where
  "pen_points (PenRect x y w h) = [(x, y), (x + w, y + h)]"
| "pen_points (PenMove x y) = [(x, y)]"
| "pen_points (PenLine x y) = [(x, y)]"
| "pen_points (PenQuadratic cx cy x y) = [(cx, cy), (x, y)]"
| "pen_points (PenArc x y r) = [(x - r, y - r), (x + r, y + r)]"
| "pen_points (PenArcTo x1 y1 x2 y2 r) = [(x1, y1), (x2, y2)]"
| "pen_points PenClose = []"

definition in_box :: "real \<Rightarrow> real \<Rightarrow> real \<Rightarrow> real \<Rightarrow> real \<times> real \<Rightarrow> bool" where
  "in_box l t rt b p \<longleftrightarrow> l \<le> fst p \<and> fst p \<le> rt \<and> t \<le> snd p \<and> snd p \<le> b"

text \<open>No outline leaves the square of one tenth more than its radius around the node, and each begins a path of its own:
  with its own figure or with a move.\<close>

theorem outlines_stay_near:
  assumes "0 \<le> r"
  shows "\<forall>c \<in> set (traceShape shape x y r). \<forall>p \<in> set (pen_points c).
    in_box (x - r * 1.1) (y - r * 1.1) (x + r * 1.1) (y + r * 1.1) p"
proof -
  have bound: "- r \<le> r * cos a \<and> r * cos a \<le> r \<and> - r \<le> r * sin a \<and> r * sin a \<le> r" for a
    using assms mult_left_mono[OF cos_ge_minus_one[of a] assms] mult_left_mono[OF cos_le_one[of a] assms]
      mult_left_mono[OF sin_ge_minus_one[of a] assms] mult_left_mono[OF sin_le_one[of a] assms] by simp
  have hexagon: "in_box (x - r * 1.1) (y - r * 1.1) (x + r * 1.1) (y + r * 1.1) (hexagon_point x y r i)" for i
    using bound[of "pi / 3 * real i - pi / 2"] assms by (simp add: in_box_def hexagon_point_def Let_def)
  show ?thesis
  proof (cases shape)
    case ShHexagon
    then show ?thesis using hexagon by (auto split: prod.split if_splits) (metis hexagon)+
  qed (use assms in \<open>simp_all add: in_box_def\<close>)
qed

theorem label_box_outline:
  assumes "0 \<le> w" and "0 \<le> h" and "0 \<le> r" and "r \<le> w"
  shows "\<forall>c \<in> set (roundRect x y w h r). \<forall>p \<in> set (pen_points c). in_box x y (x + w) (y + h) p"
  using assms by (simp add: roundRect_def in_box_def)

end
