(* ===== verification/Demo_Live.thy ===== *)
theory Demo_Live
  imports Demo_Page Runtime_Live
begin

text \<open>
  The demo screen with its stream: \<open>app/demo/page.tsx\<close> calls \<open>useRuntimeStream\<close> with the session of the last poll, and
  React runs the effect of the hook again for another session. Each run of the effect has a closure of its own (its
  sockets, timers, sequence number and flag), while the state of the hook, the queue of \<open>setState\<close> among it, is one
  for all of them. A step is an input of the page, a callback of the current effect or of one that was left, or a render.
\<close>

section \<open>State\<close>

text \<open>What \<open>useState\<close> keeps across sessions, and a run of the effect: its session and its closure. The React fields of a
  closure are those of the hook at the moment a callback runs.\<close>

record hook_react =
  hr_updates :: "stream_frame list"
  hr_schemaError :: "string option"
  hr_connected :: bool

record attached_run =
  at_session :: string
  at_hook :: runtime_hook

record demo_live =
  dl_page :: demo_page
  dl_react :: hook_react
  dl_deps :: "string option"
  dl_effect :: "attached_run option"
  dl_left :: "attached_run list"
  dl_gap :: bool

text \<open>\<open>dl_gap\<close> is a history variable: a message was refused as a gap.\<close>

definition enter :: "hook_react \<Rightarrow> runtime_hook \<Rightarrow> runtime_hook" where
  "enter r h = h\<lparr>h_updates := hr_updates r, h_schemaError := hr_schemaError r, rh_connected := hr_connected r\<rparr>"

definition react_of :: "runtime_hook \<Rightarrow> hook_react" where
  "react_of h = \<lparr>hr_updates = h_updates h, hr_schemaError = h_schemaError h, hr_connected = rh_connected h\<rparr>"

definition demo_live_mounted :: demo_live where
  "demo_live_mounted = \<lparr>dl_page = demo_mounted, dl_react = \<lparr>hr_updates = [], hr_schemaError = None, hr_connected = False\<rparr>,
     dl_deps = None, dl_effect = None, dl_left = [], dl_gap = False\<rparr>"

section \<open>Operations\<close>

text \<open>The effect after a commit: for another session the previous run is cleaned up, and one is started if there is a
  session. The state of the hook is not reset.\<close>

definition run_effect :: "demo_live \<Rightarrow> demo_live" where
  "run_effect d = (let sessionId = demo_session (dl_page d)
     in if dl_deps d = sessionId then d
        else d\<lparr>dl_deps := sessionId,
               dl_left := dl_left d @ (case dl_effect d of None \<Rightarrow> [] | Some a \<Rightarrow> [a\<lparr>at_hook := cleanup (at_hook a)\<rparr>]),
               dl_effect := (if truthy sessionId then Some \<lparr>at_session = the sessionId, at_hook = mount_runtime\<rparr> else None)\<rparr>)"

definition page_input :: "demo_live \<Rightarrow> demo_input \<Rightarrow> demo_live" where
  "page_input d i = run_effect (d\<lparr>dl_page := demo_step (dl_page d) i\<rparr>)"

definition effect_ran :: "demo_live \<Rightarrow> attached_run \<Rightarrow> runtime_hook \<Rightarrow> bool \<Rightarrow> demo_live" where
  "effect_ran d a h gap = d\<lparr>dl_effect := Some (a\<lparr>at_hook := h\<rparr>), dl_react := react_of h, dl_gap := dl_gap d \<or> gap\<rparr>"

definition left_ran :: "demo_live \<Rightarrow> nat \<Rightarrow> runtime_hook \<Rightarrow> bool \<Rightarrow> demo_live" where
  "left_ran d k h gap = d\<lparr>dl_left := (dl_left d)[k := (dl_left d ! k)\<lparr>at_hook := h\<rparr>], dl_react := react_of h,
     dl_gap := dl_gap d \<or> gap\<rparr>"

text \<open>The endpoints of a session send its snapshots and its events, and a socket opened without \<open>since_seq\<close> starts with a
  snapshot: so a closure that has heard nothing hears a snapshot first.\<close>

fun frame_from :: "string \<Rightarrow> stream_frame \<Rightarrow> bool" where
  "frame_from sid (SnapshotFrame f) = (sf_experiment_id f = sid)"
| "frame_from sid (EventFrame e) = (e_experiment_id e = sid)"

fun is_snapshot :: "stream_frame \<Rightarrow> bool" where
  "is_snapshot (SnapshotFrame f) = True"
| "is_snapshot (EventFrame e) = False"

inductive hears :: "string \<Rightarrow> bool \<Rightarrow> runtime_hook \<Rightarrow> runtime_hook \<Rightarrow> bool" for sid where
  he_opened: "w \<in> set (h_sockets h) \<Longrightarrow> \<not> ws_closing w \<Longrightarrow> hears sid False h (rt_on_open h)"
| he_message: "w \<in> set (h_sockets h) \<Longrightarrow> \<not> ws_closing w \<Longrightarrow> frame_from sid frame \<Longrightarrow>
    h_expectedNextSeq h \<noteq> None \<or> is_snapshot frame \<Longrightarrow>
    hears sid (is_gap (h_expectedNextSeq h) frame) h (on_message h frame)"
| he_error: "w \<in> set (h_sockets h) \<Longrightarrow> hears sid False h (on_error h)"
| he_closed: "w \<in> set (h_sockets h) \<Longrightarrow> hears sid False h (rt_on_close h (ws_id w))"
| he_timer: "t \<in> set (h_timers h) \<Longrightarrow> hears sid False h (fire_timer h t)"
| he_snapshot: "rh_phase h = AwaitSnapshot \<Longrightarrow> (\<And>f. answer = Inr f \<Longrightarrow> sf_experiment_id f = sid) \<Longrightarrow>
    hears sid False h (attach_snapshot h answer)"
| he_events: "rh_phase h = AwaitEvents f \<Longrightarrow> (\<And>pg. answer = Inr pg \<Longrightarrow> \<forall>e \<in> set (rp_events pg). e_experiment_id e = sid) \<Longrightarrow>
    hears sid False h (attach_events h f answer)"

inductive demo_live_step :: "demo_live \<Rightarrow> demo_live \<Rightarrow> bool" where
  dv_input: "(\<And>g. i \<noteq> StreamRendered g) \<Longrightarrow> demo_live_step d (page_input d i)"
| dv_render: "reduce_all initialGraphState (hr_updates (dl_react d)) = Inr g \<Longrightarrow>
    demo_live_step d (page_input d (StreamRendered g))"
| dv_effect: "dl_effect d = Some a \<Longrightarrow> hears (at_session a) gap (enter (dl_react d) (at_hook a)) h \<Longrightarrow>
    demo_live_step d (effect_ran d a h gap)"
| dv_left: "k < length (dl_left d) \<Longrightarrow>
    hears (at_session (dl_left d ! k)) gap (enter (dl_react d) (at_hook (dl_left d ! k))) h \<Longrightarrow>
    demo_live_step d (left_ran d k h gap)"

inductive demo_live_reachable :: "demo_live \<Rightarrow> bool" where
  dv_mounted: "demo_live_reachable demo_live_mounted"
| dv_stepped: "demo_live_reachable d \<Longrightarrow> demo_live_step d d' \<Longrightarrow> demo_live_reachable d'"

text \<open>A callback is a step of the hook.\<close>

lemma hears_runtime_step: "hears sid gap h h' \<Longrightarrow> runtime_step h h'"
  by (induction rule: hears.induct) (auto intro: runtime_step.intros)

text \<open>What the page shows of its stream beside the sections: the flag of the header and the banner of a schema error.\<close>

definition live_screen :: "demo_live \<Rightarrow> demo_view \<times> bool \<times> string option" where
  "live_screen d = (demo_view_of (dl_page d), hr_connected (dl_react d),
     if truthy (hr_schemaError (dl_react d)) then hr_schemaError (dl_react d) else None)"

section \<open>Invariants\<close>

text \<open>Without a gap one effect has one connection at most, and closing it closes every socket it has.\<close>

definition calm :: "runtime_hook \<Rightarrow> bool" where
  "calm h \<longleftrightarrow> \<not> h_cancelled h \<and> length (h_sockets h) + length (h_timers h) \<le> 1 \<and>
     (\<forall>w \<in> set (h_sockets h). h_socket h = Some (ws_id w)) \<and> (attaching h \<longrightarrow> h_sockets h = [] \<and> h_timers h = [])"

definition silent :: "runtime_hook \<Rightarrow> bool" where
  "silent h \<longleftrightarrow> h_cancelled h \<and> (\<forall>w \<in> set (h_sockets h). ws_closing w)"

definition own_events :: "graph_state \<Rightarrow> bool" where
  "own_events g \<longleftrightarrow> (\<forall>e \<in> set (gs_recentEvents g). gs_experimentId g = Some (e_experiment_id e))"

definition scoped :: "string \<Rightarrow> runtime_hook \<Rightarrow> bool" where
  "scoped sid h \<longleftrightarrow> (\<forall>g. reduce_all initialGraphState (h_updates h) = Inr g \<longrightarrow>
       own_events g \<and> (h_expectedNextSeq h \<noteq> None \<longrightarrow> gs_experimentId g = Some sid)) \<and>
     (\<forall>f. rh_phase h = AwaitEvents f \<longrightarrow> h_expectedNextSeq h \<noteq> None)"

lemma calm_cleanup: "calm h \<Longrightarrow> silent (cleanup h)"
  by (auto simp: calm_def silent_def cleanup_def close_socket_def split: option.split)

lemma silent_step:
  assumes "hears sid gap h h'" and "silent h"
  shows "silent h' \<and> h_updates h' = h_updates h \<and> \<not> gap"
  using assms
proof (induction rule: hears.induct)
  case (he_snapshot h answer)
  then show ?case
    by (auto simp: silent_def attach_snapshot_def attach_failed_def split: sum.split)
next
  case (he_events h f answer)
  then show ?case
    by (auto simp: silent_def attach_events_def attach_failed_def split: sum.split)
qed (auto simp: silent_def on_error_def rt_on_close_def on_close_def drop_socket_def fire_timer_def connect_def close_socket_def
    split: option.split)

lemma calm_step:
  assumes "hears sid gap h h'" and "\<not> gap" and "calm h"
  shows "calm h'"
  using assms
proof (induction rule: hears.induct)
  case (he_message w h frame)
  then show ?case by (simp add: on_message_accepts calm_def attaching_def)
next
  case (he_closed w h)
  then have one: "h_sockets h = [w]" "h_timers h = []" "\<not> attaching h" "\<not> h_cancelled h"
    by (cases "h_sockets h"; auto simp: calm_def)+
  then show ?case
    by (simp add: calm_def rt_on_close_def on_close_def drop_socket_def scheduleReconnect_def attaching_def)
next
  case (he_error w h)
  then have one: "h_sockets h = [w]" by (cases "h_sockets h"; auto simp: calm_def)
  with he_error show ?case by (simp add: calm_def on_error_def close_socket_def attaching_def)
next
  case (he_timer t h)
  then have one: "h_timers h = [t]" "h_sockets h = []" "\<not> attaching h" "\<not> h_cancelled h"
    by (cases "h_timers h"; auto simp: calm_def)+
  then show ?case by (simp add: calm_def fire_timer_def connect_def attaching_def)
next
  case (he_snapshot h answer)
  then have "h_sockets h = []" "h_timers h = []" "\<not> h_cancelled h" by (auto simp: calm_def attaching_def)
  then show ?case
    by (auto simp: calm_def attach_snapshot_def attach_failed_def connect_def apply_frame_def set_state_def attaching_def
        split: sum.split)
next
  case (he_events h f answer)
  then have "h_sockets h = []" "h_timers h = []" "\<not> h_cancelled h" by (auto simp: calm_def attaching_def)
  then show ?case
    by (auto simp: calm_def attach_events_def attach_failed_def connect_def backfill_all attaching_def split: sum.split)
qed (auto simp: calm_def rt_on_open_def on_open_def attaching_def)

lemma own_snapshot: "own_events s \<Longrightarrow> own_events (reduce_snapshot s f)"
  by (auto simp: own_events_def reduce_snapshot_def Let_def)

lemma own_event:
  "own_events s \<Longrightarrow> gs_experimentId s = Some (e_experiment_id e) \<Longrightarrow> own_events (apply_event s e)"
  using set_last_n[of EVENT_LOG_CAP "gs_recentEvents s @ [e]"] by (auto simp: own_events_def apply_event_def)

lemma own_frame:
  assumes "own_events s" and "frame_from sid f" and "is_snapshot f \<or> gs_experimentId s = Some sid" and "reduce s f = Inr g"
  shows "own_events g \<and> gs_experimentId g = Some sid"
proof (cases f)
  case (SnapshotFrame sf)
  with assms show ?thesis by (auto simp: own_snapshot) (simp add: reduce_snapshot_def Let_def)
next
  case (EventFrame e)
  with assms have "gs_experimentId s = Some (e_experiment_id e)" "g = apply_event s e" by (auto split: if_splits)
  with EventFrame assms show ?thesis by (simp add: own_event) (simp add: apply_event_def)
qed

text \<open>A frame of the session, which is a snapshot unless the session was heard before, and then more events of it.\<close>

lemma own_frames:
  assumes "own_events s" and "gs_experimentId s = Some sid" and "\<forall>e \<in> set es. e_experiment_id e = sid"
    and "reduce_all s (map EventFrame es) = Inr g"
  shows "own_events g \<and> gs_experimentId g = Some sid"
  using assms
proof (induction es arbitrary: s)
  case (Cons e es)
  then obtain t where t: "reduce s (EventFrame e) = Inr t" "reduce_all t (map EventFrame es) = Inr g"
    by (auto split: sum.splits)
  with Cons.prems own_frame[OF Cons.prems(1), of sid "EventFrame e" t] have "own_events t" "gs_experimentId t = Some sid"
    by auto
  with Cons.IH[OF this _ t(2)] Cons.prems(3) show ?case by simp
qed simp

lemma scoped_extend:
  assumes "scoped sid h" and "frame_from sid f" and "h_expectedNextSeq h \<noteq> None \<or> is_snapshot f"
    and "reduce_all initialGraphState (h_updates h @ [f]) = Inr g"
  shows "own_events g \<and> gs_experimentId g = Some sid"
proof -
  obtain s where s: "reduce_all initialGraphState (h_updates h) = Inr s" "reduce s f = Inr g"
    using assms(4) by (auto simp: reduce_all_append split: sum.splits)
  with assms(1,3) have "own_events s" "is_snapshot f \<or> gs_experimentId s = Some sid" by (auto simp: scoped_def)
  with own_frame[OF _ assms(2)] s(2) show ?thesis by blast
qed

lemma scoped_same:
  "scoped sid h \<Longrightarrow> h_updates h' = h_updates h \<Longrightarrow> h_expectedNextSeq h' = h_expectedNextSeq h \<Longrightarrow>
     rh_phase h' = rh_phase h \<or> (\<forall>f. rh_phase h' \<noteq> AwaitEvents f) \<Longrightarrow> scoped sid h'"
  by (auto simp: scoped_def)

lemma attach_failed_frame:
  "h_updates (attach_failed h) = h_updates h" "h_expectedNextSeq (attach_failed h) = h_expectedNextSeq h"
  "\<forall>f. rh_phase (attach_failed h) \<noteq> AwaitEvents f"
  by (simp_all add: attach_failed_def callback_frame)

lemma scoped_step:
  assumes "hears sid gap h h'" and "scoped sid h"
  shows "scoped sid h'"
  using assms
proof (induction rule: hears.induct)
  case (he_message w h frame)
  show ?case
  proof (cases "is_gap (h_expectedNextSeq h) frame")
    case True
    then show ?thesis
      by (intro scoped_same[OF he_message.prems]) (simp_all add: on_message_def callback_frame)
  next
    case False
    from scoped_extend[OF he_message.prems he_message.hyps(3,4)] he_message.prems False show ?thesis
      by (simp add: on_message_accepts scoped_def)
  qed
next
  case (he_snapshot h answer)
  show ?case
  proof (cases answer)
    case (Inl err)
    then show ?thesis
      by (intro scoped_same[OF he_snapshot.prems]) (simp_all add: attach_snapshot_def attach_failed_frame)
  next
    case (Inr f)
    with he_snapshot scoped_extend[OF he_snapshot.prems, of "SnapshotFrame f"] show ?thesis
      by (auto simp: attach_snapshot_def apply_frame_def set_state_def scoped_def)
  qed
next
  case (he_events h f answer)
  show ?case
  proof (cases answer)
    case (Inl err)
    then show ?thesis
      by (intro scoped_same[OF he_events.prems]) (simp_all add: attach_events_def attach_failed_frame)
  next
    case (Inr pg)
    have heard: "h_expectedNextSeq h \<noteq> None" using he_events by (auto simp: scoped_def)
    have "own_events g \<and> gs_experimentId g = Some sid"
      if "reduce_all initialGraphState (h_updates h @ map EventFrame (rp_events pg)) = Inr g" for g
    proof -
      obtain s where s: "reduce_all initialGraphState (h_updates h) = Inr s" "reduce_all s (map EventFrame (rp_events pg)) = Inr g"
        using \<open>reduce_all initialGraphState (h_updates h @ map EventFrame (rp_events pg)) = Inr g\<close>
        by (auto simp: reduce_all_append split: sum.splits)
      with he_events.prems heard have "own_events s" "gs_experimentId s = Some sid" by (auto simp: scoped_def)
      with own_frames[OF this _ s(2)] he_events.hyps(2)[OF Inr] show ?thesis by blast
    qed
    with Inr heard he_events show ?thesis
      by (auto simp: attach_events_def backfill_all scoped_def callback_frame)
  qed
qed (erule scoped_same;
    simp add: rt_on_open_def on_open_def on_error_def rt_on_close_def on_close_def fire_timer_def callback_frame)+

text \<open>The invariant of the screen, as long as no message was refused.\<close>

definition demo_live_inv :: "demo_live \<Rightarrow> bool" where
  "demo_live_inv d \<longleftrightarrow> own_events (dm_stream (dl_page d)) \<and> (\<forall>a \<in> set (dl_left d). silent (at_hook a)) \<and>
     (\<forall>g. reduce_all initialGraphState (hr_updates (dl_react d)) = Inr g \<longrightarrow> own_events g) \<and>
     (\<forall>a. dl_effect d = Some a \<longrightarrow> calm (at_hook a) \<and> scoped (at_session a) (enter (dl_react d) (at_hook a)))"

lemma enter_simps [simp]:
  "calm (enter r h) = calm h" "silent (enter r h) = silent h" "h_updates (enter r h) = hr_updates r"
  "enter (react_of h') h' = h'" "hr_updates (react_of h') = h_updates h'"
  by (simp_all add: enter_def react_of_def calm_def silent_def attaching_def)

lemma enter_again: "scoped sid (enter r h) \<Longrightarrow> hr_updates r' = hr_updates r \<Longrightarrow> scoped sid (enter r' h)"
  by (simp add: enter_def scoped_def)

lemma page_stream_kept: "dm_stream (demo_step p i) = (case i of StreamRendered g \<Rightarrow> g | _ \<Rightarrow> dm_stream p)"
  by (cases i) (auto simp: demo_step_def explanation_effect_def Let_def poll_answer_def explanation_answer_def
      reset_clicked_def reset_answer_def split: sum.split client_error.split option.split)

lemma calm_mounted: "calm mount_runtime"
  by (simp add: calm_def)

lemma scoped_mounted:
  "(\<forall>g. reduce_all initialGraphState (hr_updates r) = Inr g \<longrightarrow> own_events g) \<Longrightarrow> scoped sid (enter r mount_runtime)"
  by (simp add: scoped_def) (simp add: enter_def mount_runtime_def stream_hook.defs initial_hook_def)

lemma demo_live_inv_input:
  assumes "demo_live_inv d" and "\<And>g. i = StreamRendered g \<Longrightarrow> own_events g"
  shows "demo_live_inv (page_input d i)"
proof -
  let ?d = "d\<lparr>dl_page := demo_step (dl_page d) i\<rparr>"
  have "own_events (dm_stream (demo_step (dl_page d) i))"
    using assms by (cases i) (simp_all add: page_stream_kept demo_live_inv_def)
  with assms(1) have inv: "demo_live_inv ?d" by (simp add: demo_live_inv_def)
  show ?thesis
  proof (cases "dl_deps ?d = demo_session (dl_page ?d)")
    case True
    with inv show ?thesis by (simp add: page_input_def run_effect_def Let_def)
  next
    case False
    then have d: "page_input d i = ?d\<lparr>dl_deps := demo_session (dl_page ?d),
        dl_left := dl_left d @ (case dl_effect d of None \<Rightarrow> [] | Some a \<Rightarrow> [a\<lparr>at_hook := cleanup (at_hook a)\<rparr>]),
        dl_effect := (if truthy (demo_session (dl_page ?d))
          then Some \<lparr>at_session = the (demo_session (dl_page ?d)), at_hook = mount_runtime\<rparr> else None)\<rparr>"
      by (simp add: page_input_def run_effect_def Let_def)
    have left: "\<forall>a \<in> set (dl_left (page_input d i)). silent (at_hook a)"
      using inv by (cases "dl_effect d") (auto simp: d demo_live_inv_def calm_cleanup)
    have "scoped sid (enter (dl_react d) mount_runtime)" for sid
      using inv by (intro scoped_mounted) (simp add: demo_live_inv_def)
    then have "\<forall>a. dl_effect (page_input d i) = Some a \<longrightarrow>
        calm (at_hook a) \<and> scoped (at_session a) (enter (dl_react d) (at_hook a))"
      by (simp add: d calm_mounted)
    with inv left show ?thesis unfolding demo_live_inv_def by (simp add: d)
  qed
qed

lemma demo_live_inv_step:
  assumes "demo_live_step d d'" and "dl_gap d \<or> demo_live_inv d"
  shows "dl_gap d' \<or> demo_live_inv d'"
  using assms
proof (induction rule: demo_live_step.induct)
  case (dv_input i d)
  have "dl_gap (page_input d i) = dl_gap d" by (simp add: page_input_def run_effect_def Let_def)
  with dv_input show ?case using demo_live_inv_input[of d i] by auto
next
  case (dv_render d g)
  have gap: "dl_gap (page_input d (StreamRendered g)) = dl_gap d" by (simp add: page_input_def run_effect_def Let_def)
  show ?case
  proof (cases "dl_gap d")
    case False
    with dv_render have inv: "demo_live_inv d" and own: "own_events g" by (simp_all add: demo_live_inv_def)
    from demo_live_inv_input[OF inv, of "StreamRendered g"] own show ?thesis by simp
  qed (simp add: gap)
next
  case (dv_effect d a gap h)
  show ?case
  proof (cases "dl_gap d \<or> gap")
    case False
    with dv_effect have inv: "demo_live_inv d" and sc: "scoped (at_session a) h" and ca: "calm h"
      using scoped_step[OF dv_effect.hyps(2)] calm_step[OF dv_effect.hyps(2)] by (auto simp: demo_live_inv_def)
    from sc have "\<forall>g. reduce_all initialGraphState (h_updates h) = Inr g \<longrightarrow> own_events g" by (simp add: scoped_def)
    with inv sc ca show ?thesis by (simp add: effect_ran_def demo_live_inv_def)
  qed (simp add: effect_ran_def)
next
  case (dv_left k d gap h)
  show ?case
  proof (cases "dl_gap d")
    case False
    with dv_left have inv: "demo_live_inv d" by simp
    with dv_left.hyps(1) have "silent (enter (dl_react d) (at_hook (dl_left d ! k)))"
      by (simp add: demo_live_inv_def)
    from silent_step[OF dv_left.hyps(2) this] have h: "silent h" "h_updates h = hr_updates (dl_react d)" "\<not> gap" by simp_all
    with inv have "scoped (at_session a) (enter (react_of h) (at_hook a))" if "dl_effect d = Some a" for a
      using that enter_again[of "at_session a" "dl_react d" "at_hook a" "react_of h"] by (simp add: demo_live_inv_def)
    with inv h dv_left.hyps(1) show ?thesis
      using set_update_subset_insert[of "dl_left d" k "(dl_left d ! k)\<lparr>at_hook := h\<rparr>"]
      by (auto simp: left_ran_def demo_live_inv_def)
  qed (simp add: left_ran_def)
qed

lemma demo_live_reachable_inv: "demo_live_reachable d \<Longrightarrow> dl_gap d \<or> demo_live_inv d"
proof (induction rule: demo_live_reachable.induct)
  case dv_mounted
  show ?case
    by (simp add: demo_live_inv_def demo_live_mounted_def demo_mounted_def own_events_def initialGraphState_def)
qed (rule demo_live_inv_step)

section \<open>The panels hear their own session\<close>

text \<open>C11. The screen tells each run's story from that run's events. In every interleaving of polls, answers, clicks,
  renders and callbacks of the effects of all sessions so far, as long as no message was refused as a gap, every event
  the panels are derived from belongs to the session on screen; an attack is shown only on a policy violation of that
  session; and the effects left behind have no socket that could still deliver.\<close>

theorem panels_hear_their_session:
  assumes "demo_live_reachable d" and "\<not> dl_gap d"
  shows "(\<forall>e \<in> set (liveEvents (dl_page d)). demo_session (dl_page d) = Some (e_experiment_id e)) \<and>
    (attackDetected (demo_verdict_of (dl_page d)) \<longrightarrow>
      (\<exists>e \<in> set (liveEvents (dl_page d)). e_event_type e = POLICY_VIOLATION \<and> demo_session (dl_page d) = Some (e_experiment_id e))) \<and>
    (\<forall>a \<in> set (dl_left d). \<forall>w \<in> set (h_sockets (at_hook a)). ws_closing w)"
proof -
  have inv: "demo_live_inv d" using demo_live_reachable_inv[OF assms(1)] assms(2) by blast
  then have own: "\<forall>e \<in> set (liveEvents (dl_page d)). demo_session (dl_page d) = Some (e_experiment_id e)"
    by (auto simp: demo_live_inv_def own_events_def liveEvents_def)
  moreover have "attackDetected (demo_verdict_of (dl_page d)) \<longrightarrow>
      (\<exists>e \<in> set (liveEvents (dl_page d)). e_event_type e = POLICY_VIOLATION)"
    by (simp add: demo_verdict_of_def derived_flags)
  ultimately show ?thesis using inv by (auto simp: demo_live_inv_def silent_def)
qed

text \<open>Sessions, snapshots and events of the examples.\<close>

definition polled :: "string \<Rightarrow> demo_live \<Rightarrow> demo_live" where
  "polled sid d = page_input d (PollAnswer (Inr (demo_summary sid)))"

definition snapshot_of :: "string \<Rightarrow> int \<Rightarrow> snapshot_frame" where
  "snapshot_of sid n = demo_snapshot\<lparr>sf_experiment_id := sid, sf_last_seq := n\<rparr>"

definition event_of :: "string \<Rightarrow> int \<Rightarrow> event_type \<Rightarrow> event" where
  "event_of sid n ty = (demo_event n ty None None)\<lparr>e_experiment_id := sid\<rparr>"

lemma event_of_simps [simp]:
  "e_experiment_id (event_of sid n ty) = sid" "e_seq (event_of sid n ty) = n" "e_event_type (event_of sid n ty) = ty"
  "e_schema_version (event_of sid n ty) = CURRENT_SCHEMA_VERSION" "sf_experiment_id (snapshot_of sid n) = sid"
  "sf_last_seq (snapshot_of sid n) = n"
  by (simp_all add: event_of_def snapshot_of_def demo_event_def CURRENT_SCHEMA_VERSION_def)

lemmas sent_simps = snapshot_of_def event_of_def demo_snapshot_def demo_event_def

definition violation_heard :: runtime_hook where
  "violation_heard = attach_both mount_runtime (snapshot_of ''a'' 1) [event_of ''a'' 1 POLICY_VIOLATION]"

definition first_polled :: demo_live where
  "first_polled = polled ''a'' demo_live_mounted"

definition first_run :: attached_run where
  "first_run = \<lparr>at_session = ''a'', at_hook = mount_runtime\<rparr>"

lemma polled_reachable: "demo_live_reachable d \<Longrightarrow> demo_live_reachable (polled sid d)"
  unfolding polled_def by (rule dv_stepped[OF _ dv_input]) simp_all

lemma polled_session: "demo_session (dl_page (polled sid d)) = Some sid"
  by (simp add: polled_def page_input_def run_effect_def Let_def demo_step_def explanation_effect_def demo_session_def
      poll_answer_def demo_summary_def)

lemma effect_again:
  assumes "demo_live_reachable (effect_ran d a h gap)" and "hears (at_session a) gap' h h'"
  shows "demo_live_reachable (effect_ran d a h' (gap \<or> gap'))"
proof -
  have "demo_live_step (effect_ran d a h gap) (effect_ran (effect_ran d a h gap) (a\<lparr>at_hook := h\<rparr>) h' gap')"
    using assms(2) by (intro dv_effect) (simp_all add: effect_ran_def)
  moreover have "effect_ran (effect_ran d a h gap) (a\<lparr>at_hook := h\<rparr>) h' gap' = effect_ran d a h' (gap \<or> gap')"
    by (simp add: effect_ran_def)
  ultimately show ?thesis using dv_stepped[OF assms(1)] by simp
qed

lemma attach_both_hears:
  assumes "demo_live_reachable d" and "dl_effect d = Some a" and "at_hook a = mount_runtime" and "at_session a = sid"
    and "sf_experiment_id f = sid" and "\<forall>e \<in> set es. e_experiment_id e = sid"
  shows "demo_live_reachable (effect_ran d a (attach_both (enter (dl_react d) mount_runtime) f es) False)"
proof -
  let ?h = "enter (dl_react d) mount_runtime"
  have phase: "rh_phase ?h = AwaitSnapshot" "\<not> h_cancelled ?h"
    by (simp_all add: enter_def) (simp add: mount_runtime_def stream_hook.defs)
  have "demo_live_step d (effect_ran d a (attach_snapshot ?h (Inr f)) False)"
    using assms by (intro dv_effect) (auto intro!: he_snapshot simp: phase)
  then have "demo_live_reachable (effect_ran d a (attach_snapshot ?h (Inr f)) False)" by (rule dv_stepped[OF assms(1)])
  moreover have "rh_phase (attach_snapshot ?h (Inr f)) = AwaitEvents f"
    by (simp add: attach_snapshot_def apply_frame_def set_state_def phase)
  ultimately have "demo_live_reachable (effect_ran d a (attach_both ?h f es) (False \<or> False))"
    unfolding attach_both_def using assms(4,6) by (intro effect_again) (auto intro!: he_events)
  then show ?thesis by simp
qed

lemma first_polled_effect:
  "dl_effect first_polled = Some first_run" "dl_react first_polled = react_of mount_runtime" "dl_left first_polled = []"
  "\<not> dl_gap first_polled" "demo_live_reachable first_polled" "demo_session (dl_page first_polled) = Some ''a''"
  "dl_deps first_polled = Some ''a''"
  using polled_reachable[OF dv_mounted] polled_session[of "''a''" demo_live_mounted]
  by (simp_all add: first_polled_def)
    (simp_all add: polled_def page_input_def run_effect_def Let_def demo_live_mounted_def first_run_def react_of_def
      mount_runtime_def stream_hook.defs initial_hook_def demo_step_def explanation_effect_def poll_answer_def demo_session_def
      demo_summary_def demo_mounted_def)

definition violation_shown :: demo_live where
  "violation_shown = (let d = effect_ran first_polled first_run violation_heard False
     in page_input d (StreamRendered (apply_event (reduce_snapshot initialGraphState (snapshot_of ''a'' 1)) (event_of ''a'' 1 POLICY_VIOLATION))))"

theorem panels_hear_their_session_witness:
  "\<exists>e \<in> set (liveEvents (dl_page violation_shown)). demo_session (dl_page violation_shown) = Some (e_experiment_id e)"
proof -
  let ?d = "effect_ran first_polled first_run violation_heard False"
  have "demo_live_reachable ?d"
    using attach_both_hears[OF first_polled_effect(5,1), of "''a''" "snapshot_of ''a'' 1" "[event_of ''a'' 1 POLICY_VIOLATION]"]
    by (simp add: first_run_def first_polled_effect violation_heard_def sent_simps)
  moreover have "h_updates violation_heard = [SnapshotFrame (snapshot_of ''a'' 1), EventFrame (event_of ''a'' 1 POLICY_VIOLATION)]"
    by (simp add: violation_heard_def attach_both_eq)
  then have "reduce_all initialGraphState (hr_updates (dl_react ?d)) =
      Inr (apply_event (reduce_snapshot initialGraphState (snapshot_of ''a'' 1)) (event_of ''a'' 1 POLICY_VIOLATION))"
    by (simp add: effect_ran_def)
  ultimately have reach: "demo_live_reachable violation_shown"
    unfolding violation_shown_def Let_def by (intro dv_stepped[OF _ dv_render])
  have same: "\<not> dl_gap violation_shown" "demo_session (dl_page violation_shown) = Some ''a''"
    "dm_stream (dl_page violation_shown) =
      apply_event (reduce_snapshot initialGraphState (snapshot_of ''a'' 1)) (event_of ''a'' 1 POLICY_VIOLATION)"
    using first_polled_effect
    by (simp_all add: violation_shown_def page_input_def run_effect_def effect_ran_def Let_def demo_step_def explanation_effect_def
        demo_session_def)
  have "gs_experimentId (dm_stream (dl_page violation_shown)) = Some ''a''"
    "gs_recentEvents (dm_stream (dl_page violation_shown)) = [event_of ''a'' 1 POLICY_VIOLATION]"
    by (simp_all add: same apply_event_def reduce_snapshot_def Let_def initialGraphState_def snapshot_of_def demo_snapshot_def
        EVENT_LOG_CAP_def last_n_def)
  then have "liveEvents (dl_page violation_shown) = [event_of ''a'' 1 POLICY_VIOLATION]"
    by (simp add: liveEvents_def same)
  with panels_hear_their_session[OF reach same(1)] show ?thesis by simp
qed

section \<open>A socket that outlives its session\<close>

text \<open>One refused message starts two reconnects, and the socket of the first is never closed: the event that was in the
  replay page is sent again by the socket, and both timers fire.\<close>

definition gap_hook :: runtime_hook where
  "gap_hook = on_message (attach_both mount_runtime (snapshot_of ''a'' 0) [event_of ''a'' 1 MODEL_REQUESTED])
     (EventFrame (event_of ''a'' 1 MODEL_REQUESTED))"

definition retrying_hook :: runtime_hook where
  "retrying_hook = rt_on_close gap_hook 0"

definition doubled_hook :: runtime_hook where
  "doubled_hook = (let h = fire_timer retrying_hook (hd (h_timers retrying_hook)) in fire_timer h (hd (h_timers h)))"

definition resumed_hook :: runtime_hook where
  "resumed_hook = on_message doubled_hook (SnapshotFrame (snapshot_of ''a'' 2))"

lemmas hook_simps = attach_both_eq on_message_def scheduleReconnect_def close_socket_def rt_on_close_def on_close_def drop_socket_def
  fire_timer_def connect_def apply_frame_def set_state_def mount_runtime_def stream_hook.defs initial_hook_def sent_simps
  MIN_BACKOFF_MS_def MAX_BACKOFF_MS_def Let_def

lemma gap_eq:
  "h_sockets gap_hook = [\<lparr>ws_id = 0, ws_since = Some 0, ws_closing = True\<rparr>]" "h_expectedNextSeq gap_hook = Some 2"
  by (simp_all add: gap_hook_def hook_simps)

lemma retrying_eq:
  "h_timers retrying_hook = [\<lparr>t_id = 1, t_since = None, t_delay = 250\<rparr>, \<lparr>t_id = 2, t_since = Some 1, t_delay = 250\<rparr>]"
  by (simp add: retrying_hook_def gap_hook_def hook_simps)

lemma doubled_eq:
  "h_sockets doubled_hook = [\<lparr>ws_id = 3, ws_since = None, ws_closing = False\<rparr>, \<lparr>ws_id = 4, ws_since = Some 1, ws_closing = False\<rparr>]"
  "h_socket doubled_hook = Some 4" "h_timers doubled_hook = []" "h_expectedNextSeq doubled_hook = Some 2"
  "\<not> h_cancelled doubled_hook" "h_reconnectTimer doubled_hook = Some 2"
  "h_updates doubled_hook = [SnapshotFrame (snapshot_of ''a'' 0), EventFrame (event_of ''a'' 1 MODEL_REQUESTED)]"
  by (simp_all add: doubled_hook_def retrying_hook_def gap_hook_def hook_simps)

lemma resumed_eq: "resumed_hook = doubled_hook\<lparr>h_updates := h_updates doubled_hook @ [SnapshotFrame (snapshot_of ''a'' 2)],
    h_expectedNextSeq := Some 3, h_schemaError := None\<rparr>"
  by (simp add: resumed_hook_def on_message_accepts sent_simps)

definition resumed_live :: demo_live where
  "resumed_live = effect_ran first_polled first_run resumed_hook True"

lemma resumed_reachable: "demo_live_reachable resumed_live"
proof -
  let ?run = "\<lambda>h gap. demo_live_reachable (effect_ran first_polled first_run h gap)"
  let ?a = "attach_both mount_runtime (snapshot_of ''a'' 0) [event_of ''a'' 1 MODEL_REQUESTED]"
  have sid: "at_session first_run = ''a''" by (simp add: first_run_def)
  have 0: "?run ?a False"
    using attach_both_hears[OF first_polled_effect(5,1), of "''a''" "snapshot_of ''a'' 0" "[event_of ''a'' 1 MODEL_REQUESTED]"]
    by (simp add: first_run_def first_polled_effect sent_simps)
  have socket: "h_sockets ?a = [\<lparr>ws_id = 0, ws_since = Some 0, ws_closing = False\<rparr>]" "h_expectedNextSeq ?a = Some 2"
    by (simp_all add: hook_simps)
  have "hears ''a'' (is_gap (h_expectedNextSeq ?a) (EventFrame (event_of ''a'' 1 MODEL_REQUESTED))) ?a gap_hook"
    unfolding gap_hook_def by (rule he_message[of "hd (h_sockets ?a)"]) (simp_all add: socket)
  then have "hears ''a'' True ?a gap_hook" by (simp add: socket)
  from effect_again[OF 0, unfolded sid, OF this] have 1: "?run gap_hook True" by simp
  have "hears ''a'' False gap_hook retrying_hook"
    unfolding retrying_hook_def using he_closed[of "hd (h_sockets gap_hook)" gap_hook "''a''"] by (simp add: gap_eq)
  from effect_again[OF 1, unfolded sid, OF this] have 2: "?run retrying_hook True" by simp
  let ?h = "fire_timer retrying_hook (hd (h_timers retrying_hook))"
  have "hears ''a'' False retrying_hook ?h" by (rule he_timer) (simp add: retrying_eq)
  from effect_again[OF 2, unfolded sid, OF this] have 3: "?run ?h True" by simp
  have "h_timers ?h = [\<lparr>t_id = 2, t_since = Some 1, t_delay = 250\<rparr>]"
    by (simp add: retrying_hook_def gap_hook_def hook_simps)
  then have "hears ''a'' False ?h doubled_hook" unfolding doubled_hook_def Let_def by (intro he_timer) simp
  from effect_again[OF 3, unfolded sid, OF this] have 4: "?run doubled_hook True" by simp
  have "hears ''a'' (is_gap (h_expectedNextSeq doubled_hook) (SnapshotFrame (snapshot_of ''a'' 2))) doubled_hook resumed_hook"
    unfolding resumed_hook_def by (rule he_message[of "hd (h_sockets doubled_hook)"]) (simp_all add: doubled_eq snapshot_of_def)
  from effect_again[OF 4, unfolded sid, OF this] show ?thesis by (simp add: resumed_live_def)
qed

text \<open>The poll brings the next session, whose attach is answered; then the open socket of the previous session delivers its
  violation, and React renders.\<close>

definition attached_next :: demo_live where
  "attached_next = (let d = polled ''b'' resumed_live
     in effect_ran d \<lparr>at_session = ''b'', at_hook = mount_runtime\<rparr>
          (attach_both (enter (dl_react d) mount_runtime) (snapshot_of ''b'' 0) []) False)"

definition orphan_spoke :: demo_live where
  "orphan_spoke = left_ran attached_next 0
     (on_message (enter (dl_react attached_next) (at_hook (dl_left attached_next ! 0)))
        (EventFrame (event_of ''a'' 3 POLICY_VIOLATION))) False"

definition orphan_graph :: graph_state where
  "orphan_graph = apply_event (reduce_snapshot (reduce_snapshot (apply_event (reduce_snapshot initialGraphState
     (snapshot_of ''a'' 0)) (event_of ''a'' 1 MODEL_REQUESTED)) (snapshot_of ''a'' 2)) (snapshot_of ''b'' 0))
     (event_of ''a'' 3 POLICY_VIOLATION)"

definition orphan_shown :: demo_live where
  "orphan_shown = page_input orphan_spoke (StreamRendered orphan_graph)"

lemma polled_next:
  "dl_effect (polled ''b'' resumed_live) = Some \<lparr>at_session = ''b'', at_hook = mount_runtime\<rparr>"
  "dl_left (polled ''b'' resumed_live) = [first_run\<lparr>at_hook := cleanup resumed_hook\<rparr>]"
  "dl_react (polled ''b'' resumed_live) = react_of resumed_hook"
  "dl_deps (polled ''b'' resumed_live) = Some ''b''"
  using first_polled_effect
  by (simp_all add: polled_def page_input_def run_effect_def Let_def resumed_live_def effect_ran_def demo_step_def
      explanation_effect_def poll_answer_def demo_session_def demo_summary_def)

lemma orphan_hook:
  "h_sockets (cleanup resumed_hook) = [\<lparr>ws_id = 3, ws_since = None, ws_closing = False\<rparr>, \<lparr>ws_id = 4, ws_since = Some 1, ws_closing = True\<rparr>]"
  "h_expectedNextSeq (cleanup resumed_hook) = Some 3"
  by (simp_all add: resumed_eq cleanup_def close_socket_def doubled_eq)

lemma attached_next_eq:
  "demo_live_reachable attached_next" "dl_left attached_next = [first_run\<lparr>at_hook := cleanup resumed_hook\<rparr>]"
  "hr_updates (dl_react attached_next) = h_updates resumed_hook @ [SnapshotFrame (snapshot_of ''b'' 0)]"
proof -
  have "\<not> h_cancelled (enter r mount_runtime)" for r by (simp add: enter_def)
  then show "hr_updates (dl_react attached_next) = h_updates resumed_hook @ [SnapshotFrame (snapshot_of ''b'' 0)]"
    by (simp add: attached_next_def Let_def effect_ran_def polled_next attach_both_eq)
  show "dl_left attached_next = [first_run\<lparr>at_hook := cleanup resumed_hook\<rparr>]"
    by (simp add: attached_next_def Let_def effect_ran_def polled_next)
  show "demo_live_reachable attached_next"
    unfolding attached_next_def Let_def
    by (rule attach_both_hears[OF polled_reachable[OF resumed_reachable] polled_next(1), of "''b''"])
      (simp_all add: snapshot_of_def)
qed

lemma orphan_spoke_eq:
  "demo_live_reachable orphan_spoke"
  "hr_updates (dl_react orphan_spoke) = h_updates resumed_hook @ [SnapshotFrame (snapshot_of ''b'' 0), EventFrame (event_of ''a'' 3 POLICY_VIOLATION)]"
proof -
  let ?h = "enter (dl_react attached_next) (at_hook (dl_left attached_next ! 0))"
  let ?f = "EventFrame (event_of ''a'' 3 POLICY_VIOLATION)"
  have h: "h_sockets ?h = h_sockets (cleanup resumed_hook)" "h_expectedNextSeq ?h = Some 3"
    by (simp_all add: enter_def attached_next_eq orphan_hook)
  have ok: "\<not> is_gap (h_expectedNextSeq ?h) ?f" by (simp add: h event_of_def demo_event_def)
  have "hears ''a'' (is_gap (h_expectedNextSeq ?h) ?f) ?h (on_message ?h ?f)"
    by (rule he_message[of "hd (h_sockets (cleanup resumed_hook))"]) (simp_all only: h, simp_all add: orphan_hook event_of_def)
  with ok have "hears (at_session (dl_left attached_next ! 0)) False ?h (on_message ?h ?f)"
    by (simp add: attached_next_eq first_run_def)
  then have "demo_live_step attached_next orphan_spoke"
    unfolding orphan_spoke_def by (intro dv_left) (simp_all add: attached_next_eq)
  then show "demo_live_reachable orphan_spoke" by (rule dv_stepped[OF attached_next_eq(1)])
  show "hr_updates (dl_react orphan_spoke) = h_updates resumed_hook @ [SnapshotFrame (snapshot_of ''b'' 0), ?f]"
    using ok by (simp add: orphan_spoke_def left_ran_def on_message_accepts attached_next_eq)
qed

text \<open>So after one refused message the next session can be shown under attack, and have its explanation asked for,
  by an event of the previous one, although the page scopes what it reads to the session of the stream.\<close>

theorem orphan_lights_next_session:
  "\<exists>d. demo_live_reachable d \<and> demo_session (dl_page d) = Some ''b'' \<and> attackDetected (demo_verdict_of (dl_page d)) \<and>
     dm_request (dl_page d) = Some ''b'' \<and> (\<forall>e \<in> set (liveEvents (dl_page d)). e_experiment_id e = ''a'')"
proof -
  have "reduce_all initialGraphState (hr_updates (dl_react orphan_spoke)) = Inr orphan_graph"
    by (simp add: orphan_spoke_eq resumed_eq doubled_eq orphan_graph_def)
  then have reach: "demo_live_reachable orphan_shown"
    unfolding orphan_shown_def by (rule dv_stepped[OF orphan_spoke_eq(1) dv_render])
  have page: "dl_page orphan_spoke = dl_page (polled ''b'' resumed_live)"
    by (simp add: orphan_spoke_def left_ran_def attached_next_def effect_ran_def Let_def)
  let ?p = "demo_step (dl_page orphan_spoke) (StreamRendered orphan_graph)"
  have shown: "dl_page orphan_shown = ?p" by (simp add: orphan_shown_def page_input_def run_effect_def Let_def)
  have session: "demo_session ?p = Some ''b''"
    using polled_session[of "''b''" resumed_live]
    by (simp add: page demo_step_def explanation_effect_eq Let_def)
  have stream: "dm_stream ?p = orphan_graph" by (simp add: page_stream_kept)
  have "gs_experimentId orphan_graph = Some ''b''" "gs_recentEvents orphan_graph = [event_of ''a'' 3 POLICY_VIOLATION]"
    by (simp_all add: orphan_graph_def apply_event_def reduce_snapshot_def Let_def snapshot_of_def demo_snapshot_def
        EVENT_LOG_CAP_def last_n_def)
  then have live: "liveEvents ?p = [event_of ''a'' 3 POLICY_VIOLATION]" by (simp add: liveEvents_def session stream)
  then have attack: "attackDetected (demo_verdict_of ?p)"
    by (simp add: demo_verdict_of_def derived_flags event_of_def demo_event_def)
  have "dm_deps (dl_page first_polled) = Some (Some ''a'', False)" "dm_explainedFor (dl_page first_polled) = None"
    "dm_stream (dl_page first_polled) = initialGraphState"
    by (simp_all add: first_polled_def polled_def page_input_def run_effect_def Let_def demo_run_simps demo_live_mounted_def
        EMPTY_VERDICT_def)
  then have "dm_deps (dl_page orphan_spoke) = Some (Some ''b'', False)" "dm_explainedFor (dl_page orphan_spoke) = None"
    by (simp_all add: page polled_def resumed_live_def effect_ran_def page_input_def run_effect_def Let_def demo_step_def
        explanation_effect_def poll_answer_def demo_summary_def demo_session_def demo_verdict_of_def liveEvents_def
        initialGraphState_def EMPTY_VERDICT_def)
  then have "dm_request ?p = Some ''b''"
    using attack session by (simp add: demo_step_def explanation_effect_eq Let_def demo_attack_def split: if_splits)
  with reach session live attack show ?thesis
    by (intro exI[of _ orphan_shown]) (simp add: shown event_of_def)
qed

text \<open>The flag of the connection is shared, too: when the socket of an effect left behind reports that it is closed, the
  screen calls itself disconnected, whatever the current effect has.\<close>

theorem left_close_disconnects:
  assumes "k < length (dl_left d)" and "w \<in> set (h_sockets (at_hook (dl_left d ! k)))"
  shows "\<exists>d'. demo_live_step d d' \<and> \<not> hr_connected (dl_react d') \<and> dl_effect d' = dl_effect d"
proof -
  let ?h = "enter (dl_react d) (at_hook (dl_left d ! k))"
  have "demo_live_step d (left_ran d k (rt_on_close ?h (ws_id w)) False)"
    using assms by (intro dv_left he_closed) (simp_all add: enter_def)
  moreover have "\<not> rh_connected (rt_on_close ?h (ws_id w))"
    by (simp add: rt_on_close_def on_close_def callback_frame)
  ultimately show ?thesis
    by (intro exI[of _ "left_ran d k (rt_on_close ?h (ws_id w)) False"]) (simp add: left_ran_def react_of_def)
qed

text \<open>The banner of a schema mismatch never appears: as in the simulator's hook the error is thrown by the render.\<close>

lemma hears_no_error: "hears sid gap h h' \<Longrightarrow> h_schemaError h = None \<Longrightarrow> h_schemaError h' = None"
proof (induction rule: hears.induct)
  case (he_message w h frame)
  then show ?case
    by (auto simp: on_message_def apply_frame_def set_state_def scheduleReconnect_def close_socket_def split: option.split)
qed (auto simp: rt_on_open_def on_open_def on_error_def rt_on_close_def on_close_def fire_timer_def connect_def drop_socket_def
    scheduleReconnect_def close_socket_def attach_snapshot_def attach_events_def attach_failed_def apply_frame_def set_state_def
    backfill_all split: option.split sum.split)

theorem schema_banner_never_shown:
  assumes "demo_live_reachable d"
  shows "snd (snd (live_screen d)) = None"
proof -
  have keep: "hr_schemaError (dl_react (page_input d i)) = hr_schemaError (dl_react d)" for d i
    by (simp add: page_input_def run_effect_def Let_def)
  have "hr_schemaError (dl_react d) = None" using assms
  proof (induction rule: demo_live_reachable.induct)
    case (dv_stepped d d')
    from dv_stepped(2,3) show ?case
    proof (induction rule: demo_live_step.induct)
      case (dv_effect d a gap h)
      then show ?case using hears_no_error[OF dv_effect.hyps(2)] by (simp add: effect_ran_def react_of_def enter_def)
    next
      case (dv_left k d gap h)
      then show ?case using hears_no_error[OF dv_left.hyps(2)] by (simp add: left_ran_def react_of_def enter_def)
    qed (simp_all add: keep)
  qed (simp add: demo_live_mounted_def)
  then show ?thesis by (simp add: live_screen_def)
qed

end
