(* ===== verification/Spec2Isabelle.thy ===== *)
theory Spec2Isabelle
  imports Live_Run Stream_Reducer Provider Stream_Hook Runtime_Stream Verdict Incident Test_Runs Clock
    Provenance Narrative Stage Replay Client_Routes Security_Summary Insights Comparison
    Outbreak_Chart Configurator History_Page Demo_Page Formatting Metrics_View Activity Layout Graph_Canvas Workspace Replay_Page Shell Overview Analysis_Pages Demo_Panels UI_Kit Canvas_Live Launch Runtime_Live Configurator_View App Canvas_Paint Demo_Live
begin

text \<open>
  The web frontend of AgentShield, \<open>src/frontend/src\<close>. A person configures a simulated or a real team of
  agents, watches compromise and containment arrive as a stream of events, steers the run, replays
  and compares stored runs, and reads what is derived from the events. The backend (Python) is on the
  other side of HTTP and of a web socket and is not part of the model, except for what the frontend
  relies on of it: its routes, the bounds of a configuration, two paged queries.

  \<^bold>\<open>How the parts interact.\<close> \<open>ExperimentProvider\<close> owns the controls and hosts the stream hook of the active
  run. The hook feeds frames to the pure reducer; everything on the screens is derived from the
  reducer's state, from the events, or from what the REST client fetches. The demo screen does the
  same for a live session through the runtime client and the runtime stream hook.

  \<^bold>\<open>Theories.\<close> File names are relative to \<open>src/frontend/src/\<close>.
  \<^item> Foundations. \<open>JS_Prelude\<close>: the part of JavaScript that is used (numbers, parsed JSON, ordered maps,
    stable sort, printing). \<open>Schema\<close>: the records of \<open>lib/api/schema.d.ts\<close>. \<open>Event_Folds\<close>: locales for what is
    folded from events (\<open>latch\<close>, \<open>append_log\<close>, \<open>capped_log\<close>, \<open>last_report\<close>, \<open>last_value\<close>, \<open>overwritten\<close>).
  \<^item> The stream. \<open>Stream_Reducer\<close> (\<open>lib/stream/reducer.ts\<close>) with its specification \<open>spec_view\<close>; \<open>Stream_Hook\<close>,
    \<open>Runtime_Stream\<close> and \<open>Runtime_Live\<close> (\<open>lib/stream/useExperimentStream.ts\<close>, \<open>lib/runtime/useRuntimeStream.ts\<close>): the
    hooks as step relations over sockets, timers and frames.
  \<^item> The controls. \<open>Controls\<close> (\<open>lib/controls/reducer.ts\<close>, locale \<open>request_protocol\<close>), \<open>Provider\<close>
    (\<open>lib/experiment/ExperimentProvider.tsx\<close>) and \<open>Live_Run\<close>, the provider composed with the client and the
    stream hook.
  \<^item> The clients. \<open>Client\<close> (\<open>lib/api/client.ts\<close>, \<open>lib/runtime/client.ts\<close>) and \<open>Client_Routes\<close>, its requests against the
    routes of the backend.
  \<^item> The live demo (\<open>lib/runtime/\<close>). \<open>Verdict\<close>, \<open>Incident\<close>, \<open>Test_Runs\<close>, \<open>Clock\<close>, \<open>Provenance\<close>, \<open>Narrative\<close>, \<open>Swarm_Model\<close>,
    \<open>Stage\<close>: one derived view each; \<open>Demo_Page\<close> (\<open>app/demo/page.tsx\<close>), the screen, and \<open>Demo_Panels\<close>
    (\<open>components/demo/\<close> and the panels of that file), what is on it; \<open>Demo_Live\<close>, the screen with its stream over
    the sessions it sees.
  \<^item> Vocabulary and display. \<open>Vocabulary\<close> (\<open>lib/vocabulary.ts\<close>, \<open>lib/severity.ts\<close>), \<open>Formatting\<close> (\<open>lib/format.ts\<close>,
    \<open>lib/stream/sessionScope.ts\<close>), \<open>Metrics_View\<close> (\<open>components/insights/SecurityMetrics.tsx\<close>,
    \<open>MetricsComparison.tsx\<close>, \<open>components/ui/Metric.tsx\<close>), \<open>Activity\<close> (the event log).
  \<^item> The topology. \<open>Graph_Model\<close> (\<open>lib/graph/model.ts\<close>), \<open>Layout\<close> (\<open>lib/graph/layout.ts\<close>); over \<open>components/graph/\<close>,
    \<open>Graph_Canvas\<close> and \<open>Canvas_Paint\<close> (the graph as it is drawn), \<open>Workspace\<close> (the state of the investigation) and
    \<open>Canvas_Live\<close>, both put together over the data of a run.
  \<^item> Analysis. \<open>Security_Summary\<close>, \<open>Insights\<close> (\<open>lib/security/\<close>), \<open>Outbreak\<close>, \<open>Outbreak_Chart\<close> (the curve and its drawing).
  \<^item> Configuring and comparing. \<open>Presets\<close>, \<open>Configurator\<close>, \<open>Configurator_View\<close> (\<open>lib/experiment/presets.ts\<close>,
    \<open>components/run/RunConfigurator.tsx\<close>) against the backend's validation; \<open>Launch\<close>, the form with the page and the
    provider; \<open>UI_Kit\<close> (\<open>components/ui/\<close>, \<open>lib/cn.ts\<close>, \<open>lib/useElementSize.ts\<close>); \<open>Run_To_Completion\<close>, \<open>Comparison\<close>
    (\<open>lib/comparison/\<close>, \<open>lib/remediation/useFixTrial.ts\<close>, locale \<open>two_arms\<close>).
  \<^item> Stored runs. \<open>Replay\<close> (\<open>lib/replay/\<close>), \<open>History_Page\<close> (\<open>app/history/page.tsx\<close>) with the queries they page through.
  \<^item> Screens. \<open>Shell\<close> and \<open>App\<close> (\<open>components/shell/\<close>, the guards of \<open>app/\<close>: navigation, the guard, the bar of
    the run, the context and the frame), \<open>Overview\<close> (\<open>app/page.tsx\<close>,
    \<open>app/metrics/page.tsx\<close>, \<open>components/insights/Panels.tsx\<close>), \<open>Replay_Page\<close> (\<open>app/history/[id]/page.tsx\<close>),
    \<open>Analysis_Pages\<close> (\<open>app/remediation\<close>, \<open>app/defenses\<close>, \<open>app/history/compare\<close>): what each shows and what a press
    does, over the hooks they are built from.

  \<^bold>\<open>What the lemmas show.\<close> Per component: an invariant and its preservation by every operation; what each
  field of a derived view holds after any events, through an interpretation of a locale of \<open>Event_Folds\<close>;
  the protocol of each hook (one request in flight, answers of cancelled effects dropped, bounded
  back-off); completeness of the vocabularies and of the forms. Across components: the reducer refines
  \<open>spec_view\<close>, a replay is a fold of the stored events, the stream on screen is that of the active run, the
  panels of the demo hear their own session, a reset over HTTP, every request reaches the handler it is meant for, a launch carries a configuration
  the backend accepts, the canvas shows the run and the workspace, the two readings of the tests (this
  theory). Where modelling showed that the code departs from its comments or from what it
  means to do, a theorem states what it does.

  \<^bold>\<open>Conventions.\<close> A hook or component with state is a record and its callbacks are functions of it; a step
  relation lets the environment (clicks, answers, timers, React's commits) run them in any order.
  What throws is \<open>Inl\<close> of the message. What a component shows is data; markup and styles are left out.
  Packages and browser services are arguments (\<open>fetch\<close>, \<open>Date.parse\<close>, \<open>localeCompare\<close>, \<open>JSON.stringify\<close>, ForceAtlas2,
  the measurements of a canvas). Strings are bytes; numbers are exact.

  \<^bold>\<open>Bounds and fuel.\<close> \<open>load_pages\<close> takes fuel; \<open>loadReplayData_complete\<close> gives the fuel for every log.
  \<open>depth_loop\<close> has the bound of the code, one pass more than there are workers, which is enough for
  acyclic hand-offs (\<open>depths_solve_handoffs\<close>). Other loops are structural or have a measure.

  \<^bold>\<open>Not modelled.\<close> The backend, the demo swarm and target (Python); the generated schema beyond the records
  in use; styles, icons and fixed sentences; the options sigma is set up with and what a canvas context
  rasterises; the order in which React runs effects beyond what a step says; the tests.
\<close>

section \<open>Two readings of the same tests\<close>

text \<open>The verdict and the evidence panel never contradict each other: the test result, summary and
  command of the verdict are those of the last run the panel lists, the light of the tests is pending
  when it lists none, and otherwise lit or red by that run.\<close>

theorem verdict_agrees_with_evidence:
  "let rs = te_runs (deriveTestEvidence es); v = deriveVerdict es in
    map_option (\<lambda>p. (p, or_default (testSummary v) [], testCommand v)) (testsPassed v) =
      (if rs = [] then None else Some (tr_passed (last rs), tr_summary (last rs), tr_command (last rs))) \<and>
    vl_status (verdictLights v ! 3) =
      (if rs = [] then LsPending else if tr_passed (last rs) then LsLit else LsFailed)"
proof -
  let ?rs = "te_runs (deriveTestEvidence es)" and ?v = "deriveVerdict es"
  have same: "map_option (\<lambda>p. (p, or_default (testSummary ?v) [], testCommand ?v)) (testsPassed ?v) =
      (if ?rs = [] then None else Some (tr_passed (last ?rs), tr_summary (last ?rs), tr_command (last ?rs)))"
    by (simp add: last_pytest_result last_some_map_filter test_runs_all)
  then have "testsPassed ?v = (if ?rs = [] then None else Some (tr_passed (last ?rs)))"
    by (cases "testsPassed ?v") (auto split: if_splits)
  with same show ?thesis by (simp add: Let_def verdictLights_def)
qed

end
